(* ===== verification/Prelude.thy ===== *)
theory Prelude
  imports Main "HOL-Library.Word" "HOL-Library.Char_ord" "HOL-Library.List_Lexorder" "HOL-Library.Monad_Syntax"
begin

unbundle bit_operations_syntax

text \<open>
  Shared vocabulary of the development: the machine types of the C and C++ sources, the
  byte-order helpers of \<^verbatim>\<open>include/Zway/ubj/ubj_internal.h\<close> and
  \<^verbatim>\<open>src/ubj/ubjr.c\<close>, the ordered association list that stands for \<^verbatim>\<open>std::map\<close>, and
  generic lemmas on lists, options and words.  The collection \<open>wire\<close> gathers the facts
  that describe how a word is laid out in bytes.
\<close>

named_theorems wire \<open>byte layout of machine words\<close>

type_synonym byte = "8 word"
type_synonym u16 = "16 word"
type_synonym u32 = "32 word"
type_synonym u64 = "64 word"
type_synonym bytes = "byte list"

section \<open>Characters and bytes\<close>

text \<open>
  A \<^verbatim>\<open>std::string\<close> is a list of \<^typ>\<open>char\<close>; a buffer is a list of bytes.  The two
  conversions are the reinterpretation casts between \<^verbatim>\<open>char*\<close> and \<^verbatim>\<open>uint8_t*\<close>.
\<close>

definition byte_of_char :: "char \<Rightarrow> byte" where
  "byte_of_char c = of_nat (of_char c)"

definition char_of_byte :: "byte \<Rightarrow> char" where
  "char_of_byte b = char_of (unat b)"

definition bytes_of_string :: "string \<Rightarrow> bytes" where
  "bytes_of_string s = map byte_of_char s"

definition string_of_bytes :: "bytes \<Rightarrow> string" where
  "string_of_bytes bs = map char_of_byte bs"

lemma of_char_less_256: "(of_char c :: nat) < 256"
  by simp

lemma char_of_byte_of_char [simp]: "char_of_byte (byte_of_char c) = c"
proof -
  have "unat (of_nat (of_char c) :: byte) = of_char c"
    using of_char_less_256 [of c] by (simp add: unat_of_nat)
  then show ?thesis by (simp add: char_of_byte_def byte_of_char_def)
qed

lemma byte_of_char_of_byte [simp]: "byte_of_char (char_of_byte b) = b"
proof -
  have "unat b < 256" using unsigned_less [of b] by simp
  then show ?thesis by (simp add: char_of_byte_def byte_of_char_def)
qed

lemma byte_of_char_eq_iff [simp]: "byte_of_char c = byte_of_char d \<longleftrightarrow> c = d"
  by (metis char_of_byte_of_char)

lemma string_of_bytes_of_string [simp]: "string_of_bytes (bytes_of_string s) = s"
  by (simp add: string_of_bytes_def bytes_of_string_def comp_def)

lemma bytes_of_string_of_bytes [simp]: "bytes_of_string (string_of_bytes bs) = bs"
  by (simp add: string_of_bytes_def bytes_of_string_def comp_def)

lemma bytes_of_string_eq_iff [simp]: "bytes_of_string s = bytes_of_string t \<longleftrightarrow> s = t"
  by (metis string_of_bytes_of_string)

lemma length_bytes_of_string [simp]: "length (bytes_of_string s) = length s"
  by (simp add: bytes_of_string_def)

lemma length_string_of_bytes [simp]: "length (string_of_bytes s) = length s"
  by (simp add: string_of_bytes_def)

text \<open>\<^verbatim>\<open>strlen\<close> and the conversion of a \<^verbatim>\<open>char*\<close>: everything up to the first NUL.\<close>

definition c_str :: "bytes \<Rightarrow> bytes" where
  "c_str bs = takeWhile (\<lambda>b. b \<noteq> 0) bs"

definition no_nul :: "bytes \<Rightarrow> bool" where
  "no_nul bs \<longleftrightarrow> list_all (\<lambda>b. b \<noteq> 0) bs"

lemma c_str_no_nul [simp]: "no_nul bs \<Longrightarrow> c_str bs = bs"
  by (simp add: c_str_def no_nul_def list_all_iff takeWhile_eq_all_conv)

lemma c_str_idem [simp]: "c_str (c_str bs) = c_str bs"
  by (simp add: c_str_def)

lemma no_nul_c_str [simp]: "no_nul (c_str bs)"
  by (auto simp: no_nul_def c_str_def list_all_iff dest: set_takeWhileD)

section \<open>Words and naturals\<close>

lemma of_nat_eq_wordI: "unat w = n \<Longrightarrow> of_nat n = (w :: 'a :: len word)"
  by auto

lemma unat_u32_less: "unat (w :: u32) < 2 ^ 32"
  using unsigned_less [of w, where 'a = nat] by simp

lemma unat_u64_less: "unat (w :: u64) < 2 ^ 64"
  using unsigned_less [of w, where 'a = nat] by simp

lemma unat_of_nat_u32 [simp]: "n < 2 ^ 32 \<Longrightarrow> unat (of_nat n :: u32) = n"
  by (simp add: unat_of_nat)

lemma unat_of_nat_u64: "n < 2 ^ 64 \<Longrightarrow> unat (of_nat n :: u64) = n"
  by (simp add: unat_of_nat)

section \<open>Byte order\<close>

text \<open>
  \<^verbatim>\<open>_to_bigendian16/32/64\<close>: the top-order part first.
\<close>

definition to_bigendian16 :: "u16 \<Rightarrow> bytes" where
  "to_bigendian16 w = [ucast (drop_bit 8 w), ucast (w AND 0xFF)]"

definition to_bigendian32 :: "u32 \<Rightarrow> bytes" where
  "to_bigendian32 w = to_bigendian16 (ucast (drop_bit 16 w)) @ to_bigendian16 (ucast (w AND 0xFFFF))"

definition to_bigendian64 :: "u64 \<Rightarrow> bytes" where
  "to_bigendian64 w =
     to_bigendian32 (ucast (drop_bit 32 w)) @ to_bigendian32 (ucast (w AND 0xFFFFFFFF))"

text \<open>
  The reader's recombination, as \<^verbatim>\<open>priv_ubjr_read_2b/4b/8b\<close> compute it.
\<close>

definition join16 :: "byte \<Rightarrow> byte \<Rightarrow> u16" where
  "join16 a b = push_bit 8 (ucast a) OR ucast b"

definition join32 :: "u16 \<Rightarrow> u16 \<Rightarrow> u32" where
  "join32 a b = push_bit 16 (ucast a) OR ucast b"

definition join64 :: "u32 \<Rightarrow> u32 \<Rightarrow> u64" where
  "join64 a b = push_bit 32 (ucast a) OR ucast b"

lemma and_mask_words [wire]:
  "(w :: 'a :: len word) AND 0xFF = take_bit 8 w"
  "w AND 0xFFFF = take_bit 16 w"
  "w AND 0xFFFFFFFF = take_bit 32 w"
  by (simp_all add: take_bit_eq_mask mask_eq_exp_minus_1)

lemma join16_split [wire]: "join16 (ucast (drop_bit 8 w)) (ucast (take_bit 8 w)) = w"
  by (rule bit_word_eqI) (auto simp: join16_def bit_simps)

lemma join32_split [wire]: "join32 (ucast (drop_bit 16 w)) (ucast (take_bit 16 w)) = w"
  by (rule bit_word_eqI) (auto simp: join32_def bit_simps)

lemma join64_split [wire]: "join64 (ucast (drop_bit 32 w)) (ucast (take_bit 32 w)) = w"
  by (rule bit_word_eqI) (auto simp: join64_def bit_simps)

lemma length_to_bigendian [simp]:
  "length (to_bigendian16 w) = 2"
  "length (to_bigendian32 x) = 4"
  "length (to_bigendian64 y) = 8"
  by (simp_all add: to_bigendian16_def to_bigendian32_def to_bigendian64_def)

text \<open>
  A little-endian host (every target of \<^verbatim>\<open>CMakeLists.txt\<close>) keeps the reversed bytes in
  memory; \<^verbatim>\<open>_to_bigendian*\<close> applied in place to such a cell is a byte reversal.
\<close>

definition le_mem16 :: "u16 \<Rightarrow> bytes" where
  "le_mem16 w = rev (to_bigendian16 w)"

definition le_mem32 :: "u32 \<Rightarrow> bytes" where
  "le_mem32 w = rev (to_bigendian32 w)"

definition le_mem64 :: "u64 \<Rightarrow> bytes" where
  "le_mem64 w = rev (to_bigendian64 w)"

fun le_load16 :: "bytes \<Rightarrow> u16 option" where
  "le_load16 (a # b # _) = Some (join16 b a)"
| "le_load16 _ = None"

fun le_load32 :: "bytes \<Rightarrow> u32 option" where
  "le_load32 (a # b # c # d # _) = Some (join32 (join16 d c) (join16 b a))"
| "le_load32 _ = None"

fun le_load64 :: "bytes \<Rightarrow> u64 option" where
  "le_load64 (a # b # c # d # e # f # g # h # _) =
     Some (join64 (join32 (join16 h g) (join16 f e)) (join32 (join16 d c) (join16 b a)))"
| "le_load64 _ = None"

lemma le_load16_mem [simp]: "le_load16 (le_mem16 w @ r) = Some w"
  by (simp add: le_mem16_def to_bigendian16_def wire)

lemma le_load32_mem [simp]: "le_load32 (le_mem32 w @ r) = Some w"
  by (simp add: le_mem32_def to_bigendian16_def to_bigendian32_def wire)

lemma le_load64_mem [simp]: "le_load64 (le_mem64 w @ r) = Some w"
  by (simp add: le_mem64_def to_bigendian16_def to_bigendian32_def to_bigendian64_def wire)

lemmas le_load_mem [simp] =
  le_load16_mem [where r = "[]", simplified]
  le_load32_mem [where r = "[]", simplified]
  le_load64_mem [where r = "[]", simplified]

lemma length_le_mem [simp]:
  "length (le_mem16 w) = 2" "length (le_mem32 x) = 4" "length (le_mem64 y) = 8"
  by (simp_all add: le_mem16_def le_mem32_def le_mem64_def)

end
