(* ===== verification/UBJ_Types.thy ===== *)
theory UBJ_Types
  imports Prelude
begin

text \<open>
  The type codes of \<^verbatim>\<open>include/Zway/ubj/ubj.h\<close> and the tables and byte-order helpers of
  \<^verbatim>\<open>include/Zway/ubj/ubj_internal.h\<close>.  \<open>UBJ_NUM_TYPES\<close> is the code
  \<^verbatim>\<open>priv_ubjr_type_from_char\<close> yields for an unknown marker; no table has an entry for
  it, so a table lookup there is \<^const>\<open>None\<close>.
\<close>

datatype ubj_type =
    UBJ_MIXED | UBJ_NULLTYPE | UBJ_NOOP | UBJ_BOOL_TRUE | UBJ_BOOL_FALSE
  | UBJ_CHAR | UBJ_STRING | UBJ_HIGH_PRECISION
  | UBJ_INT8 | UBJ_UINT8 | UBJ_INT16 | UBJ_INT32 | UBJ_INT64 | UBJ_FLOAT32 | UBJ_FLOAT64
  | UBJ_ARRAY | UBJ_OBJECT | UBJ_NUM_TYPES

text \<open>\<^verbatim>\<open>"\x00ZNTFCSHiUIlLdD[{"\<close>, in the order of the codes.\<close>

definition UBJI_TYPEC_convert :: "(ubj_type \<times> byte) list" where
  "UBJI_TYPEC_convert =
     [(UBJ_MIXED, 0x00), (UBJ_NULLTYPE, 0x5A), (UBJ_NOOP, 0x4E), (UBJ_BOOL_TRUE, 0x54),
      (UBJ_BOOL_FALSE, 0x46), (UBJ_CHAR, 0x43), (UBJ_STRING, 0x53), (UBJ_HIGH_PRECISION, 0x48),
      (UBJ_INT8, 0x69), (UBJ_UINT8, 0x55), (UBJ_INT16, 0x49), (UBJ_INT32, 0x6C), (UBJ_INT64, 0x4C),
      (UBJ_FLOAT32, 0x64), (UBJ_FLOAT64, 0x44), (UBJ_ARRAY, 0x5B), (UBJ_OBJECT, 0x7B)]"

definition type_char :: "ubj_type \<Rightarrow> byte option" where
  "type_char t = map_of UBJI_TYPEC_convert t"

text \<open>\<^verbatim>\<open>priv_ubjr_type_from_char\<close>: the first code with the marker, or \<^verbatim>\<open>UBJ_NUM_TYPES\<close>.\<close>

definition type_from_char :: "byte \<Rightarrow> ubj_type" where
  "type_from_char c =
     (case find (\<lambda>(t, x). x = c) UBJI_TYPEC_convert of
        Some (t, _) \<Rightarrow> t
      | None \<Rightarrow> UBJ_NUM_TYPES)"

text \<open>\<^verbatim>\<open>UBJI_TYPE_size\<close>: -1 for the types without a fixed size, pointers have 8 bytes.\<close>

fun UBJI_TYPE_size :: "ubj_type \<Rightarrow> int option" where
  "UBJI_TYPE_size UBJ_MIXED = Some (-1)"
| "UBJI_TYPE_size UBJ_NULLTYPE = Some 0"
| "UBJI_TYPE_size UBJ_NOOP = Some 0"
| "UBJI_TYPE_size UBJ_BOOL_TRUE = Some 0"
| "UBJI_TYPE_size UBJ_BOOL_FALSE = Some 0"
| "UBJI_TYPE_size UBJ_CHAR = Some 1"
| "UBJI_TYPE_size UBJ_STRING = Some 8"
| "UBJI_TYPE_size UBJ_HIGH_PRECISION = Some 8"
| "UBJI_TYPE_size UBJ_INT8 = Some 1"
| "UBJI_TYPE_size UBJ_UINT8 = Some 1"
| "UBJI_TYPE_size UBJ_INT16 = Some 2"
| "UBJI_TYPE_size UBJ_INT32 = Some 4"
| "UBJI_TYPE_size UBJ_INT64 = Some 8"
| "UBJI_TYPE_size UBJ_FLOAT32 = Some 4"
| "UBJI_TYPE_size UBJ_FLOAT64 = Some 8"
| "UBJI_TYPE_size UBJ_ARRAY = Some (-1)"
| "UBJI_TYPE_size UBJ_OBJECT = Some (-1)"
| "UBJI_TYPE_size UBJ_NUM_TYPES = None"

lemma type_from_char_convert: "type_char t = Some c \<Longrightarrow> type_from_char c = t"
  by (cases t) (auto simp: type_char_def type_from_char_def UBJI_TYPEC_convert_def)

lemma type_char_None: "type_char t = None \<longleftrightarrow> t = UBJ_NUM_TYPES"
  by (cases t) (auto simp: type_char_def UBJI_TYPEC_convert_def)

lemma type_char_simps [simp]:
  "type_char UBJ_MIXED = Some 0x00" "type_char UBJ_NULLTYPE = Some 0x5A"
  "type_char UBJ_NOOP = Some 0x4E" "type_char UBJ_BOOL_TRUE = Some 0x54"
  "type_char UBJ_BOOL_FALSE = Some 0x46" "type_char UBJ_CHAR = Some 0x43"
  "type_char UBJ_STRING = Some 0x53" "type_char UBJ_HIGH_PRECISION = Some 0x48"
  "type_char UBJ_INT8 = Some 0x69" "type_char UBJ_UINT8 = Some 0x55"
  "type_char UBJ_INT16 = Some 0x49" "type_char UBJ_INT32 = Some 0x6C"
  "type_char UBJ_INT64 = Some 0x4C" "type_char UBJ_FLOAT32 = Some 0x64"
  "type_char UBJ_FLOAT64 = Some 0x44" "type_char UBJ_ARRAY = Some 0x5B"
  "type_char UBJ_OBJECT = Some 0x7B" "type_char UBJ_NUM_TYPES = None"
  by (simp_all add: type_char_def UBJI_TYPEC_convert_def)

lemma type_from_char_simps [simp]:
  "type_from_char 0x5A = UBJ_NULLTYPE" "type_from_char 0x54 = UBJ_BOOL_TRUE"
  "type_from_char 0x46 = UBJ_BOOL_FALSE" "type_from_char 0x53 = UBJ_STRING"
  "type_from_char 0x69 = UBJ_INT8" "type_from_char 0x55 = UBJ_UINT8"
  "type_from_char 0x49 = UBJ_INT16" "type_from_char 0x6C = UBJ_INT32"
  "type_from_char 0x4C = UBJ_INT64" "type_from_char 0x64 = UBJ_FLOAT32"
  "type_from_char 0x44 = UBJ_FLOAT64" "type_from_char 0x5B = UBJ_ARRAY"
  "type_from_char 0x7B = UBJ_OBJECT"
  by (simp_all add: type_from_char_def UBJI_TYPEC_convert_def)

section \<open>Byte swapping of a buffer\<close>

text \<open>
  \<^verbatim>\<open>BUF_BIG_ENDIAN_SWAP\<close>: the first \<open>n\<close> cells of \<open>k\<close> bytes are each loaded and stored back
  in big-endian order; \<^const>\<open>None\<close> when the block is shorter.
\<close>

primrec swap_cells :: "nat \<Rightarrow> (bytes \<Rightarrow> bytes option) \<Rightarrow> nat \<Rightarrow> bytes \<Rightarrow> bytes option" where
  "swap_cells k f 0 bs = Some bs"
| "swap_cells k f (Suc n) bs = do {
     c \<leftarrow> f bs;
     r \<leftarrow> swap_cells k f n (drop k bs);
     Some (c @ r) }"

definition buf_endian_swap :: "bytes \<Rightarrow> nat \<Rightarrow> nat \<Rightarrow> bytes option" where
  "buf_endian_swap buf sz n =
     (if sz = 2 then swap_cells 2 (\<lambda>bs. map_option to_bigendian16 (le_load16 bs)) n buf
      else if sz = 4 then swap_cells 4 (\<lambda>bs. map_option to_bigendian32 (le_load32 bs)) n buf
      else if sz = 8 then swap_cells 8 (\<lambda>bs. map_option to_bigendian64 (le_load64 bs)) n buf
      else Some buf)"

text \<open>Its meaning: every cell reversed.\<close>

primrec rev_cells :: "nat \<Rightarrow> nat \<Rightarrow> bytes \<Rightarrow> bytes" where
  "rev_cells k 0 bs = bs"
| "rev_cells k (Suc n) bs = rev (take k bs) @ rev_cells k n (drop k bs)"

lemma join16_bytes [wire]:
  "ucast (drop_bit 8 (join16 a b)) = a" "ucast (take_bit 8 (join16 a b)) = b"
  by (rule bit_word_eqI; auto simp: join16_def bit_simps dest: bit_imp_le_length)+

lemma join32_halves [wire]:
  "ucast (drop_bit 16 (join32 a b)) = a" "ucast (take_bit 16 (join32 a b)) = b"
  by (rule bit_word_eqI; auto simp: join32_def bit_simps dest: bit_imp_le_length)+

lemma join64_halves [wire]:
  "ucast (drop_bit 32 (join64 a b)) = a" "ucast (take_bit 32 (join64 a b)) = b"
  by (rule bit_word_eqI; auto simp: join64_def bit_simps dest: bit_imp_le_length)+

lemma bigendian_join [wire]:
  "to_bigendian16 (join16 a b) = [a, b]"
  "to_bigendian32 (join32 x y) = to_bigendian16 x @ to_bigendian16 y"
  "to_bigendian64 (join64 u v) = to_bigendian32 u @ to_bigendian32 v"
  by (simp_all add: to_bigendian16_def to_bigendian32_def to_bigendian64_def wire)

lemma length_2E: "2 \<le> length (bs :: bytes) \<Longrightarrow> \<exists>a b r. bs = a # b # r"
  by (cases bs rule: le_load16.cases) auto

lemma length_4E: "4 \<le> length (bs :: bytes) \<Longrightarrow> \<exists>a b c d r. bs = a # b # c # d # r"
  by (cases bs rule: le_load32.cases) auto

lemma length_8E: "8 \<le> length (bs :: bytes) \<Longrightarrow> \<exists>a b c d e f g h r. bs = a # b # c # d # e # f # g # h # r"
  by (cases bs rule: le_load64.cases) auto

lemma swap16_rev:
  "2 \<le> length bs \<Longrightarrow> map_option to_bigendian16 (le_load16 bs) = Some (rev (take 2 bs))"
  by (drule length_2E) (auto simp: wire numeral_eq_Suc)

lemma swap32_rev:
  "4 \<le> length bs \<Longrightarrow> map_option to_bigendian32 (le_load32 bs) = Some (rev (take 4 bs))"
  by (drule length_4E) (auto simp: wire numeral_eq_Suc)

lemma swap64_rev:
  "8 \<le> length bs \<Longrightarrow> map_option to_bigendian64 (le_load64 bs) = Some (rev (take 8 bs))"
  by (drule length_8E) (auto simp: wire numeral_eq_Suc)

lemma swap_cells_rev:
  assumes "\<And>bs. k \<le> length bs \<Longrightarrow> f bs = Some (rev (take k bs))" and "k * n \<le> length bs"
  shows "swap_cells k f n bs = Some (rev_cells k n bs)"
  using assms(2)
proof (induction n arbitrary: bs)
  case 0
  then show ?case by simp
next
  case (Suc n)
  then have "k \<le> length bs" and "k * n \<le> length (drop k bs)" by auto
  with Suc.IH [of "drop k bs"] assms(1) show ?case by simp
qed

lemma rev_cells_1: "rev_cells (Suc 0) n bs = bs"
proof (induction n arbitrary: bs)
  case (Suc n)
  then show ?case by (cases bs) auto
qed simp

lemma rev_cells_0: "rev_cells 0 n bs = bs"
  by (induction n) auto

lemma buf_endian_swap_rev:
  assumes "sz \<in> {0, 1, 2, 4, 8}" and "sz * n \<le> length bs"
  shows "buf_endian_swap bs sz n = Some (rev_cells sz n bs)"
  using assms by (auto simp: buf_endian_swap_def rev_cells_0 rev_cells_1
      swap_cells_rev swap16_rev swap32_rev swap64_rev)

lemma length_rev_cells [simp]: "length (rev_cells k n bs) = length bs"
  by (induction n arbitrary: bs) auto

lemma rev_cells_append:
  "rev_cells k (m + n) bs = take (k * m) (rev_cells k m bs) @ rev_cells k n (drop (k * m) bs)"
  if "k * m \<le> length bs"
  using that
proof (induction m arbitrary: bs)
  case 0
  then show ?case by simp
next
  case (Suc m)
  then have "k * m \<le> length (drop k bs)" "k \<le> length bs" by auto
  with Suc.IH [of "drop k bs"] show ?case
    by (simp add: add.commute)
qed

end
