(* ===== verification/UBJ_Read.thy ===== *)
theory UBJ_Read
  imports UBJ_Types
begin

text \<open>
  \<^verbatim>\<open>src/ubj/ubjr.c\<close>: the recursive-descent reader over a block of memory, here the
  list of the bytes not read yet.  Every function returns the rest of the input;
  \<^const>\<open>None\<close> stands for what the sources do not define (a peek or a read past the end leaves
  an uninitialised value, a negative length, an array of fixed-size cells of a type that
  has none, a table index out of range) and for a loop that does not end.  The mutual
  recursion through \<^verbatim>\<open>priv_ubjr_read_to_ptr\<close> is tied in \<open>rd_ptr\<close>, whose fuel bounds the
  nesting; \<open>rd_fuel\<close> shows that twice the input length and two are enough.
\<close>

datatype dyn =
    DVoid ubj_type
  | DBool bool
  | DInt ubj_type u64
  | DReal32 u32
  | DReal64 u64
  | DStr ubj_type bytes
  | DArr bool ubj_type "dyn list" "u64 list"
  | DObj bool ubj_type "(bytes \<times> dyn) list"

fun dyn_type :: "dyn \<Rightarrow> ubj_type" where
  "dyn_type (DVoid t) = t"
| "dyn_type (DBool b) = (if b then UBJ_BOOL_TRUE else UBJ_BOOL_FALSE)"
| "dyn_type (DInt t _) = t"
| "dyn_type (DReal32 _) = UBJ_FLOAT32"
| "dyn_type (DReal64 _) = UBJ_FLOAT64"
| "dyn_type (DStr t _) = t"
| "dyn_type (DArr _ _ _ _) = UBJ_ARRAY"
| "dyn_type (DObj _ _ _) = UBJ_OBJECT"

section \<open>Scalars\<close>

fun read_1b :: "bytes \<Rightarrow> (byte \<times> bytes) option" where
  "read_1b [] = None"
| "read_1b (a # r) = Some (a, r)"

definition read_2b :: "bytes \<Rightarrow> (u16 \<times> bytes) option" where
  "read_2b inp = do { (a, r) \<leftarrow> read_1b inp; (b, r') \<leftarrow> read_1b r; Some (join16 a b, r') }"

definition read_4b :: "bytes \<Rightarrow> (u32 \<times> bytes) option" where
  "read_4b inp = do { (a, r) \<leftarrow> read_2b inp; (b, r') \<leftarrow> read_2b r; Some (join32 a b, r') }"

definition read_8b :: "bytes \<Rightarrow> (u64 \<times> bytes) option" where
  "read_8b inp = do { (a, r) \<leftarrow> read_4b inp; (b, r') \<leftarrow> read_4b r; Some (join64 a b, r') }"

text \<open>\<^verbatim>\<open>tstr = malloc(n + 1)\<close> and a read of \<open>n\<close> bytes into it.\<close>

definition read_chars :: "u64 \<Rightarrow> bytes \<Rightarrow> (bytes \<times> bytes) option" where
  "read_chars n inp =
     (if n <s 0 \<or> length inp < unat n then None
      else Some (take (unat n) inp, drop (unat n) inp))"

text \<open>
  \<^verbatim>\<open>priv_ubjr_pointer_to_dynamic\<close> on a cell of fixed size (little-endian memory): small
  integers are widened, a float is kept as its own bit pattern.
\<close>

definition pointer_to_dynamic :: "ubj_type \<Rightarrow> bytes \<Rightarrow> dyn option" where
  "pointer_to_dynamic t cell =
     (case t of
        UBJ_NULLTYPE \<Rightarrow> Some (DVoid t)
      | UBJ_NOOP \<Rightarrow> Some (DVoid t)
      | UBJ_BOOL_TRUE \<Rightarrow> Some (DBool True)
      | UBJ_BOOL_FALSE \<Rightarrow> Some (DBool False)
      | UBJ_INT8 \<Rightarrow> (case cell of a # _ \<Rightarrow> Some (DInt t (scast a)) | [] \<Rightarrow> None)
      | UBJ_UINT8 \<Rightarrow> (case cell of a # _ \<Rightarrow> Some (DInt t (ucast a)) | [] \<Rightarrow> None)
      | UBJ_INT16 \<Rightarrow> map_option (\<lambda>w. DInt t (scast w)) (le_load16 cell)
      | UBJ_INT32 \<Rightarrow> map_option (\<lambda>w. DInt t (scast w)) (le_load32 cell)
      | UBJ_INT64 \<Rightarrow> map_option (DInt t) (le_load64 cell)
      | UBJ_FLOAT32 \<Rightarrow> map_option DReal32 (le_load32 cell)
      | UBJ_FLOAT64 \<Rightarrow> map_option DReal64 (le_load64 cell)
      | _ \<Rightarrow> Some (DVoid t))"

section \<open>Loops\<close>

text \<open>\<^verbatim>\<open>for (i = 0; i < size; i++) read\<close> and \<^verbatim>\<open>while (peek != close) read\<close>.\<close>

primrec read_many :: "nat \<Rightarrow> (bytes \<Rightarrow> ('a \<times> bytes) option) \<Rightarrow> bytes \<Rightarrow> ('a list \<times> bytes) option"
where
  "read_many 0 f inp = Some ([], inp)"
| "read_many (Suc n) f inp = do {
     (x, r) \<leftarrow> f inp;
     (xs, r') \<leftarrow> read_many n f r;
     Some (x # xs, r') }"

primrec read_until ::
    "byte \<Rightarrow> nat \<Rightarrow> (bytes \<Rightarrow> ('a \<times> bytes) option) \<Rightarrow> bytes \<Rightarrow> ('a list \<times> bytes) option" where
  "read_until c 0 f inp = None"
| "read_until c (Suc k) f inp =
     (case inp of
        [] \<Rightarrow> None
      | b # rest \<Rightarrow>
          if b = c then Some ([], rest)
          else do {
            (x, r) \<leftarrow> f inp;
            (xs, r') \<leftarrow> read_until c k f r;
            Some (x # xs, r') })"

section \<open>Containers\<close>

type_synonym reader = "ubj_type \<Rightarrow> bytes \<Rightarrow> (dyn \<times> bytes) option"

definition rd_dynamic :: "reader \<Rightarrow> bytes \<Rightarrow> (dyn \<times> bytes) option" where
  "rd_dynamic rp inp = do { (c, r) \<leftarrow> read_1b inp; rp (type_from_char c) r }"

definition rd_integer :: "reader \<Rightarrow> bytes \<Rightarrow> (u64 \<times> bytes) option" where
  "rd_integer rp inp =
     map_option (\<lambda>(d, r). (case d of DInt _ w \<Rightarrow> w | _ \<Rightarrow> 0, r)) (rd_dynamic rp inp)"

definition container_size :: "reader \<Rightarrow> ubj_type \<Rightarrow> bytes \<Rightarrow> ((ubj_type \<times> u64) \<times> bytes) option" where
  "container_size rp t inp =
     (case inp of
        [] \<Rightarrow> None
      | c # r \<Rightarrow> if c = 0x23 then map_option (\<lambda>(n, r'). ((t, n), r')) (rd_integer rp r)
                 else Some ((t, 0), inp))"

definition read_container_params :: "reader \<Rightarrow> bytes \<Rightarrow> ((ubj_type \<times> u64) \<times> bytes) option" where
  "read_container_params rp inp =
     (case inp of
        [] \<Rightarrow> None
      | c # r \<Rightarrow>
          if c = 0x24 then do { (t, r') \<leftarrow> read_1b r; container_size rp (type_from_char t) r' }
          else container_size rp UBJ_MIXED inp)"

text \<open>The dimensions of an N-D array: \<^const>\<open>None\<close> as the first component when there are none.\<close>

definition read_dims ::
    "reader \<Rightarrow> ubj_type \<Rightarrow> u64 \<Rightarrow> bytes \<Rightarrow> ((u64 list option \<times> u64) \<times> bytes) option" where
  "read_dims rp t sz inp =
     (if t \<noteq> UBJ_MIXED \<and> sz = 0 then
        (case inp of
           [] \<Rightarrow> None
         | c # r \<Rightarrow>
             if c = 0x40 then do {
               (nd, r1) \<leftarrow> read_1b r;
               (ds, r2) \<leftarrow> read_many (unat nd) (rd_integer rp) r1;
               Some ((Some ds, fold (*) ds 1), r2) }
             else Some ((None, sz), inp))
      else Some ((None, sz), inp))"

definition fixed_cells :: "ubj_type \<Rightarrow> bool" where
  "fixed_cells t \<longleftrightarrow> t \<noteq> UBJ_STRING \<and> t \<noteq> UBJ_HIGH_PRECISION \<and> t \<noteq> UBJ_CHAR \<and> t \<noteq> UBJ_MIXED"

primrec cells_to_dynamic :: "ubj_type \<Rightarrow> nat \<Rightarrow> nat \<Rightarrow> bytes \<Rightarrow> dyn list option" where
  "cells_to_dynamic t k 0 cells = Some []"
| "cells_to_dynamic t k (Suc n) cells = do {
     d \<leftarrow> pointer_to_dynamic t cells;
     ds \<leftarrow> cells_to_dynamic t k n (drop k cells);
     Some (d # ds) }"

text \<open>
  The fast path for a sized array of fixed-size cells: one block read, then a byte swap in
  place.  For containers the size -1 becomes a block longer than memory.
\<close>

definition read_cells :: "ubj_type \<Rightarrow> u64 \<Rightarrow> bytes \<Rightarrow> (dyn list \<times> bytes) option" where
  "read_cells t size' inp = do {
     sz \<leftarrow> UBJI_TYPE_size t;
     if sz < 0 \<or> length inp < nat sz * unat size' then None
     else do {
       cells \<leftarrow> buf_endian_swap (take (nat sz * unat size') inp) (nat sz) (unat size');
       ds \<leftarrow> cells_to_dynamic t (nat sz) (unat size') cells;
       Some (ds, drop (nat sz * unat size') inp) } }"

definition rd_raw_array :: "reader \<Rightarrow> bytes \<Rightarrow> (dyn \<times> bytes) option" where
  "rd_raw_array rp inp = do {
     ((t, sz0), r0) \<leftarrow> read_container_params rp inp;
     ((dims, sz), r1) \<leftarrow> read_dims rp t sz0 r0;
     if t = UBJ_NUM_TYPES then None
     else if sz = 0 then do {
       (ds, r2) \<leftarrow> read_until 0x5D (Suc (length r1)) (rp t) r1;
       Some (DArr False t ds (case dims of Some xs \<Rightarrow> xs | None \<Rightarrow> [of_nat (length ds)]), r2) }
     else do {
       (ds, r2) \<leftarrow> (if fixed_cells t then read_cells t sz r1 else read_many (unat sz) (rp t) r1);
       Some (DArr True t ds (case dims of Some xs \<Rightarrow> xs | None \<Rightarrow> [sz]), r2) } }"

text \<open>One key and its value.\<close>

definition rd_field :: "reader \<Rightarrow> ubj_type \<Rightarrow> bytes \<Rightarrow> ((bytes \<times> dyn) \<times> bytes) option" where
  "rd_field rp t inp = do {
     (k, r) \<leftarrow> rp UBJ_STRING inp;
     (v, r') \<leftarrow> rp t r;
     Some ((case k of DStr _ s \<Rightarrow> s | _ \<Rightarrow> [], v), r') }"

definition rd_raw_object :: "reader \<Rightarrow> bytes \<Rightarrow> (dyn \<times> bytes) option" where
  "rd_raw_object rp inp = do {
     ((t, sz), r1) \<leftarrow> read_container_params rp inp;
     if t = UBJ_NUM_TYPES then None
     else if sz = 0 then do {
       (kvs, r2) \<leftarrow> read_until 0x7D (Suc (length r1)) (rd_field rp t) r1;
       Some (DObj False t kvs, r2) }
     else do {
       (kvs, r2) \<leftarrow> read_many (unat sz) (rd_field rp t) r1;
       Some (DObj True t kvs, r2) } }"

text \<open>\<^verbatim>\<open>priv_ubjr_read_to_ptr\<close> followed by \<^verbatim>\<open>priv_ubjr_pointer_to_dynamic\<close>.\<close>

definition read_to_ptr :: "reader \<Rightarrow> reader" where
  "read_to_ptr rp t inp =
     (case t of
        UBJ_MIXED \<Rightarrow> rd_dynamic rp inp
      | UBJ_STRING \<Rightarrow> do {
          (n, r) \<leftarrow> rd_integer rp inp; (s, r') \<leftarrow> read_chars n r; Some (DStr t s, r') }
      | UBJ_HIGH_PRECISION \<Rightarrow> do {
          (n, r) \<leftarrow> rd_integer rp inp; (s, r') \<leftarrow> read_chars n r; Some (DStr t s, r') }
      | UBJ_CHAR \<Rightarrow> map_option (\<lambda>(s, r). (DStr t s, r)) (read_chars 1 inp)
      | UBJ_INT8 \<Rightarrow> map_option (\<lambda>(w, r). (DInt t (scast w), r)) (read_1b inp)
      | UBJ_UINT8 \<Rightarrow> map_option (\<lambda>(w, r). (DInt t (ucast w), r)) (read_1b inp)
      | UBJ_INT16 \<Rightarrow> map_option (\<lambda>(w, r). (DInt t (scast w), r)) (read_2b inp)
      | UBJ_INT32 \<Rightarrow> map_option (\<lambda>(w, r). (DInt t (scast w), r)) (read_4b inp)
      | UBJ_FLOAT32 \<Rightarrow> map_option (\<lambda>(w, r). (DReal32 w, r)) (read_4b inp)
      | UBJ_INT64 \<Rightarrow> map_option (\<lambda>(w, r). (DInt t w, r)) (read_8b inp)
      | UBJ_FLOAT64 \<Rightarrow> map_option (\<lambda>(w, r). (DReal64 w, r)) (read_8b inp)
      | UBJ_ARRAY \<Rightarrow> rd_raw_array rp inp
      | UBJ_OBJECT \<Rightarrow> rd_raw_object rp inp
      | UBJ_BOOL_TRUE \<Rightarrow> Some (DBool True, inp)
      | UBJ_BOOL_FALSE \<Rightarrow> Some (DBool False, inp)
      | _ \<Rightarrow> Some (DVoid t, inp))"

primrec rd_ptr :: "nat \<Rightarrow> reader" where
  "rd_ptr 0 = (\<lambda>t inp. None)"
| "rd_ptr (Suc f) = read_to_ptr (rd_ptr f)"

definition ubjr_read_dynamic :: "bytes \<Rightarrow> (dyn \<times> bytes) option" where
  "ubjr_read_dynamic inp = rd_dynamic (rd_ptr (2 * length inp + 2)) inp"

section \<open>Looking up a key\<close>

text \<open>
  \<^verbatim>\<open>ubjr_object_lookup\<close>: the keys sorted by \<^verbatim>\<open>strcmp\<close> (once, kept as
  \<^verbatim>\<open>metatable\<close>), then a binary search.  \<^verbatim>\<open>qsort\<close> is taken as a stable sort and
  \<^verbatim>\<open>bsearch\<close> as probing the middle, which only matters for equal keys.
\<close>

definition build_sorted_keys :: "(bytes \<times> 'v) list \<Rightarrow> (bytes \<times> 'v) list" where
  "build_sorted_keys kvs = sort_key (\<lambda>kv. c_str (fst kv)) kvs"

function bsearch_key :: "(bytes \<times> 'v) list \<Rightarrow> bytes \<Rightarrow> nat \<Rightarrow> nat \<Rightarrow> 'v option" where
  "bsearch_key tab k l u =
     (if l < u then
        let i = (l + u) div 2; x = c_str (fst (tab ! i))
        in if k < x then bsearch_key tab k l i
           else if x < k then bsearch_key tab k (i + 1) u
           else Some (snd (tab ! i))
      else None)"
  by pat_completeness auto
termination
  by (relation "measure (\<lambda>(_, _, l, u). u - l)") auto

declare bsearch_key.simps [simp del]

definition object_lookup :: "(bytes \<times> 'v) list \<Rightarrow> bytes \<Rightarrow> 'v option" where
  "object_lookup kvs key = bsearch_key (build_sorted_keys kvs) (c_str key) 0 (length kvs)"

text \<open>\<^verbatim>\<open>ubjr_ndarray_index\<close>.\<close>

primrec ndarray_index_from :: "u64 \<Rightarrow> u64 \<Rightarrow> u64 list \<Rightarrow> u64 list \<Rightarrow> u64 option" where
  "ndarray_index_from cstride cdex [] indices = Some cdex"
| "ndarray_index_from cstride cdex (d # ds) indices =
     (case indices of
        [] \<Rightarrow> None
      | i # is \<Rightarrow> ndarray_index_from (cstride * d) (cdex + cstride * i) ds is)"

definition ndarray_index :: "u64 list \<Rightarrow> u64 list \<Rightarrow> u64 option" where
  "ndarray_index dims indices = ndarray_index_from 1 0 dims indices"

section \<open>What a read consumes\<close>

definition shrinks :: "(bytes \<Rightarrow> ('a \<times> bytes) option) \<Rightarrow> bool" where
  "shrinks f \<longleftrightarrow> (\<forall>inp x r. f inp = Some (x, r) \<longrightarrow> length r \<le> length inp)"

lemma shrinksI: "(\<And>inp x r. f inp = Some (x, r) \<Longrightarrow> length r \<le> length inp) \<Longrightarrow> shrinks f"
  by (auto simp: shrinks_def)

lemma shrinksD: "shrinks f \<Longrightarrow> f inp = Some (x, r) \<Longrightarrow> length r \<le> length inp"
  by (auto simp: shrinks_def)

lemma read_1b_length: "read_1b inp = Some (a, r) \<Longrightarrow> length inp = Suc (length r)"
  by (cases inp) auto

lemma read_2b_length: "read_2b inp = Some (a, r) \<Longrightarrow> length inp = 2 + length r"
  by (auto simp: read_2b_def dest!: read_1b_length split: bind_splits)

lemma read_4b_length: "read_4b inp = Some (a, r) \<Longrightarrow> length inp = 4 + length r"
  by (auto simp: read_4b_def dest!: read_2b_length split: bind_splits)

lemma read_8b_length: "read_8b inp = Some (a, r) \<Longrightarrow> length inp = 8 + length r"
  by (auto simp: read_8b_def dest!: read_4b_length split: bind_splits)

lemma read_chars_length: "read_chars n inp = Some (s, r) \<Longrightarrow> length inp = unat n + length r"
  by (auto simp: read_chars_def split: if_splits)

lemmas read_lengths =
  read_1b_length read_2b_length read_4b_length read_8b_length read_chars_length

lemma read_many_shrinks: "shrinks f \<Longrightarrow> shrinks (read_many n f)"
proof (induction n)
  case 0
  then show ?case by (auto simp: shrinks_def)
next
  case (Suc n)
  show ?case
  proof (rule shrinksI)
    fix inp x r assume "read_many (Suc n) f inp = Some (x, r)"
    then obtain y r1 ys where "f inp = Some (y, r1)" "read_many n f r1 = Some (ys, r)"
      by (auto split: bind_splits)
    with Suc show "length r \<le> length inp" by (blast dest: shrinksD intro: order_trans)
  qed
qed

lemma read_until_shrinks: "shrinks f \<Longrightarrow> shrinks (read_until c k f)"
proof (induction k)
  case 0
  then show ?case by (auto simp: shrinks_def)
next
  case (Suc k)
  show ?case
  proof (rule shrinksI)
    fix inp x r assume *: "read_until c (Suc k) f inp = Some (x, r)"
    show "length r \<le> length inp"
    proof (cases "\<exists>rest. inp = c # rest")
      case True
      with * show ?thesis by auto
    next
      case False
      with * obtain y r1 ys where "f inp = Some (y, r1)" "read_until c k f r1 = Some (ys, r)"
        by (auto split: bind_splits list.splits if_splits)
      with Suc show ?thesis by (blast dest: shrinksD intro: order_trans)
    qed
  qed
qed

text \<open>The loops only depend on what their body does on the inputs they can reach.\<close>

lemma read_many_cong:
  assumes "shrinks f" and "\<And>r. length r \<le> length inp \<Longrightarrow> f r = g r"
  shows "read_many n f inp = read_many n g inp"
  using assms(2)
proof (induction n arbitrary: inp)
  case 0
  then show ?case by simp
next
  case (Suc n)
  have "f inp = g inp" using Suc.prems by simp
  moreover have "read_many n f r = read_many n g r" if "f inp = Some (x, r)" for x r
  proof (rule Suc.IH)
    fix ra :: bytes assume "length ra \<le> length r"
    with shrinksD [OF assms(1) that] show "f ra = g ra" by (intro Suc.prems) simp
  qed
  ultimately show ?case by (cases "g inp") auto
qed

lemma read_until_cong:
  assumes "shrinks f" and "\<And>r. length r \<le> length inp \<Longrightarrow> f r = g r"
  shows "read_until c k f inp = read_until c k g inp"
  using assms(2)
proof (induction k arbitrary: inp)
  case 0
  then show ?case by simp
next
  case (Suc k)
  have "f inp = g inp" using Suc.prems by simp
  moreover have "read_until c k f r = read_until c k g r" if "f inp = Some (x, r)" for x r
  proof (rule Suc.IH)
    fix ra :: bytes assume "length ra \<le> length r"
    with shrinksD [OF assms(1) that] show "f ra = g ra" by (intro Suc.prems) simp
  qed
  ultimately show ?case by (cases "g inp") (auto split: list.splits)
qed

text \<open>A reader is good when no type makes it return more input than it was given.\<close>

definition good_reader :: "reader \<Rightarrow> bool" where
  "good_reader rp \<longleftrightarrow> (\<forall>t. shrinks (rp t))"

lemma good_readerD: "good_reader rp \<Longrightarrow> rp t inp = Some (d, r) \<Longrightarrow> length r \<le> length inp"
  by (auto simp: good_reader_def dest: shrinksD)

lemma rd_dynamic_length:
  "good_reader rp \<Longrightarrow> rd_dynamic rp inp = Some (d, r) \<Longrightarrow> length r < length inp"
  by (cases inp) (auto simp: rd_dynamic_def less_Suc_eq_le dest: good_readerD)

lemma rd_integer_length:
  "good_reader rp \<Longrightarrow> rd_integer rp inp = Some (d, r) \<Longrightarrow> length r < length inp"
  by (auto simp: rd_integer_def dest: rd_dynamic_length)

lemma rd_integer_shrinks: "good_reader rp \<Longrightarrow> shrinks (rd_integer rp)"
  by (auto intro!: shrinksI dest: rd_integer_length)

lemma container_size_length:
  assumes "good_reader rp" and "container_size rp t inp = Some ((t', n), r)"
  shows "t' = t" and "length r \<le> length inp"
  using assms rd_integer_length [OF assms(1)]
  by (fastforce simp: container_size_def split: list.splits if_splits)+

lemma read_container_params_length:
  assumes "good_reader rp" and "read_container_params rp inp = Some ((t, n), r)"
  shows "length r \<le> length inp" and "t \<noteq> UBJ_MIXED \<Longrightarrow> length r + 2 \<le> length inp"
proof -
  from assms(2) obtain c r0 where inp: "inp = c # r0"
    by (cases inp) (auto simp: read_container_params_def)
  consider c' r1 where "r0 = c' # r1" "c = 0x24"
      "container_size rp (type_from_char c') r1 = Some ((t, n), r)"
    | "container_size rp UBJ_MIXED inp = Some ((t, n), r)"
    using assms(2) unfolding inp read_container_params_def
    by (cases r0) (auto split: if_splits)
  then have "length r \<le> length inp \<and> (t \<noteq> UBJ_MIXED \<longrightarrow> length r + 2 \<le> length inp)"
    by cases (use container_size_length [OF assms(1)] inp in fastforce)+
  then show "length r \<le> length inp" and "t \<noteq> UBJ_MIXED \<Longrightarrow> length r + 2 \<le> length inp"
    by simp_all
qed

lemma read_dims_length:
  assumes "good_reader rp" and "read_dims rp t sz inp = Some (p, r)"
  shows "length r \<le> length inp"
proof -
  consider "r = inp" | c nd r1 ds where "inp = c # nd # r1"
      "read_many (unat nd) (rd_integer rp) r1 = Some (ds, r)"
    using assms(2)
    by (auto simp: read_dims_def split: if_splits list.splits bind_splits elim!: read_1b.elims)
  then show ?thesis
    using shrinksD [OF read_many_shrinks [OF rd_integer_shrinks [OF assms(1)]]]
    by cases fastforce+
qed

lemma read_cells_length: "read_cells t n inp = Some (ds, r) \<Longrightarrow> length r \<le> length inp"
  by (auto simp: read_cells_def split: if_splits bind_splits)

lemma rd_field_shrinks: "good_reader rp \<Longrightarrow> shrinks (rd_field rp t)"
  by (rule shrinksI)
    (auto simp: rd_field_def split: bind_splits, metis good_readerD order_trans)

lemma rd_raw_array_shrinks:
  assumes "good_reader rp"
  shows "shrinks (rd_raw_array rp)"
proof (rule shrinksI)
  fix inp d r assume *: "rd_raw_array rp inp = Some (d, r)"
  obtain t sz0 r0 where p: "read_container_params rp inp = Some ((t, sz0), r0)"
    using * by (auto simp: rd_raw_array_def split: bind_splits)
  obtain dims sz r1 where q: "read_dims rp t sz0 r0 = Some ((dims, sz), r1)"
    using * p by (auto simp: rd_raw_array_def split: bind_splits)
  have t: "t \<noteq> UBJ_NUM_TYPES" using * p q by (auto simp: rd_raw_array_def)
  consider ds where "read_until 0x5D (Suc (length r1)) (rp t) r1 = Some (ds, r)"
    | ds where "read_cells t sz r1 = Some (ds, r)"
    | ds where "read_many (unat sz) (rp t) r1 = Some (ds, r)"
    using * p q t
    by (auto simp: rd_raw_array_def simp del: read_until.simps split: if_splits bind_splits)
  then have "length r \<le> length r1"
    using assms by cases (auto simp: good_reader_def dest: read_cells_length
        shrinksD [OF read_until_shrinks] shrinksD [OF read_many_shrinks] simp del: read_until.simps)
  also have "\<dots> \<le> length r0" by (rule read_dims_length [OF assms q])
  also have "\<dots> \<le> length inp" by (rule read_container_params_length(1) [OF assms p])
  finally show "length r \<le> length inp" .
qed

lemma rd_raw_object_shrinks:
  assumes "good_reader rp"
  shows "shrinks (rd_raw_object rp)"
proof (rule shrinksI)
  fix inp d r assume *: "rd_raw_object rp inp = Some (d, r)"
  obtain t sz r0 where p: "read_container_params rp inp = Some ((t, sz), r0)"
    using * by (auto simp: rd_raw_object_def split: bind_splits)
  have t: "t \<noteq> UBJ_NUM_TYPES" using * p by (auto simp: rd_raw_object_def)
  consider ds where "read_until 0x7D (Suc (length r0)) (rd_field rp t) r0 = Some (ds, r)"
    | ds where "read_many (unat sz) (rd_field rp t) r0 = Some (ds, r)"
    using * p t
    by (auto simp: rd_raw_object_def simp del: read_until.simps split: if_splits bind_splits)
  then have "length r \<le> length r0"
    using rd_field_shrinks [OF assms]
    by cases (auto dest: shrinksD [OF read_until_shrinks] shrinksD [OF read_many_shrinks]
        simp del: read_until.simps)
  also have "\<dots> \<le> length inp" by (rule read_container_params_length(1) [OF assms p])
  finally show "length r \<le> length inp" .
qed

lemma read_to_ptr_good:
  assumes "good_reader rp"
  shows "good_reader (read_to_ptr rp)"
  unfolding good_reader_def
proof (intro allI shrinksI)
  fix t inp d r assume "read_to_ptr rp t inp = Some (d, r)"
  then show "length r \<le> length inp"
    using rd_dynamic_length [OF assms] rd_integer_length [OF assms]
      shrinksD [OF rd_raw_array_shrinks [OF assms]] shrinksD [OF rd_raw_object_shrinks [OF assms]]
    by (cases t) (fastforce simp: read_to_ptr_def split: bind_splits dest!: read_lengths)+
qed

lemma rd_ptr_good [simp]: "good_reader (rd_ptr f)"
  by (induction f) (auto simp: read_to_ptr_good, simp add: good_reader_def shrinks_def)

section \<open>Enough fuel\<close>

text \<open>Readers that agree on shorter inputs read the same containers.\<close>

definition agree :: "reader \<Rightarrow> reader \<Rightarrow> nat \<Rightarrow> bool" where
  "agree rp rp' n \<longleftrightarrow> (\<forall>t inp. length inp < n \<longrightarrow> rp t inp = rp' t inp)"

lemma agreeD: "agree rp rp' n \<Longrightarrow> length inp < n \<Longrightarrow> rp t inp = rp' t inp"
  by (simp add: agree_def)

lemma agree_mono: "agree rp rp' n \<Longrightarrow> m \<le> n \<Longrightarrow> agree rp rp' m"
  by (auto simp: agree_def)

lemma rd_dynamic_cong: "agree rp rp' (length inp) \<Longrightarrow> rd_dynamic rp inp = rd_dynamic rp' inp"
  by (cases inp) (auto simp: rd_dynamic_def agree_def)

lemma rd_integer_cong: "agree rp rp' (length inp) \<Longrightarrow> rd_integer rp inp = rd_integer rp' inp"
  unfolding rd_integer_def by (simp only: rd_dynamic_cong)

lemma container_size_cong:
  assumes "agree rp rp' (length inp)"
  shows "container_size rp u inp = container_size rp' u inp"
proof (cases inp)
  case (Cons c r)
  with assms have "agree rp rp' (length r)" by (auto elim: agree_mono)
  then have "rd_integer rp r = rd_integer rp' r" by (rule rd_integer_cong)
  with Cons show ?thesis by (simp add: container_size_def)
qed (simp add: container_size_def)

lemma read_container_params_cong:
  assumes "agree rp rp' (length inp)"
  shows "read_container_params rp inp = read_container_params rp' inp"
proof (cases inp)
  case (Cons c r)
  have "container_size rp u r' = container_size rp' u r'" if "length r' \<le> length inp" for u r'
    by (rule container_size_cong [OF agree_mono [OF assms that]])
  then show ?thesis
    by (cases r) (auto simp: read_container_params_def Cons)
qed (simp add: read_container_params_def)

lemma read_dims_cong:
  assumes "good_reader rp" and "agree rp rp' (length inp)"
  shows "read_dims rp u sz inp = read_dims rp' u sz inp"
proof (cases inp)
  case (Cons c r)
  have "read_many k (rd_integer rp) r' = read_many k (rd_integer rp') r'"
    if "length r' \<le> length inp" for k r'
    using that assms
    by (intro read_many_cong rd_integer_shrinks rd_integer_cong) (auto elim: agree_mono)
  then show ?thesis
    by (cases r) (auto simp: read_dims_def Cons)
qed (simp add: read_dims_def)

lemma read_many_elem_cong:
  assumes "good_reader rp" and "\<And>r. length r \<le> length inp \<Longrightarrow> rp t r = rp' t r"
  shows "read_many n (rp t) inp = read_many n (rp' t) inp"
    and "read_until c k (rp t) inp = read_until c k (rp' t) inp"
  using assms by (auto intro!: read_many_cong read_until_cong simp: good_reader_def)

lemma rd_raw_array_cong:
  assumes good: "good_reader rp" and ag: "agree rp rp' (length inp)"
    and mixed: "\<And>r. length r \<le> length inp \<Longrightarrow> rp UBJ_MIXED r = rp' UBJ_MIXED r"
  shows "rd_raw_array rp inp = rd_raw_array rp' inp"
proof (cases "read_container_params rp inp")
  case None
  then show ?thesis
    using read_container_params_cong [OF ag] by (simp add: rd_raw_array_def)
next
  case (Some p)
  obtain t sz0 r0 where p: "p = ((t, sz0), r0)" by (metis prod.collapse)
  from Some p have p: "read_container_params rp inp = Some ((t, sz0), r0)" by simp
  have r0: "length r0 \<le> length inp" "t \<noteq> UBJ_MIXED \<Longrightarrow> length r0 + 2 \<le> length inp"
    using read_container_params_length [OF good p] by auto
  have dims: "read_dims rp t sz0 r0 = read_dims rp' t sz0 r0"
    by (rule read_dims_cong [OF good agree_mono [OF ag r0(1)]])
  have elem: "rp t r = rp' t r" if "length r \<le> length r0" for r
    using that r0 mixed [of r] agreeD [OF ag, of r] by (cases "t = UBJ_MIXED") auto
  have loops: "read_until c k (rp t) r1 = read_until c k (rp' t) r1"
      "read_many n (rp t) r1 = read_many n (rp' t) r1"
    if "read_dims rp' t sz0 r0 = Some (q, r1)" for c k n q r1
    using read_dims_length [OF good, of t sz0 r0] that dims elem
    by (auto intro!: read_many_elem_cong [OF good])
  show ?thesis
    using p read_container_params_cong [OF ag] loops
    by (cases "read_dims rp' t sz0 r0")
      (auto simp: rd_raw_array_def dims simp del: read_until.simps)
qed

lemma rd_field_cong:
  assumes "good_reader rp"
    and "\<And>r. length r \<le> length inp \<Longrightarrow> rp UBJ_STRING r = rp' UBJ_STRING r"
    and "\<And>r. length r \<le> length inp \<Longrightarrow> rp t r = rp' t r"
  shows "rd_field rp t inp = rd_field rp' t inp"
proof (cases "rp' UBJ_STRING inp")
  case (Some p)
  obtain k r where "p = (k, r)" by (cases p)
  with Some good_readerD [OF assms(1), of UBJ_STRING inp k r] assms(2) [of inp]
  have "length r \<le> length inp" by simp
  with assms(2,3) Some \<open>p = (k, r)\<close> show ?thesis by (simp add: rd_field_def)
qed (simp add: rd_field_def assms(2))

lemma rd_raw_object_cong:
  assumes good: "good_reader rp" and ag: "agree rp rp' (length inp)"
    and elem: "\<And>t r. t \<in> {UBJ_MIXED, UBJ_STRING} \<Longrightarrow> length r \<le> length inp \<Longrightarrow> rp t r = rp' t r"
  shows "rd_raw_object rp inp = rd_raw_object rp' inp"
proof (cases "read_container_params rp inp")
  case None
  then show ?thesis
    using read_container_params_cong [OF ag] by (simp add: rd_raw_object_def)
next
  case (Some p)
  obtain t sz0 r0 where p: "p = ((t, sz0), r0)" by (metis prod.collapse)
  from Some p have p: "read_container_params rp inp = Some ((t, sz0), r0)" by simp
  have r0: "length r0 \<le> length inp" "t \<noteq> UBJ_MIXED \<Longrightarrow> length r0 + 2 \<le> length inp"
    using read_container_params_length [OF good p] by auto
  have t: "rp t r = rp' t r" if "length r \<le> length r0" for r
    using that r0 elem [of t r] agreeD [OF ag, of r] by (cases "t = UBJ_MIXED") auto
  have s: "rp UBJ_STRING r = rp' UBJ_STRING r" if "length r \<le> length r0" for r
    using that r0(1) by (intro elem) auto
  have "rd_field rp t r = rd_field rp' t r" if "length r \<le> length r0" for r
    using that by (intro rd_field_cong good s t) auto
  then have "read_until c k (rd_field rp t) r0 = read_until c k (rd_field rp' t) r0"
    "read_many n (rd_field rp t) r0 = read_many n (rd_field rp' t) r0" for c k n
    by (auto intro!: read_many_cong read_until_cong rd_field_shrinks good)
  then show ?thesis
    using p read_container_params_cong [OF ag]
    by (simp add: rd_raw_object_def del: read_until.simps)
qed

text \<open>What a type needs: containers one level more than the rest.\<close>

definition need :: "ubj_type \<Rightarrow> nat \<Rightarrow> nat" where
  "need t n = (if t = UBJ_ARRAY \<or> t = UBJ_OBJECT then 2 * n + 2 else 2 * n + 1)"

lemma rd_ptr_stable: "need t (length inp) \<le> f \<Longrightarrow> rd_ptr f t inp = rd_ptr (Suc f) t inp"
proof (induction f arbitrary: t inp)
  case 0
  then show ?case by (simp add: need_def split: if_splits)
next
  case (Suc f)
  have ag: "agree (rd_ptr f) (rd_ptr (Suc f)) (length inp)"
    unfolding agree_def using Suc.prems by (auto simp del: rd_ptr.simps intro!: Suc.IH
        simp: need_def split: if_splits)
  have same: "rd_ptr f u r = rd_ptr (Suc f) u r"
    if "t \<in> {UBJ_ARRAY, UBJ_OBJECT}" "u \<notin> {UBJ_ARRAY, UBJ_OBJECT}" "length r \<le> length inp" for u r
    using Suc.prems that by (intro Suc.IH) (auto simp: need_def)
  have "read_to_ptr (rd_ptr f) t inp = read_to_ptr (rd_ptr (Suc f)) t inp"
  proof (cases "t \<in> {UBJ_ARRAY, UBJ_OBJECT}")
    case True
    then have "rd_raw_array (rd_ptr f) inp = rd_raw_array (rd_ptr (Suc f)) inp"
      by (intro rd_raw_array_cong ag rd_ptr_good same) auto
    moreover from True have "rd_raw_object (rd_ptr f) inp = rd_raw_object (rd_ptr (Suc f)) inp"
      by (intro rd_raw_object_cong ag rd_ptr_good same) auto
    ultimately show ?thesis
      using True by (auto simp: read_to_ptr_def simp del: rd_ptr.simps)
  next
    case False
    then show ?thesis
      using rd_dynamic_cong [OF ag] rd_integer_cong [OF ag]
      by (cases t) (simp_all add: read_to_ptr_def del: rd_ptr.simps)
  qed
  then show ?case by (simp only: rd_ptr.simps)
qed

lemma rd_ptr_fuel:
  assumes "need t (length inp) \<le> f" and "f \<le> g"
  shows "rd_ptr g t inp = rd_ptr f t inp"
  using assms(2)
proof (induction rule: dec_induct)
  case (step n)
  with rd_ptr_stable [of t inp n] assms(1) show ?case by simp
qed simp

lemma rd_dynamic_fuel:
  assumes "2 * length inp \<le> f"
  shows "rd_dynamic (rd_ptr f) inp = ubjr_read_dynamic inp"
proof -
  have "rd_ptr f t r = rd_ptr (2 * length inp + 2) t r" if "length r < length inp" for t r
  proof -
    have "need t (length r) \<le> 2 * length inp" using that by (auto simp: need_def)
    from rd_ptr_fuel [OF this assms] rd_ptr_fuel [OF this le_add1] show ?thesis
      by (rule trans [OF _ sym])
  qed
  then show ?thesis
    unfolding ubjr_read_dynamic_def by (intro rd_dynamic_cong) (simp add: agree_def)
qed

section \<open>The fast path for cells\<close>

text \<open>The size of a type's cells; the types the block read is meant for.\<close>

definition cell_size :: "ubj_type \<Rightarrow> nat" where
  "cell_size t = (case UBJI_TYPE_size t of Some k \<Rightarrow> nat k | None \<Rightarrow> 0)"

definition scalar_cells :: "ubj_type set" where
  "scalar_cells = {UBJ_NULLTYPE, UBJ_NOOP, UBJ_BOOL_TRUE, UBJ_BOOL_FALSE, UBJ_INT8, UBJ_UINT8,
     UBJ_INT16, UBJ_INT32, UBJ_INT64, UBJ_FLOAT32, UBJ_FLOAT64}"

lemma cells_append:
  "cells_to_dynamic t k (Suc n) (c @ cells) =
    (if length c = k then do {
       d \<leftarrow> pointer_to_dynamic t (c @ cells);
       ds \<leftarrow> cells_to_dynamic t k n cells;
       Some (d # ds) }
     else cells_to_dynamic t k (Suc n) (c @ cells))"
  by simp

text \<open>One element of the slow path against one cell of the fast path.\<close>

lemma scalar_step:
  assumes "t \<in> scalar_cells"
  shows "rd_ptr (Suc f) t inp =
    (if length inp < cell_size t then None
     else map_option (\<lambda>d. (d, drop (cell_size t) inp))
            (pointer_to_dynamic t (rev (take (cell_size t) inp) @ more)))"
proof -
  consider "cell_size t = 0" | "cell_size t = 1" | "cell_size t = 2" | "cell_size t = 4"
    | "cell_size t = 8"
    using assms by (auto simp: scalar_cells_def cell_size_def)
  then show ?thesis
  proof cases
    case 1
    with assms show ?thesis
      by (auto simp: scalar_cells_def cell_size_def read_to_ptr_def pointer_to_dynamic_def)
  next
    case 2
    with assms show ?thesis
      by (cases inp)
        (auto simp: scalar_cells_def cell_size_def read_to_ptr_def pointer_to_dynamic_def)
  next
    case 3
    with assms show ?thesis
      by (cases inp rule: le_load16.cases)
        (auto simp: scalar_cells_def cell_size_def read_to_ptr_def pointer_to_dynamic_def
          read_2b_def numeral_eq_Suc)
  next
    case 4
    with assms show ?thesis
      by (cases inp rule: le_load32.cases)
        (auto simp: scalar_cells_def cell_size_def read_to_ptr_def pointer_to_dynamic_def
          read_2b_def read_4b_def numeral_eq_Suc)
  next
    case 5
    with assms show ?thesis
      by (cases inp rule: le_load64.cases)
        (auto simp: scalar_cells_def cell_size_def read_to_ptr_def pointer_to_dynamic_def
          read_2b_def read_4b_def read_8b_def numeral_eq_Suc)
  qed
qed

lemma pointer_to_dynamic_scalar:
  "t \<in> scalar_cells \<Longrightarrow> cell_size t \<le> length cell \<Longrightarrow> \<exists>d. pointer_to_dynamic t (cell @ more) = Some d"
  using scalar_step [of t 0 "rev cell"]
  by (auto simp: scalar_cells_def cell_size_def pointer_to_dynamic_def neq_Nil_conv Suc_le_length_iff
      dest!: length_2E length_4E length_8E)

lemma read_many_cells:
  assumes "t \<in> scalar_cells"
  shows "read_many n (rd_ptr (Suc f) t) inp =
    (if length inp < cell_size t * n then None
     else map_option (\<lambda>ds. (ds, drop (cell_size t * n) inp))
       (cells_to_dynamic t (cell_size t) n
         (rev_cells (cell_size t) n (take (cell_size t * n) inp))))"
proof (induction n arbitrary: inp)
  case 0
  then show ?case by simp
next
  case (Suc n)
  let ?k = "cell_size t"
  show ?case
  proof (cases "length inp < ?k * Suc n")
    case False
    then have len: "?k \<le> length inp" "?k * n \<le> length (drop ?k inp)" by auto
    let ?tail = "rev_cells ?k n (take (?k * n) (drop ?k inp))"
    have tk: "take (?k * Suc n) inp = take ?k inp @ take (?k * n) (drop ?k inp)"
      by (simp add: take_add)
    have rc: "rev_cells ?k (Suc n) (take (?k * Suc n) inp) = rev (take ?k inp) @ ?tail"
      using len(1) unfolding tk by simp
    obtain d where d: "pointer_to_dynamic t (rev (take ?k inp) @ ?tail) = Some d"
      using pointer_to_dynamic_scalar [OF assms, of "rev (take ?k inp)"] len(1) by auto
    have one: "rd_ptr (Suc f) t inp = Some (d, drop ?k inp)"
      using scalar_step [OF assms, of f inp ?tail] len(1) d by simp
    have "cells_to_dynamic t ?k (Suc n) (rev (take ?k inp) @ ?tail) =
        map_option ((#) d) (cells_to_dynamic t ?k n ?tail)"
      using len(1) d by (cases "cells_to_dynamic t ?k n ?tail") simp_all
    then show ?thesis
      using False len(2) Suc.IH [of "drop ?k inp"]
      unfolding rc read_many.simps(2) one
      by (cases "cells_to_dynamic t ?k n ?tail") (simp_all add: add.commute)
  next
    case True
    show ?thesis
    proof (cases "length inp < ?k")
      case True
      then show ?thesis
        using scalar_step [OF assms, of f inp "[]"] by (simp del: rd_ptr.simps)
    next
      case False
      with True have "length (drop ?k inp) < ?k * n" by simp
      with Suc.IH [of "drop ?k inp"] have "read_many n (rd_ptr (Suc f) t) (drop ?k inp) = None"
        by (simp del: rd_ptr.simps)
      with True show ?thesis
        using scalar_step [OF assms, of f inp "[]"] False
        by (cases "pointer_to_dynamic t (rev (take ?k inp))") (simp_all del: rd_ptr.simps)
    qed
  qed
qed

text \<open>
  The block read and byte swap deliver exactly what reading the elements one by one delivers.
\<close>

lemma read_cells_eq_read_many:
  assumes "t \<in> scalar_cells"
  shows "read_cells t n inp = read_many (unat n) (rd_ptr (Suc f) t) inp"
proof -
  have sz: "UBJI_TYPE_size t = Some (int (cell_size t))" "cell_size t \<in> {0, 1, 2, 4, 8}"
    using assms by (auto simp: scalar_cells_def cell_size_def)
  show ?thesis
    unfolding read_many_cells [OF assms] read_cells_def sz(1)
    using buf_endian_swap_rev [OF sz(2), of "unat n" "take (cell_size t * unat n) inp"]
    by (auto simp del: rd_ptr.simps split: bind_splits option.splits)
qed

section \<open>Correctness of the lookup\<close>

lemma bsearch_key_Some:
  "bsearch_key tab k l u = Some v \<Longrightarrow> u \<le> length tab \<Longrightarrow>
    \<exists>i. l \<le> i \<and> i < u \<and> c_str (fst (tab ! i)) = k \<and> v = snd (tab ! i)"
proof (induction tab k l u rule: bsearch_key.induct)
  case (1 tab k l u)
  let ?i = "(l + u) div 2" let ?x = "c_str (fst (tab ! ?i))"
  from "1.prems"(1) have lu: "l < u" by (simp add: bsearch_key.simps [of tab k l u] split: if_splits)
  with "1.prems"(1) consider (lo) "k < ?x" "bsearch_key tab k l ?i = Some v"
    | (hi) "\<not> k < ?x" "?x < k" "bsearch_key tab k (?i + 1) u = Some v"
    | (eq) "k = ?x" "v = snd (tab ! ?i)"
    by (simp add: bsearch_key.simps [of tab k l u] Let_def split: if_splits)
  moreover have "?i < u" using lu by linarith
  ultimately show ?case
  proof cases
    case lo
    have "?i \<le> length tab" using \<open>?i < u\<close> "1.prems"(2) by linarith
    with "1.IH"(1) [OF lu refl refl lo] obtain i where
      "l \<le> i" "i < ?i" "c_str (fst (tab ! i)) = k" "v = snd (tab ! i)" by blast
    with lu show ?thesis by (intro exI [of _ i]) auto
  next
    case hi
    then obtain i where "?i + 1 \<le> i" "i < u" "c_str (fst (tab ! i)) = k" "v = snd (tab ! i)"
      using "1.IH"(2) [OF lu refl refl hi] "1.prems"(2) by auto
    with lu show ?thesis by (intro exI [of _ i]) auto
  next
    case eq
    with lu show ?thesis by (intro exI [of _ ?i]) auto
  qed
qed

lemma bsearch_key_None:
  assumes "sorted (map (\<lambda>kv. c_str (fst kv)) tab)"
  shows "bsearch_key tab k l u = None \<Longrightarrow> u \<le> length tab \<Longrightarrow> l \<le> i \<Longrightarrow> i < u \<Longrightarrow>
    c_str (fst (tab ! i)) \<noteq> k"
  using assms
proof (induction tab k l u rule: bsearch_key.induct)
  case (1 tab k l u)
  let ?i = "(l + u) div 2" let ?x = "c_str (fst (tab ! ?i))"
  from "1.prems" have lu: "l < u" by simp
  then have iu: "?i < u" by linarith
  with "1.prems"(2) have il: "?i < length tab" by linarith
  have mono: "c_str (fst (tab ! a)) \<le> c_str (fst (tab ! b))" if "a \<le> b" "b < length tab" for a b
    using sorted_nth_mono [OF "1.prems"(5), of a b] that by simp
  from "1.prems"(1) lu consider (lo) "k < ?x" "bsearch_key tab k l ?i = None"
    | (hi) "\<not> k < ?x" "?x < k" "bsearch_key tab k (?i + 1) u = None"
    by (simp add: bsearch_key.simps [of tab k l u] Let_def split: if_splits)
  then show ?case
  proof cases
    case lo
    show ?thesis
    proof (cases "i < ?i")
      case True
      then show ?thesis
        using "1.IH"(1) [OF lu refl refl lo] "1.prems" lu by auto
    next
      case False
      with mono [of ?i i] lo(1) "1.prems" show ?thesis by auto
    qed
  next
    case hi
    show ?thesis
    proof (cases "?i + 1 \<le> i")
      case True
      then show ?thesis
        using "1.IH"(2) [OF lu refl refl hi] "1.prems" by auto
    next
      case False
      with mono [of i ?i] hi(2) il show ?thesis by auto
    qed
  qed
qed

text \<open>
  The lookup finds a value stored under the key exactly when there is one; with distinct keys
  it is the value of the association list.
\<close>

lemma object_lookup_sound:
  assumes "object_lookup kvs key = Some v"
  shows "\<exists>k. (k, v) \<in> set kvs \<and> c_str k = c_str key"
proof -
  let ?tab = "build_sorted_keys kvs"
  have len: "length kvs = length ?tab" by (simp add: build_sorted_keys_def)
  from bsearch_key_Some [OF assms [unfolded object_lookup_def]] obtain i where
    "i < length ?tab" "c_str (fst (?tab ! i)) = c_str key" "v = snd (?tab ! i)"
    by (auto simp: len)
  moreover from this(1) have "?tab ! i \<in> set ?tab" by (rule nth_mem)
  ultimately show ?thesis
    by (intro exI [of _ "fst (?tab ! i)"]) (auto simp: build_sorted_keys_def)
qed

lemma object_lookup_complete:
  assumes "object_lookup kvs key = None"
  shows "\<forall>(k, v) \<in> set kvs. c_str k \<noteq> c_str key"
proof -
  let ?tab = "build_sorted_keys kvs"
  have len: "length kvs = length ?tab" by (simp add: build_sorted_keys_def)
  have "sorted (map (\<lambda>kv. c_str (fst kv)) ?tab)"
    by (simp add: build_sorted_keys_def)
  from bsearch_key_None [OF this assms [unfolded object_lookup_def]]
  have "\<forall>i < length ?tab. c_str (fst (?tab ! i)) \<noteq> c_str key"
    by (simp add: len)
  then have "\<forall>x \<in> set ?tab. c_str (fst x) \<noteq> c_str key"
    by (metis in_set_conv_nth)
  then show ?thesis by (auto simp: build_sorted_keys_def)
qed

lemma object_lookup_distinct:
  assumes "distinct (map (\<lambda>kv. c_str (fst kv)) kvs)" and "(k, v) \<in> set kvs"
  shows "object_lookup kvs k = Some v"
proof (cases "object_lookup kvs k")
  case None
  with object_lookup_complete assms(2) show ?thesis by fastforce
next
  case (Some w)
  from object_lookup_sound [OF this] obtain a where a: "(a, w) \<in> set kvs" "c_str a = c_str k"
    by blast
  have "inj_on (\<lambda>kv. c_str (fst kv)) (set kvs)"
    using assms(1) by (simp add: distinct_map)
  from inj_onD [OF this _ a(1) assms(2)] a(2) have "w = v" by auto
  with Some show ?thesis by simp
qed

end
