(* ===== verification/UBJ_Cleanup.thy ===== *)
theory UBJ_Cleanup
  imports UBJ_Read "HOL-Library.Multiset"
begin

text \<open>
  The cleanup functions of \<^verbatim>\<open>ubjr.c\<close>.  A block of memory is named by the position of the
  value it belongs to: the list of the indices that lead to the value, innermost first.
  \<open>lk\<close> says which objects have been looked up in, so that they have a sorted key table.
\<close>

section \<open>Blocks\<close>

datatype block =
    Text ubj_type "nat list"
  | Values "nat list"
  | Dims "nat list"
  | Keys "nat list"
  | KeyText "nat list" nat
  | Sorted "nat list"

lemma size_values: "size_list (size \<circ> snd) kvs \<le> size_list (size_prod (\<lambda>_. 0) size) kvs"
  by (induction kvs) auto

text \<open>What a value that was read, and looked up in, holds.\<close>

function (sequential) value_blocks :: "(nat list \<Rightarrow> bool) \<Rightarrow> nat list \<Rightarrow> dyn \<Rightarrow> block list"
  and elem_blocks :: "(nat list \<Rightarrow> bool) \<Rightarrow> nat list \<Rightarrow> nat \<Rightarrow> dyn list \<Rightarrow> block list" where
  "value_blocks lk p (DStr t _) = [Text t p]"
| "value_blocks lk p (DArr _ _ ds _) = elem_blocks lk p 0 ds @ [Values p, Dims p]"
| "value_blocks lk p (DObj _ _ kvs) =
     elem_blocks lk p 0 (map snd kvs) @ [Values p]
     @ map (KeyText p) [0..<length kvs] @ [Keys p] @ (if lk p then [Sorted p] else [])"
| "value_blocks lk p _ = []"
| "elem_blocks lk p i [] = []"
| "elem_blocks lk p i (d # ds) = value_blocks lk (i # p) d @ elem_blocks lk p (Suc i) ds"
  by pat_completeness auto
termination
  by (relation "measure (case_sum (\<lambda>(_, _, d). 2 * size d) (\<lambda>(_, _, _, ds). 2 * size_list size ds + 1))")
    (auto simp: less_Suc_eq_le size_values)

section \<open>Freeing\<close>

text \<open>
  \<^verbatim>\<open>priv_ubjr_cleanup_pointer\<close>: the inner switch of a value that carries its own type is the
  outer one on that type.  \<^const>\<open>None\<close> is a cell read as what it is not.
\<close>

function (sequential) cleanup_pointer ::
    "(nat list \<Rightarrow> bool) \<Rightarrow> ubj_type \<Rightarrow> nat list \<Rightarrow> dyn \<Rightarrow> block list option"
  and cleanup_container :: "(nat list \<Rightarrow> bool) \<Rightarrow> ubj_type \<Rightarrow> nat list \<Rightarrow> dyn list \<Rightarrow> block list option"
  and cleanup_cells ::
    "(nat list \<Rightarrow> bool) \<Rightarrow> ubj_type \<Rightarrow> nat list \<Rightarrow> nat \<Rightarrow> dyn list \<Rightarrow> block list option" where
  "cleanup_pointer lk t p d =
     (case if t = UBJ_MIXED then dyn_type d else t of
        UBJ_STRING \<Rightarrow> (case d of DStr u _ \<Rightarrow> Some [Text u p] | _ \<Rightarrow> None)
      | UBJ_ARRAY \<Rightarrow>
          (case d of
             DArr _ u ds _ \<Rightarrow> do { bs \<leftarrow> cleanup_container lk u p ds; Some (bs @ [Dims p]) }
           | _ \<Rightarrow> None)
      | UBJ_OBJECT \<Rightarrow>
          (case d of
             DObj _ u kvs \<Rightarrow> do {
               bs \<leftarrow> cleanup_container lk u p (map snd kvs);
               Some (bs @ map (KeyText p) [0..<length kvs] @ [Keys p] @ (if lk p then [Sorted p] else [])) }
           | _ \<Rightarrow> None)
      | _ \<Rightarrow> Some [])"
| "cleanup_container lk t p ds =
     map_option (\<lambda>bs. bs @ [Values p])
       (if t \<in> {UBJ_MIXED, UBJ_ARRAY, UBJ_OBJECT, UBJ_STRING} then cleanup_cells lk t p 0 ds else Some [])"
| "cleanup_cells lk t p i [] = Some []"
| "cleanup_cells lk t p i (d # ds) = do {
     bs \<leftarrow> cleanup_pointer lk t (i # p) d;
     bs' \<leftarrow> cleanup_cells lk t p (Suc i) ds;
     Some (bs @ bs') }"
  by pat_completeness auto
termination
  by (relation "measure (case_sum (\<lambda>(_, _, _, d). 3 * size d)
      (case_sum (\<lambda>(_, _, _, ds). 3 * size_list size ds + 2) (\<lambda>(_, _, _, _, ds). 3 * size_list size ds + 1)))")
    (auto simp: less_Suc_eq_le size_values)

declare cleanup_pointer.simps [simp del] cleanup_container.simps [simp del]

definition ubjr_cleanup_dynamic :: "(nat list \<Rightarrow> bool) \<Rightarrow> dyn \<Rightarrow> block list option" where
  "ubjr_cleanup_dynamic lk d = cleanup_pointer lk UBJ_MIXED [] d"

definition ubjr_cleanup_array :: "(nat list \<Rightarrow> bool) \<Rightarrow> dyn \<Rightarrow> block list option" where
  "ubjr_cleanup_array lk d = cleanup_pointer lk UBJ_ARRAY [] d"

definition ubjr_cleanup_object :: "(nat list \<Rightarrow> bool) \<Rightarrow> dyn \<Rightarrow> block list option" where
  "ubjr_cleanup_object lk d = cleanup_pointer lk UBJ_OBJECT [] d"

section \<open>What is read has its type\<close>

text \<open>A cell of a container of type \<open>t\<close>; the type \<^const>\<open>UBJ_MIXED\<close> fits all.\<close>

definition fits :: "ubj_type \<Rightarrow> dyn \<Rightarrow> bool" where
  "fits t d \<longleftrightarrow> t = UBJ_MIXED \<or> dyn_type d = t"

fun dyn_wf :: "dyn \<Rightarrow> bool" where
  "dyn_wf (DVoid t) \<longleftrightarrow> t \<notin> {UBJ_STRING, UBJ_HIGH_PRECISION, UBJ_CHAR, UBJ_ARRAY, UBJ_OBJECT}"
| "dyn_wf (DInt t _) \<longleftrightarrow> t \<notin> {UBJ_STRING, UBJ_HIGH_PRECISION, UBJ_CHAR, UBJ_ARRAY, UBJ_OBJECT}"
| "dyn_wf (DStr t _) \<longleftrightarrow> t \<in> {UBJ_STRING, UBJ_HIGH_PRECISION, UBJ_CHAR}"
| "dyn_wf (DArr _ t ds _) \<longleftrightarrow> (\<forall>d \<in> set ds. fits t d \<and> dyn_wf d)"
| "dyn_wf (DObj _ t kvs) \<longleftrightarrow> (\<forall>d \<in> snd ` set kvs. fits t d \<and> dyn_wf d)"
| "dyn_wf _ \<longleftrightarrow> True"

definition cell :: "ubj_type \<Rightarrow> dyn \<Rightarrow> bool" where
  "cell t d \<longleftrightarrow> fits t d \<and> dyn_wf d"

lemma cell_containers [simp]:
  "cell UBJ_ARRAY (DArr b t ds xs) \<longleftrightarrow> (\<forall>d \<in> set ds. cell t d)"
  "cell UBJ_OBJECT (DObj b t kvs) \<longleftrightarrow> (\<forall>d \<in> snd ` set kvs. cell t d)"
  by (simp_all add: cell_def fits_def)

definition typed_reader :: "reader \<Rightarrow> bool" where
  "typed_reader rp \<longleftrightarrow> (\<forall>t inp d r. rp t inp = Some (d, r) \<longrightarrow> cell t d)"

lemma typed_readerD: "typed_reader rp \<Longrightarrow> rp t inp = Some (d, r) \<Longrightarrow> cell t d"
  by (auto simp: typed_reader_def)

lemma read_many_all:
  assumes "\<And>i x r. f i = Some (x, r) \<Longrightarrow> P x" and "read_many n f inp = Some (xs, r)" and "y \<in> set xs"
  shows "P y"
  using assms(2,3) by (induction n arbitrary: inp xs) (auto split: bind_splits dest!: assms(1))

lemma read_until_all:
  assumes "\<And>i x r. f i = Some (x, r) \<Longrightarrow> P x" and "read_until c n f inp = Some (xs, r)" and "y \<in> set xs"
  shows "P y"
  using assms(2,3)
  by (induction n arbitrary: inp xs) (auto split: bind_splits list.splits if_splits dest!: assms(1))

lemma typed_cells:
  assumes "typed_reader rp"
  shows "read_many n (rp t) inp = Some (ds, r) \<Longrightarrow> \<forall>d \<in> set ds. cell t d"
    and "read_until c n (rp t) inp = Some (ds, r) \<Longrightarrow> \<forall>d \<in> set ds. cell t d"
  by (auto elim!: read_many_all [rotated] read_until_all [rotated] intro: typed_readerD [OF assms])

lemma rd_field_typed: "typed_reader rp \<Longrightarrow> rd_field rp t inp = Some (kv, r) \<Longrightarrow> cell t (snd kv)"
  by (auto simp: rd_field_def split: bind_splits) (erule (1) typed_readerD)

lemma typed_fields:
  assumes "typed_reader rp"
  shows "read_many n (rd_field rp t) inp = Some (kvs, r) \<Longrightarrow> \<forall>kv \<in> set kvs. cell t (snd kv)"
    and "read_until c n (rd_field rp t) inp = Some (kvs, r) \<Longrightarrow> \<forall>kv \<in> set kvs. cell t (snd kv)"
  by (auto elim!: read_many_all [rotated] read_until_all [rotated] intro: rd_field_typed [OF assms])

definition opaque :: "ubj_type set" where
  "opaque = {UBJ_STRING, UBJ_HIGH_PRECISION, UBJ_CHAR, UBJ_MIXED, UBJ_ARRAY, UBJ_OBJECT}"

lemma pointer_to_dynamic_typed: "pointer_to_dynamic t c = Some d \<Longrightarrow> t \<notin> opaque \<Longrightarrow> cell t d"
  by (cases t) (auto simp: pointer_to_dynamic_def cell_def fits_def opaque_def split: list.splits)

lemma read_cells_typed:
  assumes "read_cells t n inp = Some (ds, r)" and "fixed_cells t"
  shows "\<forall>d \<in> set ds. cell t d"
proof -
  have t: "t \<notin> opaque"
    using assms by (auto simp: read_cells_def fixed_cells_def opaque_def split: bind_splits)
  have "cells_to_dynamic t k m cells = Some xs \<Longrightarrow> \<forall>d \<in> set xs. cell t d" for k m cells xs
  proof (induction m arbitrary: cells xs)
    case (Suc m)
    then show ?case using pointer_to_dynamic_typed [OF _ t] by (auto split: bind_splits)
  qed simp
  with assms(1) show ?thesis by (auto simp: read_cells_def split: bind_splits if_splits)
qed

lemma rd_raw_array_typed:
  assumes "typed_reader rp" and "rd_raw_array rp inp = Some (d, r)"
  shows "cell UBJ_ARRAY d"
  using assms(2)
  by (auto simp: rd_raw_array_def simp del: read_until.simps split: bind_splits if_splits
      dest!: typed_cells [OF assms(1)] dest!: read_cells_typed)

lemma rd_raw_object_typed:
  assumes "typed_reader rp" and "rd_raw_object rp inp = Some (d, r)"
  shows "cell UBJ_OBJECT d"
  using assms(2)
  by (auto simp: rd_raw_object_def simp del: read_until.simps split: bind_splits if_splits
      dest!: typed_fields [OF assms(1)])

lemma cell_mixed: "cell t d \<Longrightarrow> cell UBJ_MIXED d"
  by (simp add: cell_def fits_def)

lemma read_to_ptr_typed:
  assumes "typed_reader rp"
  shows "typed_reader (read_to_ptr rp)"
  unfolding typed_reader_def
proof (intro allI impI)
  fix t inp d r assume "read_to_ptr rp t inp = Some (d, r)"
  moreover have "rd_dynamic rp inp = Some (d, r) \<Longrightarrow> cell UBJ_MIXED d"
    by (auto simp: rd_dynamic_def split: bind_splits dest!: typed_readerD [OF assms] intro: cell_mixed)
  ultimately show "cell t d"
    using rd_raw_array_typed [OF assms] rd_raw_object_typed [OF assms]
    by (cases t) (auto simp: read_to_ptr_def cell_def fits_def split: bind_splits)
qed

lemma rd_ptr_typed: "typed_reader (rd_ptr f)"
  by (induction f) (auto simp: read_to_ptr_typed, simp add: typed_reader_def)

theorem read_dynamic_typed: "ubjr_read_dynamic inp = Some (d, r) \<Longrightarrow> cell UBJ_MIXED d"
  by (auto simp: ubjr_read_dynamic_def rd_dynamic_def simp del: rd_ptr.simps split: bind_splits
      dest!: typed_readerD [OF rd_ptr_typed] intro: cell_mixed)

section \<open>What is freed\<close>

text \<open>Texts of high-precision numbers and of characters have no case in the cleanup.\<close>

definition is_freed :: "block \<Rightarrow> bool" where
  "is_freed b = (case b of Text t _ \<Rightarrow> t = UBJ_STRING | _ \<Rightarrow> True)"

lemma is_freed_simps [simp]:
  "is_freed (Text t p) \<longleftrightarrow> t = UBJ_STRING" "is_freed (Values p)" "is_freed (Dims p)" "is_freed (Keys p)"
  "is_freed (KeyText p i)" "is_freed (Sorted p)"
  by (simp_all add: is_freed_def)

abbreviation skipped :: "ubj_type \<Rightarrow> bool" where
  "skipped t \<equiv> t \<notin> {UBJ_MIXED, UBJ_ARRAY, UBJ_OBJECT, UBJ_STRING}"

lemma skipped_cells:
  "skipped t \<Longrightarrow> \<forall>d \<in> set ds. cell t d \<Longrightarrow> filter is_freed (elem_blocks lk p i ds) = []"
proof (induction ds arbitrary: i)
  case (Cons d ds)
  then show ?case by (cases d) (auto simp: cell_def fits_def)
qed simp

text \<open>The blocks of the cells, and the block they are in.\<close>

lemma cleanup_container_blocks:
  assumes "\<forall>d \<in> set ds. cell t d"
    and "\<exists>bs. cleanup_cells lk t p 0 ds = Some bs \<and> mset bs = mset (filter is_freed (elem_blocks lk p 0 ds))"
  shows "\<exists>bs. cleanup_container lk t p ds = Some bs
    \<and> mset bs = mset (filter is_freed (elem_blocks lk p 0 ds)) + {#Values p#}"
proof (cases "skipped t")
  case True
  from skipped_cells [OF this assms(1), of lk p 0] True show ?thesis
    by (simp only: cleanup_container.simps if_False) simp
next
  case False
  with assms(2) show ?thesis by (auto simp: cleanup_container.simps)
qed

lemma cleanup_values:
  "cell t d \<Longrightarrow>
     \<exists>bs. cleanup_pointer lk t p d = Some bs \<and> mset bs = mset (filter is_freed (value_blocks lk p d))"
  "\<forall>d \<in> set ds. cell t d \<Longrightarrow>
     \<exists>bs. cleanup_cells lk t p i ds = Some bs \<and> mset bs = mset (filter is_freed (elem_blocks lk p i ds))"
proof (induction lk p d and lk p i ds arbitrary: t and t rule: value_blocks_elem_blocks.induct)
  case (2 lk p b u ds xs)
  then have "\<forall>d \<in> set ds. cell u d" by (simp add: cell_def)
  from cleanup_container_blocks [OF this 2(1) [OF this]] 2(2) show ?case
    by (auto simp: cleanup_pointer.simps cell_def fits_def)
next
  case (3 lk p b u kvs)
  then have "\<forall>d \<in> set (map snd kvs). cell u d" by (simp add: cell_def)
  from cleanup_container_blocks [OF this 3(1) [OF this]] 3(2) show ?case
    by (auto simp: cleanup_pointer.simps cell_def fits_def filter_map comp_def)
next
  case (6 lk p i d ds)
  then show ?case by fastforce
qed (auto simp: cleanup_pointer.simps cell_def fits_def split: ubj_type.splits if_splits)

text \<open>No block has two owners, so nothing is freed twice.\<close>

definition block_path :: "block \<Rightarrow> nat list" where
  "block_path b = (case b of Text _ p \<Rightarrow> p | Values p \<Rightarrow> p | Dims p \<Rightarrow> p | Keys p \<Rightarrow> p | KeyText p _ \<Rightarrow> p | Sorted p \<Rightarrow> p)"

lemma block_paths:
  "b \<in> set (value_blocks lk p d) \<Longrightarrow> \<exists>q. block_path b = q @ p"
  "b \<in> set (elem_blocks lk p i ds) \<Longrightarrow> \<exists>q j. block_path b = q @ j # p \<and> i \<le> j"
proof (induction lk p d and lk p i ds rule: value_blocks_elem_blocks.induct)
  case (6 lk p i d ds)
  then show ?case by fastforce
qed (fastforce simp: block_path_def split: if_splits)+

lemma distinct_blocks: "distinct (value_blocks lk p d)" "distinct (elem_blocks lk p i ds)"
proof (induction lk p d and lk p i ds rule: value_blocks_elem_blocks.induct)
  case (2 lk p b u ds xs)
  have "block_path b' \<noteq> p" if "b' \<in> set (elem_blocks lk p 0 ds)" for b'
    using block_paths(2) [OF that] by auto
  with 2 show ?case by (fastforce simp: block_path_def)
next
  case (3 lk p b u kvs)
  have "block_path b' \<noteq> p" if "b' \<in> set (elem_blocks lk p 0 (map snd kvs))" for b'
    using block_paths(2) [OF that] by auto
  with 3 show ?case by (fastforce simp: block_path_def distinct_map inj_on_def)
next
  case (6 lk p i d ds)
  have False if "b \<in> set (value_blocks lk (i # p) d)" "b \<in> set (elem_blocks lk p (Suc i) ds)" for b
  proof -
    from block_paths(1) [OF that(1)] block_paths(2) [OF that(2)] obtain q q' j where
      "q @ i # p = q' @ j # p" "i < j" by auto
    then show False by (simp add: append_eq_append_conv2)
  qed
  with 6 show ?case by auto
qed simp_all

definition cleanup_input :: bytes where
  "cleanup_input = [0x5B, 0x53, 0x69, 2, 0x61, 0x62, 0x48, 0x69, 1, 0x31, 0x5D]"

lemma cleanup_input_read: "ubjr_read_dynamic cleanup_input = Some (DArr False UBJ_MIXED [DStr UBJ_STRING [0x61, 0x62],
    DStr UBJ_HIGH_PRECISION [0x31]] [2], [])"
  by code_simp

text \<open>C13. The cleanup of a value that was read frees each block of memory the value holds
  once and no other, except for the texts of high-precision numbers and characters, which it
  leaks; it never takes a cell for what it is not.\<close>

theorem cleanup_frees_what_was_read:
  assumes "ubjr_read_dynamic inp = Some (d, r)"
  shows "\<exists>bs. ubjr_cleanup_dynamic lk d = Some bs \<and> distinct bs
    \<and> set bs = {b \<in> set (value_blocks lk [] d). is_freed b}"
proof -
  from cleanup_values(1) [OF read_dynamic_typed [OF assms], of lk "[]"] obtain bs where
    bs: "ubjr_cleanup_dynamic lk d = Some bs" "mset bs = mset (filter is_freed (value_blocks lk [] d))"
    by (auto simp: ubjr_cleanup_dynamic_def)
  then have "distinct bs" using distinct_blocks(1) [of lk "[]" d] by (metis distinct_filter mset_eq_imp_distinct_iff)
  moreover have "set bs = {b \<in> set (value_blocks lk [] d). is_freed b}"
    using mset_eq_setD [OF bs(2)] by auto
  ultimately show ?thesis using bs(1) by blast
qed

theorem cleanup_frees_what_was_read_witness:
  "\<exists>bs. ubjr_cleanup_dynamic (\<lambda>_. False) (DArr False UBJ_MIXED [DStr UBJ_STRING [0x61, 0x62],
    DStr UBJ_HIGH_PRECISION [0x31]] [2]) = Some bs \<and> distinct bs
    \<and> set bs = {Text UBJ_STRING [0], Values [], Dims []}"
  using cleanup_frees_what_was_read [OF cleanup_input_read, of "\<lambda>_. False"] by (auto simp: is_freed_def)

end
