(* ===== verification/UBJ_Write.thy ===== *)
theory UBJ_Write
  imports UBJ_Types
begin

text \<open>
  \<^verbatim>\<open>src/ubj/ubjw.c\<close>: the streaming writer.  A context holds the stack of open
  containers (the list's head is \<^verbatim>\<open>ctx->head\<close>, its last element the base cell), the flag
  \<^verbatim>\<open>ignore_container_flags\<close> and everything handed to the write callback.  Operations
  are in the option type: \<^const>\<open>None\<close> for a table index out of range, a block read past its
  end, or a pop of the base cell.  A \<^verbatim>\<open>char*\<close> argument is the block it points to; the
  sources take its \<^verbatim>\<open>strlen\<close>, which is \<^const>\<open>c_str\<close>.
\<close>

definition CONTAINER_IS_SIZED :: byte where "CONTAINER_IS_SIZED = 0x1"
definition CONTAINER_IS_TYPED :: byte where "CONTAINER_IS_TYPED = 0x2"
definition CONTAINER_IS_UBJ_ARRAY :: byte where "CONTAINER_IS_UBJ_ARRAY = 0x4"
definition CONTAINER_IS_UBJ_OBJECT :: byte where "CONTAINER_IS_UBJ_OBJECT = 0x8"
definition CONTAINER_EXPECTS_KEY :: byte where "CONTAINER_EXPECTS_KEY = 0x10"
definition CONTAINER_STACK_MAX :: nat where "CONTAINER_STACK_MAX = 64"
definition BUFFER_OUT_SIZE :: nat where "BUFFER_OUT_SIZE = 1024"

lemmas container_flags =
  CONTAINER_IS_SIZED_def CONTAINER_IS_TYPED_def CONTAINER_IS_UBJ_ARRAY_def
  CONTAINER_IS_UBJ_OBJECT_def CONTAINER_EXPECTS_KEY_def

record container =
  c_flags :: byte
  c_type :: ubj_type
  c_remaining :: u64

record wctx =
  w_stack :: "container list"
  w_ignore :: bool
  w_out :: bytes

definition has_flag :: "container \<Rightarrow> byte \<Rightarrow> bool" where
  "has_flag c f \<longleftrightarrow> c_flags c AND f \<noteq> 0"

definition ubjw_open_callback :: wctx where
  "ubjw_open_callback =
     \<lparr>w_stack = [\<lparr>c_flags = 0, c_type = UBJ_MIXED, c_remaining = 0\<rparr>], w_ignore = False, w_out = []\<rparr>"

definition context_append :: "byte \<Rightarrow> wctx \<Rightarrow> wctx" where
  "context_append a ctx = ctx\<lparr>w_out := w_out ctx @ [a]\<rparr>"

definition context_write :: "bytes \<Rightarrow> wctx \<Rightarrow> wctx" where
  "context_write d ctx = ctx\<lparr>w_out := w_out ctx @ d\<rparr>"

definition finish_container :: "container \<Rightarrow> wctx \<Rightarrow> wctx" where
  "finish_container c ctx =
     (if has_flag c CONTAINER_IS_SIZED then ctx
      else if has_flag c CONTAINER_IS_UBJ_ARRAY then context_append 0x5D ctx
      else if has_flag c CONTAINER_IS_UBJ_OBJECT then context_append 0x7D ctx
      else ctx)"

text \<open>A full stack drops the new container silently.\<close>

definition container_stack_push :: "container \<Rightarrow> wctx \<Rightarrow> wctx" where
  "container_stack_push c ctx =
     (if length (w_stack ctx) < CONTAINER_STACK_MAX then ctx\<lparr>w_stack := c # w_stack ctx\<rparr> else ctx)"

definition container_stack_pop :: "wctx \<Rightarrow> (container \<times> wctx) option" where
  "container_stack_pop ctx =
     (case w_stack ctx of
        c # c' # cs \<Rightarrow> Some (c, ctx\<lparr>w_stack := c' # cs\<rparr>)
      | _ \<Rightarrow> None)"

definition tag_public :: "ubj_type \<Rightarrow> wctx \<Rightarrow> wctx option" where
  "tag_public tid ctx =
     (case w_stack ctx of
        [] \<Rightarrow> None
      | ch # cs \<Rightarrow>
          if w_ignore ctx then map_option (\<lambda>c. context_append c ctx) (type_char tid)
          else if has_flag ch CONTAINER_IS_UBJ_OBJECT \<and> has_flag ch CONTAINER_EXPECTS_KEY
          then Some ctx
          else
            let ch1 = (if has_flag ch CONTAINER_IS_UBJ_OBJECT
                       then ch\<lparr>c_flags := c_flags ch OR CONTAINER_EXPECTS_KEY\<rparr> else ch);
                ch2 = (if has_flag ch1 CONTAINER_IS_SIZED
                       then ch1\<lparr>c_remaining := c_remaining ch1 - 1\<rparr> else ch1);
                ctx' = ctx\<lparr>w_stack := ch2 # cs\<rparr>
            in if has_flag ch2 CONTAINER_IS_TYPED \<and> c_type ch2 = tid then Some ctx'
               else map_option (\<lambda>c. context_append c ctx') (type_char tid))"

definition write_int8 :: "byte \<Rightarrow> wctx \<Rightarrow> wctx option" where
  "write_int8 w ctx = map_option (context_append w) (tag_public UBJ_INT8 ctx)"

definition write_uint8 :: "byte \<Rightarrow> wctx \<Rightarrow> wctx option" where
  "write_uint8 w ctx = map_option (context_append w) (tag_public UBJ_UINT8 ctx)"

definition write_int16 :: "u16 \<Rightarrow> wctx \<Rightarrow> wctx option" where
  "write_int16 w ctx = map_option (context_write (to_bigendian16 w)) (tag_public UBJ_INT16 ctx)"

definition write_int32 :: "u32 \<Rightarrow> wctx \<Rightarrow> wctx option" where
  "write_int32 w ctx = map_option (context_write (to_bigendian32 w)) (tag_public UBJ_INT32 ctx)"

definition write_int64 :: "u64 \<Rightarrow> wctx \<Rightarrow> wctx option" where
  "write_int64 w ctx = map_option (context_write (to_bigendian64 w)) (tag_public UBJ_INT64 ctx)"

definition write_float32 :: "u32 \<Rightarrow> wctx \<Rightarrow> wctx option" where
  "write_float32 w ctx = map_option (context_write (to_bigendian32 w)) (tag_public UBJ_FLOAT32 ctx)"

definition write_float64 :: "u64 \<Rightarrow> wctx \<Rightarrow> wctx option" where
  "write_float64 w ctx = map_option (context_write (to_bigendian64 w)) (tag_public UBJ_FLOAT64 ctx)"

definition write_null :: "wctx \<Rightarrow> wctx option" where
  "write_null = tag_public UBJ_NULLTYPE"

definition write_noop :: "wctx \<Rightarrow> wctx option" where
  "write_noop = tag_public UBJ_NOOP"

definition write_bool :: "byte \<Rightarrow> wctx \<Rightarrow> wctx option" where
  "write_bool b = tag_public (if b \<noteq> 0 then UBJ_BOOL_TRUE else UBJ_BOOL_FALSE)"

definition write_char :: "byte \<Rightarrow> wctx \<Rightarrow> wctx option" where
  "write_char w ctx = map_option (context_append w) (tag_public UBJ_CHAR ctx)"

text \<open>\<^verbatim>\<open>llabs\<close> in two's complement: the most negative value is its own magnitude.\<close>

definition llabs :: "u64 \<Rightarrow> u64" where
  "llabs w = (if w <s 0 then - w else w)"

definition min_integer_type :: "u64 \<Rightarrow> ubj_type" where
  "min_integer_type w =
     (let mc = llabs w
      in if mc < 0x80 then UBJ_INT8
         else if 0 <s w \<and> mc < 0x100 then UBJ_UINT8
         else if mc < 0x8000 then UBJ_INT16
         else if mc < 0x80000000 then UBJ_INT32
         else UBJ_INT64)"

definition write_integer :: "u64 \<Rightarrow> wctx \<Rightarrow> wctx option" where
  "write_integer w =
     (case min_integer_type w of
        UBJ_INT8 \<Rightarrow> write_int8 (ucast w)
      | UBJ_UINT8 \<Rightarrow> write_uint8 (ucast w)
      | UBJ_INT16 \<Rightarrow> write_int16 (ucast w)
      | UBJ_INT32 \<Rightarrow> write_int32 (ucast w)
      | _ \<Rightarrow> write_int64 w)"

definition write_raw_string :: "bytes \<Rightarrow> wctx \<Rightarrow> wctx option" where
  "write_raw_string s ctx = do {
     ctx1 \<leftarrow> write_integer (of_nat (length (c_str s))) (ctx\<lparr>w_ignore := True\<rparr>);
     Some (context_write (c_str s) (ctx1\<lparr>w_ignore := False\<rparr>)) }"

definition write_string :: "bytes \<Rightarrow> wctx \<Rightarrow> wctx option" where
  "write_string s ctx = do { ctx1 \<leftarrow> tag_public UBJ_STRING ctx; write_raw_string s ctx1 }"

definition write_high_precision :: "bytes \<Rightarrow> wctx \<Rightarrow> wctx option" where
  "write_high_precision s ctx = do {
     ctx1 \<leftarrow> tag_public UBJ_HIGH_PRECISION ctx; write_raw_string s ctx1 }"

definition begin_container :: "ubj_type \<Rightarrow> u64 \<Rightarrow> wctx \<Rightarrow> (container \<times> wctx) option" where
  "begin_container typ count ctx =
     (let cnt = \<lparr>c_flags = 0, c_type = typ, c_remaining = count\<rparr>
      in do {
        (cnt1, ctx1) \<leftarrow>
          (if typ \<noteq> UBJ_MIXED then do {
             c \<leftarrow> type_char typ;
             Some (cnt\<lparr>c_flags := c_flags cnt OR CONTAINER_IS_TYPED\<rparr>,
                   context_append c (context_append 0x24 ctx)) }
           else Some (cnt, ctx));
        if count \<noteq> 0 then do {
          ctx2 \<leftarrow> write_integer count ((context_append 0x23 ctx1)\<lparr>w_ignore := True\<rparr>);
          Some (cnt1\<lparr>c_flags := c_flags cnt1 OR CONTAINER_IS_SIZED, c_remaining := count\<rparr>,
                ctx2\<lparr>w_ignore := False\<rparr>) }
        else Some (cnt1, ctx1) })"

definition begin_array :: "ubj_type \<Rightarrow> u64 \<Rightarrow> wctx \<Rightarrow> wctx option" where
  "begin_array typ count ctx = do {
     ctx1 \<leftarrow> tag_public UBJ_ARRAY ctx;
     (ch, ctx2) \<leftarrow> begin_container typ count ctx1;
     Some (container_stack_push (ch\<lparr>c_flags := c_flags ch OR CONTAINER_IS_UBJ_ARRAY\<rparr>) ctx2) }"

definition begin_object :: "ubj_type \<Rightarrow> u64 \<Rightarrow> wctx \<Rightarrow> wctx option" where
  "begin_object typ count ctx = do {
     ctx1 \<leftarrow> tag_public UBJ_OBJECT ctx;
     (ch, ctx2) \<leftarrow> begin_container typ count ctx1;
     Some (container_stack_push
       (ch\<lparr>c_flags := c_flags ch OR (CONTAINER_EXPECTS_KEY OR CONTAINER_IS_UBJ_OBJECT)\<rparr>) ctx2) }"

definition write_key :: "bytes \<Rightarrow> wctx \<Rightarrow> wctx option" where
  "write_key key ctx =
     (case w_stack ctx of
        [] \<Rightarrow> None
      | ch # _ \<Rightarrow>
          if has_flag ch CONTAINER_EXPECTS_KEY \<and> has_flag ch CONTAINER_IS_UBJ_OBJECT
          then do {
            ctx1 \<leftarrow> write_raw_string key ctx;
            case w_stack ctx1 of
              [] \<Rightarrow> None
            | ch1 # cs \<Rightarrow>
                Some (ctx1\<lparr>w_stack := ch1\<lparr>c_flags := c_flags ch1 XOR CONTAINER_EXPECTS_KEY\<rparr> # cs\<rparr>) }
          else Some ctx)"

definition ubjw_end :: "wctx \<Rightarrow> wctx option" where
  "ubjw_end ctx = do { (ch, ctx1) \<leftarrow> container_stack_pop ctx; Some (finish_container ch ctx1) }"

text \<open>\<^verbatim>\<open>ubjw_close_context\<close> closes whatever is still open.\<close>

fun close_all :: "container list \<Rightarrow> wctx \<Rightarrow> wctx" where
  "close_all (c # c' # cs) ctx =
     close_all (c' # cs) (finish_container c (ctx\<lparr>w_stack := c' # cs\<rparr>))"
| "close_all _ ctx = ctx"

definition ubjw_close_context :: "wctx \<Rightarrow> bytes" where
  "ubjw_close_context ctx = w_out (close_all (w_stack ctx) ctx)"

text \<open>
  \<^verbatim>\<open>priv_ubjw_write_byteswap\<close>: at most \<^const>\<open>BUFFER_OUT_SIZE\<close> bytes a pass; \<open>fuel\<close>
  bounds the number of passes, \<^verbatim>\<open>nbytes\<close> is enough.
\<close>

primrec byteswap_passes :: "nat \<Rightarrow> nat \<Rightarrow> nat \<Rightarrow> nat \<Rightarrow> bytes \<Rightarrow> wctx \<Rightarrow> wctx option" where
  "byteswap_passes 0 sz i nbytes d ctx = (if i < nbytes then None else Some ctx)"
| "byteswap_passes (Suc fuel) sz i nbytes d ctx =
     (if i < nbytes then
        let npass = min (nbytes - i) BUFFER_OUT_SIZE; buf = take npass (drop i d)
        in if length buf < npass then None
           else do {
             buf' \<leftarrow> buf_endian_swap buf sz (npass div sz);
             byteswap_passes fuel sz (i + BUFFER_OUT_SIZE) nbytes d (context_write buf' ctx) }
      else Some ctx)"

definition write_byteswap :: "bytes \<Rightarrow> nat \<Rightarrow> nat \<Rightarrow> wctx \<Rightarrow> wctx option" where
  "write_byteswap d sz count = byteswap_passes (sz * count) sz 0 (sz * count) d"

text \<open>
  \<^verbatim>\<open>ubjw_write_buffer\<close>: its data are raw cells, or pointers to strings for the two
  string types.
\<close>

datatype buf_data = Cells bytes | Strings "bytes list"

primrec write_raw_strings :: "bytes list \<Rightarrow> wctx \<Rightarrow> wctx option" where
  "write_raw_strings [] ctx = Some ctx"
| "write_raw_strings (s # ss) ctx = do { ctx1 \<leftarrow> write_raw_string s ctx; write_raw_strings ss ctx1 }"

definition write_buffer :: "buf_data \<Rightarrow> ubj_type \<Rightarrow> u64 \<Rightarrow> wctx \<Rightarrow> wctx option" where
  "write_buffer data typ count ctx = do {
     typesz \<leftarrow> UBJI_TYPE_size typ;
     ctx1 \<leftarrow> begin_array typ count ctx;
     ctx2 \<leftarrow>
       (if typ = UBJ_STRING \<or> typ = UBJ_HIGH_PRECISION then
          (case data of
             Strings ss \<Rightarrow> if length ss < unat count then None
                           else write_raw_strings (take (unat count) ss) ctx1
           | Cells _ \<Rightarrow> None)
        else
          (case data of
             Strings _ \<Rightarrow> None
           | Cells d \<Rightarrow>
               if typesz = 1 then
                 (if length d < unat count then None
                  else Some (context_write (take (unat count) d) ctx1))
               else if typesz > 1 then write_byteswap d (nat typesz) (unat count) ctx1
               else Some ctx1));
     ubjw_end ctx2 }"

end
