(* ===== verification/Std_Map.thy ===== *)
theory Std_Map
  imports Prelude
begin

text \<open>
  The ordered map of the C++ standard library as the sources use it
  (\<^verbatim>\<open>UBJ::Object\<close>, the request and receiver tables of the engine, the table of locked
  allocations, the event handlers): an association list in strictly ascending key order.
  Iteration (\<^verbatim>\<open>for (auto &it : m)\<close>) is traversal of the list.  The locale \<open>std_map\<close> is
  the interface the clients rely on; it is interpreted on the list implementation.
\<close>

type_synonym ('k, 'v) omap = "('k \<times> 'v) list"

abbreviation omap_empty :: "('k, 'v) omap" where
  "omap_empty \<equiv> []"

definition omap_inv :: "('k::linorder, 'v) omap \<Rightarrow> bool" where
  "omap_inv m \<longleftrightarrow> sorted_wrt (<) (map fst m)"

text \<open>\<^verbatim>\<open>m[k] = v\<close> and \<^verbatim>\<open>m.erase(k)\<close>; \<^verbatim>\<open>m.find(k)\<close> is \<^const>\<open>map_of\<close>.\<close>

fun omap_insert :: "'k::linorder \<Rightarrow> 'v \<Rightarrow> ('k, 'v) omap \<Rightarrow> ('k, 'v) omap" where
  "omap_insert k v [] = [(k, v)]"
| "omap_insert k v ((a, b) # m) =
     (if k < a then (k, v) # (a, b) # m
      else if k = a then (k, v) # m
      else (a, b) # omap_insert k v m)"

fun omap_erase :: "'k::linorder \<Rightarrow> ('k, 'v) omap \<Rightarrow> ('k, 'v) omap" where
  "omap_erase k [] = []"
| "omap_erase k ((a, b) # m) = (if k = a then m else (a, b) # omap_erase k m)"

lemma omap_inv_Nil [simp]: "omap_inv []"
  by (simp add: omap_inv_def)

lemma omap_inv_Cons [simp]:
  "omap_inv ((a, b) # m) \<longleftrightarrow> (\<forall>k \<in> fst ` set m. a < k) \<and> omap_inv m"
  by (auto simp: omap_inv_def)

lemma omap_inv_distinct: "omap_inv m \<Longrightarrow> distinct (map fst m)"
  by (induction m) (auto simp: omap_inv_def)

lemma fst_set_omap_insert [simp]: "fst ` set (omap_insert k v m) = insert k (fst ` set m)"
  by (induction k v m rule: omap_insert.induct) auto

lemma omap_insert_inv: "omap_inv m \<Longrightarrow> omap_inv (omap_insert k v m)"
  by (induction k v m rule: omap_insert.induct) (auto simp: less_le_trans intro: less_trans)

lemma set_omap_erase_subset: "set (omap_erase k m) \<subseteq> set m"
  by (induction k m rule: omap_erase.induct) auto

lemma omap_erase_inv: "omap_inv m \<Longrightarrow> omap_inv (omap_erase k m)"
  by (induction k m rule: omap_erase.induct) (use set_omap_erase_subset in fastforce)+

lemma map_of_omap_insert: "map_of (omap_insert k v m) = (map_of m)(k \<mapsto> v)"
  by (induction k v m rule: omap_insert.induct) (auto simp: fun_eq_iff)

lemma map_of_smaller_None: "\<forall>k \<in> fst ` set m. a < k \<Longrightarrow> map_of m (a::'k::linorder) = None"
  by (induction m) auto

lemma map_of_omap_erase: "omap_inv m \<Longrightarrow> map_of (omap_erase k m) = (map_of m)(k := None)"
  by (induction k m rule: omap_erase.induct) (auto simp: fun_eq_iff map_of_smaller_None)

lemma omap_inv_filter: "omap_inv m \<Longrightarrow> omap_inv (filter P m)"
  by (induction m) (auto simp: omap_inv_def)

text \<open>Appending in ascending key order never reorders: what building a map from a sorted list does.\<close>

lemma omap_insert_last:
  "\<forall>a \<in> fst ` set m. a < k \<Longrightarrow> omap_insert k v m = m @ [(k, v)]"
  by (induction k v m rule: omap_insert.induct) auto

lemma omap_inv_append:
  "omap_inv (m @ n) \<longleftrightarrow> omap_inv m \<and> omap_inv n \<and> (\<forall>a \<in> fst ` set m. \<forall>b \<in> fst ` set n. a < b)"
  by (auto simp: omap_inv_def sorted_wrt_append)

lemma omap_ext:
  assumes "omap_inv m" and "omap_inv n" and "map_of m = map_of n"
  shows "m = n"
  using assms
proof (induction m arbitrary: n)
  case Nil
  then show ?case
    by (cases n) (auto simp: fun_eq_iff split: if_splits dest: spec [of _ "fst (hd n)"])
next
  case (Cons p m)
  obtain a b where p: "p = (a, b)" by (cases p)
  have "map_of n a = map_of (p # m) a" by (rule fun_cong [OF Cons.prems(3) [symmetric]])
  then have "map_of n a = Some b" by (simp add: p)
  then obtain q n' where n: "n = q # n'" by (cases n) auto
  obtain c d where q: "q = (c, d)" by (cases q)
  have ac: "a = c"
  proof (rule ccontr)
    assume ne: "a \<noteq> c"
    have eq: "\<And>x. map_of (p # m) x = map_of n x" by (rule fun_cong [OF Cons.prems(3)])
    from eq [of a] ne have "map_of n' a = Some b" by (simp add: p n q)
    then have "a \<in> fst ` set n'" by (force dest: map_of_SomeD)
    with Cons.prems(2) have "c < a" by (auto simp: n q)
    moreover from eq [of c] ne have "map_of m c = Some d" by (simp add: p n q)
    then have "c \<in> fst ` set m" by (force dest: map_of_SomeD)
    with Cons.prems(1) have "a < c" by (auto simp: p)
    ultimately show False by simp
  qed
  have eq: "\<And>x. map_of (p # m) x = map_of n x" by (rule fun_cong [OF Cons.prems(3)])
  from eq [of a] ac have bd: "b = d" by (simp add: p n q)
  have "map_of m = map_of n'"
  proof
    fix x
    show "map_of m x = map_of n' x"
    proof (cases "x = a")
      case True
      with Cons.prems(1,2) ac show ?thesis
        by (simp add: p n q map_of_smaller_None)
    next
      case False
      with eq [of x] ac show ?thesis by (simp add: p n q)
    qed
  qed
  with Cons p n q ac bd show ?case by simp
qed

section \<open>The interface and its clients' lemmas\<close>

locale std_map =
  fixes emp :: "'m"
    and ins :: "'k \<Rightarrow> 'v \<Rightarrow> 'm \<Rightarrow> 'm"
    and del :: "'k \<Rightarrow> 'm \<Rightarrow> 'm"
    and find :: "'m \<Rightarrow> 'k \<Rightarrow> 'v option"
    and inv :: "'m \<Rightarrow> bool"
  assumes find_emp: "find emp = (\<lambda>_. None)"
    and find_ins: "inv m \<Longrightarrow> find (ins k v m) = (find m)(k \<mapsto> v)"
    and find_del: "inv m \<Longrightarrow> find (del k m) = (find m)(k := None)"
    and inv_emp: "inv emp"
    and inv_ins: "inv m \<Longrightarrow> inv (ins k v m)"
    and inv_del: "inv m \<Longrightarrow> inv (del k m)"
begin

lemma inv_fold_ins: "inv m \<Longrightarrow> inv (fold (\<lambda>(k, v). ins k v) kvs m)"
  by (induction kvs arbitrary: m) (auto simp: inv_ins)

lemma find_fold_ins:
  "inv m \<Longrightarrow> find (fold (\<lambda>(k, v). ins k v) kvs m) = find m ++ map_of (rev kvs)"
proof (induction kvs arbitrary: m)
  case Nil
  then show ?case by simp
next
  case (Cons p kvs)
  obtain k v where p: "p = (k, v)" by (cases p)
  from Cons.prems have "inv (ins k v m)" by (rule inv_ins)
  from Cons.IH [OF this] Cons.prems show ?case
    by (simp add: p find_ins map_add_def fun_eq_iff split: option.splits)
qed

lemma inv_fold_del: "inv m \<Longrightarrow> inv (fold del ks m)"
  by (induction ks arbitrary: m) (auto simp: inv_del)

lemma find_fold_del: "inv m \<Longrightarrow> find (fold del ks m) = (find m) |` (- set ks)"
proof (induction ks arbitrary: m)
  case Nil
  then show ?case by simp
next
  case (Cons k ks)
  from Cons.prems have "inv (del k m)" by (rule inv_del)
  from Cons.IH [OF this] Cons.prems show ?case
    by (auto simp: find_del fun_eq_iff restrict_map_def)
qed

lemma find_ins_other: "inv m \<Longrightarrow> j \<noteq> k \<Longrightarrow> find (ins k v m) j = find m j"
  by (simp add: find_ins)

end

interpretation om: std_map "[]" omap_insert omap_erase map_of omap_inv
  by unfold_locales
    (auto simp: map_of_omap_insert map_of_omap_erase intro: omap_insert_inv omap_erase_inv)

lemma fold_omap_insert_sorted:
  "omap_inv (m @ kvs) \<Longrightarrow> fold (\<lambda>(k, v). omap_insert k v) kvs m = m @ kvs"
proof (induction kvs arbitrary: m)
  case Nil
  then show ?case by simp
next
  case (Cons p kvs)
  obtain k v where p: "p = (k, v)" by (cases p)
  from Cons.prems have "\<forall>a \<in> fst ` set m. a < k"
    by (auto simp: omap_inv_append p)
  then have "omap_insert k v m = m @ [(k, v)]" by (rule omap_insert_last)
  with Cons.IH [of "m @ [(k, v)]"] Cons.prems show ?case by (simp add: p)
qed

end
