(* ===== verification/Memory_Buffer.thy ===== *)
theory Memory_Buffer
  imports Prelude
begin

text \<open>
  \<^verbatim>\<open>src/memorybuffer.cpp\<close> and the interface \<^verbatim>\<open>include/Zway/buffer.h\<close>.  A buffer is
  the pair of \<^verbatim>\<open>m_data\<close> (a null pointer or a block of memory) and \<^verbatim>\<open>m_size\<close>.  A
  pointer argument is \<^const>\<open>None\<close> for null or the block it points to; an out-parameter
  is returned, and \<^const>\<open>None\<close> as a result marks undefined behaviour (a copy that runs past
  the end of the block).  Whether \<^verbatim>\<open>malloc\<close> succeeds is the argument \<open>ok\<close>.
  The locale \<open>buffer\<close> is the contract of the abstract class \<^verbatim>\<open>Buffer\<close> that the stream
  senders rely on.
\<close>

record membuf =
  mb_data :: "bytes option"
  mb_size :: u32

definition mb_null :: membuf where
  "mb_null = \<lparr>mb_data = None, mb_size = 0\<rparr>"

definition mb_is_empty :: "membuf \<Rightarrow> bool" where
  "mb_is_empty b \<longleftrightarrow> \<not> (mb_data b \<noteq> None \<and> mb_size b \<noteq> 0)"

text \<open>The number of bytes both \<^verbatim>\<open>read\<close> and \<^verbatim>\<open>write\<close> transfer.\<close>

definition mb_span :: "membuf \<Rightarrow> u32 \<Rightarrow> u32 \<Rightarrow> u32" where
  "mb_span b sz off =
     (if off < mb_size b
      then (if mb_size b - off > sz then sz else mb_size b - off)
      else 0)"

text \<open>
  \<^verbatim>\<open>read(data, size, offset, bytesRead)\<close>: the result flag, the value stored through
  \<^verbatim>\<open>bytesRead\<close> when it is reached, and the destination block afterwards.
\<close>

definition mb_read ::
    "membuf \<Rightarrow> bytes option \<Rightarrow> u32 \<Rightarrow> u32 \<Rightarrow> (bool \<times> u32 option \<times> bytes option) option" where
  "mb_read b dst sz off =
     (case (mb_data b, dst) of
        (Some m, Some d) \<Rightarrow>
          (if mb_is_empty b then Some (False, None, dst)
           else let n = unat (mb_span b sz off); o' = unat off
                in if n \<noteq> 0 \<and> (length m < o' + n \<or> length d < n) then None
                   else Some (True, Some (mb_span b sz off),
                          Some (take n (drop o' m) @ drop n d)))
      | _ \<Rightarrow> Some (False, None, dst))"

definition mb_write ::
    "membuf \<Rightarrow> bytes option \<Rightarrow> u32 \<Rightarrow> u32 \<Rightarrow> (bool \<times> u32 option \<times> membuf) option" where
  "mb_write b src sz off =
     (case (mb_data b, src) of
        (Some m, Some d) \<Rightarrow>
          (if mb_is_empty b then Some (False, None, b)
           else let n = unat (mb_span b sz off); o' = unat off
                in if n \<noteq> 0 \<and> (length m < o' + n \<or> length d < n) then None
                   else Some (True, Some (mb_span b sz off),
                          b\<lparr>mb_data := Some (take o' m @ take n d @ drop (o' + n) m)\<rparr>))
      | _ \<Rightarrow> Some (False, None, b))"

text \<open>\<^verbatim>\<open>init\<close>: a zeroed block, then the initial contents when there are any.\<close>

definition mb_init :: "bool \<Rightarrow> bytes option \<Rightarrow> u32 \<Rightarrow> (bool \<times> membuf) option" where
  "mb_init ok data sz =
     (if \<not> ok then Some (False, mb_null)
      else let b = \<lparr>mb_data = Some (replicate (unat sz) 0), mb_size = sz\<rparr>
           in case data of
                None \<Rightarrow> Some (True, b)
              | Some d \<Rightarrow> map_option (\<lambda>(_, _, b'). (True, b')) (mb_write b data sz 0))"

definition mb_create :: "bool \<Rightarrow> bytes option \<Rightarrow> u32 \<Rightarrow> membuf option option" where
  "mb_create ok data sz =
     map_option (\<lambda>(r, b). if r then Some b else None) (mb_init ok data sz)"

definition mb_create_from :: "bool \<Rightarrow> membuf option \<Rightarrow> membuf option option" where
  "mb_create_from ok buf =
     (case buf of Some b \<Rightarrow> mb_create ok (mb_data b) (mb_size b) | None \<Rightarrow> Some None)"

definition mb_copy :: "bool \<Rightarrow> membuf \<Rightarrow> membuf option option" where
  "mb_copy ok b = (if \<not> mb_is_empty b then mb_create ok (mb_data b) (mb_size b) else Some None)"

definition mb_clear :: "membuf \<Rightarrow> membuf" where
  "mb_clear b =
     (if \<not> mb_is_empty b
      then b\<lparr>mb_data := map_option (\<lambda>m. replicate (unat (mb_size b)) 0 @ drop (unat (mb_size b)) m)
                          (mb_data b)\<rparr>
      else b)"

definition mb_release :: "membuf \<Rightarrow> membuf" where
  "mb_release b = \<lparr>mb_data = None, mb_size = 0\<rparr>"

section \<open>Well-formedness and contents\<close>

definition mb_inv :: "membuf \<Rightarrow> bool" where
  "mb_inv b \<longleftrightarrow> (case mb_data b of None \<Rightarrow> mb_size b = 0 | Some m \<Rightarrow> length m = unat (mb_size b))"

definition mb_bytes :: "membuf \<Rightarrow> bytes" where
  "mb_bytes b = (case mb_data b of None \<Rightarrow> [] | Some m \<Rightarrow> m)"

lemma mb_inv_length: "mb_inv b \<Longrightarrow> length (mb_bytes b) = unat (mb_size b)"
  by (auto simp: mb_inv_def mb_bytes_def split: option.splits)

lemma mb_is_empty_iff: "mb_inv b \<Longrightarrow> mb_is_empty b \<longleftrightarrow> mb_bytes b = []"
  by (auto simp: mb_inv_def mb_bytes_def mb_is_empty_def unat_eq_zero split: option.splits)

lemma unat_mb_span: "unat (mb_span b sz off) = min (unat sz) (unat (mb_size b) - unat off)"
proof (cases "off < mb_size b")
  case True
  then have "unat (mb_size b - off) = unat (mb_size b) - unat off"
    by (simp add: unat_sub)
  with True show ?thesis
    by (auto simp: mb_span_def word_less_nat_alt)
next
  case False
  then show ?thesis by (auto simp: mb_span_def word_less_nat_alt)
qed

lemma mb_span_length:
  "mb_inv b \<Longrightarrow> mb_data b = Some m \<Longrightarrow>
    unat (mb_span b sz off) = min (unat sz) (length m - unat off)"
  by (simp add: unat_mb_span mb_inv_def)

text \<open>Reading: the chunk of the contents at the offset, cut at the end of the buffer.\<close>

lemma mb_read_ok:
  assumes "mb_inv b" and "mb_bytes b \<noteq> []" and "unat sz \<le> length d"
  shows "mb_read b (Some d) sz off =
    (let n = min (unat sz) (length (mb_bytes b) - unat off)
     in Some (True, Some (of_nat n), Some (take n (drop (unat off) (mb_bytes b)) @ drop n d)))"
proof -
  from assms(1,2) obtain m where m: "mb_data b = Some m" and len: "length m = unat (mb_size b)"
    by (auto simp: mb_inv_def mb_bytes_def split: option.splits)
  from assms(1,2) have ne: "\<not> mb_is_empty b" by (simp add: mb_is_empty_iff)
  have span: "unat (mb_span b sz off) = min (unat sz) (length m - unat off)"
    by (rule mb_span_length [OF assms(1) m])
  then have w: "mb_span b sz off = of_nat (min (unat sz) (length m - unat off))"
    by (rule of_nat_eq_wordI [symmetric])
  from assms(3) span show ?thesis
    by (auto simp: mb_read_def m ne mb_bytes_def Let_def w [symmetric])
qed

lemma mb_read_null: "mb_read b None sz off = Some (False, None, None)"
  by (auto simp: mb_read_def split: option.splits)

lemma mb_read_empty: "mb_inv b \<Longrightarrow> mb_bytes b = [] \<Longrightarrow> mb_read b d sz off = Some (False, None, d)"
  using mb_is_empty_iff [of b] by (auto simp: mb_read_def split: option.splits)

text \<open>Writing: the contents with a prefix of the source laid over them, never past the end.\<close>

lemma mb_write_ok:
  assumes "mb_inv b" and "mb_bytes b \<noteq> []" and "unat sz \<le> length d"
  shows "\<exists>b'. mb_write b (Some d) sz off =
      Some (True, Some (of_nat (min (unat sz) (length (mb_bytes b) - unat off))), b')
    \<and> mb_inv b' \<and> mb_size b' = mb_size b
    \<and> mb_bytes b' = (let n = min (unat sz) (length (mb_bytes b) - unat off)
        in take (unat off) (mb_bytes b) @ take n d @ drop (unat off + n) (mb_bytes b))"
proof -
  from assms(1,2) obtain m where m: "mb_data b = Some m" and len: "length m = unat (mb_size b)"
    by (auto simp: mb_inv_def mb_bytes_def split: option.splits)
  from assms(1,2) have ne: "\<not> mb_is_empty b" by (simp add: mb_is_empty_iff)
  have span: "unat (mb_span b sz off) = min (unat sz) (length m - unat off)"
    by (rule mb_span_length [OF assms(1) m])
  then have w: "mb_span b sz off = of_nat (min (unat sz) (length m - unat off))"
    by (rule of_nat_eq_wordI [symmetric])
  from assms(3) span show ?thesis
    by (auto simp: mb_write_def m ne mb_bytes_def Let_def w [symmetric] mb_inv_def len [symmetric])
qed

lemma mb_write_rejects:
  "d = None \<or> mb_is_empty b \<Longrightarrow> mb_write b d sz off = Some (False, None, b)"
  by (auto simp: mb_write_def mb_is_empty_def split: option.splits)

lemma mb_write_inv: "mb_inv b \<Longrightarrow> mb_write b d sz off = Some (r, k, b') \<Longrightarrow> mb_inv b'"
  by (auto simp: mb_write_def mb_inv_def Let_def split: option.splits if_splits)

lemma mb_write_size: "mb_write b d sz off = Some (r, k, b') \<Longrightarrow> mb_size b' = mb_size b"
  by (auto simp: mb_write_def Let_def split: option.splits if_splits)

text \<open>Creation: a zeroed block without data, an exact copy with data.\<close>

lemma mb_create_zero:
  "mb_create True None sz = Some (Some \<lparr>mb_data = Some (replicate (unat sz) 0), mb_size = sz\<rparr>)"
  by (simp add: mb_create_def mb_init_def Let_def)

lemma mb_create_fails: "mb_create False d sz = Some None"
  by (simp add: mb_create_def mb_init_def)

lemma mb_create_data:
  assumes "length d = unat sz"
  shows "mb_create True (Some d) sz = Some (Some \<lparr>mb_data = Some d, mb_size = sz\<rparr>)"
proof (cases "sz = 0")
  case True
  with assms show ?thesis
    by (simp add: mb_create_def mb_init_def mb_write_def mb_is_empty_def Let_def)
next
  case False
  have "mb_span \<lparr>mb_data = Some (replicate (unat sz) 0), mb_size = sz\<rparr> sz 0 = sz"
    by (simp add: word_unat_eq_iff unat_mb_span)
  with False assms show ?thesis
    by (simp add: mb_create_def mb_init_def mb_write_def mb_is_empty_def Let_def)
qed

lemma mb_create_inv: "mb_create ok d sz = Some (Some b) \<Longrightarrow> mb_inv b \<and> mb_size b = sz"
  by (auto simp: mb_create_def mb_init_def mb_write_def mb_inv_def Let_def
      split: if_splits option.splits)

lemma mb_copy_ok:
  "mb_inv b \<Longrightarrow> \<not> mb_is_empty b \<Longrightarrow> mb_copy True b = Some (Some b)"
  by (auto simp: mb_copy_def mb_is_empty_def mb_inv_def mb_create_data split: option.splits)

lemma mb_clear_bytes:
  "mb_inv b \<Longrightarrow> mb_bytes (mb_clear b) = replicate (length (mb_bytes b)) 0"
  by (auto simp: mb_clear_def mb_inv_def mb_bytes_def mb_is_empty_def split: option.splits)

lemma mb_clear_inv: "mb_inv b \<Longrightarrow> mb_inv (mb_clear b) \<and> mb_size (mb_clear b) = mb_size b"
  by (auto simp: mb_clear_def mb_inv_def split: option.splits)

lemma mb_release_inv: "mb_inv (mb_release b) \<and> mb_is_empty (mb_release b)"
  by (simp add: mb_release_def mb_inv_def mb_is_empty_def)

section \<open>The abstract class Buffer\<close>

text \<open>
  What a client of the abstract class may rely on: \<^verbatim>\<open>size\<close> is the length of the contents
  and \<^verbatim>\<open>read\<close> delivers the chunk at an offset, cut at the end.
\<close>

locale buffer =
  fixes bread :: "'b \<Rightarrow> bytes option \<Rightarrow> u32 \<Rightarrow> u32 \<Rightarrow> (bool \<times> u32 option \<times> bytes option) option"
    and bsize :: "'b \<Rightarrow> u32"
    and bytes_in :: "'b \<Rightarrow> bytes"
    and inv :: "'b \<Rightarrow> bool"
  assumes size_law: "inv b \<Longrightarrow> unat (bsize b) = length (bytes_in b)"
    and read_law: "inv b \<Longrightarrow> bytes_in b \<noteq> [] \<Longrightarrow> unat sz \<le> length d \<Longrightarrow>
      bread b (Some d) sz off =
        (let n = min (unat sz) (length (bytes_in b) - unat off)
         in Some (True, Some (of_nat n), Some (take n (drop (unat off) (bytes_in b)) @ drop n d)))"
    and read_empty_law: "inv b \<Longrightarrow> bytes_in b = [] \<Longrightarrow> bread b dst sz off = Some (False, None, dst)"
begin

lemma length_less: "inv b \<Longrightarrow> length (bytes_in b) < 2 ^ 32"
  using size_law [of b] unat_u32_less [of "bsize b"] by simp

lemma read_inside:
  assumes "inv b" and "unat sz \<le> length d" and "unat off + unat sz \<le> length (bytes_in b)"
    and "sz \<noteq> 0"
  shows "bread b (Some d) sz off =
    Some (True, Some sz, Some (take (unat sz) (drop (unat off) (bytes_in b)) @ drop (unat sz) d))"
proof -
  from assms(4) have "unat sz \<noteq> 0" by (simp add: unat_eq_zero)
  with assms(3) have "bytes_in b \<noteq> []" by auto
  moreover from assms(3) have "min (unat sz) (length (bytes_in b) - unat off) = unat sz" by simp
  ultimately show ?thesis using assms(1,2) by (simp add: read_law Let_def)
qed

end

interpretation mb: buffer mb_read mb_size mb_bytes mb_inv
  by unfold_locales (simp_all add: mb_inv_length mb_read_ok mb_read_empty)

end
