(* ===== verification/UBJ_Value.thy ===== *)
theory UBJ_Value
  imports UBJ_Read UBJ_Write Std_Map Memory_Buffer
begin

text \<open>
  \<^verbatim>\<open>src/ubj/value.cpp\<close>, \<^verbatim>\<open>src/ubj/reader.cpp\<close> and \<^verbatim>\<open>src/ubj/writer.cpp\<close>: the
  value tree, and the passages between it and the streaming layer.  A \<^verbatim>\<open>Value\<close> has a type
  code and up to three payloads; its buffer is given by its contents, since the buffers
  of values are created with exactly their data.  \<^verbatim>\<open>Object\<close> is a \<^verbatim>\<open>std::map\<close>, a list in
  strictly ascending key order; \<^verbatim>\<open>Array\<close> is a list.  Values share payloads in memory, but no
  operation modelled here writes through a shared payload, so trees are enough.
  Allocation is assumed to succeed in this layer (\<^verbatim>\<open>ubjr.c\<close> does not check it either).
\<close>

datatype val =
  Val (v_type: ubj_type) (v_buffer: "bytes option") (v_obj: "(string \<times> val) list option")
    (v_arr: "val list option")

section \<open>Values\<close>

definition val_null :: val where
  "val_null = Val UBJ_NULLTYPE None None None"

definition val_of_obj :: "(string \<times> val) list \<Rightarrow> val" where
  "val_of_obj kvs = Val UBJ_OBJECT None (Some kvs) None"

definition val_of_arr :: "val list \<Rightarrow> val" where
  "val_of_arr vs = Val UBJ_ARRAY None None (Some vs)"

text \<open>
  \<^verbatim>\<open>setString(str, len)\<close>: the pointed-to text \<open>s\<close> is followed by a NUL; a length that is
  not positive stands for \<^verbatim>\<open>strlen\<close>.
\<close>

definition set_string :: "bytes option \<Rightarrow> u32 \<Rightarrow> val \<Rightarrow> (bool \<times> val) option" where
  "set_string str len v =
     (case str of
        None \<Rightarrow> Some (False, v)
      | Some s \<Rightarrow>
          let l = (if len > 0 then len else of_nat (length (c_str s)))
          in if l = 0 then Some (False, v)
             else if length s + 1 < unat l then None
             else Some (True, Val UBJ_STRING (Some (take (unat l) (s @ [0]))) (v_obj v) (v_arr v)))"

definition set_buffer :: "bytes \<Rightarrow> u32 \<Rightarrow> ubj_type \<Rightarrow> val \<Rightarrow> (bool \<times> val) option" where
  "set_buffer data size' typ v =
     (if typ = UBJ_STRING then set_string (Some data) size' v
      else if length data < unat size' then None
      else Some (True, Val typ (Some (take (unat size') data)) (v_obj v) (v_arr v)))"

text \<open>The constructors; those from text may leave the value null.\<close>

definition val_of_string :: "string \<Rightarrow> val option" where
  "val_of_string s =
     map_option snd (set_string (Some (bytes_of_string s)) (of_nat (length s)) val_null)"

definition val_of_c_string :: "bytes option \<Rightarrow> u32 \<Rightarrow> val option" where
  "val_of_c_string s len = map_option snd (set_string s len val_null)"

definition val_int32 :: "u32 \<Rightarrow> val" where
  "val_int32 w = Val UBJ_INT32 (Some (le_mem32 w)) None None"

definition val_int64 :: "u64 \<Rightarrow> val" where
  "val_int64 w = Val UBJ_INT64 (Some (le_mem64 w)) None None"

definition val_float :: "u32 \<Rightarrow> val" where
  "val_float w = Val UBJ_FLOAT32 (Some (le_mem32 w)) None None"

definition val_double :: "u64 \<Rightarrow> val" where
  "val_double w = Val UBJ_FLOAT64 (Some (le_mem64 w)) None None"

definition val_bool :: "bool \<Rightarrow> val" where
  "val_bool b = Val (if b then UBJ_BOOL_TRUE else UBJ_BOOL_FALSE) None None None"

definition val_of_buffer :: "bytes option \<Rightarrow> val" where
  "val_of_buffer b = Val (if b \<noteq> None then UBJ_ARRAY else UBJ_NULLTYPE) b None None"

definition val_clear :: "val \<Rightarrow> val" where
  "val_clear v = Val UBJ_NULLTYPE None None None"

definition val_isNull :: "val \<Rightarrow> bool" where
  "val_isNull v \<longleftrightarrow> v_type v = UBJ_NULLTYPE"

definition val_isObject :: "val \<Rightarrow> bool" where
  "val_isObject v \<longleftrightarrow> v_type v = UBJ_OBJECT \<and> v_obj v \<noteq> None"

definition val_isArray :: "val \<Rightarrow> bool" where
  "val_isArray v \<longleftrightarrow> v_type v = UBJ_ARRAY \<and> v_arr v \<noteq> None"

text \<open>\<^verbatim>\<open>Object(val)\<close>, \<^verbatim>\<open>Array(val)\<close>: empty when the payload is missing.\<close>

definition val_toObject :: "val \<Rightarrow> (string \<times> val) list" where
  "val_toObject v = (case v_obj v of Some kvs \<Rightarrow> kvs | None \<Rightarrow> [])"

definition val_toArray :: "val \<Rightarrow> val list" where
  "val_toArray v = (case v_arr v of Some vs \<Rightarrow> vs | None \<Rightarrow> [])"

definition val_bufferSize :: "val \<Rightarrow> u32" where
  "val_bufferSize v = (case v_buffer v of Some b \<Rightarrow> of_nat (length b) | None \<Rightarrow> 0)"

definition val_bufferData :: "val \<Rightarrow> bytes option" where
  "val_bufferData v = v_buffer v"

definition val_numItems :: "val \<Rightarrow> u32" where
  "val_numItems v =
     (if v_type v = UBJ_OBJECT \<and> v_obj v \<noteq> None then of_nat (length (the (v_obj v)))
      else if v_type v = UBJ_ARRAY \<and> v_arr v \<noteq> None then of_nat (length (the (v_arr v)))
      else 0)"

definition val_hasField :: "val \<Rightarrow> string \<Rightarrow> bool" where
  "val_hasField v k =
     (if v_type v = UBJ_OBJECT then
        (case v_obj v of Some kvs \<Rightarrow> map_of kvs k \<noteq> None | None \<Rightarrow> False)
      else False)"

definition val_field :: "val \<Rightarrow> string \<Rightarrow> val" where
  "val_field v k =
     (if v_type v = UBJ_OBJECT then
        (case v_obj v of
           Some kvs \<Rightarrow> (case map_of kvs k of Some x \<Rightarrow> x | None \<Rightarrow> val_null)
         | None \<Rightarrow> val_null)
      else val_null)"

definition val_item :: "val \<Rightarrow> u32 \<Rightarrow> val" where
  "val_item v i =
     (if v_type v = UBJ_ARRAY then
        (case v_arr v of
           Some vs \<Rightarrow> if unat i < length vs then vs ! unat i else val_null
         | None \<Rightarrow> val_null)
      else val_null)"

section \<open>Conversions\<close>

text \<open>
  The bit patterns of IEEE 754 numbers: a finite number is \<open>(-1)^s * m * 2^e\<close>;
  \<^const>\<open>None\<close> for infinities and NaNs.
\<close>

definition f32_decode :: "u32 \<Rightarrow> (bool \<times> nat \<times> int) option" where
  "f32_decode w =
     (let e = unat (drop_bit 23 w AND 0xFF); m = unat (w AND 0x7FFFFF)
      in if e = 255 then None
         else if e = 0 then Some (bit w 31, m, -149)
         else Some (bit w 31, m + 2 ^ 23, int e - 150))"

definition f64_decode :: "u64 \<Rightarrow> (bool \<times> nat \<times> int) option" where
  "f64_decode w =
     (let e = unat (drop_bit 52 w AND 0x7FF); m = unat (w AND 0xFFFFFFFFFFFFF)
      in if e = 2047 then None
         else if e = 0 then Some (bit w 63, m, -1074)
         else Some (bit w 63, m + 2 ^ 52, int e - 1075))"

text \<open>Conversion to an integer type of \<open>k\<close> bits: truncation, undefined out of range.\<close>

definition float_to_int :: "nat \<Rightarrow> (bool \<times> nat \<times> int) option \<Rightarrow> int option" where
  "float_to_int k f = do {
     (s, m, e) \<leftarrow> f;
     let a = (if e \<ge> 0 then int m * 2 ^ nat e else int m div 2 ^ nat (- e));
     let i = (if s then - a else a);
     if - (2 ^ (k - 1)) \<le> i \<and> i < 2 ^ (k - 1) then Some i else None }"

definition val_toInt :: "val \<Rightarrow> u32 option" where
  "val_toInt v =
     (case v_buffer v of
        None \<Rightarrow> Some 0
      | Some b \<Rightarrow>
          (case v_type v of
             UBJ_INT32 \<Rightarrow> le_load32 b
           | UBJ_INT64 \<Rightarrow> map_option ucast (le_load64 b)
           | UBJ_FLOAT32 \<Rightarrow> do { w \<leftarrow> le_load32 b; map_option of_int (float_to_int 32 (f32_decode w)) }
           | UBJ_FLOAT64 \<Rightarrow> do { w \<leftarrow> le_load64 b; map_option of_int (float_to_int 32 (f64_decode w)) }
           | UBJ_BOOL_TRUE \<Rightarrow> Some 1
           | UBJ_BOOL_FALSE \<Rightarrow> Some 0
           | _ \<Rightarrow> Some 0))"

definition val_toUInt :: "val \<Rightarrow> u32 option" where
  "val_toUInt v = val_toInt v"

definition val_toLong :: "val \<Rightarrow> u64 option" where
  "val_toLong v =
     (case v_buffer v of
        None \<Rightarrow> Some 0
      | Some b \<Rightarrow>
          (case v_type v of
             UBJ_INT32 \<Rightarrow> map_option scast (le_load32 b)
           | UBJ_INT64 \<Rightarrow> le_load64 b
           | UBJ_FLOAT32 \<Rightarrow> do { w \<leftarrow> le_load32 b; map_option of_int (float_to_int 64 (f32_decode w)) }
           | UBJ_FLOAT64 \<Rightarrow> do { w \<leftarrow> le_load64 b; map_option of_int (float_to_int 64 (f64_decode w)) }
           | UBJ_BOOL_TRUE \<Rightarrow> Some 1
           | UBJ_BOOL_FALSE \<Rightarrow> Some 0
           | _ \<Rightarrow> Some 0))"

definition val_toULong :: "val \<Rightarrow> u64 option" where
  "val_toULong v = val_toLong v"

definition val_toBool :: "val \<Rightarrow> bool option" where
  "val_toBool v =
     (if v_type v = UBJ_BOOL_TRUE then Some True
      else if v_type v = UBJ_BOOL_FALSE then Some False
      else case v_buffer v of
             None \<Rightarrow> Some False
           | Some b \<Rightarrow>
               (case v_type v of
                  UBJ_INT32 \<Rightarrow> map_option (\<lambda>w. w \<noteq> 0) (le_load32 b)
                | UBJ_INT64 \<Rightarrow> map_option (\<lambda>w. w \<noteq> 0) (le_load64 b)
                | UBJ_FLOAT32 \<Rightarrow> map_option (\<lambda>w. w AND 0x7FFFFFFF \<noteq> 0) (le_load32 b)
                | UBJ_FLOAT64 \<Rightarrow> map_option (\<lambda>w. w AND 0x7FFFFFFFFFFFFFFF \<noteq> 0) (le_load64 b)
                | _ \<Rightarrow> Some False))"

text \<open>\<^verbatim>\<open>std::stringstream << int\<close>: the decimal numeral.\<close>

fun nat_to_string :: "nat \<Rightarrow> string" where
  "nat_to_string n =
     (if n < 10 then [char_of (n + 48)] else nat_to_string (n div 10) @ [char_of (n mod 10 + 48)])"

declare nat_to_string.simps [simp del]

definition int_to_string :: "int \<Rightarrow> string" where
  "int_to_string i = (if i < 0 then ''-'' @ nat_to_string (nat (- i)) else nat_to_string (nat i))"

text \<open>\<^verbatim>\<open>toStr\<close>; the rendering of floating-point numbers is the argument \<open>fmt\<close>.\<close>

definition val_toStr :: "(ubj_type \<Rightarrow> bytes \<Rightarrow> string) \<Rightarrow> val \<Rightarrow> string option" where
  "val_toStr fmt v =
     (case v_buffer v of
        None \<Rightarrow> Some []
      | Some b \<Rightarrow>
          (case v_type v of
             UBJ_STRING \<Rightarrow> Some (string_of_bytes b)
           | UBJ_INT32 \<Rightarrow> map_option (\<lambda>w. int_to_string (sint w)) (val_toInt v)
           | UBJ_INT64 \<Rightarrow> map_option (\<lambda>w. int_to_string (sint w)) (val_toLong v)
           | UBJ_FLOAT32 \<Rightarrow> Some (fmt UBJ_FLOAT32 b)
           | UBJ_FLOAT64 \<Rightarrow> Some (fmt UBJ_FLOAT64 b)
           | _ \<Rightarrow> Some []))"

text \<open>The one case of \<^verbatim>\<open>toFloat\<close> and \<^verbatim>\<open>toDouble\<close> the writer reaches: the own type.\<close>

definition val_float_bits :: "val \<Rightarrow> u32 option" where
  "val_float_bits v = (case v_buffer v of None \<Rightarrow> Some 0 | Some b \<Rightarrow> le_load32 b)"

definition val_double_bits :: "val \<Rightarrow> u64 option" where
  "val_double_bits v = (case v_buffer v of None \<Rightarrow> Some 0 | Some b \<Rightarrow> le_load64 b)"

section \<open>Objects and arrays\<close>

definition obj_setField :: "string \<Rightarrow> val \<Rightarrow> (string \<times> val) list \<Rightarrow> (string \<times> val) list" where
  "obj_setField k v o' = omap_insert k v o'"

definition obj_hasField :: "(string \<times> val) list \<Rightarrow> string \<Rightarrow> bool" where
  "obj_hasField o' k \<longleftrightarrow> map_of o' k \<noteq> None"

definition obj_get :: "(string \<times> val) list \<Rightarrow> string \<Rightarrow> val" where
  "obj_get o' k = (case map_of o' k of Some v \<Rightarrow> v | None \<Rightarrow> val_null)"

text \<open>\<^verbatim>\<open>Object << obj\<close>: the fields of the argument win.\<close>

definition obj_merge :: "(string \<times> val) list \<Rightarrow> (string \<times> val) list \<Rightarrow> (string \<times> val) list" where
  "obj_merge o1 o2 = fold (\<lambda>(k, v). omap_insert k v) o2 o1"

definition arr_push :: "val list \<Rightarrow> val \<Rightarrow> val list" where
  "arr_push vs v = vs @ [v]"

text \<open>\<^verbatim>\<open>Value::copy\<close>, \<^verbatim>\<open>Object::copy\<close> and \<^verbatim>\<open>Array::copy\<close>; an empty buffer has no copy.\<close>

definition copy_node ::
    "ubj_type \<Rightarrow> bytes option \<Rightarrow> (string \<times> val) list option \<Rightarrow> val list option \<Rightarrow> val" where
  "copy_node t b o' a =
     (if t = UBJ_OBJECT \<and> o' \<noteq> None then
        val_of_obj (fold (\<lambda>(k, v). omap_insert k v) (the o') [])
      else if t = UBJ_ARRAY \<and> a \<noteq> None then val_of_arr (fold (\<lambda>v vs. arr_push vs v) (the a) [])
      else Val t (case b of Some d \<Rightarrow> (if d = [] then None else Some d) | None \<Rightarrow> None) None None)"

primrec val_copy :: "val \<Rightarrow> val" where
  "val_copy (Val t b o' a) =
     copy_node t b (map_option (map (map_prod id val_copy)) o') (map_option (map val_copy) a)"

section \<open>Reader\<close>

text \<open>
  The detour of a float through \<^verbatim>\<open>double\<close>: the identity, except that a signalling NaN
  becomes quiet.
\<close>

definition f32_via_double :: "u32 \<Rightarrow> u32" where
  "f32_via_double w =
     (if w AND 0x7F800000 = 0x7F800000 \<and> w AND 0x7FFFFF \<noteq> 0 then w OR 0x400000 else w)"

text \<open>
  \<^verbatim>\<open>readObject\<close>: for every key the value found by \<^verbatim>\<open>ubjr_object_lookup\<close> is read into
  \<^verbatim>\<open>res[key]\<close>; the values are given as the effect reading them has.
\<close>

definition read_object_step ::
    "(bytes \<times> (val \<Rightarrow> val)) list \<Rightarrow> bytes \<Rightarrow> (string \<times> val) list \<Rightarrow> (string \<times> val) list" where
  "read_object_step flds k res =
     (let key = string_of_bytes (c_str k);
          old = (case map_of res key of Some x \<Rightarrow> x | None \<Rightarrow> val_null)
      in omap_insert key (case object_lookup flds k of Some f \<Rightarrow> f old | None \<Rightarrow> old) res)"

definition read_object :: "(bytes \<times> (val \<Rightarrow> val)) list \<Rightarrow> val" where
  "read_object flds = val_of_obj (fold (read_object_step flds) (map fst flds) [])"

text \<open>\<^verbatim>\<open>readArray\<close>: mixed elements, or the raw cells of an array of \<^verbatim>\<open>int8\<close>.\<close>

definition dyn_int8 :: "dyn \<Rightarrow> byte" where
  "dyn_int8 d = (case d of DInt _ w \<Rightarrow> ucast w | _ \<Rightarrow> 0)"

definition read_array :: "ubj_type \<Rightarrow> dyn list \<Rightarrow> (val \<Rightarrow> val) list \<Rightarrow> val \<Rightarrow> val" where
  "read_array t ds effects v =
     (if t = UBJ_MIXED then val_of_arr (map (\<lambda>f. f val_null) effects)
      else if t = UBJ_INT8 then Val (v_type v) (Some (map dyn_int8 ds)) (v_obj v) (v_arr v)
      else v)"

definition set_type :: "ubj_type \<Rightarrow> val \<Rightarrow> val" where
  "set_type t v = Val t (v_buffer v) (v_obj v) (v_arr v)"

primrec read_dyn :: "dyn \<Rightarrow> val \<Rightarrow> val" where
  "read_dyn (DVoid t) = id"
| "read_dyn (DBool b) = set_type (if b then UBJ_BOOL_TRUE else UBJ_BOOL_FALSE)"
| "read_dyn (DInt t w) =
     (\<lambda>v. if t = UBJ_INT32 then val_int32 (ucast w) else if t = UBJ_INT64 then val_int64 w else v)"
| "read_dyn (DReal32 w) = (\<lambda>v. val_float (f32_via_double w))"
| "read_dyn (DReal64 w) = (\<lambda>v. val_double w)"
| "read_dyn (DStr t s) =
     (\<lambda>v. if t = UBJ_STRING
          then (case val_of_string (string_of_bytes (c_str s)) of Some x \<Rightarrow> x | None \<Rightarrow> v)
          else v)"
| "read_dyn (DArr sized t ds dims) = (\<lambda>v. read_array t ds (map read_dyn ds) (set_type UBJ_ARRAY v))"
| "read_dyn (DObj sized t kvs) = (\<lambda>v. read_object (map (map_prod id read_dyn) kvs))"

definition reader_read :: "val \<Rightarrow> bytes option \<Rightarrow> u32 \<Rightarrow> (bool \<times> val) option" where
  "reader_read old data size' =
     (case data of
        None \<Rightarrow> Some (False, old)
      | Some d \<Rightarrow>
          if size' = 0 then Some (False, old)
          else if length d < unat size' then None
          else do {
            (dy, _) \<leftarrow> ubjr_read_dynamic (take (unat size') d);
            Some (if dyn_type dy \<noteq> UBJ_OBJECT \<and> dyn_type dy \<noteq> UBJ_ARRAY then (False, old)
                  else (True, read_dyn dy old)) })"

text \<open>\<^verbatim>\<open>Value::read\<close> in its variants; the one on values dereferences a null buffer.\<close>

definition val_read_buffer :: "val \<Rightarrow> membuf option \<Rightarrow> (bool \<times> val) option" where
  "val_read_buffer old buf = do { b \<leftarrow> buf; reader_read old (mb_data b) (mb_size b) }"

definition obj_read :: "(string \<times> val) list \<Rightarrow> bytes option \<Rightarrow> u32
    \<Rightarrow> (bool \<times> (string \<times> val) list) option" where
  "obj_read old data size' = do {
     (r, v) \<leftarrow> reader_read val_null data size';
     Some (if r then (True, val_toObject v) else (False, old)) }"

definition obj_read_buffer :: "(string \<times> val) list \<Rightarrow> membuf option
    \<Rightarrow> (bool \<times> (string \<times> val) list) option" where
  "obj_read_buffer old buf =
     (case buf of None \<Rightarrow> Some (False, old) | Some b \<Rightarrow> obj_read old (mb_data b) (mb_size b))"

section \<open>Writer\<close>

type_synonym emit = "wctx \<Rightarrow> wctx option"

text \<open>\<^verbatim>\<open>writeValue\<close> of a key: the empty key writes nothing.\<close>

definition emit_key :: "string \<Rightarrow> emit" where
  "emit_key k ctx = (if k \<noteq> [] then write_key (bytes_of_string k) ctx else Some ctx)"

primrec emit_fields :: "(string \<times> emit) list \<Rightarrow> emit" where
  "emit_fields [] ctx = Some ctx"
| "emit_fields (kf # kfs) ctx = do {
     ctx1 \<leftarrow> emit_key (fst kf) ctx;
     ctx2 \<leftarrow> snd kf ctx1;
     emit_fields kfs ctx2 }"

primrec emit_items :: "emit list \<Rightarrow> emit" where
  "emit_items [] ctx = Some ctx"
| "emit_items (f # fs) ctx = do { ctx1 \<leftarrow> f ctx; emit_items fs ctx1 }"

definition write_object :: "(string \<times> emit) list \<Rightarrow> emit" where
  "write_object flds ctx = do {
     ctx1 \<leftarrow> begin_object UBJ_MIXED (of_nat (length flds)) ctx;
     ctx2 \<leftarrow> emit_fields flds ctx1;
     ubjw_end ctx2 }"

definition write_array :: "bytes option \<Rightarrow> emit list \<Rightarrow> emit" where
  "write_array b items ctx =
     (let bsize = (case b of Some d \<Rightarrow> of_nat (length d) | None \<Rightarrow> 0) :: u32
      in if bsize = 0 then do {
           ctx1 \<leftarrow> begin_array UBJ_MIXED (of_nat (length items)) ctx;
           ctx2 \<leftarrow> emit_items items ctx1;
           ubjw_end ctx2 }
         else write_buffer (Cells (case b of Some d \<Rightarrow> d | None \<Rightarrow> [])) UBJ_INT8 (ucast bsize) ctx)"

definition write_node :: "ubj_type \<Rightarrow> bytes option \<Rightarrow> (string \<times> emit) list option \<Rightarrow>
    emit list option \<Rightarrow> emit" where
  "write_node t b o' a =
     (let v = Val t b None None
      in case t of
           UBJ_NULLTYPE \<Rightarrow> write_null
         | UBJ_INT32 \<Rightarrow> (\<lambda>ctx. do { w \<leftarrow> val_toInt v; write_int32 w ctx })
         | UBJ_INT64 \<Rightarrow> (\<lambda>ctx. do { w \<leftarrow> val_toLong v; write_int64 w ctx })
         | UBJ_FLOAT32 \<Rightarrow> (\<lambda>ctx. do { w \<leftarrow> val_float_bits v; write_float32 w ctx })
         | UBJ_FLOAT64 \<Rightarrow> (\<lambda>ctx. do { w \<leftarrow> val_double_bits v; write_float64 w ctx })
         | UBJ_BOOL_TRUE \<Rightarrow> write_bool 1
         | UBJ_BOOL_FALSE \<Rightarrow> write_bool 0
         | UBJ_STRING \<Rightarrow> write_string (case b of Some s \<Rightarrow> s | None \<Rightarrow> [])
         | UBJ_OBJECT \<Rightarrow> write_object (case o' of Some kfs \<Rightarrow> kfs | None \<Rightarrow> [])
         | UBJ_ARRAY \<Rightarrow> write_array b (case a of Some fs \<Rightarrow> fs | None \<Rightarrow> [])
         | _ \<Rightarrow> Some)"

primrec write_value :: "val \<Rightarrow> emit" where
  "write_value (Val t b o' a) =
     write_node t b (map_option (map (map_prod id write_value)) o') (map_option (map write_value) a)"

text \<open>\<^verbatim>\<open>Writer::write\<close>: only objects and arrays produce output; the context is not closed.\<close>

definition writer_out :: "val \<Rightarrow> bytes option" where
  "writer_out v =
     (if v_type v = UBJ_OBJECT \<or> v_type v = UBJ_ARRAY
      then map_option w_out (write_value v ubjw_open_callback)
      else Some [])"

definition writer_write :: "val \<Rightarrow> membuf option option" where
  "writer_write v = do { d \<leftarrow> writer_out v; mb_create True (Some d) (of_nat (length d)) }"

section \<open>Fields of objects\<close>

lemma length_c_str: "length (c_str s) \<le> length s"
  by (simp add: c_str_def length_takeWhile_le)

text \<open>A string always converts.\<close>

lemma val_of_string_total: "\<exists>v. val_of_string s = Some v"
proof -
  let ?b = "bytes_of_string s"
  have "unat (of_nat n :: u32) \<le> n" for n by (simp add: unat_of_nat)
  then have "unat (of_nat (length s) :: u32) \<le> length ?b + 1"
    and "unat (of_nat (length (c_str ?b)) :: u32) \<le> length ?b + 1"
    using length_c_str [of ?b] by (auto simp: bytes_of_string_def intro: le_trans le_SucI)
  then show ?thesis by (auto simp: val_of_string_def set_string_def Let_def)
qed

lemma obj_get_setField:
  "obj_get (obj_setField k v ob) k' = (if k' = k then v else obj_get ob k')"
  by (simp add: obj_get_def obj_setField_def map_of_omap_insert)

lemma obj_hasField_setField:
  "obj_hasField (obj_setField k v ob) k' \<longleftrightarrow> k' = k \<or> obj_hasField ob k'"
  by (simp add: obj_hasField_def obj_setField_def map_of_omap_insert)

end
