(* ===== verification/UBJ_Codec.thy ===== *)
theory UBJ_Codec
  imports UBJ_Value
begin

text \<open>
  The wire format as a function on values, the writer machine as an implementation of it, and
  the reader as its inverse.  \<open>enc\<close> is the specification: the bytes of a value.  \<open>ser\<close> holds of
  the values the library can put on the wire without loss (no empty and no NUL-carrying keys,
  no empty strings, buffers of the size their type says, no signalling NaN).
\<close>

definition enc_integer :: "u64 \<Rightarrow> bytes" where
  "enc_integer w =
     (case min_integer_type w of
        UBJ_INT8 \<Rightarrow> [0x69, ucast w]
      | UBJ_UINT8 \<Rightarrow> [0x55, ucast w]
      | UBJ_INT16 \<Rightarrow> 0x49 # to_bigendian16 (ucast w)
      | UBJ_INT32 \<Rightarrow> 0x6C # to_bigendian32 (ucast w)
      | _ \<Rightarrow> 0x4C # to_bigendian64 w)"

definition enc_count :: "nat \<Rightarrow> bytes" where
  "enc_count n = (if n = 0 then [] else 0x23 # enc_integer (of_nat n))"

definition enc_text :: "bytes \<Rightarrow> bytes" where
  "enc_text s = enc_integer (of_nat (length s)) @ s"

definition enc_node :: "ubj_type \<Rightarrow> bytes option \<Rightarrow> (string \<times> bytes) list option \<Rightarrow>
    bytes list option \<Rightarrow> bytes" where
  "enc_node t b o' a =
     (let d = (case b of Some x \<Rightarrow> x | None \<Rightarrow> [])
      in case t of
           UBJ_NULLTYPE \<Rightarrow> [0x5A]
         | UBJ_BOOL_TRUE \<Rightarrow> [0x54]
         | UBJ_BOOL_FALSE \<Rightarrow> [0x46]
         | UBJ_INT32 \<Rightarrow> 0x6C # rev d
         | UBJ_INT64 \<Rightarrow> 0x4C # rev d
         | UBJ_FLOAT32 \<Rightarrow> 0x64 # rev d
         | UBJ_FLOAT64 \<Rightarrow> 0x44 # rev d
         | UBJ_STRING \<Rightarrow> 0x53 # enc_text d
         | UBJ_OBJECT \<Rightarrow>
             (let kfs = (case o' of Some x \<Rightarrow> x | None \<Rightarrow> [])
              in 0x7B # enc_count (length kfs)
                 @ concat (map (\<lambda>(k, f). enc_text (bytes_of_string k) @ f) kfs)
                 @ (if kfs = [] then [0x7D] else []))
         | UBJ_ARRAY \<Rightarrow>
             (if d = [] then
                (let fs = (case a of Some x \<Rightarrow> x | None \<Rightarrow> [])
                 in 0x5B # enc_count (length fs) @ concat fs @ (if fs = [] then [0x5D] else []))
              else [0x5B, 0x24, 0x69] @ enc_count (length d) @ d)
         | _ \<Rightarrow> [])"

primrec enc :: "val \<Rightarrow> bytes" where
  "enc (Val t b o' a) =
     enc_node t b (map_option (map (map_prod id enc)) o') (map_option (map enc) a)"

text \<open>Nesting of containers.\<close>

definition depth_node :: "ubj_type \<Rightarrow> (string \<times> nat) list option \<Rightarrow> nat list option \<Rightarrow> nat" where
  "depth_node t o' a =
     (if t = UBJ_OBJECT then Suc (foldr max (map snd (case o' of Some x \<Rightarrow> x | None \<Rightarrow> [])) 0)
      else if t = UBJ_ARRAY then Suc (foldr max (case a of Some x \<Rightarrow> x | None \<Rightarrow> []) 0)
      else 0)"

primrec v_depth :: "val \<Rightarrow> nat" where
  "v_depth (Val t b o' a) =
     depth_node t (map_option (map (map_prod id v_depth)) o') (map_option (map v_depth) a)"

text \<open>Values that survive the wire.\<close>

definition ser_key :: "string \<Rightarrow> bool" where
  "ser_key k \<longleftrightarrow> k \<noteq> [] \<and> no_nul (bytes_of_string k)"

definition ser_node :: "ubj_type \<Rightarrow> bytes option \<Rightarrow> (string \<times> bool) list option \<Rightarrow>
    bool list option \<Rightarrow> bool" where
  "ser_node t b o' a =
     (case t of
        UBJ_NULLTYPE \<Rightarrow> b = None \<and> o' = None \<and> a = None
      | UBJ_BOOL_TRUE \<Rightarrow> b = None \<and> o' = None \<and> a = None
      | UBJ_BOOL_FALSE \<Rightarrow> b = None \<and> o' = None \<and> a = None
      | UBJ_INT32 \<Rightarrow> o' = None \<and> a = None \<and> (case b of Some d \<Rightarrow> length d = 4 | None \<Rightarrow> False)
      | UBJ_INT64 \<Rightarrow> o' = None \<and> a = None \<and> (case b of Some d \<Rightarrow> length d = 8 | None \<Rightarrow> False)
      | UBJ_FLOAT32 \<Rightarrow> o' = None \<and> a = None
          \<and> (case b of Some d \<Rightarrow> length d = 4 \<and> map_option f32_via_double (le_load32 d) = le_load32 d
             | None \<Rightarrow> False)
      | UBJ_FLOAT64 \<Rightarrow> o' = None \<and> a = None \<and> (case b of Some d \<Rightarrow> length d = 8 | None \<Rightarrow> False)
      | UBJ_STRING \<Rightarrow> o' = None \<and> a = None
          \<and> (case b of Some d \<Rightarrow> d \<noteq> [] \<and> no_nul d | None \<Rightarrow> False)
      | UBJ_OBJECT \<Rightarrow> b = None \<and> a = None
          \<and> (case o' of Some kfs \<Rightarrow> omap_inv kfs \<and> list_all (\<lambda>(k, f). ser_key k \<and> f) kfs
             | None \<Rightarrow> False)
      | UBJ_ARRAY \<Rightarrow> o' = None
          \<and> (case (b, a) of
               (None, Some fs) \<Rightarrow> list_all id fs
             | (Some d, None) \<Rightarrow> d \<noteq> []
             | _ \<Rightarrow> False)
      | _ \<Rightarrow> False)"

primrec ser :: "val \<Rightarrow> bool" where
  "ser (Val t b o' a) =
     ser_node t b (map_option (map (map_prod id ser)) o') (map_option (map ser) a)"

section \<open>Integers\<close>

lemma sint_range_u64: "- (2 ^ 63) \<le> sint (w :: u64)" "sint (w :: u64) < 2 ^ 63"
  using sint_ge [of w] sint_lt [of w] by simp_all

lemma uint_llabs: "uint (llabs w) = \<bar>sint w\<bar>"
proof (cases "w <s 0")
  case True
  then have neg: "sint w < 0" by (simp add: word_sless_alt)
  have "uint (- w) = uint (word_of_int (- sint w) :: u64)"
    by (rule arg_cong [where f = uint]) simp
  also have "\<dots> = (- sint w) mod 2 ^ 64"
    by (simp only: unsigned_of_int take_bit_eq_mod) simp
  finally have "uint (- w) = (- sint w) mod 2 ^ 64" .
  with neg sint_range_u64 [of w] have "uint (- w) = - sint w" by simp
  with True neg show ?thesis by (simp add: llabs_def)
next
  case False
  then have pos: "0 \<le> sint w" by (simp add: word_sless_alt)
  have "uint w = uint (word_of_int (sint w) :: u64)"
    by (rule arg_cong [where f = uint]) simp
  also have "\<dots> = sint w mod 2 ^ 64"
    by (simp only: unsigned_of_int take_bit_eq_mod) simp
  finally have "uint w = sint w"
    using pos sint_range_u64 [of w] by simp
  with False pos show ?thesis by (simp add: llabs_def)
qed


text \<open>Sign extension undoes truncation on the range of the narrow type.\<close>

lemma scast_ucast_u64:
  fixes w :: u64
  assumes "LENGTH('a::len) \<le> 64" and "- (2 ^ (LENGTH('a) - 1)) \<le> sint w"
    and "sint w < 2 ^ (LENGTH('a) - 1)"
  shows "scast (ucast w :: 'a word) = w"
proof -
  have "(ucast w :: 'a word) = word_of_int (sint w)"
    by (rule bit_word_eqI) (use assms(1) in \<open>auto simp: bit_simps\<close>)
  then have "sint (ucast w :: 'a word) = sint (word_of_int (sint w) :: 'a word)"
    by (rule arg_cong [where f = sint])
  also have "\<dots> = signed_take_bit (LENGTH('a) - 1) (sint w)"
    by (simp only: signed_of_int of_int_eq_id id_apply One_nat_def)
  also have "\<dots> = sint w"
    using assms(2,3) by (simp add: signed_take_bit_int_eq_self)
  finally have "sint (ucast w :: 'a word) = sint w" .
  then have "(word_of_int (sint (ucast w :: 'a word)) :: u64) = word_of_int (sint w)" by simp
  then show ?thesis by simp
qed

lemma min_integer_type_cases:
  obtains (int8) "min_integer_type w = UBJ_INT8" "\<bar>sint w\<bar> < 2 ^ 7"
    | (uint8) "min_integer_type w = UBJ_UINT8" "0 \<le> sint w" "sint w < 2 ^ 8"
    | (int16) "min_integer_type w = UBJ_INT16" "\<bar>sint w\<bar> < 2 ^ 15"
    | (int32) "min_integer_type w = UBJ_INT32" "\<bar>sint w\<bar> < 2 ^ 31"
    | (int64) "min_integer_type w = UBJ_INT64"
proof -
  have less: "llabs w < n \<longleftrightarrow> \<bar>sint w\<bar> < uint n" for n
    by (simp add: word_less_def uint_llabs)
  have num: "uint (0x80 :: u64) = 2 ^ 7" "uint (0x100 :: u64) = 2 ^ 8"
    "uint (0x8000 :: u64) = 2 ^ 15" "uint (0x80000000 :: u64) = 2 ^ 31" by simp_all
  have *: "min_integer_type w =
    (if \<bar>sint w\<bar> < 2 ^ 7 then UBJ_INT8
     else if 0 < sint w \<and> \<bar>sint w\<bar> < 2 ^ 8 then UBJ_UINT8
     else if \<bar>sint w\<bar> < 2 ^ 15 then UBJ_INT16
     else if \<bar>sint w\<bar> < 2 ^ 31 then UBJ_INT32 else UBJ_INT64)"
    unfolding min_integer_type_def Let_def less word_sless_alt by (simp only: num signed_0)
  consider "\<bar>sint w\<bar> < 2 ^ 7"
    | "\<not> \<bar>sint w\<bar> < 2 ^ 7" "0 < sint w" "\<bar>sint w\<bar> < 2 ^ 8"
    | "\<not> \<bar>sint w\<bar> < 2 ^ 7" "\<not> (0 < sint w \<and> \<bar>sint w\<bar> < 2 ^ 8)" "\<bar>sint w\<bar> < 2 ^ 15"
    | "\<not> \<bar>sint w\<bar> < 2 ^ 7" "\<not> (0 < sint w \<and> \<bar>sint w\<bar> < 2 ^ 8)" "\<not> \<bar>sint w\<bar> < 2 ^ 15"
      "\<bar>sint w\<bar> < 2 ^ 31"
    | "\<not> \<bar>sint w\<bar> < 2 ^ 7" "\<not> (0 < sint w \<and> \<bar>sint w\<bar> < 2 ^ 8)" "\<not> \<bar>sint w\<bar> < 2 ^ 15"
      "\<not> \<bar>sint w\<bar> < 2 ^ 31" by argo
  then show thesis
  proof cases
    case 1
    with * show thesis by (intro int8) (simp_all only: if_True)
  next
    case 2
    with * have "min_integer_type w = UBJ_UINT8" by (simp only: if_True if_False simp_thms)
    moreover have "0 \<le> sint w" "sint w < 2 ^ 8" using 2 by arith+
    ultimately show thesis by (rule uint8)
  next
    case 3
    with * show thesis by (intro int16) (simp_all only: if_True if_False simp_thms)
  next
    case 4
    with * show thesis by (intro int32) (simp_all only: if_True if_False simp_thms)
  next
    case 5
    with * show thesis by (intro int64) (simp_all only: if_True if_False simp_thms)
  qed
qed

lemma uint_eq_sint_nonneg: "0 \<le> sint (w :: u64) \<Longrightarrow> uint w = sint w"
  by (metis uint_llabs abs_of_nonneg llabs_def word_sless_alt signed_0 not_less)

lemma ucast_u8_u64:
  fixes w :: u64
  assumes "0 \<le> sint w" and "sint w < 2 ^ 8"
  shows "ucast (ucast w :: byte) = w"
proof -
  from assms have "uint w < 2 ^ 8" by (simp add: uint_eq_sint_nonneg)
  then have "w < 2 ^ 8" by (simp add: word_less_def)
  then have "unat w < 2 ^ 8" by (simp add: word_less_nat_alt)
  then show ?thesis
    by (simp add: word_unat_eq_iff unsigned_ucast_eq unsigned_take_bit_eq take_bit_nat_eq_self)
qed


lemma write_integer_ignoring:
  assumes "w_ignore ctx" and "w_stack ctx \<noteq> []"
  shows "write_integer w ctx = Some (context_write (enc_integer w) ctx)"
proof -
  have tag: "tag_public t ctx = map_option (\<lambda>c. context_append c ctx) (type_char t)" for t
    using assms by (simp add: tag_public_def split: list.splits)
  show ?thesis
    by (cases w rule: min_integer_type_cases)
      (simp_all add: write_integer_def enc_integer_def tag write_int8_def write_uint8_def
        write_int16_def write_int32_def write_int64_def context_append_def context_write_def)
qed

lemma read_bigendian [simp]:
  "read_2b (to_bigendian16 a @ r) = Some (a, r)"
  "read_4b (to_bigendian32 b @ r) = Some (b, r)"
  "read_8b (to_bigendian64 c @ r) = Some (c, r)"
  by (simp_all add: read_2b_def read_4b_def read_8b_def to_bigendian16_def to_bigendian32_def
      to_bigendian64_def wire)

lemma rd_integer_enc [simp]: "rd_integer (rd_ptr (Suc f)) (enc_integer w @ r) = Some (w, r)"
proof (cases w rule: min_integer_type_cases)
  case int8
  moreover from int8(2) have "- (2 ^ 7) \<le> sint w" "sint w < 2 ^ 7" by arith+
  ultimately show ?thesis
    using scast_ucast_u64 [of w, where 'a = 8]
    by (simp add: enc_integer_def rd_integer_def rd_dynamic_def read_to_ptr_def)
next
  case uint8
  then show ?thesis
    using ucast_u8_u64 [of w]
    by (simp add: enc_integer_def rd_integer_def rd_dynamic_def read_to_ptr_def)
next
  case int16
  moreover from int16(2) have "- (2 ^ 15) \<le> sint w" "sint w < 2 ^ 15" by arith+
  ultimately show ?thesis
    using scast_ucast_u64 [of w, where 'a = 16]
    by (simp add: enc_integer_def rd_integer_def rd_dynamic_def read_to_ptr_def)
next
  case int32
  moreover from int32(2) have "- (2 ^ 31) \<le> sint w" "sint w < 2 ^ 31" by arith+
  ultimately show ?thesis
    using scast_ucast_u64 [of w, where 'a = 32]
    by (simp add: enc_integer_def rd_integer_def rd_dynamic_def read_to_ptr_def)
next
  case int64
  then show ?thesis
    by (simp add: enc_integer_def rd_integer_def rd_dynamic_def read_to_ptr_def)
qed

text \<open>Every integer takes its shortest form: at most nine bytes, two for \<open>|w| < 128\<close>.\<close>

lemma length_enc_integer: "2 \<le> length (enc_integer w)" "length (enc_integer w) \<le> 9"
  by (cases w rule: min_integer_type_cases; simp add: enc_integer_def)+

section \<open>The writer implements the format\<close>

definition value_done :: "container \<Rightarrow> container" where
  "value_done h =
     (let h1 = (if has_flag h CONTAINER_IS_UBJ_OBJECT
                then h\<lparr>c_flags := c_flags h OR CONTAINER_EXPECTS_KEY\<rparr> else h)
      in if has_flag h1 CONTAINER_IS_SIZED then h1\<lparr>c_remaining := c_remaining h1 - 1\<rparr> else h1)"

text \<open>A context that takes a value: not inside a length, not before a key, not typed.\<close>

definition takes_value :: "wctx \<Rightarrow> container \<Rightarrow> container list \<Rightarrow> bool" where
  "takes_value ctx h hs \<longleftrightarrow>
     w_stack ctx = h # hs \<and> \<not> w_ignore ctx \<and> \<not> has_flag h CONTAINER_IS_TYPED
     \<and> \<not> (has_flag h CONTAINER_IS_UBJ_OBJECT \<and> has_flag h CONTAINER_EXPECTS_KEY)"

definition emitted :: "wctx \<Rightarrow> container list \<Rightarrow> bytes \<Rightarrow> wctx" where
  "emitted ctx st d = \<lparr>w_stack = st, w_ignore = False, w_out = w_out ctx @ d\<rparr>"

lemma flags_or_key:
  "(a OR CONTAINER_EXPECTS_KEY) AND CONTAINER_IS_TYPED = a AND CONTAINER_IS_TYPED"
  "(a OR CONTAINER_EXPECTS_KEY) AND CONTAINER_IS_SIZED = a AND CONTAINER_IS_SIZED"
  by (simp_all add: container_flags bit.conj_disj_distrib2)

lemma tag_public_value:
  assumes "takes_value ctx h hs" and "type_char t = Some c"
  shows "tag_public t ctx = Some (emitted ctx (value_done h # hs) [c])"
  using assms
  by (auto simp: takes_value_def tag_public_def value_done_def emitted_def context_append_def
      Let_def flags_or_key has_flag_def)

text \<open>Scalars.\<close>

lemma write_raw_string_enc:
  assumes "w_stack ctx \<noteq> []" and "no_nul s"
  shows "write_raw_string s ctx = Some (emitted ctx (w_stack ctx) (enc_text s))"
  using assms
  by (simp add: write_raw_string_def write_integer_ignoring context_write_def emitted_def
      enc_text_def)

lemma rev_load [simp]:
  "length d = 4 \<Longrightarrow> map_option to_bigendian32 (le_load32 d) = Some (rev d)"
  "length d = 8 \<Longrightarrow> map_option to_bigendian64 (le_load64 d) = Some (rev d)"
  using swap32_rev [of d] swap64_rev [of d] by simp_all

lemma load_bigendian:
  "length d = 4 \<Longrightarrow> \<exists>w. le_load32 d = Some w \<and> to_bigendian32 w = rev d"
  "length d = 8 \<Longrightarrow> \<exists>w. le_load64 d = Some w \<and> to_bigendian64 w = rev d"
  using rev_load [of d] by (auto simp del: rev_load)

lemmas write_scalar_defs =
  write_null_def write_bool_def write_int32_def write_int64_def write_float32_def
  write_float64_def write_string_def

lemma write_node_scalar:
  assumes "ser_node t b o' a" and "takes_value ctx h hs" and "t \<noteq> UBJ_OBJECT" and "t \<noteq> UBJ_ARRAY"
  shows "write_node t b kfs fs ctx = Some (emitted ctx (value_done h # hs) (enc_node t b kes es))"
proof -
  note tag = tag_public_value [OF assms(2)]
  consider "t = UBJ_NULLTYPE" | "t = UBJ_BOOL_TRUE" | "t = UBJ_BOOL_FALSE"
    | d where "t = UBJ_INT32" "b = Some d" "length d = 4"
    | d where "t = UBJ_INT64" "b = Some d" "length d = 8"
    | d where "t = UBJ_FLOAT32" "b = Some d" "length d = 4"
    | d where "t = UBJ_FLOAT64" "b = Some d" "length d = 8"
    | d where "t = UBJ_STRING" "b = Some d" "no_nul d"
    using assms(1,3,4) by (cases t) (auto simp: ser_node_def split: option.splits)
  then show ?thesis
    by cases (auto simp: write_node_def enc_node_def write_scalar_defs tag val_toInt_def
        val_toLong_def val_float_bits_def val_double_bits_def context_write_def emitted_def
        write_raw_string_enc dest!: load_bigendian)
qed

section \<open>Containers\<close>

lemma of_nat_u32_nonzero: "0 < n \<Longrightarrow> n < 2 ^ 32 \<Longrightarrow> (of_nat n :: u32) \<noteq> 0"
  by (metis less_numeral_extra(3) unat_of_nat_u32 unsigned_0)

lemma w_out_emitted [simp]:
  "w_stack (emitted ctx st d) = st" "w_ignore (emitted ctx st d) = False"
  "w_out (emitted ctx st d) = w_out ctx @ d" "emitted (emitted ctx st d) st' d' = emitted ctx st' (d @ d')"
  by (simp_all add: emitted_def)

lemma begin_container_mixed:
  assumes "w_stack ctx \<noteq> []" and "\<not> w_ignore ctx" and "n < 2 ^ 64"
  shows "begin_container UBJ_MIXED (of_nat n) ctx =
    Some (\<lparr>c_flags = (if n = 0 then 0 else 1), c_type = UBJ_MIXED, c_remaining = of_nat n\<rparr>,
          emitted ctx (w_stack ctx) (enc_count n))"
proof (cases "n = 0")
  case False
  have "(of_nat n :: u64) \<noteq> 0"
    using False assms(3) by (metis unat_of_nat_u64 unsigned_0)
  with False assms(1) show ?thesis
    by (simp add: begin_container_def write_integer_ignoring context_append_def context_write_def
        emitted_def enc_count_def CONTAINER_IS_SIZED_def)
next
  case True
  with assms(1,2) show ?thesis
    by (simp add: begin_container_def emitted_def enc_count_def)
qed

text \<open>\<open>f\<close> writes the bytes \<open>e\<close> as one value, given room for \<open>n\<close> more containers.\<close>

definition emits :: "nat \<Rightarrow> emit \<Rightarrow> bytes \<Rightarrow> bool" where
  "emits n f e \<longleftrightarrow>
     (\<forall>ctx h hs. takes_value ctx h hs \<longrightarrow> Suc (length hs) + n \<le> CONTAINER_STACK_MAX \<longrightarrow>
        f ctx = Some (emitted ctx (value_done h # hs) e))"

lemma emitsD:
  "emits n f e \<Longrightarrow> takes_value ctx h hs \<Longrightarrow> Suc (length hs) + n \<le> CONTAINER_STACK_MAX \<Longrightarrow>
    f ctx = Some (emitted ctx (value_done h # hs) e)"
  by (auto simp: emits_def)

lemma emits_mono: "emits m f e \<Longrightarrow> m \<le> n \<Longrightarrow> emits n f e"
  by (auto simp: emits_def)

text \<open>The head of an open object: its flags return to the same value after every field.\<close>

lemma object_flags:
  assumes "c_flags c \<in> {0x18, 0x19}"
  shows "has_flag c CONTAINER_EXPECTS_KEY" "has_flag c CONTAINER_IS_UBJ_OBJECT"
    and "\<exists>rem. value_done (c\<lparr>c_flags := c_flags c XOR CONTAINER_EXPECTS_KEY\<rparr>) = c\<lparr>c_remaining := rem\<rparr>"
    and "takes_value (emitted ctx (c\<lparr>c_flags := c_flags c XOR CONTAINER_EXPECTS_KEY\<rparr> # hs) d)
           (c\<lparr>c_flags := c_flags c XOR CONTAINER_EXPECTS_KEY\<rparr>) hs"
  using assms
  by (cases c; auto simp: has_flag_def container_flags value_done_def takes_value_def Let_def)+

lemma emit_fields_enc:
  assumes "list_all2 (\<lambda>(k, f) (k', e). k = k' \<and> ser_key k \<and> emits n f e) kfs kes"
    and "w_stack ctx = c # hs" and "\<not> w_ignore ctx" and "c_flags c \<in> {0x18, 0x19}"
    and "Suc (length hs) + n \<le> CONTAINER_STACK_MAX"
  shows "\<exists>rem. emit_fields kfs ctx = Some (emitted ctx (c\<lparr>c_remaining := rem\<rparr> # hs)
    (concat (map (\<lambda>(k, e). enc_text (bytes_of_string k) @ e) kes)))"
  using assms(1-4)
proof (induction kfs kes arbitrary: ctx c rule: list_all2_induct)
  case Nil
  then have "ctx = emitted ctx (c\<lparr>c_remaining := c_remaining c\<rparr> # hs) []"
    by (simp add: emitted_def)
  then have "\<exists>rem. ctx = emitted ctx (c\<lparr>c_remaining := rem\<rparr> # hs) []" by (rule exI)
  then show ?case by simp
next
  case (Cons p kfs q kes)
  obtain k f e where p: "p = (k, f)" and q: "q = (k, e)" and k: "ser_key k" and f: "emits n f e"
    using Cons.hyps by auto
  let ?c = "c\<lparr>c_flags := c_flags c XOR CONTAINER_EXPECTS_KEY\<rparr>"
  note flags = object_flags [OF Cons.prems(3)]
  have key: "emit_key k ctx = Some (emitted ctx (?c # hs) (enc_text (bytes_of_string k)))"
    using Cons.prems k flags(1,2)
    by (simp add: emit_key_def write_key_def ser_key_def write_raw_string_enc emitted_def)
  obtain rem where rem: "value_done ?c = c\<lparr>c_remaining := rem\<rparr>" using flags(3) by blast
  have "f (emitted ctx (?c # hs) (enc_text (bytes_of_string k))) =
      Some (emitted ctx (c\<lparr>c_remaining := rem\<rparr> # hs) (enc_text (bytes_of_string k) @ e))"
    using emitsD [OF f flags(4) assms(5)] by (simp add: rem)
  moreover obtain rem' where
    "emit_fields kfs (emitted ctx (c\<lparr>c_remaining := rem\<rparr> # hs) (enc_text (bytes_of_string k) @ e)) =
      Some (emitted ctx (c\<lparr>c_remaining := rem'\<rparr> # hs) ((enc_text (bytes_of_string k) @ e)
        @ concat (map (\<lambda>(k, e). enc_text (bytes_of_string k) @ e) kes)))"
    using Cons.IH [of "emitted ctx (c\<lparr>c_remaining := rem\<rparr> # hs) (enc_text (bytes_of_string k) @ e)"
        "c\<lparr>c_remaining := rem\<rparr>"] Cons.prems by auto
  ultimately show ?case by (auto simp: p q key)
qed

lemma array_flags:
  assumes "c_flags c \<in> {0x4, 0x5}"
  shows "takes_value (emitted ctx (c # hs) d) c hs"
    and "\<exists>rem. value_done c = c\<lparr>c_remaining := rem\<rparr>"
  using assms
  by (cases c; auto simp: has_flag_def container_flags value_done_def takes_value_def Let_def)+

lemma emit_items_enc:
  assumes "list_all2 (emits n) fs es"
    and "w_stack ctx = c # hs" and "\<not> w_ignore ctx" and "c_flags c \<in> {0x4, 0x5}"
    and "Suc (length hs) + n \<le> CONTAINER_STACK_MAX"
  shows "\<exists>rem. emit_items fs ctx = Some (emitted ctx (c\<lparr>c_remaining := rem\<rparr> # hs) (concat es))"
  using assms(1-4)
proof (induction fs es arbitrary: ctx c rule: list_all2_induct)
  case Nil
  then have "ctx = emitted ctx (c\<lparr>c_remaining := c_remaining c\<rparr> # hs) []"
    by (simp add: emitted_def)
  then have "\<exists>rem. ctx = emitted ctx (c\<lparr>c_remaining := rem\<rparr> # hs) []" by (rule exI)
  then show ?case by simp
next
  case (Cons f fs e es)
  note flags = array_flags [OF Cons.prems(3)]
  obtain rem where rem: "value_done c = c\<lparr>c_remaining := rem\<rparr>" using flags(2) by blast
  have "ctx = emitted ctx (c # hs) []" using Cons.prems by (simp add: emitted_def)
  then have "takes_value ctx c hs" by (metis flags(1))
  from emitsD [OF Cons.hyps(1) this assms(5)]
  have "f ctx = Some (emitted ctx (c\<lparr>c_remaining := rem\<rparr> # hs) e)" by (simp add: rem)
  moreover obtain rem' where
    "emit_items fs (emitted ctx (c\<lparr>c_remaining := rem\<rparr> # hs) e) =
      Some (emitted ctx (c\<lparr>c_remaining := rem'\<rparr> # hs) (e @ concat es))"
    using Cons.IH [of "emitted ctx (c\<lparr>c_remaining := rem\<rparr> # hs) e" "c\<lparr>c_remaining := rem\<rparr>"]
      Cons.prems by auto
  ultimately show ?case by auto
qed

lemma end_container:
  assumes "w_stack ctx = c # h # hs"
  shows "ubjw_end ctx = Some (finish_container c (ctx\<lparr>w_stack := h # hs\<rparr>))"
  using assms by (simp add: ubjw_end_def container_stack_pop_def)

lemma write_object_enc:
  assumes "list_all2 (\<lambda>(k, f) (k', e). k = k' \<and> ser_key k \<and> emits n f e) kfs kes"
    and "length kfs < 2 ^ 64"
  shows "emits (Suc n) (write_object kfs) (0x7B # enc_count (length kfs)
    @ concat (map (\<lambda>(k, e). enc_text (bytes_of_string k) @ e) kes)
    @ (if kfs = [] then [0x7D] else []))"
  unfolding emits_def
proof (intro allI impI)
  fix ctx h hs
  assume v: "takes_value ctx h hs" and room: "Suc (length hs) + Suc n \<le> CONTAINER_STACK_MAX"
  let ?N = "length kfs"
  let ?ctx1 = "emitted ctx (value_done h # hs) (0x7B # enc_count ?N)"
  let ?c = "\<lparr>c_flags = (if ?N = 0 then 0x18 else 0x19), c_type = UBJ_MIXED, c_remaining = of_nat ?N\<rparr>"
  let ?ctx2 = "emitted ctx (?c # value_done h # hs) (0x7B # enc_count ?N)"
  let ?body = "concat (map (\<lambda>(k, e). enc_text (bytes_of_string k) @ e) kes)"
  have begin': "begin_object UBJ_MIXED (of_nat ?N) ctx = Some ?ctx2"
    unfolding begin_object_def tag_public_value [OF v type_char_simps(17)]
    using begin_container_mixed [OF _ _ assms(2), of "emitted ctx (value_done h # hs) [0x7B]"] room
    by (simp add: container_stack_push_def container_flags emitted_def)
  have st: "w_stack ?ctx2 = ?c # value_done h # hs" and ign: "\<not> w_ignore ?ctx2" by simp_all
  have fl: "c_flags ?c \<in> {0x18, 0x19}" by simp
  have rm: "Suc (length (value_done h # hs)) + n \<le> CONTAINER_STACK_MAX" using room by simp
  obtain rem where fs: "emit_fields kfs ?ctx2 =
      Some (emitted ctx (?c\<lparr>c_remaining := rem\<rparr> # value_done h # hs) ((0x7B # enc_count ?N) @ ?body))"
    using emit_fields_enc [OF assms(1) st ign fl rm] by auto
  show "write_object kfs ctx = Some (emitted ctx (value_done h # hs)
      (0x7B # enc_count ?N @ ?body @ (if kfs = [] then [0x7D] else [])))"
    unfolding write_object_def begin' bind.simps fs
    by (auto simp: end_container finish_container_def has_flag_def container_flags
        context_append_def emitted_def)
qed


lemma write_items_enc:
  assumes "list_all2 (emits n) fs es" and "length fs < 2 ^ 64"
    and v: "takes_value ctx h hs" and room: "Suc (length hs) + Suc n \<le> CONTAINER_STACK_MAX"
  shows "write_array None fs ctx = Some (emitted ctx (value_done h # hs)
    (0x5B # enc_count (length fs) @ concat es @ (if fs = [] then [0x5D] else [])))"
proof -
  let ?N = "length fs"
  let ?c = "\<lparr>c_flags = (if ?N = 0 then 0x4 else 0x5), c_type = UBJ_MIXED, c_remaining = of_nat ?N\<rparr>"
  let ?ctx2 = "emitted ctx (?c # value_done h # hs) (0x5B # enc_count ?N)"
  have begin': "begin_array UBJ_MIXED (of_nat ?N) ctx = Some ?ctx2"
    unfolding begin_array_def tag_public_value [OF v type_char_simps(16)]
    using begin_container_mixed [OF _ _ assms(2), of "emitted ctx (value_done h # hs) [0x5B]"] room
    by (simp add: container_stack_push_def container_flags emitted_def)
  have st: "w_stack ?ctx2 = ?c # value_done h # hs" and ign: "\<not> w_ignore ?ctx2" by simp_all
  have fl: "c_flags ?c \<in> {0x4, 0x5}" by simp
  have rm: "Suc (length (value_done h # hs)) + n \<le> CONTAINER_STACK_MAX" using room by simp
  obtain rem where fs: "emit_items fs ?ctx2 =
      Some (emitted ctx (?c\<lparr>c_remaining := rem\<rparr> # value_done h # hs) ((0x5B # enc_count ?N) @ concat es))"
    using emit_items_enc [OF assms(1) st ign fl rm] by auto
  show ?thesis
    unfolding write_array_def Let_def option.case begin' bind.simps
    using fs
    by (auto simp: end_container finish_container_def has_flag_def container_flags
        context_append_def emitted_def)
qed

lemma write_bytes_enc:
  assumes "d \<noteq> []" and "length d < 2 ^ 32"
    and v: "takes_value ctx h hs" and room: "Suc (length hs) + 1 \<le> CONTAINER_STACK_MAX"
  shows "write_array (Some d) fs ctx = Some (emitted ctx (value_done h # hs)
    ([0x5B, 0x24, 0x69] @ enc_count (length d) @ d))"
proof -
  let ?n = "of_nat (length d) :: u32"
  have n0: "?n \<noteq> 0" using assms(1,2) of_nat_u32_nonzero [of "length d"] by simp
  have n: "unat ?n = length d" by (rule unat_of_nat_u32 [OF assms(2)])
  have u: "(ucast ?n :: u64) = of_nat (length d)"
    by (metis n of_nat_unat)
  have n64: "(of_nat (length d) :: u64) \<noteq> 0" "unat (of_nat (length d) :: u64) = length d"
    using assms(1,2) unat_of_nat_u64 [of "length d"] by auto
  let ?c = "\<lparr>c_flags = 0x7, c_type = UBJ_INT8, c_remaining = of_nat (length d)\<rparr>"
  have begin': "begin_array UBJ_INT8 (of_nat (length d)) ctx = Some
      (emitted ctx (?c # value_done h # hs) ([0x5B, 0x24, 0x69] @ enc_count (length d)))"
    unfolding begin_array_def tag_public_value [OF v type_char_simps(16)]
    using room n64 assms(1)
    by (simp add: begin_container_def write_integer_ignoring context_append_def context_write_def
        container_stack_push_def container_flags emitted_def enc_count_def)
  show ?thesis
    using n0 n64
    by (simp add: write_array_def u write_buffer_def begin' end_container finish_container_def
        has_flag_def container_flags context_write_def emitted_def)
qed


text \<open>The parts of an encoding are no longer than the whole.\<close>

lemma length_concat_ge: "x \<in> set xs \<Longrightarrow> length x \<le> length (concat xs)"
  by (induction xs) auto

lemma length_le_concat: "(\<And>x. x \<in> set xs \<Longrightarrow> x \<noteq> []) \<Longrightarrow> length xs \<le> length (concat xs)"
proof (induction xs)
  case (Cons x xs)
  then have "1 \<le> length x" by (cases x) auto
  with Cons show ?case by simp
qed simp

lemma foldr_max_ge: "x \<in> set xs \<Longrightarrow> x \<le> foldr max xs (0::nat)"
  by (induction xs) auto

lemma enc_nonempty: "ser v \<Longrightarrow> enc v \<noteq> []"
  by (cases v) (auto simp: ser_node_def enc_node_def Let_def split: ubj_type.splits)

lemma ser_object:
  assumes "ser (Val UBJ_OBJECT b o' a)"
  obtains kvs where "b = None" "a = None" "o' = Some kvs" "omap_inv kvs"
    "\<forall>(k, v) \<in> set kvs. ser_key k \<and> ser v"
proof -
  from assms obtain kvs where *: "o' = Some kvs" "b = None" "a = None"
      "omap_inv (map (map_prod id ser) kvs)"
      "list_all (\<lambda>(k, f). ser_key k \<and> f) (map (map_prod id ser) kvs)"
    by (auto simp: ser_node_def split: option.splits)
  from *(5) have "\<forall>(k, v) \<in> set kvs. ser_key k \<and> ser v"
    by (fastforce simp: list_all_iff)
  moreover from *(4) have "omap_inv kvs" by (simp add: omap_inv_def comp_def)
  ultimately show thesis using that * by blast
qed

lemma ser_array:
  assumes "ser (Val UBJ_ARRAY b o' a)"
  obtains (items) vs where "b = None" "o' = None" "a = Some vs" "\<forall>v \<in> set vs. ser v"
    | (raw) d where "b = Some d" "o' = None" "a = None" "d \<noteq> []"
  using assms by (auto simp: ser_node_def list_all_iff split: option.splits)

text \<open>The main lemma: a writer that takes a value writes its encoding.\<close>

lemma write_value_enc:
  "ser v \<Longrightarrow> length (enc v) < 2 ^ 32 \<Longrightarrow> emits (v_depth v) (write_value v) (enc v)"
proof (induction v)
  case (Val t b o' a)
  consider "t \<noteq> UBJ_OBJECT" "t \<noteq> UBJ_ARRAY" | "t = UBJ_OBJECT" | "t = UBJ_ARRAY" by blast
  then show ?case
  proof cases
    case 1
    with Val.prems(1) show ?thesis
      by (auto simp: emits_def intro: write_node_scalar)
  next
    case 2
    obtain kvs where kvs: "o' = Some kvs"
      "\<forall>(k, v) \<in> set kvs. ser_key k \<and> ser v" "b = None" "a = None"
      using Val.prems(1) unfolding 2 by (elim ser_object) blast
    let ?n = "foldr max (map (\<lambda>(k, v). v_depth v) kvs) 0"
    let ?body = "concat (map (\<lambda>(k, v). enc_text (bytes_of_string k) @ enc v) kvs)"
    have e: "enc (Val t b o' a) = 0x7B # enc_count (length kvs) @ ?body @ (if kvs = [] then [0x7D] else [])"
      by (simp add: 2 kvs enc_node_def comp_def case_prod_beta' map_prod_def)
    have body: "length ?body < 2 ^ 32" using Val.prems(2) unfolding e by simp
    have "length kvs \<le> length ?body"
      using length_le_concat [of "map (\<lambda>(k, v). enc_text (bytes_of_string k) @ enc v) kvs"] kvs(2)
      by (fastforce simp: enc_nonempty)
    with body have len: "length (map (map_prod id write_value) kvs) < 2 ^ 64" by simp
    have one: "emits ?n (write_value v) (enc v)" if "(k, v) \<in> set kvs" for k v
    proof -
      have "length (enc_text (bytes_of_string k) @ enc v) \<le> length ?body"
        by (rule length_concat_ge) (use that in force)
      with body have "length (enc v) < 2 ^ 32" by simp
      then have "emits (v_depth v) (write_value v) (enc v)"
        using Val.IH(1) [of kvs "(k, v)" v] that kvs by auto
      moreover have "v_depth v \<le> ?n" by (rule foldr_max_ge) (use that in force)
      ultimately show ?thesis by (rule emits_mono)
    qed
    have "list_all2 (\<lambda>(k, f) (k', e). k = k' \<and> ser_key k \<and> emits ?n f e)
        (map (map_prod id write_value) kvs) (map (map_prod id enc) kvs)"
      using one kvs(2) by (auto simp: list_all2_map1 list_all2_map2 list_all2_same)
    from write_object_enc [OF this len] show ?thesis
      unfolding e
      by (simp add: 2 kvs write_node_def depth_node_def comp_def case_prod_beta' map_prod_def)
  next
    case 3
    consider (items) vs where "b = None" "a = Some vs" "\<forall>v \<in> set vs. ser v"
      | (raw) d where "b = Some d" "a = None" "d \<noteq> []"
      using Val.prems(1) unfolding 3 by (elim ser_array) blast+
    then show ?thesis
    proof cases
      case items
      let ?n = "foldr max (map v_depth vs) 0"
      have e: "enc (Val t b o' a) = 0x5B # enc_count (length vs) @ concat (map enc vs) @ (if vs = [] then [0x5D] else [])"
        by (simp add: 3 items enc_node_def)
      have body: "length (concat (map enc vs)) < 2 ^ 32" using Val.prems(2) unfolding e by simp
      have "length (map enc vs) \<le> length (concat (map enc vs))"
        by (rule length_le_concat) (use items(3) enc_nonempty in auto)
      then have "length vs \<le> length (concat (map enc vs))" by simp
      with body have len: "length (map write_value vs) < 2 ^ 64" by simp
      have one: "emits ?n (write_value v) (enc v)" if "v \<in> set vs" for v
      proof -
        have "length (enc v) \<le> length (concat (map enc vs))"
          by (rule length_concat_ge) (use that in force)
        with body have "length (enc v) < 2 ^ 32" by simp
        then have "emits (v_depth v) (write_value v) (enc v)"
          using Val.IH(2) [of vs v] that items by auto
        moreover have "v_depth v \<le> ?n" by (rule foldr_max_ge) (use that in force)
        ultimately show ?thesis by (rule emits_mono)
      qed
      have "list_all2 (emits ?n) (map write_value vs) (map enc vs)"
        using one by (auto simp: list_all2_map1 list_all2_map2 list_all2_same)
      from write_items_enc [OF this len] show ?thesis
        unfolding e emits_def
        by (simp add: 3 items write_node_def depth_node_def)
    next
      case raw
      have "length d < 2 ^ 32" using Val.prems(2) raw by (simp add: 3 enc_node_def)
      from write_bytes_enc [OF raw(3) this] show ?thesis
        by (simp add: 3 raw emits_def enc_node_def write_node_def depth_node_def)
    qed
  qed
qed

text \<open>\<^verbatim>\<open>Writer::write\<close> delivers the encoding, as long as the container stack suffices.\<close>

lemma writer_out_enc:
  assumes "ser v" and "v_type v = UBJ_OBJECT \<or> v_type v = UBJ_ARRAY"
    and "v_depth v < CONTAINER_STACK_MAX" and "length (enc v) < 2 ^ 32"
  shows "writer_out v = Some (enc v)"
proof -
  let ?h = "\<lparr>c_flags = 0, c_type = UBJ_MIXED, c_remaining = 0\<rparr>"
  have "takes_value ubjw_open_callback ?h []"
    by (simp add: takes_value_def ubjw_open_callback_def has_flag_def)
  from emitsD [OF write_value_enc [OF assms(1,4)] this] assms(2,3) show ?thesis
    by (simp add: writer_out_def emitted_def ubjw_open_callback_def)
qed


section \<open>The reader inverts the format\<close>

text \<open>What the reader makes of an encoded value.\<close>

definition dyn_node :: "ubj_type \<Rightarrow> bytes option \<Rightarrow> (string \<times> dyn) list option \<Rightarrow>
    dyn list option \<Rightarrow> dyn" where
  "dyn_node t b o' a =
     (let d = (case b of Some x \<Rightarrow> x | None \<Rightarrow> [])
      in case t of
           UBJ_BOOL_TRUE \<Rightarrow> DBool True
         | UBJ_BOOL_FALSE \<Rightarrow> DBool False
         | UBJ_INT32 \<Rightarrow> DInt t (scast (the (le_load32 d)))
         | UBJ_INT64 \<Rightarrow> DInt t (the (le_load64 d))
         | UBJ_FLOAT32 \<Rightarrow> DReal32 (the (le_load32 d))
         | UBJ_FLOAT64 \<Rightarrow> DReal64 (the (le_load64 d))
         | UBJ_STRING \<Rightarrow> DStr t d
         | UBJ_OBJECT \<Rightarrow>
             (let kfs = (case o' of Some x \<Rightarrow> x | None \<Rightarrow> [])
              in DObj (kfs \<noteq> []) UBJ_MIXED (map (\<lambda>(k, x). (bytes_of_string k, x)) kfs))
         | UBJ_ARRAY \<Rightarrow>
             (if d = [] then
                (let fs = (case a of Some x \<Rightarrow> x | None \<Rightarrow> [])
                 in DArr (fs \<noteq> []) UBJ_MIXED fs [of_nat (length fs)])
              else DArr True UBJ_INT8 (map (\<lambda>x. DInt UBJ_INT8 (scast x)) d) [of_nat (length d)])
         | _ \<Rightarrow> DVoid t)"

primrec dyn_of :: "val \<Rightarrow> dyn" where
  "dyn_of (Val t b o' a) =
     dyn_node t b (map_option (map (map_prod id dyn_of)) o') (map_option (map dyn_of) a)"

lemma read_params_count:
  assumes "n < 2 ^ 63" and "n = 0 \<Longrightarrow> r \<noteq> [] \<and> hd r \<noteq> 0x24 \<and> hd r \<noteq> 0x23"
  shows "read_container_params (rd_ptr (Suc f)) (enc_count n @ r) = Some ((UBJ_MIXED, of_nat n), r)"
proof (cases "n = 0")
  case True
  with assms(2) show ?thesis
    by (cases r) (auto simp: enc_count_def read_container_params_def container_size_def)
next
  case False
  then show ?thesis
    by (simp add: enc_count_def read_container_params_def container_size_def del: rd_ptr.simps)
qed

lemma read_text:
  assumes "length s < 2 ^ 63"
  shows "rd_ptr (Suc (Suc f)) UBJ_STRING (enc_text s @ r) = Some (DStr UBJ_STRING s, r)"
proof -
  let ?n = "of_nat (length s) :: u64"
  have u: "unat ?n = length s" using assms by (simp add: unat_of_nat_u64)
  have "\<not> ?n <s 0"
  proof -
    have "uint ?n = int (length s)" using u by (metis uint_nat)
    then show ?thesis using assms by (simp add: word_sless_alt sint_uint signed_take_bit_int_eq_self)
  qed
  then show ?thesis
    using u by (simp only: rd_ptr.simps(2) [of "Suc f"])
      (simp add: read_to_ptr_def enc_text_def read_chars_def del: rd_ptr.simps)
qed

lemma read_many_enc:
  assumes "list_all2 (\<lambda>e x. \<forall>r. g (e @ r) = Some (x, r)) es xs"
  shows "read_many (length es) g (concat es @ r) = Some (xs, r)"
  using assms by (induction es xs rule: list_all2_induct) simp_all

lemma cells_int8:
  "cells_to_dynamic UBJ_INT8 (Suc 0) (length d) (d @ r) = Some (map (\<lambda>x. DInt UBJ_INT8 (scast x)) d)"
  by (induction d) (simp_all add: pointer_to_dynamic_def)

lemma read_cells_int8:
  assumes "length d < 2 ^ 64"
  shows "read_cells UBJ_INT8 (of_nat (length d)) (d @ r) =
    Some (map (\<lambda>x. DInt UBJ_INT8 (scast x)) d, r)"
  using cells_int8 [of d "[]"] assms
  by (simp add: read_cells_def unat_of_nat_u64 buf_endian_swap_def)

lemma rd_scalar:
  assumes "ser_node t b o' a" and "t \<noteq> UBJ_OBJECT" and "t \<noteq> UBJ_ARRAY"
    and "length (enc_node t b kes es) < 2 ^ 32"
  shows "rd_dynamic (rd_ptr (Suc (Suc f))) (enc_node t b kes es @ r) = Some (dyn_node t b kds ds, r)"
proof -
  consider "t = UBJ_NULLTYPE" | "t = UBJ_BOOL_TRUE" | "t = UBJ_BOOL_FALSE"
    | d w where "t = UBJ_INT32" "b = Some d" "le_load32 d = Some w" "rev d = to_bigendian32 w"
    | d w where "t = UBJ_INT64" "b = Some d" "le_load64 d = Some w" "rev d = to_bigendian64 w"
    | d w where "t = UBJ_FLOAT32" "b = Some d" "le_load32 d = Some w" "rev d = to_bigendian32 w"
    | d w where "t = UBJ_FLOAT64" "b = Some d" "le_load64 d = Some w" "rev d = to_bigendian64 w"
    | d where "t = UBJ_STRING" "b = Some d"
    using assms(1-3) by (cases t) (auto simp: ser_node_def split: option.splits dest!: load_bigendian)
  then show ?thesis
  proof cases
    case (8 d)
    with assms(4) have "length d < 2 ^ 63" by (simp add: enc_node_def enc_text_def)
    from read_text [OF this] 8 show ?thesis
      by (simp add: rd_dynamic_def enc_node_def dyn_node_def del: rd_ptr.simps)
  qed (simp_all add: rd_dynamic_def enc_node_def dyn_node_def read_to_ptr_def)
qed

lemma rd_field_enc:
  assumes "ser_key k" and "length (bytes_of_string k) < 2 ^ 63"
    and "\<And>r. rd_dynamic (rd_ptr (Suc f)) (e @ r) = Some (d, r)"
  shows "rd_field (rd_ptr (Suc (Suc f))) UBJ_MIXED ((enc_text (bytes_of_string k) @ e) @ r) =
    Some ((bytes_of_string k, d), r)"
proof -
  have "rd_ptr (Suc (Suc f)) UBJ_MIXED (e @ r) = Some (d, r)"
    using assms(3) [of r] by (simp only: rd_ptr.simps(2) [of "Suc f"]) (simp add: read_to_ptr_def)
  then show ?thesis
    using read_text [OF assms(2), of f "e @ r"] by (simp add: rd_field_def del: rd_ptr.simps)
qed

lemma read_until_close: "read_until c (Suc n) g (c # r) = Some ([], r)"
  by simp

text \<open>A container whose elements are read back is read back.\<close>

lemma rd_object_enc:
  assumes fs: "list_all2 (\<lambda>(k, e) (k', d). k = k' \<and> ser_key k \<and> length k < 2 ^ 63
      \<and> (\<forall>r. rd_dynamic (rd_ptr (Suc f)) (e @ r) = Some (d, r))) kes kds"
    and n: "length kes < 2 ^ 63"
  shows "rd_ptr (Suc (Suc (Suc f))) UBJ_OBJECT (enc_count (length kes)
      @ concat (map (\<lambda>(k, e). enc_text (bytes_of_string k) @ e) kes)
      @ (if kes = [] then [0x7D] else []) @ r)
    = Some (DObj (kes \<noteq> []) UBJ_MIXED (map (\<lambda>(k, d). (bytes_of_string k, d)) kds), r)"
proof -
  let ?rp = "rd_ptr (Suc (Suc f))"
  let ?xs = "map (\<lambda>(k, e). enc_text (bytes_of_string k) @ e) kes"
  let ?ys = "map (\<lambda>(k, d). (bytes_of_string k, d)) kds"
  have "list_all2 (\<lambda>x y. \<forall>r. rd_field ?rp UBJ_MIXED (x @ r) = Some (y, r)) ?xs ?ys"
    unfolding list_all2_map1 list_all2_map2
  proof (rule list_all2_mono [OF fs])
    fix x y assume "(\<lambda>(k, e) (k', d). k = k' \<and> ser_key k \<and> length k < 2 ^ 63
        \<and> (\<forall>r. rd_dynamic (rd_ptr (Suc f)) (e @ r) = Some (d, r))) x y"
    then show "\<forall>r. rd_field ?rp UBJ_MIXED ((case x of (k, e) \<Rightarrow> enc_text (bytes_of_string k) @ e) @ r)
        = Some (case y of (k, d) \<Rightarrow> (bytes_of_string k, d), r)"
      using rd_field_enc by (cases x; cases y) (simp del: rd_ptr.simps)
  qed
  from read_many_enc [OF this]
  have many: "read_many (length kes) (rd_field ?rp UBJ_MIXED) (concat ?xs @ r) = Some (?ys, r)"
    by simp
  show ?thesis
  proof (cases "kes = []")
    case True
    then have "kds = []" using fs by simp
    with True read_params_count [of 0 "0x7D # r" "Suc f"] show ?thesis
      by (simp only: rd_ptr.simps(2) [of "Suc (Suc f)"])
        (simp add: read_to_ptr_def rd_raw_object_def del: rd_ptr.simps)
  next
    case False
    have u: "unat (of_nat (length kes) :: u64) = length kes" using n by (simp add: unat_of_nat_u64)
    with False have "(of_nat (length kes) :: u64) \<noteq> 0" by (metis length_0_conv unsigned_0)
    with False u many read_params_count [OF n, of "concat ?xs @ r" "Suc f"] show ?thesis
      by (simp only: rd_ptr.simps(2) [of "Suc (Suc f)"])
        (simp add: read_to_ptr_def rd_raw_object_def del: rd_ptr.simps read_until.simps)
  qed
qed

lemma rd_array_enc:
  assumes fs: "list_all2 (\<lambda>e d. \<forall>r. rd_dynamic (rd_ptr (Suc f)) (e @ r) = Some (d, r)) es ds"
    and n: "length es < 2 ^ 63"
  shows "rd_ptr (Suc (Suc (Suc f))) UBJ_ARRAY (enc_count (length es) @ concat es
      @ (if es = [] then [0x5D] else []) @ r)
    = Some (DArr (es \<noteq> []) UBJ_MIXED ds [of_nat (length ds)], r)"
proof -
  let ?rp = "rd_ptr (Suc (Suc f))"
  have "?rp UBJ_MIXED inp = rd_dynamic (rd_ptr (Suc f)) inp" for inp
    by (simp only: rd_ptr.simps(2) [of "Suc f"]) (simp add: read_to_ptr_def)
  then have "list_all2 (\<lambda>e d. \<forall>r. ?rp UBJ_MIXED (e @ r) = Some (d, r)) es ds"
    using fs by (simp del: rd_ptr.simps)
  from read_many_enc [OF this]
  have many: "read_many (length es) (?rp UBJ_MIXED) (concat es @ r) = Some (ds, r)" .
  have len: "length ds = length es" using fs by (simp add: list_all2_lengthD)
  show ?thesis
  proof (cases "es = []")
    case True
    then have "ds = []" using fs by simp
    with True read_params_count [of 0 "0x5D # r" "Suc f"] show ?thesis
      by (simp only: rd_ptr.simps(2) [of "Suc (Suc f)"])
        (simp add: read_to_ptr_def rd_raw_array_def read_dims_def del: rd_ptr.simps)
  next
    case False
    have u: "unat (of_nat (length es) :: u64) = length es" using n by (simp add: unat_of_nat_u64)
    with False have "(of_nat (length es) :: u64) \<noteq> 0" by (metis length_0_conv unsigned_0)
    with False u many len read_params_count [OF n, of "concat es @ r" "Suc f"] show ?thesis
      by (simp only: rd_ptr.simps(2) [of "Suc (Suc f)"])
        (simp add: read_to_ptr_def rd_raw_array_def read_dims_def fixed_cells_def
          del: rd_ptr.simps read_until.simps)
  qed
qed

lemma rd_bytes_enc:
  assumes "d \<noteq> []" and n: "length d < 2 ^ 63"
  shows "rd_ptr (Suc (Suc f)) UBJ_ARRAY ([0x24, 0x69] @ enc_count (length d) @ d @ r)
    = Some (DArr True UBJ_INT8 (map (\<lambda>x. DInt UBJ_INT8 (scast x)) d) [of_nat (length d)], r)"
proof -
  let ?n = "of_nat (length d) :: u64"
  have u: "unat ?n = length d" using n by (simp add: unat_of_nat_u64)
  with assms(1) have n0: "?n \<noteq> 0" by (metis length_0_conv unsigned_0)
  have p: "read_container_params (rd_ptr (Suc f)) ([0x24, 0x69] @ enc_count (length d) @ d @ r) =
      Some ((UBJ_INT8, ?n), d @ r)"
    using assms(1)
    by (simp add: enc_count_def read_container_params_def container_size_def del: rd_ptr.simps)
  have c: "read_cells UBJ_INT8 ?n (d @ r) = Some (map (\<lambda>x. DInt UBJ_INT8 (scast x)) d, r)"
    by (rule read_cells_int8) (use n in simp)
  show ?thesis
    unfolding rd_ptr.simps(2) [of "Suc f"] read_to_ptr_def ubj_type.case rd_raw_array_def p
    using n0 c by (simp add: read_dims_def fixed_cells_def del: rd_ptr.simps read_until.simps)
qed


lemma fuel3: "2 * n + 4 \<le> f \<Longrightarrow> (\<And>g. f = Suc (Suc (Suc g)) \<Longrightarrow> 2 * n + 1 \<le> g \<Longrightarrow> thesis) \<Longrightarrow> thesis"
  by (drule meta_spec [of _ "f - 3"]) auto

lemma fuel2: "n + 2 \<le> f \<Longrightarrow> (\<And>g. f = Suc (Suc g) \<Longrightarrow> thesis) \<Longrightarrow> thesis"
  by (drule meta_spec [of _ "f - 2"]) auto

lemma rd_enc:
  "ser v \<Longrightarrow> length (enc v) < 2 ^ 32 \<Longrightarrow> 2 * v_depth v + 2 \<le> f \<Longrightarrow>
    rd_dynamic (rd_ptr f) (enc v @ r) = Some (dyn_of v, r)"
proof (induction v arbitrary: f r)
  case (Val t b o' a)
  consider "t \<noteq> UBJ_OBJECT" "t \<noteq> UBJ_ARRAY" | "t = UBJ_OBJECT" | "t = UBJ_ARRAY" by blast
  then show ?case
  proof cases
    case 1
    obtain g where f: "f = Suc (Suc g)" by (rule fuel2 [OF Val.prems(3)])
    from 1 Val.prems(1,2) show ?thesis
      unfolding f using rd_scalar by (simp del: rd_ptr.simps)
  next
    case 2
    obtain kvs where kvs: "o' = Some kvs"
      "\<forall>(k, v) \<in> set kvs. ser_key k \<and> ser v" "b = None" "a = None"
      using Val.prems(1) unfolding 2 by (elim ser_object) blast
    let ?n = "foldr max (map (\<lambda>(k, v). v_depth v) kvs) 0"
    let ?body = "concat (map (\<lambda>(k, v). enc_text (bytes_of_string k) @ enc v) kvs)"
    have e: "enc (Val t b o' a) = 0x7B # enc_count (length kvs) @ ?body @ (if kvs = [] then [0x7D] else [])"
      by (simp add: 2 kvs enc_node_def comp_def case_prod_beta' map_prod_def)
    have body: "length ?body < 2 ^ 32" using Val.prems(2) unfolding e by simp
    have "length (map (\<lambda>(k, v). enc_text (bytes_of_string k) @ enc v) kvs) \<le> length ?body"
      by (rule length_le_concat) (use kvs(2) enc_nonempty in fastforce)
    with body have len: "length (map (map_prod id enc) kvs) < 2 ^ 63" by simp
    have "v_depth (Val t b o' a) = Suc ?n"
      by (simp add: 2 kvs depth_node_def comp_def case_prod_beta' map_prod_def)
    with Val.prems(3) have "2 * ?n + 4 \<le> f" by simp
    then obtain g where f: "f = Suc (Suc (Suc g))" and g: "2 * ?n + 1 \<le> g"
      by (rule fuel3)
    have one: "ser_key k \<and> length k < 2 ^ 63 \<and> (\<forall>r. rd_dynamic (rd_ptr (Suc g)) (enc v @ r) = Some (dyn_of v, r))"
      if "(k, v) \<in> set kvs" for k v
    proof -
      have "length (enc_text (bytes_of_string k) @ enc v) \<le> length ?body"
        by (rule length_concat_ge) (use that in force)
      with body have "length (enc v) < 2 ^ 32" "length k < 2 ^ 63" by (simp_all add: enc_text_def)
      moreover have "v_depth v \<le> ?n" by (rule foldr_max_ge) (use that in force)
      with g have "2 * v_depth v + 2 \<le> Suc g" by simp
      ultimately show ?thesis
        using Val.IH(1) [of kvs "(k, v)" v "Suc g"] that kvs(1,2) by (auto simp del: rd_ptr.simps)
    qed
    have "list_all2 (\<lambda>(k, e) (k', d). k = k' \<and> ser_key k \<and> length k < 2 ^ 63
      \<and> (\<forall>r. rd_dynamic (rd_ptr (Suc g)) (e @ r) = Some (d, r)))
        (map (map_prod id enc) kvs) (map (map_prod id dyn_of) kvs)"
      using one by (auto simp: list_all2_map1 list_all2_map2 list_all2_same simp del: rd_ptr.simps)
    from rd_object_enc [OF this len] show ?thesis
      unfolding e f
      by (simp add: 2 kvs rd_dynamic_def dyn_node_def comp_def case_prod_beta' map_prod_def
          del: rd_ptr.simps)
  next
    case 3
    consider (items) vs where "b = None" "a = Some vs" "\<forall>v \<in> set vs. ser v"
      | (raw) d where "b = Some d" "a = None" "d \<noteq> []"
      using Val.prems(1) unfolding 3 by (elim ser_array) blast+
    then show ?thesis
    proof cases
      case items
      let ?n = "foldr max (map v_depth vs) 0"
      have e: "enc (Val t b o' a) = 0x5B # enc_count (length vs) @ concat (map enc vs) @ (if vs = [] then [0x5D] else [])"
        by (simp add: 3 items enc_node_def)
      have body: "length (concat (map enc vs)) < 2 ^ 32" using Val.prems(2) unfolding e by simp
      have "length (map enc vs) \<le> length (concat (map enc vs))"
        by (rule length_le_concat) (use items(3) enc_nonempty in auto)
      with body have len: "length (map enc vs) < 2 ^ 63" by simp
      have "v_depth (Val t b o' a) = Suc ?n" by (simp add: 3 items depth_node_def)
      with Val.prems(3) have "2 * ?n + 4 \<le> f" by simp
      then obtain g where f: "f = Suc (Suc (Suc g))" and g: "2 * ?n + 1 \<le> g"
        by (rule fuel3)
      have one: "rd_dynamic (rd_ptr (Suc g)) (enc v @ r) = Some (dyn_of v, r)" if "v \<in> set vs" for v r
      proof -
        have "length (enc v) \<le> length (concat (map enc vs))"
          by (rule length_concat_ge) (use that in force)
        with body have "length (enc v) < 2 ^ 32" by simp
        moreover have "v_depth v \<le> ?n" by (rule foldr_max_ge) (use that in force)
        with g have "2 * v_depth v + 2 \<le> Suc g" by simp
        ultimately show ?thesis
          using Val.IH(2) [of vs v "Suc g" r] that items by (simp del: rd_ptr.simps)
      qed
      have "list_all2 (\<lambda>e d. \<forall>r. rd_dynamic (rd_ptr (Suc g)) (e @ r) = Some (d, r))
          (map enc vs) (map dyn_of vs)"
        using one by (simp add: list_all2_map1 list_all2_map2 list_all2_same del: rd_ptr.simps)
      from rd_array_enc [OF this len] show ?thesis
        unfolding e f
        by (simp add: 3 items rd_dynamic_def dyn_node_def del: rd_ptr.simps)
    next
      case raw
      obtain g where f: "f = Suc (Suc g)" by (rule fuel2 [OF Val.prems(3)])
      have "length d < 2 ^ 63" using Val.prems(2) raw by (simp add: 3 enc_node_def)
      from rd_bytes_enc [OF raw(3) this, of g] show ?thesis
        unfolding f by (simp add: 3 raw rd_dynamic_def enc_node_def dyn_node_def del: rd_ptr.simps)
    qed
  qed
qed

section \<open>The round trip of values\<close>

lemma read_object_fields:
  assumes all: "\<forall>(k, v) \<in> set kvs. no_nul (bytes_of_string k)
      \<and> object_lookup flds (bytes_of_string k) = Some (eff v) \<and> eff v val_null = v"
    and "omap_inv (pre @ kvs)"
  shows "fold (read_object_step flds) (map (\<lambda>(k, v). bytes_of_string k) kvs) pre = pre @ kvs"
  using assms
proof (induction kvs arbitrary: pre)
  case Nil
  then show ?case by simp
next
  case (Cons p kvs)
  obtain k v where p: "p = (k, v)" by (cases p)
  from Cons.prems(2) have below: "\<forall>a \<in> fst ` set pre. a < k"
    by (auto simp: omap_inv_append p)
  then have "map_of pre k = None" by (auto simp: map_of_eq_None_iff)
  moreover from Cons.prems(1) have "no_nul (bytes_of_string k)"
      "object_lookup flds (bytes_of_string k) = Some (eff v)" "eff v val_null = v"
    by (auto simp: p)
  ultimately have "read_object_step flds (bytes_of_string k) pre = pre @ [(k, v)]"
    using omap_insert_last [OF below] by (simp add: read_object_step_def Let_def)
  with Cons.IH [of "pre @ [(k, v)]"] Cons.prems show ?case by (simp add: p)
qed

lemma map_scast_ucast8: "map (\<lambda>x. ucast (scast x :: u64) :: byte) d = d"
proof -
  have "(ucast (scast x :: u64) :: byte) = x" for x :: byte
    by (rule bit_word_eqI) (auto simp: bit_simps)
  then show ?thesis by simp
qed

lemma ucast_scast32: "(ucast (scast (x :: u32) :: u64) :: u32) = x"
  by (rule bit_word_eqI) (auto simp: bit_simps)

lemma le_mem_load:
  "length d = 4 \<Longrightarrow> le_mem32 (the (le_load32 d)) = d"
  "length d = 8 \<Longrightarrow> le_mem64 (the (le_load64 d)) = d"
  using load_bigendian [of d] by (auto simp: le_mem32_def le_mem64_def)

lemma read_dyn_of: "ser v \<Longrightarrow> length (enc v) < 2 ^ 32 \<Longrightarrow> read_dyn (dyn_of v) val_null = v"
proof (induction v)
  case (Val t b o' a)
  consider "t \<noteq> UBJ_OBJECT" "t \<noteq> UBJ_ARRAY" | "t = UBJ_OBJECT" | "t = UBJ_ARRAY" by blast
  then show ?case
  proof cases
    case 1
    then consider "t = UBJ_NULLTYPE" "b = None" | "t = UBJ_BOOL_TRUE" "b = None"
      | "t = UBJ_BOOL_FALSE" "b = None"
      | d where "t = UBJ_INT32" "b = Some d" "length d = 4"
      | d where "t = UBJ_INT64" "b = Some d" "length d = 8"
      | d where "t = UBJ_FLOAT32" "b = Some d" "length d = 4"
          "f32_via_double (the (le_load32 d)) = the (le_load32 d)"
      | d where "t = UBJ_FLOAT64" "b = Some d" "length d = 8"
      | d where "t = UBJ_STRING" "b = Some d" "d \<noteq> []" "no_nul d"
      using Val.prems(1)
      by (cases t) (auto simp: ser_node_def split: option.splits dest!: load_bigendian)
    moreover have "o' = None" "a = None"
      using Val.prems(1) 1 by (auto simp: ser_node_def split: ubj_type.splits option.splits)
    ultimately show ?thesis
    proof cases
      case (8 d)
      then have "length d < 2 ^ 32" using Val.prems(2) by (simp add: enc_node_def enc_text_def)
      with 8 \<open>o' = None\<close> \<open>a = None\<close> show ?thesis
        using of_nat_u32_nonzero [of "length d"]
        by (simp add: dyn_node_def val_of_string_def set_string_def val_null_def Let_def
            word_neq_0_conv)
    qed (simp_all add: dyn_node_def val_null_def set_type_def val_int32_def val_int64_def
        val_float_def val_double_def le_mem_load ucast_scast32)
  next
    case 2
    obtain kvs where kvs: "o' = Some kvs"
      "\<forall>(k, v) \<in> set kvs. ser_key k \<and> ser v" "b = None" "a = None" "omap_inv kvs"
      using Val.prems(1) unfolding 2 by (elim ser_object) blast
    let ?body = "concat (map (\<lambda>(k, v). enc_text (bytes_of_string k) @ enc v) kvs)"
    let ?eff = "\<lambda>v. read_dyn (dyn_of v)"
    let ?flds = "map (\<lambda>(k, v). (bytes_of_string k, ?eff v)) kvs"
    have "length ?body \<le> length (enc (Val t b o' a))"
      by (simp add: 2 kvs enc_node_def comp_def case_prod_beta' map_prod_def)
    with Val.prems(2) have body: "length ?body < 2 ^ 32" by simp
    have IH: "?eff v val_null = v" if "(k, v) \<in> set kvs" for k v
    proof -
      have "length (enc_text (bytes_of_string k) @ enc v) \<le> length ?body"
        by (rule length_concat_ge) (use that in force)
      with body have "length (enc v) < 2 ^ 32" by simp
      then show ?thesis using Val.IH(1) [of kvs "(k, v)" v] that kvs(1,2) by auto
    qed
    have nn: "no_nul (bytes_of_string k)" if "(k, v) \<in> set kvs" for k v
      using kvs(2) that by (auto simp: ser_key_def)
    have "map (\<lambda>kv. c_str (fst kv)) ?flds = map bytes_of_string (map fst kvs)"
      using nn by auto
    moreover have "distinct (map bytes_of_string (map fst kvs))"
      using omap_inv_distinct [OF kvs(5)] by (simp add: distinct_map inj_on_def)
    ultimately have "distinct (map (\<lambda>kv. c_str (fst kv)) ?flds)" by (simp only:)
    from object_lookup_distinct [OF this]
    have look: "object_lookup ?flds (bytes_of_string k) = Some (?eff v)" if "(k, v) \<in> set kvs" for k v
      using that by force
    have "fold (read_object_step ?flds) (map (\<lambda>(k, v). bytes_of_string k) kvs) [] = [] @ kvs"
      by (rule read_object_fields [where eff = ?eff]) (use nn look IH kvs(5) in auto)
    then show ?thesis
      by (simp add: 2 kvs dyn_node_def read_object_def val_of_obj_def comp_def case_prod_beta'
          map_prod_def)
  next
    case 3
    consider (items) vs where "b = None" "o' = None" "a = Some vs" "\<forall>v \<in> set vs. ser v"
      | (raw) d where "b = Some d" "o' = None" "a = None" "d \<noteq> []"
      using Val.prems(1) unfolding 3 by (elim ser_array) blast+
    then show ?thesis
    proof cases
      case items
      have "length (concat (map enc vs)) \<le> length (enc (Val t b o' a))"
        by (simp add: 3 items enc_node_def)
      with Val.prems(2) have body: "length (concat (map enc vs)) < 2 ^ 32" by simp
      have "read_dyn (dyn_of v) val_null = v" if "v \<in> set vs" for v
      proof -
        have "length (enc v) \<le> length (concat (map enc vs))"
          by (rule length_concat_ge) (use that in force)
        with body have "length (enc v) < 2 ^ 32" by simp
        then show ?thesis using Val.IH(2) [of vs v] that items by auto
      qed
      then have "map (\<lambda>f. f val_null) (map read_dyn (map dyn_of vs)) = vs"
        by (simp add: comp_def map_idI)
      then show ?thesis
        by (simp add: 3 items dyn_node_def read_array_def val_of_arr_def comp_def)
    next
      case raw
      have "map dyn_int8 (map (\<lambda>x. DInt UBJ_INT8 (scast x)) d) = d"
        using map_scast_ucast8 [of d] by (simp add: dyn_int8_def comp_def)
      then show ?thesis
        by (simp add: 3 raw dyn_node_def read_array_def set_type_def val_null_def)
    qed
  qed
qed

lemma ubjr_read_enc:
  assumes "ser v" and "length (enc v) < 2 ^ 32"
  shows "ubjr_read_dynamic (enc v @ r) = Some (dyn_of v, r)"
proof -
  let ?f = "max (2 * length (enc v @ r)) (2 * v_depth v + 2)"
  have "rd_dynamic (rd_ptr ?f) (enc v @ r) = ubjr_read_dynamic (enc v @ r)"
    by (rule rd_dynamic_fuel) simp
  moreover have "rd_dynamic (rd_ptr ?f) (enc v @ r) = Some (dyn_of v, r)"
    by (rule rd_enc [OF assms]) simp
  ultimately show ?thesis by simp
qed

text \<open>Any encoding followed by anything is read back from a buffer that holds it.\<close>

lemma reader_read_enc:
  assumes "ser v" and "length (enc v @ r) < 2 ^ 32" and "v_type v = UBJ_OBJECT \<or> v_type v = UBJ_ARRAY"
  shows "reader_read val_null (Some (enc v @ r @ s)) (of_nat (length (enc v @ r))) = Some (True, v)"
proof -
  let ?n = "of_nat (length (enc v @ r)) :: u32"
  have n: "unat ?n = length (enc v @ r)" by (rule unat_of_nat_u32 [OF assms(2)])
  have "0 < length (enc v @ r)" using enc_nonempty [OF assms(1)] by simp
  then have n0: "?n \<noteq> 0" by (rule of_nat_u32_nonzero [OF _ assms(2)])
  have len: "length (enc v) < 2 ^ 32" using assms(2) by simp
  have tk: "take (unat ?n) (enc v @ r @ s) = enc v @ r" unfolding n by simp
  have "dyn_type (dyn_of v) = v_type v"
    using assms(1,3) by (cases v) (auto simp: dyn_node_def Let_def)
  then show ?thesis
    unfolding reader_read_def option.case tk
    using n0 n assms(3) ubjr_read_enc [OF assms(1) len, of r] read_dyn_of [OF assms(1) len]
    by (simp del: of_nat_add length_append) auto
qed

lemma value_roundtrip:
  assumes "ser v" and "v_type v = UBJ_OBJECT \<or> v_type v = UBJ_ARRAY"
    and "v_depth v < CONTAINER_STACK_MAX" and "length (enc v) < 2 ^ 32"
  shows "\<exists>buf. writer_write v = Some (Some buf) \<and> mb_inv buf \<and> mb_bytes buf = enc v
    \<and> val_read_buffer val_null (Some buf) = Some (True, v)"
proof -
  let ?n = "of_nat (length (enc v)) :: u32"
  have "writer_write v = Some (Some \<lparr>mb_data = Some (enc v), mb_size = ?n\<rparr>)"
    using writer_out_enc [OF assms] assms(4) by (simp add: writer_write_def mb_create_data)
  moreover have "val_read_buffer val_null (Some \<lparr>mb_data = Some (enc v), mb_size = ?n\<rparr>) = Some (True, v)"
    using reader_read_enc [OF assms(1) _ assms(2), of "[]" "[]"] assms(4)
    by (simp add: val_read_buffer_def)
  ultimately show ?thesis
    using assms(4) by (auto simp: mb_inv_def mb_bytes_def)
qed

end
