(* ===== verification/UBJ_Copy.thy ===== *)
theory UBJ_Copy
  imports UBJ_Codec
begin

text \<open>
  Copies of values (\<^verbatim>\<open>Value::copy\<close>, \<^verbatim>\<open>Object::copy\<close>, \<^verbatim>\<open>Array::copy\<close> in
  \<^verbatim>\<open>src/ubj/value.cpp\<close>) and reading into an array.
\<close>

definition obj_copy :: "(string \<times> val) list \<Rightarrow> (string \<times> val) list" where
  "obj_copy ob = fold (\<lambda>(k, v). omap_insert k (val_copy v)) ob []"

definition arr_copy :: "val list \<Rightarrow> val list" where
  "arr_copy vs = fold (\<lambda>v arr. arr_push arr (val_copy v)) vs []"

lemma arr_copy_map: "arr_copy vs = map val_copy vs"
proof -
  have "fold (\<lambda>v arr. arr_push arr (val_copy v)) vs acc = acc @ map val_copy vs" for acc
    by (induction vs arbitrary: acc) (simp_all add: arr_push_def)
  then show ?thesis by (simp add: arr_copy_def)
qed

lemma push_all: "fold (\<lambda>v arr. arr_push arr v) vs acc = acc @ vs"
  by (induction vs arbitrary: acc) (simp_all add: arr_push_def)

lemma obj_copy_fold: "obj_copy ob = fold (\<lambda>(k, v). omap_insert k v) (map (map_prod id val_copy) ob) []"
proof -
  have "fold (\<lambda>(k, v). omap_insert k (val_copy v)) ob acc
      = fold (\<lambda>(k, v). omap_insert k v) (map (map_prod id val_copy) ob) acc" for acc
    by (induction ob arbitrary: acc) auto
  then show ?thesis by (simp add: obj_copy_def)
qed

text \<open>\<^verbatim>\<open>Value::copy\<close> goes through the two, and what can be written is copied as it is.\<close>

lemma val_copy_containers:
  "val_copy (val_of_obj ob) = val_of_obj (obj_copy ob)"
  "val_copy (val_of_arr vs) = val_of_arr (arr_copy vs)"
  by (simp_all add: val_of_obj_def val_of_arr_def copy_node_def obj_copy_fold arr_copy_map push_all del: fold_map)

theorem copy_same: "ser v \<Longrightarrow> val_copy v = v"
proof (induction v)
  case (Val t b o' a)
  have os: "map (map_prod id val_copy) kvs = kvs" if o: "o' = Some kvs" and s: "\<forall>kv \<in> set kvs. ser (snd kv)" for kvs
  proof (rule map_idI)
    fix p assume "p \<in> set kvs"
    with Val(1) [of kvs p "snd p"] o s show "map_prod id val_copy p = p" by (cases p) auto
  qed
  have as: "map val_copy vs = vs" if "a = Some vs" "\<forall>v \<in> set vs. ser v" for vs
    using Val(2) [of vs] that by (simp add: map_idI)
  have obj: "fold (\<lambda>(k, v). omap_insert k v) (map (map_prod id val_copy) kvs) [] = kvs"
    if "o' = Some kvs" "omap_inv (map (map_prod id ser) kvs)" "\<forall>kv \<in> set kvs. ser (snd kv)" for kvs
    using os [OF that(1,3)] fold_omap_insert_sorted [of "[]" kvs] that(2) by (simp add: omap_inv_def comp_def)
  show ?case
  proof (cases "t = UBJ_OBJECT")
    case True
    with Val.prems obj show ?thesis
      by (auto simp: ser_node_def copy_node_def val_of_obj_def list_all_iff case_prod_unfold split: option.splits)
  next
    case False
    with Val.prems as push_all [of _ "[]"] show ?thesis
      by (cases t) (auto simp: ser_node_def copy_node_def val_of_arr_def list_all_iff split: option.splits)
  qed
qed

text \<open>\<^verbatim>\<open>Value::read\<close> into an array.\<close>

definition arr_read :: "val list \<Rightarrow> bytes option \<Rightarrow> u32 \<Rightarrow> (bool \<times> val list) option" where
  "arr_read old data size' = do {
     (r, v) \<leftarrow> reader_read val_null data size';
     Some (if r then (True, val_toArray v) else (False, old)) }"

definition arr_read_buffer :: "val list \<Rightarrow> membuf option \<Rightarrow> (bool \<times> val list) option" where
  "arr_read_buffer old buf =
     (case buf of None \<Rightarrow> Some (False, old) | Some b \<Rightarrow> arr_read old (mb_data b) (mb_size b))"

end
