(* ===== verification/UBJ_Memory.thy ===== *)
theory UBJ_Memory
  imports UBJ_Value
begin

text \<open>
  The memory back ends of \<^verbatim>\<open>ubjr.c\<close> and \<^verbatim>\<open>ubjw.c\<close>: a block with a position in it.
  \<open>UBJ_Read\<close> reads from the list of the bytes that are left, which the block refines.
\<close>

section \<open>Reading\<close>

text \<open>\<open>mr_total\<close> is the \<^verbatim>\<open>total_read\<close> of the context.\<close>

record mem_reader =
  mr_data :: bytes
  mr_pos :: nat
  mr_total :: nat

definition ubjr_open_memory :: "bytes \<Rightarrow> mem_reader" where
  "ubjr_open_memory d = \<lparr>mr_data = d, mr_pos = 0, mr_total = 0\<rparr>"

definition ubjr_close_context :: "mem_reader \<Rightarrow> nat" where
  "ubjr_close_context m = mr_total m"

text \<open>\<^verbatim>\<open>memread\<close> copies what there is and answers how much.\<close>

definition memread :: "nat \<Rightarrow> nat \<Rightarrow> mem_reader \<Rightarrow> bytes \<times> nat \<times> mem_reader" where
  "memread size' count m =
     (let n = min (size' * count) (length (mr_data m) - mr_pos m)
      in (take n (drop (mr_pos m) (mr_data m)), n, m\<lparr>mr_pos := mr_pos m + n\<rparr>))"

text \<open>\<^verbatim>\<open>mempeek\<close> at the end reads behind the block.\<close>

definition mempeek :: "mem_reader \<Rightarrow> byte option" where
  "mempeek m = (if mr_pos m < length (mr_data m) then Some (mr_data m ! mr_pos m) else None)"

text \<open>\<^verbatim>\<open>getc\<close> answers an uninitialised byte when nothing was read.\<close>

definition context_getc :: "mem_reader \<Rightarrow> (byte \<times> mem_reader) option" where
  "context_getc m =
     (case memread 1 1 m of
        (a # _, _, m') \<Rightarrow> Some (a, m'\<lparr>mr_total := mr_total m + 1\<rparr>)
      | ([], _, _) \<Rightarrow> None)"

text \<open>Reading a block of \<open>n\<close> bytes, \<^const>\<open>None\<close> when a part of it stays uninitialised.\<close>

definition context_read :: "nat \<Rightarrow> mem_reader \<Rightarrow> (bytes \<times> mem_reader) option" where
  "context_read n m =
     (case memread n 1 m of
        (d, k, m') \<Rightarrow> if k < n then None else Some (d, m'\<lparr>mr_total := mr_total m + n\<rparr>))"

text \<open>What is left to read.\<close>

definition mr_rest :: "mem_reader \<Rightarrow> bytes" where
  "mr_rest m = drop (mr_pos m) (mr_data m)"

definition mr_ok :: "mem_reader \<Rightarrow> bool" where
  "mr_ok m \<longleftrightarrow> mr_pos m \<le> length (mr_data m) \<and> mr_total m = mr_pos m"

lemma open_memory_ok: "mr_ok (ubjr_open_memory d)" "mr_rest (ubjr_open_memory d) = d"
  by (simp_all add: mr_ok_def mr_rest_def ubjr_open_memory_def)

lemma memread_in_bounds:
  "mr_ok m \<Longrightarrow> memread a b m = (d, n, m') \<Longrightarrow> mr_pos m' \<le> length (mr_data m') \<and> mr_data m' = mr_data m \<and> length d = n"
  by (auto simp: memread_def mr_ok_def Let_def min_def)

text \<open>The list of remaining bytes is refined: the same results, the rest of the block as state.\<close>

lemma mempeek_rest: "mempeek m = (case mr_rest m of [] \<Rightarrow> None | a # _ \<Rightarrow> Some a)"
  by (auto simp: mempeek_def mr_rest_def hd_drop_conv_nth [symmetric] split: list.splits)

lemma context_getc_refines:
  "map_option (\<lambda>(a, m'). (a, mr_rest m')) (context_getc m) = read_1b (mr_rest m)"
proof (cases "mr_rest m")
  case Nil
  then show ?thesis by (simp add: context_getc_def memread_def mr_rest_def)
next
  case (Cons a r)
  then have "mr_pos m < length (mr_data m)" by (auto simp: mr_rest_def intro: ccontr)
  with Cons show ?thesis
    by (simp add: context_getc_def memread_def mr_rest_def Let_def drop_Suc tl_drop [symmetric]
        flip: drop_drop)
qed

lemma context_read_refines:
  assumes "\<not> n <s 0"
  shows "map_option (\<lambda>(d, m'). (d, mr_rest m')) (context_read (unat n) m) = read_chars n (mr_rest m)"
  using assms by (auto simp: context_read_def read_chars_def memread_def mr_rest_def Let_def min_def add.commute)

lemma context_getc_ok: "mr_ok m \<Longrightarrow> context_getc m = Some (a, m') \<Longrightarrow> mr_ok m'"
  by (auto simp: context_getc_def memread_def mr_ok_def Let_def min_def split: list.splits if_splits)

lemma context_read_ok: "mr_ok m \<Longrightarrow> context_read n m = Some (d, m') \<Longrightarrow> mr_ok m'"
  by (auto simp: context_read_def memread_def mr_ok_def Let_def min_def split: if_splits)

section \<open>Writing\<close>

record mem_writer =
  mw_data :: bytes
  mw_pos :: nat

text \<open>\<^verbatim>\<open>memwrite\<close> stores what fits and answers how much.\<close>

definition memwrite :: "bytes \<Rightarrow> mem_writer \<Rightarrow> nat \<times> mem_writer" where
  "memwrite d m =
     (let n = min (length d) (length (mw_data m) - mw_pos m)
      in (n, m\<lparr>mw_data := take (mw_pos m) (mw_data m) @ take n d @ drop (mw_pos m + n) (mw_data m),
               mw_pos := mw_pos m + n\<rparr>))"

text \<open>The block keeps its size; what is stored is the longest prefix of everything written that fits.\<close>

definition mw_written :: "mem_writer \<Rightarrow> bytes" where
  "mw_written m = take (mw_pos m) (mw_data m)"

lemma memwrite_keeps_size:
  "mw_pos m \<le> length (mw_data m) \<Longrightarrow> memwrite d m = (n, m') \<Longrightarrow>
   length (mw_data m') = length (mw_data m) \<and> mw_pos m' \<le> length (mw_data m')"
  by (auto simp: memwrite_def Let_def min_def)

lemma memwrite_prefix:
  assumes "mw_pos m \<le> length (mw_data m)"
  shows "mw_written (snd (memwrite d m)) = take (length (mw_data m)) (mw_written m @ d)"
  using assms by (auto simp: memwrite_def mw_written_def Let_def min_def)

lemma memwrite_all:
  assumes "mw_pos m \<le> length (mw_data m)"
  shows "mw_written (fold (\<lambda>d m. snd (memwrite d m)) ds m) = take (length (mw_data m)) (mw_written m @ concat ds)"
  using assms
proof (induction ds arbitrary: m)
  case Nil
  then show ?case by (simp add: mw_written_def)
next
  case (Cons d ds)
  let ?m = "snd (memwrite d m)"
  have k: "length (mw_data ?m) = length (mw_data m)" "mw_pos ?m \<le> length (mw_data ?m)"
    using memwrite_keeps_size [OF Cons.prems] by (metis prod.collapse)+
  with Cons.IH [OF k(2)] memwrite_prefix [OF Cons.prems, of d] show ?case
    by (simp add: take_add min_def)
qed

end
