(* ===== verification/Threads.thy ===== *)
theory Threads
  imports Prelude
begin

text \<open>
  The threads of the library as interleavings of their critical sections:
  \<^verbatim>\<open>thread/thread.cpp\<close> and the template \<^verbatim>\<open>Handler\<close> of \<^verbatim>\<open>thread/handler.h\<close> (a worker
  with a queue), and the waiting for an action of the store (\<^verbatim>\<open>Action::wait\<close>,
  \<^verbatim>\<open>Action::notify\<close>).  A condition variable has no memory: \<^verbatim>\<open>notify_one\<close> wakes a waiter
  that already waits and is lost otherwise.  Spurious wake-ups are left out of the handler and
  an option of the action.
\<close>

section \<open>Handler\<close>

text \<open>Where \<^verbatim>\<open>Handler::run\<close> stands.\<close>

datatype 'a hpc =
    H_Check | H_CheckSuspended | H_Suspend | H_SuspendWait
  | H_Fetch | H_Process 'a | H_Pop
  | H_Empty | H_PreWait | H_Waiting | H_Woken
  | H_Exit | H_Dead | H_UB

text \<open>
  \<open>h_pushed\<close> posts have stored their element and still have to look at \<^verbatim>\<open>busy()\<close>;
  \<open>h_notify\<close> and \<open>h_rnotify\<close> calls of \<^verbatim>\<open>notify_one\<close> are about to happen on the two condition
  variables.  \<open>h_posted\<close> and \<open>h_done\<close> record what was posted and what was processed.
\<close>

record 'a handler =
  h_queue :: "'a list"
  h_busy :: bool
  h_running :: bool
  h_suspended :: bool
  h_canceled :: bool
  h_pc :: "'a hpc"
  h_pushed :: nat
  h_notify :: nat
  h_rnotify :: nat
  h_posted :: "'a list"
  h_done :: "'a list"

definition h_new :: "'a handler" where
  "h_new = \<lparr>h_queue = [], h_busy = False, h_running = False, h_suspended = False, h_canceled = False,
     h_pc = H_Dead, h_pushed = 0, h_notify = 0, h_rnotify = 0, h_posted = [], h_done = []\<rparr>"

text \<open>\<^verbatim>\<open>Thread::start\<close> and \<^verbatim>\<open>doRun\<close>, once the thread runs.\<close>

definition h_start :: "bool \<Rightarrow> 'a handler \<Rightarrow> 'a handler" where
  "h_start paused s =
     (if h_running s then s
      else s\<lparr>h_canceled := False, h_suspended := (paused \<or> h_suspended s), h_running := True, h_pc := H_Check\<rparr>)"

definition h_post :: "'a \<Rightarrow> 'a handler \<Rightarrow> 'a handler" where
  "h_post x s = s\<lparr>h_queue := h_queue s @ [x], h_posted := h_posted s @ [x], h_pushed := h_pushed s + 1\<rparr>"

definition h_post_check :: "'a handler \<Rightarrow> 'a handler" where
  "h_post_check s =
     s\<lparr>h_pushed := h_pushed s - 1, h_notify := (if h_busy s then h_notify s else h_notify s + 1)\<rparr>"

definition h_do_notify :: "'a handler \<Rightarrow> 'a handler" where
  "h_do_notify s =
     s\<lparr>h_notify := h_notify s - 1, h_pc := (if h_pc s = H_Waiting then H_Woken else h_pc s)\<rparr>"

definition h_do_rnotify :: "'a handler \<Rightarrow> 'a handler" where
  "h_do_rnotify s =
     s\<lparr>h_rnotify := h_rnotify s - 1, h_pc := (if h_pc s = H_SuspendWait then H_Check else h_pc s)\<rparr>"

definition h_clear :: "'a handler \<Rightarrow> 'a handler" where
  "h_clear s = s\<lparr>h_queue := []\<rparr>"

definition h_suspend :: "'a handler \<Rightarrow> 'a handler" where
  "h_suspend s = s\<lparr>h_suspended := (h_running s \<or> h_suspended s), h_notify := h_notify s + 1\<rparr>"

definition h_resume :: "'a handler \<Rightarrow> 'a handler" where
  "h_resume s =
     (if h_running s \<and> h_suspended s
      then s\<lparr>h_suspended := False, h_rnotify := h_rnotify s + 1\<rparr> else s)"

definition h_cancel :: "'a handler \<Rightarrow> 'a handler" where
  "h_cancel s = (let s1 = h_resume (s\<lparr>h_canceled := True\<rparr>) in s1\<lparr>h_notify := h_notify s1 + 1\<rparr>)"

text \<open>
  One step of \<^verbatim>\<open>run\<close>; \<^const>\<open>None\<close> when the thread is blocked or gone.  The element is
  processed where it stands in the queue and taken off afterwards: \<^verbatim>\<open>pop_front\<close> of an empty
  list is undefined.  \<^verbatim>\<open>getElements\<close> is the base class's, which has none.
\<close>

definition h_run :: "'a handler \<Rightarrow> 'a handler option" where
  "h_run s =
     (case h_pc s of
        H_Check \<Rightarrow> Some (s\<lparr>h_pc := (if h_canceled s then H_Exit else H_CheckSuspended)\<rparr>)
      | H_CheckSuspended \<Rightarrow> Some (s\<lparr>h_pc := (if h_suspended s then H_Suspend else H_Fetch)\<rparr>)
      | H_Suspend \<Rightarrow> Some (s\<lparr>h_pc := H_SuspendWait\<rparr>)
      | H_SuspendWait \<Rightarrow> None
      | H_Fetch \<Rightarrow> Some (s\<lparr>h_pc := (case h_queue s of [] \<Rightarrow> H_Empty | x # _ \<Rightarrow> H_Process x)\<rparr>)
      | H_Process x \<Rightarrow> Some (s\<lparr>h_pc := H_Pop\<rparr>)
      | H_Pop \<Rightarrow>
          (case h_queue s of
             [] \<Rightarrow> Some (s\<lparr>h_pc := H_UB\<rparr>)
           | x # q \<Rightarrow> Some (s\<lparr>h_queue := q, h_done := h_done s @ [x], h_pc := H_Check\<rparr>))
      | H_Empty \<Rightarrow> Some (s\<lparr>h_busy := False, h_pc := H_PreWait\<rparr>)
      | H_PreWait \<Rightarrow> Some (s\<lparr>h_pc := H_Waiting\<rparr>)
      | H_Waiting \<Rightarrow> None
      | H_Woken \<Rightarrow> Some (s\<lparr>h_busy := True, h_pc := H_Check\<rparr>)
      | H_Exit \<Rightarrow> Some (s\<lparr>h_running := False, h_pc := H_Dead\<rparr>)
      | H_Dead \<Rightarrow> None
      | H_UB \<Rightarrow> None)"

text \<open>Any interleaving; \<open>clr\<close> tells whether \<^verbatim>\<open>clear\<close> is called.\<close>

inductive h_step :: "bool \<Rightarrow> 'a handler \<Rightarrow> 'a handler \<Rightarrow> bool" for clr where
  run: "h_run s = Some s' \<Longrightarrow> h_step clr s s'"
| start: "h_pc s = H_Dead \<Longrightarrow> h_step clr s (h_start p s)"
| post: "h_step clr s (h_post x s)"
| post_check: "h_pushed s > 0 \<Longrightarrow> h_step clr s (h_post_check s)"
| notify: "h_notify s > 0 \<Longrightarrow> h_step clr s (h_do_notify s)"
| rnotify: "h_rnotify s > 0 \<Longrightarrow> h_step clr s (h_do_rnotify s)"
| suspend: "h_step clr s (h_suspend s)"
| resume: "h_step clr s (h_resume s)"
| cancel: "h_step clr s (h_cancel s)"
| clear: "clr \<Longrightarrow> h_step clr s (h_clear s)"

inductive h_reachable :: "bool \<Rightarrow> 'a handler \<Rightarrow> bool" for clr where
  init: "h_reachable clr h_new"
| step: "h_reachable clr s \<Longrightarrow> h_step clr s s' \<Longrightarrow> h_reachable clr s'"

inductive_cases h_stepE: "h_step clr s s'"

lemmas h_defs = h_new_def h_start_def h_post_def h_post_check_def h_do_notify_def h_do_rnotify_def
  h_clear_def h_suspend_def h_resume_def h_cancel_def h_run_def Let_def

text \<open>
  Processed in posting order, each element once: what was posted is what was processed followed
  by the queue, and the element in process is the front of the queue.
\<close>

definition h_fifo :: "'a handler \<Rightarrow> bool" where
  "h_fifo s \<longleftrightarrow>
     h_posted s = h_done s @ h_queue s
     \<and> (\<forall>x. h_pc s = H_Process x \<longrightarrow> h_queue s \<noteq> [] \<and> hd (h_queue s) = x)
     \<and> (h_pc s = H_Pop \<longrightarrow> h_queue s \<noteq> []) \<and> h_pc s \<noteq> H_UB"

lemma h_run_fifo: "h_fifo s \<Longrightarrow> h_run s = Some s' \<Longrightarrow> h_fifo s'"
  by (cases "h_pc s") (auto simp: h_fifo_def h_run_def split: list.splits if_splits)

lemma h_start_fifo: "h_fifo s \<Longrightarrow> h_fifo (h_start p s)"
  by (simp add: h_fifo_def h_start_def)

lemma h_post_fifo: "h_fifo s \<Longrightarrow> h_fifo (h_post x s)"
  by (auto simp: h_fifo_def h_post_def hd_append)

lemma h_control_fifo:
  "h_fifo s \<Longrightarrow> h_fifo (h_post_check s)" "h_fifo s \<Longrightarrow> h_fifo (h_do_notify s)"
  "h_fifo s \<Longrightarrow> h_fifo (h_do_rnotify s)" "h_fifo s \<Longrightarrow> h_fifo (h_suspend s)"
  "h_fifo s \<Longrightarrow> h_fifo (h_resume s)" "h_fifo s \<Longrightarrow> h_fifo (h_cancel s)"
  by (simp_all add: h_fifo_def h_post_check_def h_do_notify_def h_do_rnotify_def h_suspend_def
      h_resume_def h_cancel_def Let_def)

lemma h_step_fifo: "h_step False s s' \<Longrightarrow> h_fifo s \<Longrightarrow> h_fifo s'"
  by (erule h_stepE) (simp_all add: h_run_fifo h_start_fifo h_post_fifo h_control_fifo)

lemma h_reachable_fifo: "h_reachable False s \<Longrightarrow> h_fifo s"
proof (induction rule: h_reachable.induct)
  case init
  show ?case by (simp add: h_fifo_def h_new_def)
next
  case (step s s')
  then show ?case by (blast intro: h_step_fifo)
qed

text \<open>Between the two waits the worker is never stuck.\<close>

lemma h_run_progress:
  "h_run s = None \<longleftrightarrow> h_pc s \<in> {H_SuspendWait, H_Waiting, H_Dead, H_UB}"
  by (cases "h_pc s") (auto simp: h_run_def split: list.splits)

text \<open>
  A worker on its way with a non-empty queue takes its front within five steps of its own.
\<close>

fun h_runs :: "nat \<Rightarrow> 'a handler \<Rightarrow> 'a handler option" where
  "h_runs 0 s = Some s"
| "h_runs (Suc n) s = do { s1 \<leftarrow> h_run s; h_runs n s1 }"

lemma h_runs_reachable: "h_runs n s = Some s' \<Longrightarrow> h_reachable clr s \<Longrightarrow> h_reachable clr s'"
  by (induction n s rule: h_runs.induct)
    (auto split: bind_splits intro: h_reachable.step [OF _ h_step.run])

lemma h_takes_front:
  assumes "h_pc s = H_Check" and "\<not> h_canceled s" and "\<not> h_suspended s" and "h_queue s = x # q"
  shows "h_runs 5 s = Some (s\<lparr>h_queue := q, h_done := h_done s @ [x]\<rparr>)"
  using assms by (simp add: eval_nat_numeral h_run_def)

text \<open>
  The lost wake-up: the worker has found the queue empty but does not wait yet when an element
  is posted; the notification comes too early (or is not sent, the worker still being busy).
\<close>

definition h_lost :: "nat handler" where
  "h_lost = \<lparr>h_queue = [1], h_busy = False, h_running = True, h_suspended = False, h_canceled = False,
     h_pc = H_Waiting, h_pushed = 0, h_notify = 0, h_rnotify = 0, h_posted = [1], h_done = []\<rparr>"

lemma h_lost_reachable: "h_reachable False h_lost"
proof -
  have "h_reachable False (h_start False (h_new :: nat handler))"
    by (rule h_reachable.step [OF h_reachable.init h_step.start]) (simp add: h_new_def)
  moreover have "h_runs 4 (h_start False (h_new :: nat handler))
      = Some (h_new\<lparr>h_running := True, h_pc := H_PreWait\<rparr>)"
    by (simp add: eval_nat_numeral h_run_def h_start_def h_new_def)
  ultimately have 1: "h_reachable False (h_new\<lparr>h_running := True, h_pc := H_PreWait\<rparr> :: nat handler)"
    by (rule h_runs_reachable [rotated])
  from h_reachable.step [OF 1 h_step.post [of _ _ "1 :: nat"]] have
    2: "h_reachable False (h_post (1 :: nat) (h_new\<lparr>h_running := True, h_pc := H_PreWait\<rparr>))" .
  from h_reachable.step [OF 2 h_step.post_check] have
    3: "h_reachable False (h_post_check (h_post (1 :: nat) (h_new\<lparr>h_running := True, h_pc := H_PreWait\<rparr>)))"
    by (simp add: h_post_def)
  from h_reachable.step [OF 3 h_step.notify] have
    4: "h_reachable False (h_do_notify (h_post_check (h_post (1 :: nat) (h_new\<lparr>h_running := True, h_pc := H_PreWait\<rparr>))))"
    by (simp add: h_post_def h_post_check_def h_new_def)
  show ?thesis
    by (rule h_runs_reachable [OF _ 4, of 1])
      (simp add: h_run_def h_lost_def h_do_notify_def h_post_check_def h_post_def h_new_def)
qed

text \<open>In that state nothing moves unless something else is posted or the handler is controlled.\<close>

lemma h_lost_stuck:
  "h_run h_lost = None \<and> h_pushed h_lost = 0 \<and> h_notify h_lost = 0 \<and> h_queue h_lost \<noteq> []
    \<and> \<not> h_canceled h_lost \<and> \<not> h_suspended h_lost"
  by (simp add: h_lost_def h_run_def)

text \<open>\<^verbatim>\<open>clear\<close> while an element is processed leaves \<^verbatim>\<open>pop_front\<close> an empty list.\<close>

definition h_broken :: "nat handler" where
  "h_broken = h_new\<lparr>h_running := True, h_pc := H_UB, h_posted := [1], h_pushed := 1\<rparr>"

lemma h_clear_reaches_ub: "h_reachable True h_broken"
proof -
  let ?s = "\<lambda>pc q. (h_new :: nat handler)\<lparr>h_running := True, h_pc := pc, h_queue := q, h_posted := [1], h_pushed := 1\<rparr>"
  have "h_reachable True (h_start False (h_new :: nat handler))"
    by (rule h_reachable.step [OF h_reachable.init h_step.start]) (simp add: h_new_def)
  from h_reachable.step [OF this h_step.post [of _ _ 1]]
  have "h_reachable True (?s H_Check [1])"
    by (simp add: h_post_def h_start_def h_new_def)
  moreover have "h_runs 4 (?s H_Check [1]) = Some (?s H_Pop [1])"
    by (simp add: eval_nat_numeral h_run_def h_new_def)
  ultimately have "h_reachable True (?s H_Pop [1])" by (rule h_runs_reachable [rotated])
  from h_reachable.step [OF this h_step.clear] have "h_reachable True (?s H_Pop [])"
    by (simp add: h_clear_def h_new_def)
  then show ?thesis
    by (rule h_runs_reachable [rotated, of _ _ 1]) (simp add: h_run_def h_broken_def h_new_def)
qed

section \<open>Waiting for an action\<close>

text \<open>
  \<^verbatim>\<open>Store::processAction\<close> posts an action to the handler and calls \<^verbatim>\<open>Action::wait\<close>; the
  handler's thread executes it and, on most paths, calls \<^verbatim>\<open>Action::notify\<close>.  \<open>A_Notifying\<close> is
  the time the notifier holds \<^verbatim>\<open>m_waitMutex\<close>.
\<close>

datatype waiter_pc = W_Check | W_Lock | W_Waiting | W_Woken | W_Returned
datatype exec_pc = A_Execute | A_Notify | A_Notifying | A_Finished

record waiting =
  a_done :: bool
  a_waiter :: waiter_pc
  a_exec :: exec_pc

definition a_new :: waiting where
  "a_new = \<lparr>a_done = False, a_waiter = W_Check, a_exec = A_Execute\<rparr>"

text \<open>
  One step of \<^verbatim>\<open>wait\<close>; \<open>spurious\<close> allows the condition variable to wake by itself, which
  the code does not guard against with a loop.
\<close>

definition a_wait :: "bool \<Rightarrow> waiting \<Rightarrow> waiting option" where
  "a_wait spurious s =
     (case a_waiter s of
        W_Check \<Rightarrow> Some (s\<lparr>a_waiter := (if a_done s then W_Returned else W_Lock)\<rparr>)
      | W_Lock \<Rightarrow> if a_exec s = A_Notifying then None else Some (s\<lparr>a_waiter := W_Waiting\<rparr>)
      | W_Waiting \<Rightarrow> if spurious then Some (s\<lparr>a_waiter := W_Woken\<rparr>) else None
      | W_Woken \<Rightarrow> if a_exec s = A_Notifying then None else Some (s\<lparr>a_waiter := W_Returned\<rparr>)
      | W_Returned \<Rightarrow> None)"

text \<open>
  One step of the executing thread; \<open>notifies\<close> is false on the path that reports nothing: the
  statement cannot be prepared and there is no callback.
\<close>

definition a_notify :: "bool \<Rightarrow> waiting \<Rightarrow> waiting option" where
  "a_notify notifies s =
     (case a_exec s of
        A_Execute \<Rightarrow> Some (s\<lparr>a_exec := (if notifies then A_Notify else A_Finished)\<rparr>)
      | A_Notify \<Rightarrow> Some (s\<lparr>a_exec := A_Notifying,
                           a_waiter := (if a_waiter s = W_Waiting then W_Woken else a_waiter s)\<rparr>)
      | A_Notifying \<Rightarrow> Some (s\<lparr>a_done := True, a_exec := A_Finished\<rparr>)
      | A_Finished \<Rightarrow> None)"

inductive a_step :: "bool \<Rightarrow> bool \<Rightarrow> waiting \<Rightarrow> waiting \<Rightarrow> bool" for notifies spurious where
  wait: "a_wait spurious s = Some s' \<Longrightarrow> a_step notifies spurious s s'"
| exec: "a_notify notifies s = Some s' \<Longrightarrow> a_step notifies spurious s s'"

inductive a_reachable :: "bool \<Rightarrow> bool \<Rightarrow> waiting \<Rightarrow> bool" for notifies spurious where
  init: "a_reachable notifies spurious a_new"
| step: "a_reachable notifies spurious s \<Longrightarrow> a_step notifies spurious s s' \<Longrightarrow> a_reachable notifies spurious s'"

inductive_simps a_step_iff: "a_step notifies spurious s s'"

definition a_stuck :: "bool \<Rightarrow> bool \<Rightarrow> waiting \<Rightarrow> bool" where
  "a_stuck notifies spurious s \<longleftrightarrow>
     a_wait spurious s = None \<and> a_notify notifies s = None \<and> a_waiter s \<noteq> W_Returned"

text \<open>The caller returns only when the action has been executed.\<close>

definition a_inv :: "waiting \<Rightarrow> bool" where
  "a_inv s \<longleftrightarrow>
     (a_done s \<longrightarrow> a_exec s = A_Finished)
     \<and> (a_waiter s \<in> {W_Woken, W_Returned} \<longrightarrow> a_exec s \<in> {A_Notifying, A_Finished})"

lemma a_step_inv: "a_step notifies False s s' \<Longrightarrow> a_inv s \<Longrightarrow> a_inv s'"
  by (auto simp: a_step_iff a_inv_def a_wait_def a_notify_def
      split: waiter_pc.splits exec_pc.splits if_splits)

lemma a_reachable_inv: "a_reachable notifies False s \<Longrightarrow> a_inv s"
  by (induction rule: a_reachable.induct)
    (simp add: a_inv_def a_new_def, blast intro: a_step_inv)

lemma a_returned_executed:
  "a_reachable notifies False s \<Longrightarrow> a_waiter s = W_Returned \<Longrightarrow> a_exec s \<in> {A_Notifying, A_Finished}"
  by (drule a_reachable_inv) (simp add: a_inv_def)

text \<open>
  When the caller waits before the action is done, or looks at the flag after it, every maximal
  run ends with the caller returned: no state on the way is stuck and there are at most
  \<open>a_measure\<close> steps.
\<close>

definition a_in_time :: "waiting \<Rightarrow> bool" where
  "a_in_time s \<longleftrightarrow>
     (case a_waiter s of
        W_Check \<Rightarrow> a_done s
      | W_Lock \<Rightarrow> False
      | W_Waiting \<Rightarrow> a_exec s \<in> {A_Execute, A_Notify}
      | W_Woken \<Rightarrow> True
      | W_Returned \<Rightarrow> True)"

definition a_measure :: "waiting \<Rightarrow> nat" where
  "a_measure s =
     (case a_waiter s of W_Check \<Rightarrow> 4 | W_Lock \<Rightarrow> 3 | W_Waiting \<Rightarrow> 2 | W_Woken \<Rightarrow> 1 | W_Returned \<Rightarrow> 0)
     + (case a_exec s of A_Execute \<Rightarrow> 3 | A_Notify \<Rightarrow> 2 | A_Notifying \<Rightarrow> 1 | A_Finished \<Rightarrow> 0)"

lemma a_in_time_step: "a_step True spurious s s' \<Longrightarrow> a_in_time s \<Longrightarrow> a_in_time s' \<and> a_measure s' < a_measure s"
  by (auto simp: a_step_iff a_in_time_def a_wait_def a_notify_def a_measure_def
      split: waiter_pc.splits exec_pc.splits if_splits)

lemma a_in_time_not_stuck: "a_in_time s \<Longrightarrow> \<not> a_stuck True spurious s"
  by (auto simp: a_in_time_def a_stuck_def a_wait_def a_notify_def
      split: waiter_pc.splits exec_pc.splits if_splits)

text \<open>The lost wake-up: the action completes between the look at the flag and the wait.\<close>

definition a_lost :: waiting where
  "a_lost = \<lparr>a_done = True, a_waiter = W_Waiting, a_exec = A_Finished\<rparr>"

lemma a_lost_reachable: "a_reachable True False a_lost"
proof -
  let ?s = "\<lambda>d w e. \<lparr>a_done = d, a_waiter = w, a_exec = e\<rparr>"
  have "a_reachable True False (?s False W_Check A_Execute)"
    using a_reachable.init by (simp add: a_new_def)
  then have "a_reachable True False (?s False W_Lock A_Execute)"
    by (rule a_reachable.step) (simp add: a_step_iff a_wait_def)
  then have "a_reachable True False (?s False W_Lock A_Notify)"
    by (rule a_reachable.step) (simp add: a_step_iff a_notify_def)
  then have "a_reachable True False (?s False W_Lock A_Notifying)"
    by (rule a_reachable.step) (simp add: a_step_iff a_notify_def)
  then have "a_reachable True False (?s True W_Lock A_Finished)"
    by (rule a_reachable.step) (simp add: a_step_iff a_notify_def)
  then show ?thesis
    unfolding a_lost_def by (rule a_reachable.step) (simp add: a_step_iff a_wait_def)
qed

lemma a_lost_stuck: "a_stuck True False a_lost"
  by (simp add: a_stuck_def a_lost_def a_wait_def a_notify_def)

text \<open>An action that reports nothing leaves its caller waiting in every run.\<close>

lemma a_silent_never_returns:
  assumes "a_reachable False False s"
  shows "a_waiter s \<noteq> W_Returned"
proof -
  from assms have "\<not> a_done s \<and> a_waiter s \<notin> {W_Woken, W_Returned} \<and> a_exec s \<in> {A_Execute, A_Finished}"
    by (induction rule: a_reachable.induct)
      (auto simp: a_new_def a_step_iff a_wait_def a_notify_def
        split: waiter_pc.splits exec_pc.splits if_splits)
  then show ?thesis by simp
qed

end
