(* ===== verification/Thread_Join.thy ===== *)
theory Thread_Join
  imports Threads
begin

text \<open>
  How a worker ends: \<^verbatim>\<open>join\<close> and \<^verbatim>\<open>cancelAndJoin\<close> of \<^verbatim>\<open>thread/thread.cpp\<close>.  The caller
  of \<^verbatim>\<open>cancelAndJoin\<close> waits in \<^verbatim>\<open>join\<close> until the worker has left its loop.
\<close>

text \<open>\<^const>\<open>None\<close> is a caller that waits; a thread does not wait for itself.\<close>

definition h_join :: "bool \<Rightarrow> 'a handler \<Rightarrow> 'a handler option" where
  "h_join self s = (if self \<or> h_pc s = H_Dead then Some s else None)"

text \<open>
  What is left to happen while the caller waits and nobody else touches the worker: its own
  steps and the notifications under way.
\<close>

inductive h_settle :: "'a handler \<Rightarrow> 'a handler \<Rightarrow> bool" where
  run: "h_run s = Some s' \<Longrightarrow> h_settle s s'"
| post_check: "h_pushed s > 0 \<Longrightarrow> h_settle s (h_post_check s)"
| notify: "h_notify s > 0 \<Longrightarrow> h_settle s (h_do_notify s)"
| rnotify: "h_rnotify s > 0 \<Longrightarrow> h_settle s (h_do_rnotify s)"

inductive_cases h_settleE: "h_settle s s'"

lemma h_settle_step: "h_settle s s' \<Longrightarrow> h_step clr s s'"
  by (erule h_settleE) (auto intro: h_step.intros)

section \<open>Ending\<close>

lemma running_run:
  "h_run s = Some s' \<Longrightarrow> h_running s \<longleftrightarrow> h_pc s \<noteq> H_Dead \<Longrightarrow> h_running s' \<longleftrightarrow> h_pc s' \<noteq> H_Dead"
  by (cases "h_pc s") (auto simp: h_run_def split: list.splits if_splits)

lemma running_iff: "h_reachable clr s \<Longrightarrow> h_running s \<longleftrightarrow> h_pc s \<noteq> H_Dead"
proof (induction rule: h_reachable.induct)
  case init
  show ?case by (simp add: h_new_def)
next
  case (step s s')
  from step.hyps(2) step.IH show ?case
    by (cases rule: h_step.cases)
      (simp_all add: running_run h_start_def h_post_def h_post_check_def h_do_notify_def h_do_rnotify_def
        h_clear_def h_suspend_def h_resume_def h_cancel_def Let_def)
qed

text \<open>The worker has looked at \<^verbatim>\<open>canceled()\<close> and goes on to wait.\<close>

definition h_between :: "'a handler \<Rightarrow> bool" where
  "h_between s \<longleftrightarrow>
     h_pc s \<in> {H_CheckSuspended, H_Suspend, H_Fetch, H_Empty, H_PreWait}
     \<or> h_pc s = H_SuspendWait \<and> \<not> h_suspended s"

definition h_leaving :: "'a handler \<Rightarrow> bool" where
  "h_leaving s \<longleftrightarrow> h_canceled s
     \<and> (case h_pc s of
          H_Check \<Rightarrow> True | H_Woken \<Rightarrow> True | H_Exit \<Rightarrow> True | H_Dead \<Rightarrow> True
        | H_Process _ \<Rightarrow> h_queue s \<noteq> [] | H_Pop \<Rightarrow> h_queue s \<noteq> []
        | H_Waiting \<Rightarrow> h_notify s > 0 | H_SuspendWait \<Rightarrow> h_rnotify s > 0
        | _ \<Rightarrow> False)"

fun h_rank :: "'a hpc \<Rightarrow> nat" where
  "h_rank H_Dead = 0"
| "h_rank H_Exit = 1"
| "h_rank H_Check = 2"
| "h_rank H_Woken = 3"
| "h_rank H_Pop = 3"
| "h_rank H_SuspendWait = 3"
| "h_rank _ = 4"

definition h_left :: "'a handler \<Rightarrow> nat" where
  "h_left s = h_rank (h_pc s) + 2 * h_pushed s + h_notify s + h_rnotify s"

lemma run_leaving:
  assumes "h_run s = Some s'" and "h_leaving s"
  shows "h_leaving s' \<and> h_left s' < h_left s"
  using assms by (cases "h_pc s") (auto simp: h_leaving_def h_left_def h_run_def split: list.splits)

lemma settle_leaving:
  assumes "h_settle s s'" and "h_leaving s"
  shows "h_leaving s' \<and> h_left s' < h_left s"
  using assms(1)
proof (cases rule: h_settle.cases)
  case run
  then show ?thesis using assms(2) by (rule run_leaving)
next
  case post_check
  then show ?thesis using assms(2)
    by (cases "h_pc s"; cases "h_pushed s") (simp_all add: h_leaving_def h_left_def h_post_check_def)
next
  case notify
  then show ?thesis using assms(2)
    by (cases "h_pc s") (simp_all add: h_leaving_def h_left_def h_do_notify_def)
next
  case rnotify
  then show ?thesis using assms(2)
    by (cases "h_pc s") (simp_all add: h_leaving_def h_left_def h_do_rnotify_def)
qed

lemma leaving_goes_on: "h_leaving s \<Longrightarrow> h_join False s \<noteq> None \<or> (\<exists>s'. h_settle s s')"
  using h_settle.run [of s] h_settle.notify [of s] h_settle.rnotify [of s] h_run_progress [of s]
  by (cases "h_pc s") (fastforce simp: h_leaving_def h_join_def)+

lemma cancel_leaving:
  assumes "h_reachable False s" and "\<not> h_between s"
  shows "h_leaving (h_cancel s)"
  using assms running_iff [OF assms(1)] h_reachable_fifo [OF assms(1)]
  by (cases "h_pc s") (simp_all add: h_between_def h_leaving_def h_cancel_def h_resume_def h_fifo_def Let_def)

lemma settles_leaving:
  assumes "(h_settle ^^ n) s s'" and "h_leaving s"
  shows "h_leaving s' \<and> n + h_left s' \<le> h_left s"
  using assms
proof (induction n arbitrary: s')
  case (Suc n)
  then obtain s1 where "(h_settle ^^ n) s s1" "h_settle s1 s'" by auto
  with Suc show ?case using settle_leaving [of s1 s'] by fastforce
qed simp

lemma canceled_worker_ends:
  assumes "h_reachable False s" and "\<not> h_between s" and "(h_settle ^^ n) (h_cancel s) s'"
  shows "n \<le> h_left (h_cancel s) \<and> (h_join False s' \<noteq> None \<or> (\<exists>s''. h_settle s' s''))"
  using settles_leaving [OF assms(3) cancel_leaving [OF assms(1,2)]] leaving_goes_on [of s'] by simp

section \<open>Waiting for ever\<close>

text \<open>
  A worker without work that has looked at \<^verbatim>\<open>canceled()\<close> before it was set: the notification
  comes before it waits.
\<close>

definition h_idle :: "nat handler" where
  "h_idle = h_new\<lparr>h_running := True, h_pc := H_Fetch\<rparr>"

definition h_hanging :: "nat handler" where
  "h_hanging = h_new\<lparr>h_running := True, h_canceled := True, h_pc := H_Waiting\<rparr>"

lemma h_idle_reachable: "h_reachable False h_idle"
proof -
  have "h_reachable False (h_start False (h_new :: nat handler))"
    by (rule h_reachable.step [OF h_reachable.init h_step.start]) (simp add: h_new_def)
  moreover have "h_runs 2 (h_start False h_new) = Some h_idle"
    by (simp add: eval_nat_numeral h_run_def h_start_def h_new_def h_idle_def)
  ultimately show ?thesis by (rule h_runs_reachable [rotated])
qed

lemma h_idle_hangs: "(h_settle ^^ 4) (h_cancel h_idle) h_hanging"
proof -
  let ?s = "\<lambda>pc. (h_new :: nat handler)\<lparr>h_running := True, h_canceled := True, h_pc := pc\<rparr>"
  have "h_settle (h_cancel h_idle) (?s H_Fetch)"
    using h_settle.notify [of "h_cancel h_idle"]
    by (simp add: h_idle_def h_cancel_def h_resume_def h_do_notify_def h_new_def)
  moreover have "h_settle (?s H_Fetch) (?s H_Empty)" "h_settle (?s H_Empty) (?s H_PreWait)"
      "h_settle (?s H_PreWait) h_hanging"
    by (rule h_settle.run; simp add: h_run_def h_new_def h_hanging_def)+
  ultimately show ?thesis by (auto simp: eval_nat_numeral intro!: relcomppI)
qed

lemma h_hanging_stuck: "h_join False h_hanging = None" "\<not> h_settle h_hanging s"
  by (auto simp: h_join_def h_hanging_def h_new_def h_run_def elim!: h_settleE)

end
