(* ===== verification/Store_SQL.thy ===== *)
theory Store_SQL
  imports UBJ_Value
begin

text \<open>
  The statements of the store: \<^verbatim>\<open>ubj/store/action.cpp\<close> builds SQL text from UBJ objects
  and collects the values to bind; the actions of \<^verbatim>\<open>ubj/store/action/\<close> put the parts
  together.  A part is a pair of its text and the values it appended to \<^verbatim>\<open>m_bound\<close>, in order.
  sqlite itself is an argument, see the theory of the actions.
\<close>

type_synonym sql_part = "string \<times> val list"

text \<open>\<^verbatim>\<open>sep\<close> between the parts, none behind the last.\<close>

primrec sql_join :: "string \<Rightarrow> string list \<Rightarrow> string" where
  "sql_join sep [] = []"
| "sql_join sep (s # ss) = (if ss = [] then s else s @ sep @ sql_join sep ss)"

definition fieldsToReturnPart :: "(ubj_type \<Rightarrow> bytes \<Rightarrow> string) \<Rightarrow> val list \<Rightarrow> string option" where
  "fieldsToReturnPart fmt fs = do {
     ss \<leftarrow> those (map (val_toStr fmt) fs);
     Some (sql_join '','' ss) }"

text \<open>The operators in the order of the map \<^verbatim>\<open>ops\<close>.\<close>

definition where_ops :: "(string \<times> string) list" where
  "where_ops =
     [(''$ge'', ''>=?''), (''$gt'', ''>?''), (''$le'', ''<=?''), (''$like'', '' like ?''),
      (''$lt'', ''<?''), (''$ne'', ''<>?'')]"

text \<open>
  One entry of a query; \<open>subs\<close> are the results of \<^verbatim>\<open>wherePart\<close> on the items of the value.
\<close>

definition where_entry :: "string \<Rightarrow> val \<Rightarrow> sql_part list \<Rightarrow> sql_part" where
  "where_entry key v subs =
     (if v_type v = UBJ_ARRAY then
        (if key = ''$or'' then
           (if val_numItems v > 1 then
              (''('' @ sql_join '' OR '' (map fst subs) @ '')'', concat (map snd subs))
            else if val_numItems v > 0 then hd subs
            else ([], []))
         else ([], []))
      else if v_type v = UBJ_OBJECT \<and> val_numItems v \<noteq> 0 then
        (case find (\<lambda>op. val_hasField v (fst op)) where_ops of
           Some op \<Rightarrow> (key @ snd op, [val_field v (fst op)])
         | None \<Rightarrow> ([], []))
      else (key @ ''=?'', [v]))"

definition where_fields :: "(string \<times> val \<times> sql_part list) list \<Rightarrow> sql_part" where
  "where_fields es =
     (let ps = map (\<lambda>(k, v, subs). where_entry k v subs) es
      in (sql_join '' AND '' (map fst ps), concat (map snd ps)))"

text \<open>
  The recursion: a value with the query it is as an object, and the queries its items are.
\<close>

primrec where_val :: "val \<Rightarrow> val \<times> sql_part \<times> sql_part list" where
  "where_val (Val t b o' a) =
     (let fs = map_option (map (map_prod id where_val)) o';
          is = map_option (map where_val) a
      in (Val t b (map_option (map (map_prod id fst)) fs) (map_option (map fst) is),
          where_fields (map (\<lambda>(k, v, _, subs). (k, v, subs)) (case fs of Some xs \<Rightarrow> xs | None \<Rightarrow> [])),
          map (\<lambda>r. fst (snd r)) (case is of Some xs \<Rightarrow> xs | None \<Rightarrow> [])))"

definition wherePart :: "(string \<times> val) list \<Rightarrow> sql_part" where
  "wherePart query = fst (snd (where_val (val_of_obj query)))"

definition orderPart :: "(string \<times> val) list \<Rightarrow> string option" where
  "orderPart order = do {
     ss \<leftarrow> those (map (\<lambda>(k, v). map_option (\<lambda>w. k @ (if 0 <s w then '' ASC '' else '' DESC '')) (val_toInt v)) order);
     Some (concat ss) }"

definition insertPart :: "(string \<times> val) list \<Rightarrow> sql_part" where
  "insertPart ins =
     (let part1 = sql_join '','' (map fst ins); part2 = sql_join '','' (map (\<lambda>_. ''?'') ins)
      in (if part1 \<noteq> [] then ''('' @ part1 @ '') VALUES('' @ part2 @ '')'' else [], map snd ins))"

definition updatePart :: "(string \<times> val) list \<Rightarrow> sql_part" where
  "updatePart upd = (sql_join '','' (map (\<lambda>(k, _). k @ ''=?'') upd), map snd upd)"

section \<open>The statements of the actions\<close>

definition where_clause :: "(string \<times> val) list \<Rightarrow> sql_part" where
  "where_clause query =
     (case wherePart query of (s, b) \<Rightarrow> (if s \<noteq> [] then '' WHERE '' @ s else [], b))"

definition query_sql ::
    "(ubj_type \<Rightarrow> bytes \<Rightarrow> string) \<Rightarrow> string \<Rightarrow> (string \<times> val) list \<Rightarrow> (string \<times> val) list \<Rightarrow> val list
     \<Rightarrow> u32 \<Rightarrow> u32 \<Rightarrow> sql_part option" where
  "query_sql fmt table query order fieldsToReturn limit offset = do {
     fs \<leftarrow> fieldsToReturnPart fmt fieldsToReturn;
     let (w, b) = where_clause query;
     ord \<leftarrow> orderPart order;
     Some (''SELECT '' @ (if fs \<noteq> [] then fs @ '' FROM '' @ table else ''* FROM '' @ table)
           @ w
           @ (if ord \<noteq> [] then '' ORDER BY '' @ ord else [])
           @ (if 0 <s limit then '' LIMIT '' @ int_to_string (sint limit) else [])
           @ (if 0 <s offset then '' OFFSET '' @ int_to_string (sint offset) else []), b) }"

definition insert_sql :: "string \<Rightarrow> (string \<times> val) list \<Rightarrow> sql_part" where
  "insert_sql table ins =
     (case insertPart ins of (s, b) \<Rightarrow> (''INSERT INTO '' @ table @ '' '' @ s, b))"

definition update_sql :: "string \<Rightarrow> (string \<times> val) list \<Rightarrow> (string \<times> val) list \<Rightarrow> sql_part" where
  "update_sql table upd wh =
     (case updatePart upd of (s, b) \<Rightarrow>
        case where_clause wh of (w, b') \<Rightarrow> (''UPDATE '' @ table @ '' SET '' @ s @ w, b @ b'))"

definition remove_sql :: "string \<Rightarrow> (string \<times> val) list \<Rightarrow> sql_part" where
  "remove_sql table wh = (case where_clause wh of (w, b) \<Rightarrow> (''DELETE FROM '' @ table @ w, b))"

definition count_sql :: "string \<Rightarrow> (string \<times> val) list \<Rightarrow> sql_part" where
  "count_sql table query =
     (case where_clause query of (w, b) \<Rightarrow> (''SELECT COUNT(1) FROM '' @ table @ w, b))"

definition begin_sql :: "bool \<Rightarrow> sql_part" where
  "begin_sql exclusive =
     (''BEGIN '' @ (if exclusive then ''EXCLUSIVE'' else ''IMMEDIATE'') @ '' TRANSACTION'', [])"

definition end_sql :: sql_part where
  "end_sql = (''END TRANSACTION'', [])"

section \<open>Binding\<close>

datatype sql_val =
    SQ_Null
  | SQ_Int u64
  | SQ_Real u64
  | SQ_Text bytes
  | SQ_Blob bytes
  | SQ_ZeroBlob u32

text \<open>
  What \<^verbatim>\<open>bindUbjToStmt\<close> does with one value: \<^const>\<open>None\<close> is undefined behaviour,
  \<open>Some None\<close> binds nothing, otherwise the next index is bound.  A 32-bit float is read as
  eight bytes.
\<close>

definition bind_blob_of :: "val \<Rightarrow> sql_val option option" where
  "bind_blob_of v = do {
     buf \<leftarrow> writer_write v;
     Some (map_option (\<lambda>b. SQ_Blob (mb_bytes b)) buf) }"

definition bind_value :: "bool \<Rightarrow> val \<Rightarrow> sql_val option option" where
  "bind_value vtab v =
     (case v_type v of
        UBJ_OBJECT \<Rightarrow>
          if val_hasField v ''$zeroBlob'' then
            do { _ \<leftarrow> val_toInt (val_field v ''$zeroBlob'');
                 n \<leftarrow> val_toLong (val_field v ''$zeroBlob'');
                 Some (Some (SQ_ZeroBlob (ucast n))) }
          else if val_hasField v ''$bindNull'' then Some (Some SQ_Null)
          else if vtab then bind_blob_of v
          else Some None
      | UBJ_ARRAY \<Rightarrow>
          if val_bufferSize v \<noteq> 0 then map_option (\<lambda>b. Some (SQ_Blob b)) (v_buffer v)
          else if vtab then bind_blob_of v
          else Some None
      | UBJ_BOOL_TRUE \<Rightarrow> Some (Some (SQ_Int 1))
      | UBJ_BOOL_FALSE \<Rightarrow> Some (Some (SQ_Int 0))
      | UBJ_INT32 \<Rightarrow> do { b \<leftarrow> v_buffer v; w \<leftarrow> le_load32 b; Some (Some (SQ_Int (scast w))) }
      | UBJ_INT64 \<Rightarrow> do { b \<leftarrow> v_buffer v; w \<leftarrow> le_load64 b; Some (Some (SQ_Int w)) }
      | UBJ_FLOAT32 \<Rightarrow> do { b \<leftarrow> v_buffer v; w \<leftarrow> le_load64 b; Some (Some (SQ_Real w)) }
      | UBJ_FLOAT64 \<Rightarrow> do { b \<leftarrow> v_buffer v; w \<leftarrow> le_load64 b; Some (Some (SQ_Real w)) }
      | UBJ_STRING \<Rightarrow> do { b \<leftarrow> v_buffer v; Some (Some (SQ_Text b)) }
      | _ \<Rightarrow> Some (Some SQ_Null))"

text \<open>The calls of \<^verbatim>\<open>sqlite3_bind_*\<close> in order, each with its index.\<close>

primrec bind_from :: "bool \<Rightarrow> nat \<Rightarrow> val list \<Rightarrow> (nat \<times> sql_val) list option" where
  "bind_from vtab i [] = Some []"
| "bind_from vtab i (v # vs) = do {
     b \<leftarrow> bind_value vtab v;
     case b of
       None \<Rightarrow> bind_from vtab i vs
     | Some x \<Rightarrow> map_option ((#) (i + 1, x)) (bind_from vtab (i + 1) vs) }"

definition bindUbjToStmt :: "bool \<Rightarrow> val list \<Rightarrow> (nat \<times> sql_val) list option" where
  "bindUbjToStmt vtab bound = bind_from vtab 0 bound"

section \<open>Rows\<close>

text \<open>
  \<^verbatim>\<open>rowToUbj\<close> on the columns of the current row, named and typed as sqlite reports them.
  Columns of type real and null leave no field.  A blob of a virtual table is read as a value.
\<close>

definition row_step ::
    "bool \<Rightarrow> string \<times> sql_val \<Rightarrow> (string \<times> val) list \<Rightarrow> (string \<times> val) list option" where
  "row_step vtab col obj =
     (case snd col of
        SQ_Int w \<Rightarrow> Some (omap_insert (fst col) (val_int64 w) obj)
      | SQ_Text s \<Rightarrow> map_option (\<lambda>v. omap_insert (fst col) v obj) (val_of_string (string_of_bytes s))
      | SQ_Blob d \<Rightarrow>
          if \<not> vtab then Some (omap_insert (fst col) (val_of_buffer (Some d)) obj)
          else do {
            let old = (case map_of obj (fst col) of Some v \<Rightarrow> v | None \<Rightarrow> val_null);
            (_, v) \<leftarrow> val_read_buffer old (Some \<lparr>mb_data = Some d, mb_size = of_nat (length d)\<rparr>);
            Some (omap_insert (fst col) v obj) }
      | _ \<Rightarrow> Some obj)"

primrec row_from :: "bool \<Rightarrow> (string \<times> sql_val) list \<Rightarrow> (string \<times> val) list \<Rightarrow> (string \<times> val) list option" where
  "row_from vtab [] obj = Some obj"
| "row_from vtab (c # cs) obj = do { obj1 \<leftarrow> row_step vtab c obj; row_from vtab cs obj1 }"

definition rowToUbj :: "bool \<Rightarrow> (string \<times> sql_val) list \<Rightarrow> (string \<times> val) list option" where
  "rowToUbj vtab cols = row_from vtab cols []"

section \<open>The recursion of wherePart\<close>

lemma where_val_fst [simp]: "fst (where_val v) = v"
proof (induction v)
  case (Val t b o' a)
  have "map (map_prod id fst) (map (map_prod id where_val) kvs) = kvs" if o': "o' = Some kvs" for kvs
  proof -
    have "map_prod id fst (map_prod id where_val p) = p" if "p \<in> set kvs" for p
      using Val(1) [of kvs p "snd p"] that o' by (cases p) auto
    then show ?thesis by (simp add: map_idI)
  qed
  moreover have "map fst (map where_val xs) = xs" if "a = Some xs" for xs
    using Val(2) [of xs] that by (auto simp: map_idI)
  ultimately show ?case by (cases o'; cases a) simp_all
qed

lemma where_val_parts:
  "snd (where_val v) =
    (where_fields (map (\<lambda>(k, x). (k, x, snd (snd (where_val x)))) (val_toObject v)),
     map (\<lambda>x. fst (snd (where_val x))) (val_toArray v))"
proof (cases v)
  case (Val t b o' a)
  have "(\<lambda>(k, v, _, subs). (k, v, subs)) \<circ> map_prod id where_val
      = (\<lambda>(k :: string, x). (k, x, snd (snd (where_val x))))"
    by (rule ext) (simp add: case_prod_beta)
  then have "map (\<lambda>(k, v, _, subs). (k, v, subs)) (map (map_prod id where_val) kvs)
      = map (\<lambda>(k, x). (k, x, snd (snd (where_val x)))) kvs" for kvs :: "(string \<times> val) list"
    by (simp only: map_map)
  moreover have "map (\<lambda>r. fst (snd r)) (map where_val xs) = map (\<lambda>x. fst (snd (where_val x))) xs" for xs
    by simp
  ultimately show ?thesis
    by (cases o'; cases a) (simp_all add: Val val_toObject_def val_toArray_def Let_def del: map_map)
qed

lemma wherePart_rec:
  "wherePart q = where_fields (map (\<lambda>(k, v). (k, v, map (\<lambda>x. wherePart (val_toObject x)) (val_toArray v))) q)"
proof -
  have w: "fst (snd (where_val x)) = wherePart (val_toObject x)" for x
    by (simp add: wherePart_def where_val_parts [of x] where_val_parts [of "val_of_obj _"])
      (simp add: val_of_obj_def val_toObject_def)
  have "snd (snd (where_val v)) = map (\<lambda>x. wherePart (val_toObject x)) (val_toArray v)" for v
    by (simp add: where_val_parts [of v] w)
  then show ?thesis
    by (simp add: wherePart_def where_val_parts [of "val_of_obj q"]) (simp add: val_of_obj_def val_toObject_def)
qed

section \<open>Placeholders and bound values\<close>

definition marks :: "string \<Rightarrow> nat" where
  "marks s = length (filter (\<lambda>c. c = CHR ''?'') s)"

lemma marks_simps [simp]:
  "marks [] = 0" "marks (c # s) = (if c = CHR ''?'' then 1 else 0) + marks s"
  "marks (s @ t) = marks s + marks t"
  by (simp_all add: marks_def)

text \<open>No field name of the query, at any depth, contains a question mark.\<close>

primrec plain_keys :: "val \<Rightarrow> bool" where
  "plain_keys (Val t b o' a) \<longleftrightarrow>
     (case map_option (map (map_prod id plain_keys)) o' of
        None \<Rightarrow> True | Some kps \<Rightarrow> list_all (\<lambda>(k, p). marks k = 0 \<and> p) kps)
     \<and> (case map_option (map plain_keys) a of None \<Rightarrow> True | Some ps \<Rightarrow> list_all id ps)"

lemma plain_keys_iff:
  "plain_keys v \<longleftrightarrow> (\<forall>(k, x) \<in> set (val_toObject v). marks k = 0 \<and> plain_keys x)
     \<and> (\<forall>x \<in> set (val_toArray v). plain_keys x)"
  by (cases v) (auto simp: val_toObject_def val_toArray_def list_all_iff split: option.splits)

definition balanced :: "sql_part \<Rightarrow> bool" where
  "balanced p \<longleftrightarrow> marks (fst p) = length (snd p)"

lemma marks_join:
  "marks sep = 0 \<Longrightarrow> marks (sql_join sep ss) = sum_list (map marks ss)"
  by (induction ss) auto

lemma balanced_join:
  assumes "list_all balanced ps" and "marks sep = 0"
  shows "balanced (sql_join sep (map fst ps), concat (map snd ps))"
proof -
  have "sum_list (map (marks \<circ> fst) ps) = sum_list (map (length \<circ> snd) ps)"
    using assms(1) by (induction ps) (auto simp: balanced_def)
  then show ?thesis using marks_join [OF assms(2)] by (simp add: balanced_def length_concat comp_def)
qed

lemma where_ops_marks: "op \<in> set where_ops \<Longrightarrow> marks (snd op) = 1"
  by (auto simp: where_ops_def)

lemma find_in_set: "find P xs = Some x \<Longrightarrow> x \<in> set xs"
  by (induction xs) (auto split: if_splits)

lemma numItems_array: "v_type v = UBJ_ARRAY \<Longrightarrow> val_numItems v > 0 \<Longrightarrow> val_toArray v \<noteq> []"
  by (auto simp: val_numItems_def val_toArray_def split: if_splits option.splits)

lemma balanced_entry:
  assumes "marks k = 0" and "list_all balanced subs"
    and "v_type v = UBJ_ARRAY \<Longrightarrow> val_numItems v > 0 \<Longrightarrow> subs \<noteq> []"
  shows "balanced (where_entry k v subs)"
proof -
  have nil: "balanced ([], [])" and eq: "balanced (k @ ''=?'', [v])"
    using assms(1) by (simp_all add: balanced_def)
  consider (arr) "v_type v = UBJ_ARRAY" | (obj) "v_type v = UBJ_OBJECT" "val_numItems v \<noteq> 0"
    | (other) "v_type v \<noteq> UBJ_ARRAY" "\<not> (v_type v = UBJ_OBJECT \<and> val_numItems v \<noteq> 0)" by blast
  then show ?thesis
  proof cases
    case arr
    have "balanced (''('' @ sql_join '' OR '' (map fst subs) @ '')'', concat (map snd subs))"
      using balanced_join [OF assms(2), of "'' OR ''"] by (simp add: balanced_def)
    moreover have "balanced (hd subs)" if "val_numItems v > 0"
      using assms(2) assms(3) [OF arr that] by (cases subs) simp_all
    ultimately show ?thesis using nil by (simp add: where_entry_def arr)
  next
    case obj
    show ?thesis
    proof (cases "find (\<lambda>op. val_hasField v (fst op)) where_ops")
      case None
      with obj nil show ?thesis by (simp add: where_entry_def)
    next
      case (Some op)
      with where_ops_marks [OF find_in_set [OF Some]] assms(1) obj show ?thesis
        by (simp add: where_entry_def balanced_def)
    qed
  next
    case other
    with eq show ?thesis by (auto simp: where_entry_def)
  qed
qed

lemma wherePart_balanced_val:
  "plain_keys v \<Longrightarrow> balanced (wherePart (val_toObject v))
    \<and> list_all (\<lambda>x. balanced (wherePart (val_toObject x))) (val_toArray v)"
proof (induction v)
  case (Val t b o' a)
  let ?v = "Val t b o' a"
  from Val.prems have plain: "\<And>k x. (k, x) \<in> set (val_toObject ?v) \<Longrightarrow> marks k = 0 \<and> plain_keys x"
    "\<And>x. x \<in> set (val_toArray ?v) \<Longrightarrow> plain_keys x"
    using iffD1 [OF plain_keys_iff Val.prems] by blast+
  have obj: "list_all (\<lambda>y. balanced (wherePart (val_toObject y))) (val_toArray x)"
    if kx: "(k, x) \<in> set (val_toObject ?v)" for k x
  proof -
    from kx obtain kvs where o': "o' = Some kvs" "(k, x) \<in> set kvs"
      by (auto simp: val_toObject_def split: option.splits)
    from Val.IH(1) [of kvs "(k, x)" x] o' plain(1) [OF kx] show ?thesis by auto
  qed
  have arr: "balanced (wherePart (val_toObject x))" if x: "x \<in> set (val_toArray ?v)" for x
  proof -
    from x obtain xs where a: "a = Some xs" "x \<in> set xs"
      by (auto simp: val_toArray_def split: option.splits)
    from Val.IH(2) [of xs x] a plain(2) [OF x] show ?thesis by auto
  qed
  let ?e = "\<lambda>(k, v). (k, v, map (\<lambda>x. wherePart (val_toObject x)) (val_toArray v))"
  have "list_all balanced (map (\<lambda>(k, v, subs). where_entry k v subs) (map ?e (val_toObject ?v)))"
    using plain(1) obj numItems_array by (auto simp: list_all_iff intro!: balanced_entry)
  from balanced_join [OF this, of "'' AND ''"] have "balanced (wherePart (val_toObject ?v))"
    by (subst wherePart_rec) (simp add: where_fields_def Let_def)
  with arr show ?case by (simp add: list_all_iff)
qed

lemma wherePart_balanced: "plain_keys (val_of_obj q) \<Longrightarrow> balanced (wherePart q)"
  using wherePart_balanced_val [of "val_of_obj q"] by (simp add: val_of_obj_def val_toObject_def)

lemma where_clause_balanced: "plain_keys (val_of_obj q) \<Longrightarrow> balanced (where_clause q)"
  using wherePart_balanced [of q]
  by (auto simp: where_clause_def balanced_def split: prod.splits)

lemma insert_sql_balanced:
  assumes "marks table = 0" and "\<forall>(k, v) \<in> set ins. marks k = 0" and "\<exists>(k, v) \<in> set ins. k \<noteq> []"
  shows "balanced (insert_sql table ins)"
proof -
  have k: "marks (sql_join '','' (map fst ins)) = 0"
    using assms(2) by (induction ins) auto
  have "marks (sql_join '','' (map (\<lambda>_. ''?'') ins)) = length ins"
    by (induction ins) auto
  moreover have "sql_join '','' (map fst ins) \<noteq> []"
    using assms(3) by (induction ins) auto
  ultimately show ?thesis
    using k assms(1) by (simp add: insert_sql_def insertPart_def balanced_def Let_def)
qed

lemma update_sql_balanced:
  assumes "marks table = 0" and "\<forall>(k, v) \<in> set upd. marks k = 0" and "plain_keys (val_of_obj wh)"
  shows "balanced (update_sql table upd wh)"
proof -
  have "marks (sql_join '','' (map (\<lambda>(k, _). k @ ''=?'') upd)) = length upd"
    using assms(2) by (induction upd) auto
  then show ?thesis
    using where_clause_balanced [OF assms(3)] assms(1)
    by (auto simp: update_sql_def updatePart_def balanced_def split: prod.splits)
qed

lemma remove_sql_balanced:
  "marks table = 0 \<Longrightarrow> plain_keys (val_of_obj wh) \<Longrightarrow> balanced (remove_sql table wh)"
  using where_clause_balanced [of wh] by (auto simp: remove_sql_def balanced_def split: prod.splits)

lemma count_sql_balanced:
  "marks table = 0 \<Longrightarrow> plain_keys (val_of_obj q) \<Longrightarrow> balanced (count_sql table q)"
  using where_clause_balanced [of q] by (auto simp: count_sql_def balanced_def split: prod.splits)

text \<open>When every value binds, the values meet the placeholders in order.\<close>

lemma bind_from_aligned:
  "list_all2 (\<lambda>v x. bind_value vtab v = Some (Some x)) vs xs \<Longrightarrow>
    bind_from vtab i vs = Some (zip [i + 1..<i + 1 + length vs] xs)"
proof (induction vs xs arbitrary: i rule: list_all2_induct)
  case (Cons v vs x xs)
  then show ?case by (simp add: upt_conv_Cons del: upt_Suc)
qed simp

text \<open>A value that does not bind leaves its placeholder to the next one.\<close>

lemma bind_from_shifts:
  "bind_value vtab v = Some None \<Longrightarrow> bindUbjToStmt vtab (v # vs) = bindUbjToStmt vtab vs"
  by (simp add: bindUbjToStmt_def)

section \<open>Values never reach the text\<close>

text \<open>Forget every value of a query: only names and the shape of objects and arrays are left.\<close>

definition blank_type :: "ubj_type \<Rightarrow> ubj_type" where
  "blank_type t = (if t = UBJ_OBJECT \<or> t = UBJ_ARRAY then t else UBJ_BOOL_TRUE)"

primrec blank :: "val \<Rightarrow> val" where
  "blank (Val t b o' a) =
     Val (blank_type t) None (map_option (map (map_prod id blank)) o') (map_option (map blank) a)"

lemma blank_simps [simp]:
  "v_type (blank v) = blank_type (v_type v)"
  "val_toObject (blank v) = map (map_prod id blank) (val_toObject v)"
  "val_toArray (blank v) = map blank (val_toArray v)"
  by (cases v; auto simp: val_toObject_def val_toArray_def split: option.splits)+

lemma val_numItems_blank [simp]: "val_numItems (blank v) = val_numItems v"
  by (cases v) (auto simp: val_numItems_def blank_type_def)

lemma map_of_blank: "map_of (map (map_prod id blank) kvs) k = map_option blank (map_of kvs k)"
  by (induction kvs) auto

lemma val_hasField_blank [simp]: "val_hasField (blank v) k = val_hasField v k"
  by (cases v) (auto simp: val_hasField_def blank_type_def map_of_blank split: option.splits)

lemma where_entry_blank:
  "fst (where_entry k (blank v) subs') = fst (where_entry k v subs)"
  if "map fst subs' = map fst subs" and "v_type v = UBJ_ARRAY \<Longrightarrow> val_numItems v > 0 \<Longrightarrow> subs \<noteq> []"
proof -
  have "fst (hd subs') = fst (hd subs)" if "subs \<noteq> []"
    using \<open>map fst subs' = map fst subs\<close> that by (cases subs; cases subs') auto
  with that show ?thesis
    by (auto simp: where_entry_def blank_type_def split: option.splits)
qed

lemma wherePart_blank_val:
  "fst (wherePart (val_toObject (blank v))) = fst (wherePart (val_toObject v))
    \<and> map (\<lambda>x. fst (wherePart (val_toObject (blank x)))) (val_toArray v)
      = map (\<lambda>x. fst (wherePart (val_toObject x))) (val_toArray v)"
proof (induction v)
  case (Val t b o' a)
  let ?v = "Val t b o' a"
  let ?w = "\<lambda>x. wherePart (val_toObject x)"
  have arr: "map (\<lambda>x. fst (?w (blank x))) (val_toArray ?v) = map (\<lambda>x. fst (?w x)) (val_toArray ?v)"
  proof (rule map_cong [OF refl])
    fix x assume "x \<in> set (val_toArray ?v)"
    then obtain xs where a: "a = Some xs" "x \<in> set xs"
      by (auto simp: val_toArray_def split: option.splits)
    from Val.IH(2) [of xs x] a show "fst (?w (blank x)) = fst (?w x)" by auto
  qed
  have entry: "fst (where_entry k (blank x) (map ?w (val_toArray (blank x))))
      = fst (where_entry k x (map ?w (val_toArray x)))" if kx: "(k, x) \<in> set (val_toObject ?v)" for k x
  proof (rule where_entry_blank)
    from kx obtain kvs where o': "o' = Some kvs" "(k, x) \<in> set kvs"
      by (auto simp: val_toObject_def split: option.splits)
    from Val.IH(1) [of kvs "(k, x)" x] o' show
      "map fst (map ?w (val_toArray (blank x))) = map fst (map ?w (val_toArray x))"
      by (auto simp: comp_def)
  qed (use numItems_array in auto)
  have "map (\<lambda>(k, x). fst (where_entry k (blank x) (map ?w (val_toArray (blank x))))) (val_toObject ?v)
      = map (\<lambda>(k, x). fst (where_entry k x (map ?w (val_toArray x)))) (val_toObject ?v)"
    using entry by (intro map_cong) auto
  then have "fst (?w (blank ?v)) = fst (?w ?v)"
    by (subst (1 2) wherePart_rec)
      (simp add: where_fields_def Let_def case_prod_beta comp_def del: blank.simps val_numItems_blank cong: map_cong)
  with arr show ?case by simp
qed

lemma wherePart_blank: "fst (wherePart (map (map_prod id blank) q)) = fst (wherePart q)"
  using wherePart_blank_val [of "val_of_obj q"] by (simp add: val_of_obj_def val_toObject_def)

end
