(* ===== verification/Sec_Mem.thy ===== *)
theory Sec_Mem
  imports Std_Map
begin

text \<open>
  The locked memory of \<^verbatim>\<open>crypto/secmem.cpp\<close>: one region, handed out first fit, its blocks
  kept in an ordered map from address to size.  Addresses are offsets from \<^verbatim>\<open>m_lockedData\<close>;
  the singleton \<^verbatim>\<open>instance\<close> is an option.  The operating system's answers (page size, limit,
  \<^verbatim>\<open>mlock\<close>, the bytes of fresh memory) are arguments of \<open>sm_setup\<close>.
\<close>

record secmem =
  sm_data :: "bytes option"
  sm_lockedSize :: u32
  sm_mallocs :: "(u32, u32) omap"

definition sm_new :: secmem where
  "sm_new = \<lparr>sm_data = None, sm_lockedSize = 0, sm_mallocs = []\<rparr>"

text \<open>
  \<^verbatim>\<open>setup\<close>: \<^const>\<open>None\<close> is the division by a page size of zero.  Pages are locked in order
  until the first refusal.
\<close>

definition sm_setup ::
    "u32 \<Rightarrow> u64 \<Rightarrow> (nat \<Rightarrow> bool) \<Rightarrow> (nat \<Rightarrow> byte) \<Rightarrow> u32 \<Rightarrow> secmem option \<Rightarrow> (bool \<times> secmem option) option" where
  "sm_setup pageSize limit mlock fresh size' inst =
     (case inst of
        Some s \<Rightarrow> Some (False, Some s)
      | None \<Rightarrow>
          if pageSize = 0 then None
          else if size' \<noteq> 0 \<and> size' mod pageSize \<noteq> 0 then Some (False, Some sm_new)
          else
            let sz = (if size' = 0 then ucast limit else size') :: u32;
                numLocks = sz div pageSize;
                pagesLocked = of_nat (length (takeWhile mlock [0..<unat numLocks])) :: u32
            in Some (True, Some (sm_new\<lparr>sm_data := Some (map fresh [0..<unat sz]),
                                        sm_lockedSize := pagesLocked * pageSize\<rparr>)))"

definition sm_cleanup :: "secmem option \<Rightarrow> bool \<times> secmem option" where
  "sm_cleanup inst =
     (case inst of
        None \<Rightarrow> (False, None)
      | Some s \<Rightarrow> (True, Some (s\<lparr>sm_data := None, sm_lockedSize := 0, sm_mallocs := []\<rparr>)))"

text \<open>
  \<^verbatim>\<open>getOffset\<close>: the loop over the blocks with its locals \<^verbatim>\<open>o\<close> and \<^verbatim>\<open>s\<close>, left early
  (\<^const>\<open>Inl\<close>) at the first gap that is wide enough.
\<close>

primrec sm_scan :: "u32 \<Rightarrow> (u32 \<times> u32) list \<Rightarrow> u32 \<Rightarrow> u32 \<Rightarrow> u32 + u32 \<times> u32" where
  "sm_scan size' [] off s = Inr (off, s)"
| "sm_scan size' (b # bs) off s =
     (let tmp = fst b;
          (off1, s1) = (if tmp > off then (off, tmp - off) else (tmp + snd b, 0))
      in if size' \<le> s1 then Inl off1 else sm_scan size' bs (tmp + snd b) 0)"

definition sm_getOffset :: "u32 \<Rightarrow> secmem \<Rightarrow> u32 option" where
  "sm_getOffset size' m =
     (case sm_scan size' (sm_mallocs m) 0 0 of
        Inl off \<Rightarrow> Some off
      | Inr (off, s) \<Rightarrow>
          let off1 = off + s; s1 = sm_lockedSize m - off1
          in if s1 \<noteq> 0 \<and> size' \<le> s1 then Some off1 else None)"

text \<open>
  \<^verbatim>\<open>malloc\<close> has two critical sections: finding the offset and storing the block.
\<close>

definition sm_find :: "u32 \<Rightarrow> secmem \<Rightarrow> u32 option" where
  "sm_find size' m = (if sm_lockedSize m \<noteq> 0 then sm_getOffset size' m else None)"

definition sm_store :: "u32 \<Rightarrow> u32 \<Rightarrow> secmem \<Rightarrow> secmem" where
  "sm_store off size' m = m\<lparr>sm_mallocs := omap_insert off size' (sm_mallocs m)\<rparr>"

definition sm_malloc :: "u32 \<Rightarrow> secmem option \<Rightarrow> u32 option \<times> secmem option" where
  "sm_malloc size' inst =
     (case inst of
        None \<Rightarrow> (None, None)
      | Some m \<Rightarrow>
          (case sm_find size' m of
             Some off \<Rightarrow> (Some off, Some (sm_store off size' m))
           | None \<Rightarrow> (None, Some m)))"

text \<open>\<^verbatim>\<open>free\<close>: \<^const>\<open>None\<close> when the wiped block does not lie in the region.\<close>

definition sm_free :: "u32 \<Rightarrow> secmem option \<Rightarrow> (bool \<times> secmem option) option" where
  "sm_free p inst =
     (case inst of
        None \<Rightarrow> Some (False, None)
      | Some m \<Rightarrow>
          if sm_lockedSize m = 0 then Some (False, Some m)
          else
            (case map_of (sm_mallocs m) p of
               None \<Rightarrow> Some (False, Some m)
             | Some n \<Rightarrow>
                 (case sm_data m of
                    None \<Rightarrow> None
                  | Some d \<Rightarrow>
                      if length d < unat p + unat n then None
                      else Some (True, Some (m\<lparr>
                             sm_data := Some (take (unat p) d @ replicate (unat n) 0
                                                @ drop (unat p + unat n) d),
                             sm_mallocs := omap_erase p (sm_mallocs m)\<rparr>)))))"

definition sm_getLockedSize :: "secmem option \<Rightarrow> u32" where
  "sm_getLockedSize inst = (case inst of None \<Rightarrow> 0 | Some m \<Rightarrow> sm_lockedSize m)"

definition sm_getLockedSizeUsed :: "secmem option \<Rightarrow> u32" where
  "sm_getLockedSizeUsed inst =
     (case inst of None \<Rightarrow> 0 | Some m \<Rightarrow> fold (\<lambda>(_, n) size'. size' + n) (sm_mallocs m) 0)"

definition sm_getLockedSizeAvailable :: "secmem option \<Rightarrow> u32" where
  "sm_getLockedSizeAvailable inst = sm_getLockedSize inst - sm_getLockedSizeUsed inst"

section \<open>The blocks\<close>

text \<open>Blocks in ascending order, none empty, without overlap, between \<open>lo\<close> and \<open>hi\<close>.\<close>

primrec blocks_ok :: "nat \<Rightarrow> nat \<Rightarrow> (u32 \<times> u32) list \<Rightarrow> bool" where
  "blocks_ok lo hi [] \<longleftrightarrow> lo \<le> hi"
| "blocks_ok lo hi (b # bs) \<longleftrightarrow>
     lo \<le> unat (fst b) \<and> 0 < unat (snd b) \<and> blocks_ok (unat (fst b) + unat (snd b)) hi bs"

definition sm_inv :: "secmem \<Rightarrow> bool" where
  "sm_inv m \<longleftrightarrow>
     blocks_ok 0 (unat (sm_lockedSize m)) (sm_mallocs m)
     \<and> (case sm_data m of
          None \<Rightarrow> sm_lockedSize m = 0
        | Some d \<Rightarrow> unat (sm_lockedSize m) \<le> length d)"

text \<open>The \<open>n\<close> bytes at \<open>y\<close> meet no block.\<close>

definition sm_fits :: "(u32 \<times> u32) list \<Rightarrow> nat \<Rightarrow> nat \<Rightarrow> bool" where
  "sm_fits bs n y \<longleftrightarrow> (\<forall>b \<in> set bs. y + n \<le> unat (fst b) \<or> unat (fst b) + unat (snd b) \<le> y)"

lemma sm_fits_simps [simp]:
  "sm_fits [] n y"
  "sm_fits (b # bs) n y \<longleftrightarrow> (y + n \<le> unat (fst b) \<or> unat (fst b) + unat (snd b) \<le> y) \<and> sm_fits bs n y"
  by (simp_all add: sm_fits_def)

lemma blocks_ok_bounds: "blocks_ok lo hi bs \<Longrightarrow> lo \<le> hi"
  by (induction bs arbitrary: lo) force+

lemma blocks_ok_mono: "blocks_ok lo hi bs \<Longrightarrow> lo' \<le> lo \<Longrightarrow> blocks_ok lo' hi bs"
  by (cases bs) auto

lemma blocks_ok_member:
  "blocks_ok lo hi bs \<Longrightarrow> (p, n) \<in> set bs \<Longrightarrow> lo \<le> unat p \<and> 0 < unat n \<and> unat p + unat n \<le> hi"
  by (induction bs arbitrary: lo) (fastforce dest: blocks_ok_bounds)+

lemma blocks_ok_apart:
  "blocks_ok lo hi bs \<Longrightarrow> (p, n) \<in> set bs \<Longrightarrow> (q, k) \<in> set bs \<Longrightarrow>
    (q, k) = (p, n) \<or> unat q + unat k \<le> unat p \<or> unat p + unat n \<le> unat q"
proof (induction bs arbitrary: lo)
  case (Cons b bs)
  then show ?case by (cases b) (auto dest: blocks_ok_member)
qed simp

lemma blocks_ok_fits: "blocks_ok lo hi bs \<Longrightarrow> y + n \<le> lo \<Longrightarrow> sm_fits bs n y"
  by (auto simp: sm_fits_def dest: blocks_ok_member)

lemma blocks_ok_sorted: "blocks_ok lo hi bs \<Longrightarrow> omap_inv bs"
proof (induction bs arbitrary: lo)
  case (Cons b bs)
  obtain p n where b: "b = (p, n)" by (cases b)
  from Cons.prems have r: "blocks_ok (unat p + unat n) hi bs" "0 < unat n" by (simp_all add: b)
  have "p < q" if "(q, k) \<in> set bs" for q k
    using blocks_ok_member [OF r(1) that] r(2) by (simp add: word_less_nat_alt)
  then show ?case using Cons.IH [OF r(1)] by (auto simp: b)
qed simp

lemma blocks_ok_insert:
  assumes "blocks_ok lo hi bs" and "sm_fits bs (unat n) (unat p)" and "0 < unat n"
    and "lo \<le> unat p" and "unat p + unat n \<le> hi"
  shows "blocks_ok lo hi (omap_insert p n bs)"
  using assms
proof (induction bs arbitrary: lo)
  case (Cons b bs)
  obtain q k where b: "b = (q, k)" by (cases b)
  show ?case
  proof (cases "p < q")
    case True
    with Cons.prems show ?thesis by (auto simp: b word_less_nat_alt)
  next
    case False
    with Cons.prems have le: "unat q + unat k \<le> unat p" and k: "0 < unat k"
      by (auto simp: b word_less_nat_alt)
    then have "p \<noteq> q" by auto
    with False le k show ?thesis
      using Cons.prems Cons.IH [of "unat q + unat k"] by (simp add: b)
  qed
qed simp

lemma blocks_ok_erase: "blocks_ok lo hi bs \<Longrightarrow> blocks_ok lo hi (omap_erase p bs)"
proof (induction bs arbitrary: lo)
  case (Cons b bs)
  then show ?case by (cases b) (auto intro: blocks_ok_mono)
qed simp

lemma unat_add_le: "unat (a :: u32) + unat b \<le> hi \<Longrightarrow> hi < 2 ^ 32 \<Longrightarrow> unat (a + b) = unat a + unat b"
  by (simp add: unat_word_ariths)

text \<open>
  The loop invariant: an early exit is the first gap at or after \<open>off\<close>; otherwise the loop ends
  behind the last block and no gap before it is wide enough.
\<close>

lemma sm_scan_first:
  assumes "blocks_ok (unat off) hi bs" and "hi < 2 ^ 32" and "size' \<noteq> 0"
  shows "case sm_scan size' bs off 0 of
      Inl x \<Rightarrow> unat off \<le> unat x \<and> sm_fits bs (unat size') (unat x) \<and> unat x + unat size' \<le> hi
        \<and> (\<forall>y. unat off \<le> y \<longrightarrow> sm_fits bs (unat size') y \<longrightarrow> unat x \<le> y)
    | Inr (e, s) \<Rightarrow> s = 0 \<and> unat off \<le> unat e \<and> unat e \<le> hi \<and> sm_fits bs (unat size') (unat e)
        \<and> (\<forall>y. unat off \<le> y \<longrightarrow> sm_fits bs (unat size') y \<longrightarrow> unat e \<le> y)"
  using assms(1)
proof (induction bs arbitrary: off)
  case (Cons b bs)
  obtain p n where b: "b = (p, n)" by (cases b)
  from Cons.prems have lo: "unat off \<le> unat p" and n: "0 < unat n"
    and r: "blocks_ok (unat p + unat n) hi bs" by (simp_all add: b)
  have pn: "unat (p + n) = unat p + unat n"
    using blocks_ok_bounds [OF r] assms(2) by (rule unat_add_le)
  have sz: "0 < unat size'" using assms(3) by (simp add: unat_gt_0)
  have po: "unat (p - off) = unat p - unat off"
    using lo by (simp add: unat_sub word_le_nat_alt)
  show ?case
  proof (cases "off < p \<and> size' \<le> p - off")
    case True
    then have gap: "unat off + unat size' \<le> unat p"
      using lo by (simp add: word_le_nat_alt word_less_nat_alt po, linarith)
    have "sm_fits bs (unat size') (unat off)"
      using blocks_ok_fits [OF r] gap by simp
    then show ?thesis
      using True gap blocks_ok_bounds [OF r] by (simp add: b Let_def)
  next
    case False
    have scan: "sm_scan size' (b # bs) off 0 = sm_scan size' bs (p + n) 0"
      using False sz by (auto simp: b Let_def)
    have nogap: "\<not> unat off + unat size' \<le> unat p"
      using False sz lo by (auto simp: word_le_nat_alt word_less_nat_alt po)
    have IH: "blocks_ok (unat (p + n)) hi bs" using r by (simp add: pn)
    have later: "unat p + unat n \<le> y" if "unat off \<le> y" "sm_fits (b # bs) (unat size') y" for y
      using that nogap by (simp add: b)
    from Cons.IH [OF IH] have step:
      "case sm_scan size' bs (p + n) 0 of
        Inl x \<Rightarrow> unat p + unat n \<le> unat x \<and> sm_fits bs (unat size') (unat x) \<and> unat x + unat size' \<le> hi
          \<and> (\<forall>y. unat p + unat n \<le> y \<longrightarrow> sm_fits bs (unat size') y \<longrightarrow> unat x \<le> y)
      | Inr (e, s) \<Rightarrow> s = 0 \<and> unat p + unat n \<le> unat e \<and> unat e \<le> hi \<and> sm_fits bs (unat size') (unat e)
          \<and> (\<forall>y. unat p + unat n \<le> y \<longrightarrow> sm_fits bs (unat size') y \<longrightarrow> unat e \<le> y)"
      by (simp only: pn)
    have fits: "sm_fits (b # bs) (unat size') y = sm_fits bs (unat size') y"
      if "unat p + unat n \<le> y" for y
      using that by (simp add: b)
    have mono: "unat off \<le> y" if "unat p + unat n \<le> y" for y using that lo by linarith
    have tail: "sm_fits bs (unat size') y" if "sm_fits (b # bs) (unat size') y" for y
      using that by simp
    show ?thesis
    proof (cases "sm_scan size' bs (p + n) 0")
      case (Inl x)
      with step have x: "unat p + unat n \<le> unat x" "sm_fits bs (unat size') (unat x)"
        "unat x + unat size' \<le> hi"
        "\<And>y. unat p + unat n \<le> y \<Longrightarrow> sm_fits bs (unat size') y \<Longrightarrow> unat x \<le> y" by simp_all
      have "unat x \<le> y" if "unat off \<le> y" "sm_fits (b # bs) (unat size') y" for y
        using x(4) [OF later [OF that] tail [OF that(2)]] .
      then show ?thesis
        unfolding scan using mono [OF x(1)] fits [OF x(1)] x(2,3) by (simp only: Inl sum.case) blast
    next
      case (Inr es)
      obtain e s where es: "es = (e, s)" by (cases es)
      with step Inr have e: "s = 0" "unat p + unat n \<le> unat e" "unat e \<le> hi"
        "sm_fits bs (unat size') (unat e)"
        "\<And>y. unat p + unat n \<le> y \<Longrightarrow> sm_fits bs (unat size') y \<Longrightarrow> unat e \<le> y" by simp_all
      have "unat e \<le> y" if "unat off \<le> y" "sm_fits (b # bs) (unat size') y" for y
        using e(5) [OF later [OF that] tail [OF that(2)]] .
      then show ?thesis
        unfolding scan using mono [OF e(2)] fits [OF e(2)] e(1,3,4)
        by (simp only: Inr es sum.case prod.case) blast
    qed
  qed
qed simp

lemma sm_getOffset_first_fit:
  assumes "sm_inv m" and "size' \<noteq> 0"
  shows "case sm_getOffset size' m of
      Some x \<Rightarrow> sm_fits (sm_mallocs m) (unat size') (unat x)
        \<and> unat x + unat size' \<le> unat (sm_lockedSize m)
        \<and> (\<forall>y. sm_fits (sm_mallocs m) (unat size') y \<longrightarrow> unat x \<le> y)
    | None \<Rightarrow> \<forall>y. sm_fits (sm_mallocs m) (unat size') y \<longrightarrow> unat (sm_lockedSize m) < y + unat size'"
proof -
  have ok: "blocks_ok (unat (0 :: u32)) (unat (sm_lockedSize m)) (sm_mallocs m)"
    using assms(1) by (simp add: sm_inv_def)
  note scan = sm_scan_first [OF ok unat_u32_less assms(2)]
  show ?thesis
  proof (cases "sm_scan size' (sm_mallocs m) 0 0")
    case (Inl x)
    with scan show ?thesis by (simp add: sm_getOffset_def)
  next
    case (Inr es)
    obtain e s where es: "es = (e, s)" by (cases es)
    from scan have e: "s = 0" "unat e \<le> unat (sm_lockedSize m)"
        "sm_fits (sm_mallocs m) (unat size') (unat e)"
        "\<And>y. sm_fits (sm_mallocs m) (unat size') y \<Longrightarrow> unat e \<le> y"
      by (simp_all add: Inr es)
    have d: "unat (sm_lockedSize m - e) = unat (sm_lockedSize m) - unat e"
      using e(2) by (simp add: unat_sub word_le_nat_alt)
    have sz: "0 < unat size'" using assms(2) by (simp add: unat_gt_0)
    have iff: "sm_lockedSize m - e \<noteq> 0 \<and> size' \<le> sm_lockedSize m - e
        \<longleftrightarrow> unat e + unat size' \<le> unat (sm_lockedSize m)"
      using sz e(2) by (auto simp: word_le_nat_alt d simp flip: unat_eq_0)
    show ?thesis
    proof (cases "unat e + unat size' \<le> unat (sm_lockedSize m)")
      case True
      with iff e show ?thesis by (simp add: sm_getOffset_def Inr es)
    next
      case False
      with iff have "sm_getOffset size' m = None" by (auto simp: sm_getOffset_def Inr es e(1))
      moreover have "unat (sm_lockedSize m) < y + unat size'"
        if "sm_fits (sm_mallocs m) (unat size') y" for y
        using e(4) [OF that] False by linarith
      ultimately show ?thesis by simp
    qed
  qed
qed

section \<open>Every operation keeps the blocks apart\<close>

lemma sm_setup_inv:
  assumes "sm_setup pageSize limit mlock fresh size' None = Some (r, Some m)"
  shows "sm_inv m"
proof -
  define sz where "sz = (if size' = 0 then ucast limit else size')"
  define k where "k = length (takeWhile mlock [0..<unat (sz div pageSize)])"
  have "k \<le> unat (sz div pageSize)"
    using length_takeWhile_le [of mlock "[0..<unat (sz div pageSize)]"] by (simp add: k_def)
  also have "\<dots> = unat sz div unat pageSize" by (rule unat_div)
  finally have "k * unat pageSize \<le> unat sz div unat pageSize * unat pageSize"
    by (rule mult_le_mono1)
  also have "\<dots> \<le> unat sz" by simp
  finally have le: "k * unat pageSize \<le> unat sz" .
  have "(of_nat k :: u32) * pageSize = of_nat (k * unat pageSize)" by simp
  then have "unat ((of_nat k :: u32) * pageSize) = k * unat pageSize"
    using le unat_u32_less [of sz] by (metis order_le_less_trans unat_of_nat_u32)
  then have inv: "sm_inv (sm_new\<lparr>sm_data := Some (map fresh [0..<unat sz]), sm_lockedSize := of_nat k * pageSize\<rparr>)"
    using le by (simp add: sm_inv_def sm_new_def)
  moreover have "sm_inv sm_new" by (simp add: sm_inv_def sm_new_def)
  ultimately show ?thesis
    using assms unfolding sm_setup_def k_def sz_def by (auto simp: Let_def split: if_splits)
qed

lemma sm_cleanup_inv: "sm_cleanup inst = (r, Some m) \<Longrightarrow> sm_inv m"
  by (auto simp: sm_cleanup_def sm_inv_def split: option.splits)

lemma sm_malloc_inv:
  assumes "sm_inv m" and "size' \<noteq> 0" and "sm_malloc size' (Some m) = (r, Some m')"
  shows "sm_inv m' \<and> sm_data m' = sm_data m \<and> sm_lockedSize m' = sm_lockedSize m"
proof (cases "sm_find size' m")
  case None
  with assms show ?thesis by (simp add: sm_malloc_def)
next
  case (Some off)
  then have "sm_getOffset size' m = Some off" by (auto simp: sm_find_def split: if_splits)
  with sm_getOffset_first_fit [OF assms(1,2)] have
    "sm_fits (sm_mallocs m) (unat size') (unat off)"
    "unat off + unat size' \<le> unat (sm_lockedSize m)" by simp_all
  moreover from assms(3) Some have "m' = sm_store off size' m" by (simp add: sm_malloc_def)
  ultimately show ?thesis
    using assms(1,2) by (simp add: sm_store_def sm_inv_def unat_gt_0 blocks_ok_insert split: option.splits)
qed

text \<open>
  What \<^verbatim>\<open>free\<close> does to a handed-out block: the block is wiped, every other byte and
  block stays, and the address is free again.
\<close>

lemma sm_free_block:
  assumes "sm_inv m" and "map_of (sm_mallocs m) p = Some n"
  obtains d d' m' where "sm_data m = Some d" "sm_free p (Some m) = Some (True, Some m')"
    "sm_inv m'" "sm_data m' = Some d'" "length d' = length d"
    "map_of (sm_mallocs m') = (map_of (sm_mallocs m))(p := None)"
    "\<And>i. i < length d \<Longrightarrow> d' ! i = (if unat p \<le> i \<and> i < unat p + unat n then 0 else d ! i)"
proof -
  have ok: "blocks_ok 0 (unat (sm_lockedSize m)) (sm_mallocs m)"
    using assms(1) by (simp add: sm_inv_def)
  from map_of_SomeD [OF assms(2)] blocks_ok_member [OF ok]
  have b: "0 < unat n" "unat p + unat n \<le> unat (sm_lockedSize m)" by auto
  then have L: "sm_lockedSize m \<noteq> 0" by auto
  with assms(1) obtain d where d: "sm_data m = Some d" "unat (sm_lockedSize m) \<le> length d"
    by (auto simp: sm_inv_def split: option.splits)
  let ?d = "take (unat p) d @ replicate (unat n) 0 @ drop (unat p + unat n) d"
  let ?m = "m\<lparr>sm_data := Some ?d, sm_mallocs := omap_erase p (sm_mallocs m)\<rparr>"
  have len: "length ?d = length d" using b(2) d(2) by simp
  have "sm_free p (Some m) = Some (True, Some ?m)"
    using assms(2) L d b(2) by (simp add: sm_free_def)
  moreover have "sm_inv ?m"
    using blocks_ok_erase [OF ok, of p] d(2) len by (simp add: sm_inv_def)
  moreover have "?d ! i = (if unat p \<le> i \<and> i < unat p + unat n then 0 else d ! i)"
    if "i < length d" for i
    using that b(2) d(2) by (auto simp: nth_append)
  moreover have "map_of (sm_mallocs ?m) = (map_of (sm_mallocs m))(p := None)"
    using map_of_omap_erase [OF blocks_ok_sorted [OF ok]] by simp
  ultimately show thesis using that [OF d(1) _ _ _ len, of ?m] by simp
qed

text \<open>The accounting never wraps around.\<close>

lemma blocks_ok_sum:
  assumes "blocks_ok lo hi bs" and "hi < 2 ^ 32" and "unat a \<le> lo"
  shows "unat (fold (\<lambda>(_, n) s. s + n) bs a) = unat a + sum_list (map (unat \<circ> snd) bs)
     \<and> unat a + sum_list (map (unat \<circ> snd) bs) \<le> hi"
  using assms(1,3)
proof (induction bs arbitrary: lo a)
  case (Cons b bs)
  obtain p n where b: "b = (p, n)" by (cases b)
  from Cons.prems have r: "blocks_ok (unat p + unat n) hi bs" "unat a \<le> unat p" by (simp_all add: b)
  have "unat a + unat n \<le> hi" using r blocks_ok_bounds [OF r(1)] by linarith
  then have an: "unat (a + n) = unat a + unat n" using assms(2) by (rule unat_add_le)
  then have "unat (a + n) \<le> unat p + unat n" using r(2) by simp
  from Cons.IH [OF r(1) this] show ?case by (simp add: b an)
qed (use blocks_ok_bounds in force)

lemma sm_available:
  assumes "sm_inv m"
  shows "unat (sm_getLockedSizeUsed (Some m)) = sum_list (map (unat \<circ> snd) (sm_mallocs m))
    \<and> unat (sm_getLockedSizeAvailable (Some m)) + unat (sm_getLockedSizeUsed (Some m))
        = unat (sm_lockedSize m)"
proof -
  have "blocks_ok 0 (unat (sm_lockedSize m)) (sm_mallocs m)" using assms by (simp add: sm_inv_def)
  from blocks_ok_sum [OF this unat_u32_less, of 0]
  have u: "unat (sm_getLockedSizeUsed (Some m)) = sum_list (map (unat \<circ> snd) (sm_mallocs m))"
    "unat (sm_getLockedSizeUsed (Some m)) \<le> unat (sm_lockedSize m)"
    by (simp_all add: sm_getLockedSizeUsed_def)
  then show ?thesis
    by (simp add: sm_getLockedSizeAvailable_def sm_getLockedSize_def unat_sub word_le_nat_alt)
qed

section \<open>Use by the client\<close>

text \<open>One step of a client that never asks for zero bytes, and the instances it can reach.\<close>

inductive sm_step :: "secmem option \<Rightarrow> secmem option \<Rightarrow> bool" where
  start: "sm_setup ps lim mlock fresh n inst = Some (r, inst') \<Longrightarrow> sm_step inst inst'"
| tidy: "sm_cleanup inst = (r, inst') \<Longrightarrow> sm_step inst inst'"
| alloc: "size' \<noteq> 0 \<Longrightarrow> sm_malloc size' inst = (r, inst') \<Longrightarrow> sm_step inst inst'"
| release: "sm_free p inst = Some (r, inst') \<Longrightarrow> sm_step inst inst'"

inductive sm_reachable :: "secmem option \<Rightarrow> bool" where
  init: "sm_reachable None"
| step: "sm_reachable inst \<Longrightarrow> sm_step inst inst' \<Longrightarrow> sm_reachable inst'"

lemma sm_free_inv:
  assumes "sm_inv m" and "sm_free p (Some m) = Some (r, Some m')"
  shows "sm_inv m'"
proof (cases "map_of (sm_mallocs m) p")
  case None
  with assms show ?thesis by (auto simp: sm_free_def split: if_splits)
next
  case (Some n)
  from sm_free_block [OF assms(1) this] assms(2) show ?thesis by (metis option.inject prod.inject)
qed

lemma sm_step_inv:
  assumes "sm_step inst inst'" and "pred_option sm_inv inst"
  shows "pred_option sm_inv inst'"
  using assms
proof (induction rule: sm_step.induct)
  case (start ps lim mlock fresh n inst r inst')
  then show ?case
  proof (cases inst)
    case None
    with start(1) show ?thesis by (cases inst') (auto intro: sm_setup_inv)
  qed (auto simp: sm_setup_def)
next
  case (tidy inst r inst')
  then show ?case by (cases inst') (auto intro: sm_cleanup_inv)
next
  case (alloc size' inst r inst')
  show ?case
  proof (cases inst)
    case None
    with alloc show ?thesis by (auto simp: sm_malloc_def)
  next
    case (Some m)
    with alloc show ?thesis by (cases inst') (auto dest: sm_malloc_inv)
  qed
next
  case (release p inst r inst')
  show ?case
  proof (cases inst)
    case None
    with release show ?thesis by (auto simp: sm_free_def)
  next
    case (Some m)
    with release show ?thesis by (cases inst') (auto intro: sm_free_inv)
  qed
qed

lemma sm_reachable_inv: "sm_reachable inst \<Longrightarrow> pred_option sm_inv inst"
  by (induction rule: sm_reachable.induct) (auto intro: sm_step_inv)

end
