(* ===== verification/Crypto.thy ===== *)
theory Crypto
  imports Sec_Mem UBJ_Value
begin

text \<open>
  The cryptographic helpers of \<^verbatim>\<open>src/crypto\<close>: \<^verbatim>\<open>hexStr\<close>, the digest object, AES in
  counter mode and the RSA front end.  The primitives of nettle and GMP are arguments of the
  definitions; what the code relies on is stated as \<open>ctr_laws\<close>, \<open>gmp_laws\<close> and the
  hypotheses of the lemmas.
\<close>

section \<open>Hexadecimal strings\<close>

definition hex_digit :: "nat \<Rightarrow> char" where
  "hex_digit n = (if n < 10 then char_of (n + 48) else char_of (n + 87))"

definition hex_byte :: "byte \<Rightarrow> string" where
  "hex_byte b = [hex_digit (unat b div 16), hex_digit (unat b mod 16)]"

text \<open>\<^const>\<open>None\<close>: reading past the data, or a string length that wraps around.\<close>

definition hexStr :: "bytes option \<Rightarrow> u32 \<Rightarrow> string option" where
  "hexStr data size' =
     (case data of
        None \<Rightarrow> Some []
      | Some d \<Rightarrow>
          if size' = 0 then Some []
          else if length d < unat size' \<or> unat (size' * 2) < 2 * unat size' then None
          else Some (concat (map hex_byte (take (unat size') d))))"

definition hexStr_buffer :: "membuf option \<Rightarrow> string option" where
  "hexStr_buffer data = (case data of None \<Rightarrow> Some [] | Some b \<Rightarrow> hexStr (mb_data b) (mb_size b))"

lemma hex_digit_inj: "m < 16 \<Longrightarrow> n < 16 \<Longrightarrow> hex_digit m = hex_digit n \<longleftrightarrow> m = n"
  by (auto simp: hex_digit_def char_of_eq_iff take_bit_eq_mod split: if_splits)

lemma hex_byte_inj: "hex_byte a = hex_byte b \<longleftrightarrow> a = b"
proof
  assume "hex_byte a = hex_byte b"
  then have "unat a div 16 = unat b div 16" "unat a mod 16 = unat b mod 16"
    using unsigned_less [of a, where 'a = nat] unsigned_less [of b, where 'a = nat]
    by (simp_all add: hex_byte_def hex_digit_inj)
  then have "unat a = unat b" by (metis div_mult_mod_eq)
  then show "a = b" by (simp add: word_unat_eq_iff)
qed simp

lemma hex_inj: "concat (map hex_byte xs) = concat (map hex_byte ys) \<Longrightarrow> xs = ys"
proof (induction xs arbitrary: ys)
  case Nil
  then show ?case by (cases ys) (simp_all add: hex_byte_def)
next
  case (Cons x xs)
  then obtain y ys' where ys: "ys = y # ys'" by (cases ys) (simp_all add: hex_byte_def)
  from Cons.prems have "hex_byte x @ concat (map hex_byte xs) = hex_byte y @ concat (map hex_byte ys')"
    by (simp add: ys)
  then have "hex_byte x = hex_byte y" "concat (map hex_byte xs) = concat (map hex_byte ys')"
    by (simp_all add: hex_byte_def)
  with Cons.IH show ?case by (simp add: ys hex_byte_inj)
qed

lemma length_hex: "length (concat (map hex_byte xs)) = 2 * length xs"
  by (induction xs) (simp_all add: hex_byte_def)

lemma hexStr_identifies:
  assumes "mb_inv a" and "mb_inv b" and "hexStr_buffer (Some a) = Some s" and "hexStr_buffer (Some b) = Some s"
  shows "mb_bytes a = mb_bytes b \<and> length s = 2 * length (mb_bytes a)"
proof -
  have s: "s = concat (map hex_byte (mb_bytes x))" if "mb_inv x" "hexStr_buffer (Some x) = Some s" for x
    using that by (auto simp: hexStr_buffer_def hexStr_def mb_inv_def mb_bytes_def
        split: option.splits if_splits)
  from s [OF assms(1,3)] s [OF assms(2,4)] show ?thesis by (auto dest: hex_inj simp: length_hex)
qed

section \<open>Digests\<close>

datatype digest_type = DIGEST_MD5 | DIGEST_SHA256

text \<open>nettle: size of a context, its initial value, update and result.\<close>

record 'c hash =
  h_ctxSize :: "digest_type \<Rightarrow> u32"
  h_init :: "digest_type \<Rightarrow> 'c"
  h_update :: "digest_type \<Rightarrow> bytes \<Rightarrow> 'c \<Rightarrow> 'c"
  h_digest :: "digest_type \<Rightarrow> u32 \<Rightarrow> 'c \<Rightarrow> bytes \<times> 'c"

text \<open>
  \<^verbatim>\<open>m_ctx\<close>: the context, and where it lives: in locked memory (its address) or on the heap.
\<close>

record 'c digest =
  dg_type :: digest_type
  dg_ctx :: "('c \<times> u32 option) option"

definition digest_size :: "digest_type \<Rightarrow> u32" where
  "digest_size t = (case t of DIGEST_MD5 \<Rightarrow> 16 | DIGEST_SHA256 \<Rightarrow> 32)"

definition dg_new :: "'c hash \<Rightarrow> digest_type \<Rightarrow> secmem option \<Rightarrow> 'c digest \<times> secmem option" where
  "dg_new h t inst =
     (if sm_getLockedSize inst \<noteq> 0 then
        (case sm_malloc (h_ctxSize h t) inst of
           (p, inst') \<Rightarrow> (\<lparr>dg_type = t, dg_ctx = map_option (\<lambda>a. (h_init h t, Some a)) p\<rparr>, inst'))
      else (\<lparr>dg_type = t, dg_ctx = Some (h_init h t, None)\<rparr>, inst))"

text \<open>
  The destructor; \<^const>\<open>None\<close> for a context that is released to the allocator it does not
  come from (locked memory set up or torn down in between).
\<close>

definition dg_destroy :: "'c digest \<Rightarrow> secmem option \<Rightarrow> secmem option option" where
  "dg_destroy d inst =
     (case dg_ctx d of
        None \<Rightarrow> Some inst
      | Some (_, p) \<Rightarrow>
          if sm_getLockedSize inst \<noteq> 0 then
            (case p of Some a \<Rightarrow> map_option snd (sm_free a inst) | None \<Rightarrow> Some inst)
          else if p = None then Some inst else None)"

definition dg_update :: "'c hash \<Rightarrow> bytes \<Rightarrow> 'c digest \<Rightarrow> 'c digest" where
  "dg_update h data d =
     d\<lparr>dg_ctx := map_option (\<lambda>(c, p). (h_update h (dg_type d) data c, p)) (dg_ctx d)\<rparr>"

text \<open>\<^verbatim>\<open>result(digest, size)\<close>: the destination block is left alone without a context.\<close>

definition dg_result_into :: "'c hash \<Rightarrow> bytes \<Rightarrow> u32 \<Rightarrow> 'c digest \<Rightarrow> (bytes \<times> 'c digest) option" where
  "dg_result_into h dst size' d =
     (case dg_ctx d of
        None \<Rightarrow> Some (dst, d)
      | Some (c, p) \<Rightarrow>
          (case h_digest h (dg_type d) size' c of
             (out, c') \<Rightarrow>
               if length dst < length out then None
               else Some (out @ drop (length out) dst, d\<lparr>dg_ctx := Some (c', p)\<rparr>)))"

definition dg_result :: "'c hash \<Rightarrow> bool \<Rightarrow> u32 \<Rightarrow> 'c digest \<Rightarrow> (membuf option \<times> 'c digest) option" where
  "dg_result h ok size' d =
     (if dg_ctx d = None then Some (None, d)
      else do {
        buf \<leftarrow> mb_create ok None size';
        case buf of
          None \<Rightarrow> Some (None, d)
        | Some b \<Rightarrow> do {
            m \<leftarrow> mb_data b;
            (m', d') \<leftarrow> dg_result_into h m size' d;
            Some (Some (b\<lparr>mb_data := Some m'\<rparr>), d') } })"

text \<open>The static \<^verbatim>\<open>Digest::digest\<close>.\<close>

definition digest_of ::
    "'c hash \<Rightarrow> bool \<Rightarrow> bytes option \<Rightarrow> u32 \<Rightarrow> digest_type \<Rightarrow> secmem option
     \<Rightarrow> (membuf option \<times> secmem option) option" where
  "digest_of h ok data size' t inst =
     (case data of
        None \<Rightarrow> Some (None, inst)
      | Some bs \<Rightarrow>
          if size' = 0 then Some (None, inst)
          else if length bs < unat size' then None
          else do {
            let (d0, inst1) = dg_new h t inst;
            let d1 = dg_update h (take (unat size') bs) d0;
            res \<leftarrow> mb_create ok None (digest_size t);
            (res', d2) \<leftarrow>
              (case res of
                 None \<Rightarrow> Some (None, d1)
               | Some b \<Rightarrow> do {
                   m \<leftarrow> mb_data b;
                   (m', d') \<leftarrow> dg_result_into h m (mb_size b) d1;
                   Some (Some (b\<lparr>mb_data := Some m'\<rparr>), d') });
            inst2 \<leftarrow> dg_destroy d2 inst1;
            Some (res', inst2) })"

definition digest_buffer ::
    "'c hash \<Rightarrow> bool \<Rightarrow> membuf option \<Rightarrow> digest_type \<Rightarrow> secmem option
     \<Rightarrow> (membuf option \<times> secmem option) option" where
  "digest_buffer h ok buf t inst =
     (case buf of None \<Rightarrow> Some (None, inst) | Some b \<Rightarrow> digest_of h ok (mb_data b) (mb_size b) t inst)"

definition digestHexStr ::
    "'c hash \<Rightarrow> bool \<Rightarrow> bytes option \<Rightarrow> u32 \<Rightarrow> digest_type \<Rightarrow> secmem option
     \<Rightarrow> (string \<times> secmem option) option" where
  "digestHexStr h ok data size' t inst = do {
     (buf, inst') \<leftarrow> digest_of h ok data size' t inst;
     s \<leftarrow> hexStr_buffer buf;
     Some (s, inst') }"

text \<open>The digest nettle computes.\<close>

definition pure_digest :: "'c hash \<Rightarrow> digest_type \<Rightarrow> bytes \<Rightarrow> bytes" where
  "pure_digest h t bs = fst (h_digest h t (digest_size t) (h_update h t bs (h_init h t)))"

lemma digest_of_heap:
  assumes "sm_getLockedSize inst = 0" and "length bs = unat size'" and "size' \<noteq> 0"
    and "length (pure_digest h t bs) = unat (digest_size t)"
  shows "digest_of h True (Some bs) size' t inst =
    Some (Some \<lparr>mb_data = Some (pure_digest h t bs), mb_size = digest_size t\<rparr>, inst)"
  using assms
  by (auto simp: digest_of_def dg_new_def dg_update_def mb_create_zero dg_result_into_def
      dg_destroy_def pure_digest_def split: prod.splits)

text \<open>
  In locked memory: the same digest; afterwards the table of blocks is what it was and the
  context's bytes are zero.
\<close>

lemma omap_erase_insert:
  "map_of m k = None \<Longrightarrow> omap_inv m \<Longrightarrow> omap_erase k (omap_insert k v m) = m"
  by (rule omap_ext)
    (auto simp: omap_erase_inv omap_insert_inv map_of_omap_erase map_of_omap_insert fun_eq_iff)

lemma sm_fits_fresh:
  assumes "sm_inv m" and "sm_fits (sm_mallocs m) n (unat p)" and "0 < n"
  shows "map_of (sm_mallocs m) p = None"
proof (rule ccontr)
  assume "map_of (sm_mallocs m) p \<noteq> None"
  then obtain k where "(p, k) \<in> set (sm_mallocs m)" by (auto dest: map_of_SomeD)
  with assms blocks_ok_member [of 0 "unat (sm_lockedSize m)" "sm_mallocs m" p k]
  show False by (auto simp: sm_inv_def sm_fits_def)
qed

lemma digest_of_locked:
  assumes "sm_inv m" and "sm_find (h_ctxSize h t) m = Some p" and "h_ctxSize h t \<noteq> 0"
    and "length bs = unat size'" and "size' \<noteq> 0"
    and "length (pure_digest h t bs) = unat (digest_size t)"
  shows "\<exists>m'. digest_of h True (Some bs) size' t (Some m) =
      Some (Some \<lparr>mb_data = Some (pure_digest h t bs), mb_size = digest_size t\<rparr>, Some m')
    \<and> sm_inv m' \<and> sm_mallocs m' = sm_mallocs m \<and> sm_lockedSize m' = sm_lockedSize m"
proof -
  let ?n = "h_ctxSize h t" let ?m1 = "sm_store p ?n m"
  from assms(2) have g: "sm_getOffset ?n m = Some p" and L: "sm_lockedSize m \<noteq> 0"
    by (auto simp: sm_find_def split: if_splits)
  from sm_getOffset_first_fit [OF assms(1,3)] g have fits: "sm_fits (sm_mallocs m) (unat ?n) (unat p)"
    by simp
  have n0: "0 < unat ?n" using assms(3) by (simp add: unat_gt_0)
  have mal: "sm_malloc ?n (Some m) = (Some p, Some ?m1)" using assms(2) by (simp add: sm_malloc_def)
  then have inv1: "sm_inv ?m1" using sm_malloc_inv [OF assms(1,3)] by blast
  have "map_of (sm_mallocs ?m1) p = Some ?n"
    by (simp add: sm_store_def map_of_omap_insert)
  from sm_free_block [OF inv1 this] obtain d m' where
    f: "sm_data ?m1 = Some d" "sm_free p (Some ?m1) = Some (True, Some m')" "sm_inv m'" by metis
  have er: "sm_mallocs m' = omap_erase p (sm_mallocs ?m1)" "sm_lockedSize m' = sm_lockedSize m"
    using f(2) by (auto simp: sm_free_def sm_store_def split: if_splits option.splits)
  have "omap_inv (sm_mallocs m)" using assms(1) blocks_ok_sorted by (auto simp: sm_inv_def)
  then have "sm_mallocs m' = sm_mallocs m"
    using er(1) sm_fits_fresh [OF assms(1) fits n0] by (simp add: sm_store_def omap_erase_insert)
  then show ?thesis
    using assms(4-6) mal f(2,3) er(2) L
    by (auto simp: digest_of_def dg_new_def dg_update_def mb_create_zero dg_result_into_def
        dg_destroy_def pure_digest_def sm_getLockedSize_def sm_store_def split: prod.splits)
qed

text \<open>
  When locked memory is in use but exhausted, the context is null, nothing is hashed, and the
  result is a buffer of zeros: one digest for every input.
\<close>

lemma digest_of_exhausted:
  assumes "sm_lockedSize m \<noteq> 0" and "sm_find (h_ctxSize h t) m = None"
    and "length bs = unat size'" and "size' \<noteq> 0"
  shows "digest_of h True (Some bs) size' t (Some m) =
    Some (Some \<lparr>mb_data = Some (replicate (unat (digest_size t)) 0), mb_size = digest_size t\<rparr>, Some m)"
  using assms
  by (auto simp: digest_of_def dg_new_def dg_update_def mb_create_zero dg_result_into_def
      dg_destroy_def sm_getLockedSize_def sm_malloc_def)

section \<open>AES in counter mode\<close>

text \<open>
  nettle's \<^verbatim>\<open>ctr_crypt\<close> with \<^verbatim>\<open>aes_encrypt\<close>: from a key schedule, a counter block and
  the source, the output and the next counter block.
\<close>

type_synonym 'k ctr_crypt = "'k \<Rightarrow> bytes \<Rightarrow> bytes \<Rightarrow> bytes \<times> bytes"

record 'k aes =
  aes_key :: 'k
  aes_ctr :: bytes

text \<open>\<^verbatim>\<open>setKey\<close> and \<^verbatim>\<open>setCtr\<close> ignore a null buffer; both read 32 and 16 bytes.\<close>

definition aes_setKey :: "(bytes \<Rightarrow> 'k) \<Rightarrow> membuf option \<Rightarrow> 'k aes \<Rightarrow> 'k aes option" where
  "aes_setKey sched key a =
     (case key of
        None \<Rightarrow> Some a
      | Some b \<Rightarrow> do {
          d \<leftarrow> mb_data b;
          if length d < 32 then None else Some (a\<lparr>aes_key := sched (take 32 d)\<rparr>) })"

definition aes_setCtr :: "membuf option \<Rightarrow> 'k aes \<Rightarrow> 'k aes option" where
  "aes_setCtr ctr a =
     (case ctr of
        None \<Rightarrow> Some a
      | Some b \<Rightarrow> do {
          d \<leftarrow> mb_data b;
          if length d < 16 then None else Some (a\<lparr>aes_ctr := take 16 d\<rparr>) })"

text \<open>
  The loop of \<^verbatim>\<open>encrypt\<close> and \<^verbatim>\<open>decrypt\<close> (the two bodies are the same): chunks of
  1024 bytes, a callback after each that may stop it.  \<open>dst\<close> is the destination block, or
  \<^const>\<open>None\<close> when a temporary takes each chunk; \<open>done'\<close> is \<^verbatim>\<open>bytesEncrypted\<close>.
\<close>

type_synonym 'w aes_callback = "bytes \<Rightarrow> u32 \<Rightarrow> u32 \<Rightarrow> u32 \<Rightarrow> 'w \<Rightarrow> bool \<times> 'w"

definition aes_chunk :: "u32 \<Rightarrow> u32 \<Rightarrow> u32" where
  "aes_chunk size' done' = (if size' - done' < 1024 then size' - done' else 1024)"

lemma aes_chunk_less:
  assumes "done' < size'"
  shows "unat (aes_chunk size' done') = min 1024 (unat size' - unat done')"
    and "unat (done' + aes_chunk size' done') = unat done' + unat (aes_chunk size' done')"
    and "0 < unat (aes_chunk size' done')"
proof -
  from assms have d: "unat (size' - done') = unat size' - unat done'" and lt: "unat done' < unat size'"
    by (simp_all add: unat_sub word_less_nat_alt word_le_nat_alt)
  show c: "unat (aes_chunk size' done') = min 1024 (unat size' - unat done')"
    by (simp add: aes_chunk_def word_less_nat_alt d)
  with lt show "0 < unat (aes_chunk size' done')" by simp
  show "unat (done' + aes_chunk size' done') = unat done' + unat (aes_chunk size' done')"
    using c lt unat_u32_less [of size'] by (simp add: unat_word_ariths)
qed

function aes_loop ::
    "'k ctr_crypt \<Rightarrow> 'k \<Rightarrow> 'w aes_callback option \<Rightarrow> bytes \<Rightarrow> u32 \<Rightarrow> u32 \<Rightarrow> bytes \<Rightarrow> bytes option \<Rightarrow> 'w
     \<Rightarrow> (bool \<times> bytes \<times> bytes option \<times> 'w) option" where
  "aes_loop crypt k cb src size' done' ctr dst w =
     (if done' < size' then
        let n = aes_chunk size' done'
        in if length src < unat done' + unat n
              \<or> (case dst of Some d \<Rightarrow> length d < unat done' + unat n | None \<Rightarrow> False) then None
           else
             let (out, ctr') = crypt k ctr (take (unat n) (drop (unat done') src));
                 dst' = map_option (\<lambda>d. take (unat done') d @ out @ drop (unat done' + unat n) d) dst;
                 done1 = done' + n
             in case cb of
                  None \<Rightarrow> aes_loop crypt k cb src size' done1 ctr' dst' w
                | Some f \<Rightarrow>
                    (case f out n done1 size' w of
                       (True, w') \<Rightarrow> aes_loop crypt k cb src size' done1 ctr' dst' w'
                     | (False, w') \<Rightarrow> Some (False, ctr', dst', w'))
      else Some (True, ctr, dst, w))"
  by pat_completeness auto
termination
proof (relation "measure (\<lambda>(crypt, k, cb, src, size', done', ctr, dst, w). unat size' - unat done')",
    simp, goal_cases)
  case 1
  then show ?case
    using aes_chunk_less by (auto simp: word_less_nat_alt intro!: diff_less_mono2)
next
  case 2
  then show ?case
    using aes_chunk_less by (auto simp: word_less_nat_alt intro!: diff_less_mono2)
qed

declare aes_loop.simps [simp del]

definition aes_crypt ::
    "'k ctr_crypt \<Rightarrow> bool \<Rightarrow> 'w aes_callback option \<Rightarrow> bytes \<Rightarrow> bytes option \<Rightarrow> u32 \<Rightarrow> 'k aes \<Rightarrow> 'w
     \<Rightarrow> (bool \<times> 'k aes \<times> bytes option \<times> 'w) option" where
  "aes_crypt crypt ok cb src dst size' a w =
     (if dst = None \<and> \<not> ok then Some (False, a, dst, w)
      else map_option (\<lambda>(r, c, d, w'). (r, a\<lparr>aes_ctr := c\<rparr>, d, w'))
             (aes_loop crypt (aes_key a) cb src size' 0 (aes_ctr a) dst w))"

definition aes_encrypt ::
    "'k ctr_crypt \<Rightarrow> bool \<Rightarrow> 'w aes_callback option \<Rightarrow> bytes \<Rightarrow> bytes option \<Rightarrow> u32 \<Rightarrow> 'k aes \<Rightarrow> 'w
     \<Rightarrow> (bool \<times> 'k aes \<times> bytes option \<times> 'w) option" where
  "aes_encrypt = aes_crypt"

definition aes_decrypt ::
    "'k ctr_crypt \<Rightarrow> bool \<Rightarrow> 'w aes_callback option \<Rightarrow> bytes \<Rightarrow> bytes option \<Rightarrow> u32 \<Rightarrow> 'k aes \<Rightarrow> 'w
     \<Rightarrow> (bool \<times> 'k aes \<times> bytes option \<times> 'w) option" where
  "aes_decrypt = aes_crypt"

text \<open>
  What nettle documents of counter mode: the output is as long as the source, a source may be
  given in pieces that are whole blocks except for the last, the operation is its own inverse,
  and the next counter depends on the length only.
\<close>

definition ctr_laws :: "'k ctr_crypt \<Rightarrow> bool" where
  "ctr_laws crypt \<longleftrightarrow>
     (\<forall>k c. crypt k c [] = ([], c))
     \<and> (\<forall>k c xs. length (fst (crypt k c xs)) = length xs)
     \<and> (\<forall>k c xs ys. length xs mod 16 = 0 \<longrightarrow>
          crypt k c (xs @ ys) =
            (let (a, c1) = crypt k c xs; (b, c2) = crypt k c1 ys in (a @ b, c2)))
     \<and> (\<forall>k c xs. fst (crypt k c (fst (crypt k c xs))) = xs)
     \<and> (\<forall>k c xs ys. length xs = length ys \<longrightarrow> snd (crypt k c xs) = snd (crypt k c ys))"

lemma ctr_law_split:
  "ctr_laws crypt \<Longrightarrow> length xs mod 16 = 0 \<Longrightarrow> crypt k c xs = (a, c1) \<Longrightarrow> crypt k c1 ys = (b, c2)
    \<Longrightarrow> crypt k c (xs @ ys) = (a @ b, c2)"
  by (simp add: ctr_laws_def)

lemma ctr_law_length: "ctr_laws crypt \<Longrightarrow> crypt k c xs = (a, c1) \<Longrightarrow> length a = length xs"
  unfolding ctr_laws_def by (metis fst_conv)

lemma ctr_law_Nil: "ctr_laws crypt \<Longrightarrow> crypt k c [] = ([], c)"
  by (simp add: ctr_laws_def)

lemma ctr_law_next:
  "ctr_laws crypt \<Longrightarrow> crypt k c xs = (a, c1) \<Longrightarrow> crypt k c ys = (b, c2) \<Longrightarrow> length xs = length ys \<Longrightarrow> c1 = c2"
  unfolding ctr_laws_def by (metis snd_conv)

lemma ctr_law_inverse: "ctr_laws crypt \<Longrightarrow> crypt k c xs = (a, c1) \<Longrightarrow> fst (crypt k c a) = xs"
  unfolding ctr_laws_def by (metis fst_conv)

text \<open>
  A callback that accepts every chunk while its state tracks the output so far: \<open>R acc w\<close>
  relates the output \<open>acc\<close> from the beginning on to the callback's state \<open>w\<close>.
\<close>

definition cb_keeps :: "'w aes_callback option \<Rightarrow> u32 \<Rightarrow> (bytes \<Rightarrow> 'w \<Rightarrow> bool) \<Rightarrow> bool" where
  "cb_keeps cb size' R \<longleftrightarrow>
     (\<forall>acc out n w. R acc w \<longrightarrow> length out = unat n \<longrightarrow> length acc + unat n \<le> unat size' \<longrightarrow>
        (case cb of
           None \<Rightarrow> R (acc @ out) w
         | Some f \<Rightarrow> (case f out n (of_nat (length acc + unat n)) size' w of
                      (r, w') \<Rightarrow> r \<and> R (acc @ out) w')))"

definition aes_record :: "bytes aes_callback" where
  "aes_record out n done' size' w = (True, w @ out)"

lemma cb_keeps_None: "cb_keeps None size' (\<lambda>acc w'. w' = w)"
  by (simp add: cb_keeps_def)

lemma cb_keeps_record: "cb_keeps (Some aes_record) size' (\<lambda>acc w. w = acc)"
  by (simp add: cb_keeps_def aes_record_def)

text \<open>
  The chunked loop is one call of \<^verbatim>\<open>ctr_crypt\<close> on everything that is left.
\<close>

lemma aes_loop_whole:
  assumes laws: "ctr_laws crypt" and src: "unat size' \<le> length src" and cb: "cb_keeps cb size' R"
    and "done' \<le> size'" and "done' = size' \<or> unat done' mod 16 = 0"
    and "pred_option (\<lambda>d. unat size' \<le> length d) dst"
    and "crypt k ctr (drop (unat done') (take (unat size') src)) = (out, c')"
    and "R acc w" and "length acc = unat done'"
  shows "\<exists>w'. aes_loop crypt k cb src size' done' ctr dst w =
      Some (True, c', map_option (\<lambda>d. take (unat done') d @ out @ drop (unat size') d) dst, w')
    \<and> R (acc @ out) w'"
  using assms(4-)
proof (induction "unat size' - unat done'" arbitrary: done' ctr dst w out acc rule: less_induct)
  case less
  show ?case
  proof (cases "done' < size'")
    case False
    with less.prems(1) have eq: "done' = size'" by simp
    with less.prems(4) ctr_law_Nil [OF laws] have "out = []" "c' = ctr" by auto
    then show ?thesis using less.prems(5) by (simp add: aes_loop.simps eq option.map_ident)
  next
    case True
    define n where "n = aes_chunk size' done'"
    note ch = aes_chunk_less [OF True, folded n_def]
    let ?rest = "drop (unat done') (take (unat size') src)"
    have lt: "unat done' < unat size'" using True by (simp add: word_less_nat_alt)
    have al: "unat done' mod 16 = 0" using less.prems(2) True by auto
    have nle: "unat n \<le> length ?rest" using ch(1) src by simp
    have piece: "take (unat n) (drop (unat done') src) = take (unat n) ?rest"
      using ch(1) lt by (simp add: take_drop min_def)
    obtain a c1 where a: "crypt k ctr (take (unat n) ?rest) = (a, c1)" by fastforce
    obtain b c2 where b: "crypt k c1 (drop (unat n) ?rest) = (b, c2)" by fastforce
    have la: "length a = unat n" using ctr_law_length [OF laws a] nle by simp
    have whole: "crypt k ctr ?rest = (a @ b, c2)"
    proof (cases "unat n = 1024")
      case True
      have "length (take (unat n) ?rest) mod 16 = 0" using nle by (simp add: True)
      from ctr_law_split [OF laws this a b] show ?thesis by (simp only: append_take_drop_id)
    next
      case False
      then have "drop (unat n) ?rest = []" using ch(1) by simp
      then have "take (unat n) ?rest = ?rest" "b = []" "c2 = c1"
        using b ctr_law_Nil [OF laws] by simp_all
      with a show ?thesis by simp
    qed
    with less.prems(4) have out: "out = a @ b" "c2 = c'" by simp_all
    let ?done = "done' + n"
    have d1: "unat ?done = unat done' + unat n" by (rule ch(2))
    have rest: "drop (unat n) ?rest = drop (unat ?done) (take (unat size') src)"
      by (simp add: d1 add.commute)
    have le: "?done \<le> size'" using ch(1) lt by (simp add: word_le_nat_alt d1)
    have next_al: "?done = size' \<or> unat ?done mod 16 = 0"
    proof (cases "unat n = 1024")
      case True
      then show ?thesis using al by (simp add: d1 mod_add_left_eq [symmetric] mod_simps)
    next
      case False
      then have "unat ?done = unat size'" using ch(1) lt by (simp add: d1)
      then show ?thesis by (simp add: word_unat_eq_iff)
    qed
    let ?dst = "map_option (\<lambda>d. take (unat done') d @ a @ drop (unat ?done) d) dst"
    have dst: "pred_option (\<lambda>d. unat size' \<le> length d) ?dst"
      using less.prems(3) la le lt by (cases dst) (auto simp: word_le_nat_alt d1)
    have meas: "unat size' - unat ?done < unat size' - unat done'" using ch(3) lt d1 by simp
    have acc: "length (acc @ a) = unat ?done" using less.prems(6) la d1 by simp
    have fits: "length acc + unat n \<le> unat size'"
      using le less.prems(6) by (simp add: word_le_nat_alt d1)
    have pos: "(of_nat (length acc + unat n) :: u32) = ?done"
      using less.prems(6) by simp
    note IH = less.hyps [OF meas le next_al dst b [unfolded rest out(2)] _ acc]
    have glue: "map_option (\<lambda>d. take (unat ?done) d @ b @ drop (unat size') d) ?dst
        = map_option (\<lambda>d. take (unat done') d @ out @ drop (unat size') d) dst"
      using less.prems(3) la le lt by (cases dst) (auto simp: word_le_nat_alt d1 out(1) min_def)
    have len: "\<not> length src < unat done' + unat n"
      "\<not> (case dst of Some d \<Rightarrow> length d < unat done' + unat n | None \<Rightarrow> False)"
      using src le d1 less.prems(3) by (auto simp: word_le_nat_alt split: option.splits)
    have keep: "case cb of None \<Rightarrow> R (acc @ a) w
        | Some f \<Rightarrow> (case f a n ?done size' w of (r, w') \<Rightarrow> r \<and> R (acc @ a) w')"
      using cb less.prems(5) la fits unfolding cb_keeps_def pos [symmetric] by blast
    show ?thesis
    proof (cases cb)
      case None
      with keep have "R (acc @ a) w" by simp
      from IH [OF this] show ?thesis
        by (subst aes_loop.simps)
          (use True len glue out(1) None in \<open>simp add: Let_def a piece d1 flip: n_def\<close>)
    next
      case (Some f)
      with keep obtain w1 where f: "f a n ?done size' w = (True, w1)" "R (acc @ a) w1"
        by (auto split: prod.splits)
      from IH [OF f(2)] show ?thesis
        by (subst aes_loop.simps)
          (use True len glue out(1) Some f(1) in \<open>simp add: Let_def a piece d1 flip: n_def\<close>)
    qed
  qed
qed

lemma aes_crypt_whole:
  assumes "ctr_laws crypt" and "unat size' \<le> length src" and "cb_keeps cb size' R"
    and "dst = None \<Longrightarrow> ok" and "pred_option (\<lambda>d. unat size' \<le> length d) dst"
    and "crypt (aes_key a) (aes_ctr a) (take (unat size') src) = (out, c')" and "R [] w"
  shows "\<exists>w'. aes_crypt crypt ok cb src dst size' a w =
      Some (True, a\<lparr>aes_ctr := c'\<rparr>, map_option (\<lambda>d. out @ drop (unat size') d) dst, w')
    \<and> R out w'"
  using aes_loop_whole [OF assms(1-3), of 0 dst "aes_key a" "aes_ctr a" out c' "[]" w] assms(4-)
  by (auto simp: aes_crypt_def)

text \<open>Decrypting with the counter encryption started from gives the plain text.\<close>

lemma aes_round_trip:
  assumes "ctr_laws crypt" and "length src = unat size'"
  shows "\<exists>a1 a2 c. aes_encrypt crypt True None src (Some (replicate (unat size') 0)) size' a ([] :: bytes) =
      Some (True, a1, Some c, [])
    \<and> length c = unat size'
    \<and> aes_decrypt crypt True (Some aes_record) c None size' a [] = Some (True, a2, None, src)"
proof -
  obtain c k where c: "crypt (aes_key a) (aes_ctr a) src = (c, k)" by fastforce
  have len: "length c = unat size'" using ctr_law_length [OF assms(1) c] assms(2) by simp
  obtain p k' where p: "crypt (aes_key a) (aes_ctr a) c = (p, k')" by fastforce
  have src: "p = src" using ctr_law_inverse [OF assms(1) c] p by simp
  show ?thesis
    using aes_crypt_whole [OF assms(1) _ cb_keeps_None [of _ "[]"], of size' src
        "Some (replicate (unat size') 0)" True a c k "[]"]
      aes_crypt_whole [OF assms(1) _ cb_keeps_record, of size' c None True a p k' "[]"] assms(2) len c p src
    by (intro exI [of _ "a\<lparr>aes_ctr := k\<rparr>"] exI [of _ "a\<lparr>aes_ctr := k'\<rparr>"] exI [of _ c])
      (simp add: aes_encrypt_def aes_decrypt_def)
qed

text \<open>
  Counter mode over any block cipher satisfies the laws: every block of the source is combined
  with the encrypted counter, which then counts up (big-endian, over all 16 bytes).
\<close>

fun ctr_incr_rev :: "bytes \<Rightarrow> bytes" where
  "ctr_incr_rev [] = []"
| "ctr_incr_rev (b # bs) = (if b = 255 then 0 # ctr_incr_rev bs else (b + 1) # bs)"

function ctr_mode :: "('k \<Rightarrow> bytes \<Rightarrow> bytes) \<Rightarrow> 'k ctr_crypt" where
  "ctr_mode enc k c xs =
     (if xs = [] then ([], c)
      else
        let (rest, c') = ctr_mode enc k (rev (ctr_incr_rev (rev c))) (drop 16 xs)
        in (map2 (XOR) (take 16 xs) (enc k c) @ rest, c'))"
  by pat_completeness auto
termination by (relation "measure (\<lambda>(enc, k, c, xs). length xs)") auto

declare ctr_mode.simps [simp del]

lemma ctr_mode_Nil [simp]: "ctr_mode enc k c [] = ([], c)"
  by (simp add: ctr_mode.simps)

lemma xor_map2_inverse:
  "length xs \<le> length ks \<Longrightarrow> map2 (XOR) (map2 (XOR) xs ks) ks = (xs :: bytes)"
  by (induction xs ks rule: list_induct2') (simp_all add: xor.assoc)

lemma length_ctr_mode:
  "\<forall>k c. 16 \<le> length (enc k c) \<Longrightarrow> length (fst (ctr_mode enc k c xs)) = length xs"
proof (induction enc k c xs rule: ctr_mode.induct)
  case (1 enc k c xs)
  then show ?case
    by (subst ctr_mode.simps) (auto split: prod.splits simp: min_def elim!: allE [of _ k] allE [of _ c])
qed

lemma ctr_mode_append:
  assumes "\<forall>k c. 16 \<le> length (enc k c)"
  shows "length xs mod 16 = 0 \<Longrightarrow> ctr_mode enc k c (xs @ ys) =
    (let (a, c1) = ctr_mode enc k c xs; (b, c2) = ctr_mode enc k c1 ys in (a @ b, c2))"
proof (induction "length xs" arbitrary: xs c rule: less_induct)
  case less
  show ?case
  proof (cases "xs = []")
    case False
    with less.prems have 16: "16 \<le> length xs" by (cases "length xs < 16") auto
    let ?c = "rev (ctr_incr_rev (rev c))"
    have "length (drop 16 xs) mod 16 = 0" "length (drop 16 xs) < length xs"
      using less.prems 16 le_mod_geq [of 16 "length xs"] by simp_all
    from less.hyps [OF this(2,1), of ?c]
    have "ctr_mode enc k ?c (drop 16 xs @ ys) =
        (let (a, c1) = ctr_mode enc k ?c (drop 16 xs); (b, c2) = ctr_mode enc k c1 ys in (a @ b, c2))" .
    with False 16 show ?thesis
      by (subst ctr_mode.simps, subst (2) ctr_mode.simps) (simp add: Let_def split: prod.splits)
  qed (simp add: Let_def)
qed

lemma ctr_mode_inverse:
  "\<forall>k c. 16 \<le> length (enc k c) \<Longrightarrow> fst (ctr_mode enc k c (fst (ctr_mode enc k c xs))) = xs"
proof (induction enc k c xs rule: ctr_mode.induct)
  case (1 enc k c xs)
  show ?case
  proof (cases "xs = []")
    case False
    let ?c = "rev (ctr_incr_rev (rev c))"
    obtain rest c' where r: "ctr_mode enc k ?c (drop 16 xs) = (rest, c')" by fastforce
    have len: "length rest = length xs - 16" using length_ctr_mode [OF "1.prems", of k ?c "drop 16 xs"] r by simp
    let ?a = "map2 (XOR) (take 16 xs) (enc k c)"
    have e16: "16 \<le> length (enc k c)" using "1.prems" by blast
    have la: "length ?a = min 16 (length xs)" using e16 by simp
    have out: "fst (ctr_mode enc k c xs) = ?a @ rest"
      using False r by (simp add: ctr_mode.simps [of enc k c xs])
    have "0 < length ?a" unfolding la using False by simp
    then have ne: "?a @ rest \<noteq> []" by auto
    have td: "take 16 (?a @ rest) = ?a" "drop 16 (?a @ rest) = rest"
    proof -
      consider "length ?a = 16" | "length ?a < 16" "rest = []" using la len by fastforce
      then show "take 16 (?a @ rest) = ?a" "drop 16 (?a @ rest) = rest"
        by (cases; simp del: length_map length_zip)+
    qed
    have "fst (ctr_mode enc k ?c rest) = drop 16 xs"
      using "1.IH" [OF False "1.prems"] r by simp
    moreover have "map2 (XOR) ?a (enc k c) = take 16 xs"
      using e16 by (intro xor_map2_inverse) simp
    ultimately show ?thesis
      unfolding out using ne td by (subst ctr_mode.simps) (auto simp: Let_def split: prod.splits)
  qed simp
qed

lemma ctr_mode_next:
  "length xs = length ys \<Longrightarrow> snd (ctr_mode enc k c xs) = snd (ctr_mode enc k c ys)"
proof (induction enc k c xs arbitrary: ys rule: ctr_mode.induct)
  case (1 enc k c xs)
  show ?case
  proof (cases "xs = []")
    case False
    then have "ys \<noteq> []" using "1.prems" by auto
    with "1.IH" [OF False, of "drop 16 ys"] False "1.prems" show ?thesis
      by (auto simp: ctr_mode.simps [of enc k c xs] ctr_mode.simps [of enc k c ys] split: prod.splits)
  qed (use "1.prems" in simp)
qed

lemma ctr_mode_laws: "\<forall>k c. 16 \<le> length (enc k c) \<Longrightarrow> ctr_laws (ctr_mode enc)"
  by (simp add: ctr_laws_def length_ctr_mode ctr_mode_append ctr_mode_inverse)
    (metis ctr_mode_next)

section \<open>RSA\<close>

text \<open>
  GMP numbers as the code uses them: \<^verbatim>\<open>mpz_set_str\<close> and \<^verbatim>\<open>mpz_get_str\<close> in base 16, and
  \<^verbatim>\<open>mpz_sizeinbase\<close>.
\<close>

record 'z gmp =
  z_set :: "bytes \<Rightarrow> 'z"
  z_get :: "'z \<Rightarrow> bytes"
  z_sizeinbase :: "'z \<Rightarrow> u32"

definition gmp_laws :: "'z gmp \<Rightarrow> bool" where
  "gmp_laws g \<longleftrightarrow>
     (\<forall>z. z_set g (z_get g z) = z \<and> no_nul (z_get g z) \<and> z_get g z \<noteq> []
        \<and> length (z_get g z) \<le> unat (z_sizeinbase g z) \<and> unat (z_sizeinbase g z) < 2 ^ 31)"

text \<open>The digits in a block of \<^verbatim>\<open>mpz_sizeinbase + 1\<close> bytes, NUL behind them.\<close>

definition mpz_block :: "'z gmp \<Rightarrow> 'z \<Rightarrow> bytes option" where
  "mpz_block g z =
     (let len = unat (z_sizeinbase g z + 1)
      in if len < length (z_get g z) + 1 then None
         else Some (z_get g z @ replicate (len - length (z_get g z)) 0))"

definition mpzToHexStr :: "'z gmp \<Rightarrow> 'z \<Rightarrow> string option" where
  "mpzToHexStr g z = map_option string_of_bytes (mpz_block g z)"

definition mpzFromHexStr :: "'z gmp \<Rightarrow> string \<Rightarrow> 'z" where
  "mpzFromHexStr g s = z_set g (c_str (bytes_of_string s))"

record 'z public_key =
  pub_e :: 'z
  pub_n :: 'z
  pub_size :: u64

record 'z private_key =
  prv_a :: 'z
  prv_b :: 'z
  prv_c :: 'z
  prv_d :: 'z
  prv_p :: 'z
  prv_q :: 'z
  prv_size :: u64

definition obj_put_mpz ::
    "'z gmp \<Rightarrow> string \<Rightarrow> 'z \<Rightarrow> (string \<times> val) list \<Rightarrow> (string \<times> val) list option" where
  "obj_put_mpz g k z o' = do {
     s \<leftarrow> mpzToHexStr g z;
     v \<leftarrow> val_of_string s;
     Some (obj_setField k v o') }"

definition obj_get_mpz ::
    "(ubj_type \<Rightarrow> bytes \<Rightarrow> string) \<Rightarrow> 'z gmp \<Rightarrow> string \<Rightarrow> (string \<times> val) list \<Rightarrow> 'z option" where
  "obj_get_mpz fmt g k o' = map_option (mpzFromHexStr g) (val_toStr fmt (obj_get o' k))"

definition publicKeyToUbj :: "'z gmp \<Rightarrow> 'z public_key \<Rightarrow> (string \<times> val) list option" where
  "publicKeyToUbj g k = do {
     o1 \<leftarrow> obj_put_mpz g ''e'' (pub_e k) [];
     o2 \<leftarrow> obj_put_mpz g ''n'' (pub_n k) o1;
     Some (obj_setField ''s'' (val_int64 (pub_size k)) o2) }"

definition privateKeyToUbj :: "'z gmp \<Rightarrow> 'z private_key \<Rightarrow> (string \<times> val) list option" where
  "privateKeyToUbj g k = do {
     o1 \<leftarrow> obj_put_mpz g ''a'' (prv_a k) [];
     o2 \<leftarrow> obj_put_mpz g ''b'' (prv_b k) o1;
     o3 \<leftarrow> obj_put_mpz g ''c'' (prv_c k) o2;
     o4 \<leftarrow> obj_put_mpz g ''d'' (prv_d k) o3;
     o5 \<leftarrow> obj_put_mpz g ''p'' (prv_p k) o4;
     o6 \<leftarrow> obj_put_mpz g ''q'' (prv_q k) o5;
     Some (obj_setField ''s'' (val_int64 (prv_size k)) o6) }"

definition ubjToPublicKey ::
    "(ubj_type \<Rightarrow> bytes \<Rightarrow> string) \<Rightarrow> 'z gmp \<Rightarrow> (string \<times> val) list \<Rightarrow> 'z public_key option" where
  "ubjToPublicKey fmt g o' = do {
     e \<leftarrow> obj_get_mpz fmt g ''e'' o';
     n \<leftarrow> obj_get_mpz fmt g ''n'' o';
     s \<leftarrow> val_toLong (obj_get o' ''s'');
     Some \<lparr>pub_e = e, pub_n = n, pub_size = s\<rparr> }"

definition ubjToPrivateKey ::
    "(ubj_type \<Rightarrow> bytes \<Rightarrow> string) \<Rightarrow> 'z gmp \<Rightarrow> (string \<times> val) list \<Rightarrow> 'z private_key option" where
  "ubjToPrivateKey fmt g o' = do {
     a \<leftarrow> obj_get_mpz fmt g ''a'' o';
     b \<leftarrow> obj_get_mpz fmt g ''b'' o';
     c \<leftarrow> obj_get_mpz fmt g ''c'' o';
     d \<leftarrow> obj_get_mpz fmt g ''d'' o';
     p \<leftarrow> obj_get_mpz fmt g ''p'' o';
     q \<leftarrow> obj_get_mpz fmt g ''q'' o';
     s \<leftarrow> val_toLong (obj_get o' ''s'');
     Some \<lparr>prv_a = a, prv_b = b, prv_c = c, prv_d = d, prv_p = p, prv_q = q, prv_size = s\<rparr> }"

text \<open>
  nettle's RSA: encryption and signing give a number or fail, decryption a message that fits
  into the length passed in; random numbers are part of the functions.
\<close>

record 'z rsa =
  rsa_generate :: "u32 \<Rightarrow> ('z public_key \<times> 'z private_key) option"
  rsa_enc :: "'z public_key \<Rightarrow> bytes \<Rightarrow> 'z option"
  rsa_dec :: "'z private_key \<Rightarrow> nat \<Rightarrow> 'z \<Rightarrow> bytes option"
  rsa_sign_sha256 :: "'z private_key \<Rightarrow> bytes \<Rightarrow> 'z option"
  rsa_verify_sha256 :: "'z public_key \<Rightarrow> bytes \<Rightarrow> 'z \<Rightarrow> bool"

definition rsa_createKeyPair ::
    "'z gmp \<Rightarrow> 'z rsa \<Rightarrow> u32 \<Rightarrow> ((string \<times> val) list \<times> (string \<times> val) list) option option" where
  "rsa_createKeyPair g r bits =
     (case rsa_generate r bits of
        None \<Rightarrow> Some None
      | Some (pub, prv) \<Rightarrow> do {
          o1 \<leftarrow> publicKeyToUbj g pub;
          o2 \<leftarrow> privateKeyToUbj g prv;
          Some (Some (o1, o2)) })"

definition mpz_buffer :: "'z gmp \<Rightarrow> bool \<Rightarrow> 'z \<Rightarrow> membuf option option" where
  "mpz_buffer g ok z =
     (if \<not> ok then Some None
      else do { d \<leftarrow> mpz_block g z;
                Some (Some \<lparr>mb_data = Some d, mb_size = z_sizeinbase g z + 1\<rparr>) })"

definition rsa_encrypt ::
    "(ubj_type \<Rightarrow> bytes \<Rightarrow> string) \<Rightarrow> 'z gmp \<Rightarrow> 'z rsa \<Rightarrow> bool \<Rightarrow> (string \<times> val) list \<Rightarrow> membuf option
     \<Rightarrow> membuf option option" where
  "rsa_encrypt fmt g r ok key buf = do {
     pub \<leftarrow> ubjToPublicKey fmt g key;
     b \<leftarrow> buf;
     case rsa_enc r pub (mb_bytes b) of
       None \<Rightarrow> Some None
     | Some z \<Rightarrow> mpz_buffer g ok z }"

text \<open>\<^verbatim>\<open>mpz_set_str\<close> on the data of a buffer reads up to a NUL inside it.\<close>

definition mpz_of_buffer :: "'z gmp \<Rightarrow> membuf option \<Rightarrow> 'z option" where
  "mpz_of_buffer g buf = do {
     b \<leftarrow> buf;
     if no_nul (mb_bytes b) then None else Some (z_set g (c_str (mb_bytes b))) }"

definition rsa_decrypt ::
    "(ubj_type \<Rightarrow> bytes \<Rightarrow> string) \<Rightarrow> 'z gmp \<Rightarrow> 'z rsa \<Rightarrow> bool \<Rightarrow> (string \<times> val) list \<Rightarrow> membuf option
     \<Rightarrow> membuf option option" where
  "rsa_decrypt fmt g r ok key buf = do {
     prv \<leftarrow> ubjToPrivateKey fmt g key;
     z \<leftarrow> mpz_of_buffer g buf;
     if \<not> ok then None
     else case rsa_dec r prv 2048 z of
         None \<Rightarrow> Some None
       | Some m \<Rightarrow> mb_create ok (Some m) (of_nat (length m)) }"

definition rsa_sign ::
    "(ubj_type \<Rightarrow> bytes \<Rightarrow> string) \<Rightarrow> 'z gmp \<Rightarrow> 'z rsa \<Rightarrow> 'c hash \<Rightarrow> bool \<Rightarrow> (string \<times> val) list
     \<Rightarrow> membuf option \<Rightarrow> secmem option \<Rightarrow> (membuf option \<times> secmem option) option" where
  "rsa_sign fmt g r h ok key buf inst = do {
     prv \<leftarrow> ubjToPrivateKey fmt g key;
     (dig, inst') \<leftarrow> digest_buffer h ok buf DIGEST_SHA256 inst;
     d \<leftarrow> dig;
     case rsa_sign_sha256 r prv (mb_bytes d) of
       None \<Rightarrow> Some (None, inst')
     | Some z \<Rightarrow> map_option (\<lambda>s. (s, inst')) (mpz_buffer g ok z) }"

definition rsa_verify ::
    "(ubj_type \<Rightarrow> bytes \<Rightarrow> string) \<Rightarrow> 'z gmp \<Rightarrow> 'z rsa \<Rightarrow> 'c hash \<Rightarrow> bool \<Rightarrow> (string \<times> val) list
     \<Rightarrow> membuf option \<Rightarrow> membuf option \<Rightarrow> secmem option \<Rightarrow> (bool \<times> secmem option) option" where
  "rsa_verify fmt g r h ok key buf sign inst = do {
     pub \<leftarrow> ubjToPublicKey fmt g key;
     (dig, inst') \<leftarrow> digest_buffer h ok buf DIGEST_SHA256 inst;
     z \<leftarrow> mpz_of_buffer g sign;
     d \<leftarrow> dig;
     Some (rsa_verify_sha256 r pub (mb_bytes d) z, inst') }"

lemma mpz_block_ok:
  assumes "gmp_laws g"
  obtains d where "mpz_block g z = Some d" "c_str d = z_get g z" "d \<noteq> []" "\<not> no_nul d"
    "length d = unat (z_sizeinbase g z + 1)"
proof -
  from assms have g: "no_nul (z_get g z)" "length (z_get g z) \<le> unat (z_sizeinbase g z)"
      "unat (z_sizeinbase g z) < 2 ^ 31" by (auto simp: gmp_laws_def)
  then have u: "unat (z_sizeinbase g z + 1) = unat (z_sizeinbase g z) + 1"
    by (simp add: unat_word_ariths)
  let ?n = "unat (z_sizeinbase g z) + 1 - length (z_get g z)"
  have n: "?n = Suc (?n - 1)" using g(2) by simp
  have r: "replicate ?n (0 :: byte) = 0 # replicate (?n - 1) 0"
    by (subst n, subst replicate_Suc) simp
  let ?d = "z_get g z @ replicate ?n 0"
  have "c_str ?d = z_get g z"
    unfolding r using g(1) by (simp add: c_str_def no_nul_def list_all_iff takeWhile_append)
  moreover have "\<not> no_nul ?d" unfolding r by (simp add: no_nul_def)
  ultimately show thesis
    using that [of ?d] g(2) by (simp add: mpz_block_def u no_nul_def)
qed

lemma obj_put_mpz_ok:
  assumes "gmp_laws g"
  obtains v where "\<And>k o'. obj_put_mpz g k z o' = Some (obj_setField k v o')"
    "\<And>fmt. map_option (mpzFromHexStr g) (val_toStr fmt v) = Some z"
proof -
  from mpz_block_ok [OF assms, of z] obtain d where d: "mpz_block g z = Some d"
    "c_str d = z_get g z" "d \<noteq> []" "length d = unat (z_sizeinbase g z + 1)" by blast
  have len: "length d < 2 ^ 32" unfolding d(4) by (rule unat_u32_less)
  have ne: "(of_nat (length d) :: u32) \<noteq> 0"
    using d(3) len by (metis length_0_conv unat_0 unat_of_nat_u32)
  have v: "val_of_string (string_of_bytes d) = Some (Val UBJ_STRING (Some d) None None)"
    using len ne by (simp add: val_of_string_def set_string_def word_gt_0 val_null_def)
  have "z_set g (c_str d) = z" using assms d(2) by (simp add: gmp_laws_def)
  then show thesis
    using that [of "Val UBJ_STRING (Some d) None None"] v d(1)
    by (simp add: obj_put_mpz_def mpzToHexStr_def val_toStr_def mpzFromHexStr_def)
qed

lemma publicKey_round_trip:
  assumes "gmp_laws g"
  shows "\<exists>o'. publicKeyToUbj g k = Some o' \<and> ubjToPublicKey fmt g o' = Some k"
proof -
  from obj_put_mpz_ok [OF assms, of "pub_e k"] obtain e where
    e: "\<And>k' o'. obj_put_mpz g k' (pub_e k) o' = Some (obj_setField k' e o')"
      "\<And>fmt. map_option (mpzFromHexStr g) (val_toStr fmt e) = Some (pub_e k)" by blast
  from obj_put_mpz_ok [OF assms, of "pub_n k"] obtain n where
    n: "\<And>k' o'. obj_put_mpz g k' (pub_n k) o' = Some (obj_setField k' n o')"
      "\<And>fmt. map_option (mpzFromHexStr g) (val_toStr fmt n) = Some (pub_n k)" by blast
  show ?thesis
    by (simp add: publicKeyToUbj_def ubjToPublicKey_def obj_get_mpz_def obj_setField_def obj_get_def
        map_of_omap_insert e n val_toLong_def val_int64_def)
qed

lemma privateKey_round_trip:
  assumes "gmp_laws g"
  shows "\<exists>o'. privateKeyToUbj g k = Some o' \<and> ubjToPrivateKey fmt g o' = Some k"
proof -
  have ex: "\<exists>v. (\<forall>k' o'. obj_put_mpz g k' z o' = Some (obj_setField k' v o'))
      \<and> map_option (mpzFromHexStr g) (val_toStr fmt v) = Some z" for z
    using obj_put_mpz_ok [OF assms, of z] by metis
  from ex [of "prv_a k"] obtain a where
    a: "\<And>k' o'. obj_put_mpz g k' (prv_a k) o' = Some (obj_setField k' a o')"
      "map_option (mpzFromHexStr g) (val_toStr fmt a) = Some (prv_a k)" by blast
  from ex [of "prv_b k"] obtain b where
    b: "\<And>k' o'. obj_put_mpz g k' (prv_b k) o' = Some (obj_setField k' b o')"
      "map_option (mpzFromHexStr g) (val_toStr fmt b) = Some (prv_b k)" by blast
  from ex [of "prv_c k"] obtain c where
    c: "\<And>k' o'. obj_put_mpz g k' (prv_c k) o' = Some (obj_setField k' c o')"
      "map_option (mpzFromHexStr g) (val_toStr fmt c) = Some (prv_c k)" by blast
  from ex [of "prv_d k"] obtain d where
    d: "\<And>k' o'. obj_put_mpz g k' (prv_d k) o' = Some (obj_setField k' d o')"
      "map_option (mpzFromHexStr g) (val_toStr fmt d) = Some (prv_d k)" by blast
  from ex [of "prv_p k"] obtain p where
    p: "\<And>k' o'. obj_put_mpz g k' (prv_p k) o' = Some (obj_setField k' p o')"
      "map_option (mpzFromHexStr g) (val_toStr fmt p) = Some (prv_p k)" by blast
  from ex [of "prv_q k"] obtain q where
    q: "\<And>k' o'. obj_put_mpz g k' (prv_q k) o' = Some (obj_setField k' q o')"
      "map_option (mpzFromHexStr g) (val_toStr fmt q) = Some (prv_q k)" by blast
  show ?thesis
    by (simp add: privateKeyToUbj_def ubjToPrivateKey_def obj_get_mpz_def obj_setField_def
        obj_get_def map_of_omap_insert a b c d p q val_toLong_def val_int64_def)
qed

lemma mpz_buffer_ok:
  assumes "gmp_laws g"
  obtains b where "mpz_buffer g True z = Some (Some b)" "mb_inv b" "mpz_of_buffer g (Some b) = Some z"
proof -
  from mpz_block_ok [OF assms, of z] obtain d where d: "mpz_block g z = Some d"
    "c_str d = z_get g z" "\<not> no_nul d" "length d = unat (z_sizeinbase g z + 1)" by blast
  have "z_set g (c_str d) = z" using assms d(2) by (simp add: gmp_laws_def)
  then show thesis
    using that [of "\<lparr>mb_data = Some d, mb_size = z_sizeinbase g z + 1\<rparr>"] d
    by (simp add: mpz_buffer_def mb_inv_def mpz_of_buffer_def mb_bytes_def)
qed

text \<open>
  What nettle documents of a generated key pair: decryption inverts encryption, messages fit
  into 2048 bytes, and a signature verifies.
\<close>

definition rsa_laws :: "'z rsa \<Rightarrow> bool" where
  "rsa_laws r \<longleftrightarrow>
     (\<forall>bits pub prv. rsa_generate r bits = Some (pub, prv) \<longrightarrow>
        (\<forall>m z. rsa_enc r pub m = Some z \<longrightarrow> length m \<le> 2048 \<and> rsa_dec r prv 2048 z = Some m)
        \<and> (\<forall>d z. rsa_sign_sha256 r prv d = Some z \<longrightarrow> rsa_verify_sha256 r pub d z))"

lemma rsa_encrypt_decrypt:
  assumes "gmp_laws g" and "rsa_laws r" and "rsa_generate r bits = Some (pub, prv)"
    and "mb_inv buf" and "rsa_enc r pub (mb_bytes buf) = Some z"
  shows "\<exists>opub oprv cbuf. rsa_createKeyPair g r bits = Some (Some (opub, oprv))
     \<and> rsa_encrypt fmt g r True opub (Some buf) = Some (Some cbuf)
     \<and> rsa_decrypt fmt g r True oprv (Some cbuf)
         = Some (Some \<lparr>mb_data = Some (mb_bytes buf), mb_size = mb_size buf\<rparr>)"
proof -
  from publicKey_round_trip [OF assms(1)] obtain opub where
    pub: "publicKeyToUbj g pub = Some opub" "ubjToPublicKey fmt g opub = Some pub" by blast
  from privateKey_round_trip [OF assms(1)] obtain oprv where
    prv: "privateKeyToUbj g prv = Some oprv" "ubjToPrivateKey fmt g oprv = Some prv" by blast
  from mpz_buffer_ok [OF assms(1), of z] obtain cbuf where
    c: "mpz_buffer g True z = Some (Some cbuf)" "mpz_of_buffer g (Some cbuf) = Some z" by blast
  from assms(2,3,5) have dec: "rsa_dec r prv 2048 z = Some (mb_bytes buf)"
    by (auto simp: rsa_laws_def)
  have "of_nat (length (mb_bytes buf)) = mb_size buf" using mb_inv_length [OF assms(4)] by simp
  moreover have "mb_create True (Some (mb_bytes buf)) (mb_size buf)
      = Some (Some \<lparr>mb_data = Some (mb_bytes buf), mb_size = mb_size buf\<rparr>)"
    using mb_inv_length [OF assms(4)] by (rule mb_create_data)
  ultimately show ?thesis
    using assms(3,5) pub prv c dec
    by (simp add: rsa_createKeyPair_def rsa_encrypt_def rsa_decrypt_def)
qed

lemma rsa_sign_verify:
  assumes "gmp_laws g" and "rsa_laws r" and "rsa_generate r bits = Some (pub, prv)"
    and "digest_buffer h True (Some buf) DIGEST_SHA256 inst = Some (Some dig, inst1)"
    and "digest_buffer h True (Some buf) DIGEST_SHA256 inst1 = Some (Some dig, inst2)"
    and "rsa_sign_sha256 r prv (mb_bytes dig) = Some z"
  shows "\<exists>opub oprv sign. rsa_createKeyPair g r bits = Some (Some (opub, oprv))
     \<and> rsa_sign fmt g r h True oprv (Some buf) inst = Some (Some sign, inst1)
     \<and> rsa_verify fmt g r h True opub (Some buf) (Some sign) inst1 = Some (True, inst2)"
proof -
  from publicKey_round_trip [OF assms(1)] obtain opub where
    pub: "publicKeyToUbj g pub = Some opub" "ubjToPublicKey fmt g opub = Some pub" by blast
  from privateKey_round_trip [OF assms(1)] obtain oprv where
    prv: "privateKeyToUbj g prv = Some oprv" "ubjToPrivateKey fmt g oprv = Some prv" by blast
  from mpz_buffer_ok [OF assms(1), of z] obtain cbuf where
    c: "mpz_buffer g True z = Some (Some cbuf)" "mpz_of_buffer g (Some cbuf) = Some z" by blast
  from assms(2,3,6) have "rsa_verify_sha256 r pub (mb_bytes dig) z" by (auto simp: rsa_laws_def)
  with assms(3-6) pub prv c show ?thesis
    by (simp add: rsa_createKeyPair_def rsa_sign_def rsa_verify_def)
qed

end
