(* ===== verification/Store_DB.thy ===== *)
theory Store_DB
  imports Store_SQL Crypto
begin

text \<open>
  The actions of \<^verbatim>\<open>ubj/store/action/\<close> and the table operations of \<^verbatim>\<open>ubj/store/store.cpp\<close>.
  sqlite is the argument \<open>sq\<close> of the definitions, over its own database type \<open>'db\<close>: whether a text
  prepares, what running it with bindings yields, and the incremental blob calls.  An action runs
  on the handler's thread while its caller waits, so each is one step on the database.
\<close>

record sql_outcome =
  so_rows :: "(string \<times> sql_val) list list"
  so_done :: bool
  so_rowid :: u64
  so_changes :: u32

record 'db sqlite =
  sq_prepare :: "string \<Rightarrow> 'db \<Rightarrow> bool"
  sq_exec :: "string \<Rightarrow> (nat \<times> sql_val) list \<Rightarrow> 'db \<Rightarrow> sql_outcome \<times> 'db"
  sq_blob_open :: "string \<Rightarrow> u64 \<Rightarrow> bool \<Rightarrow> 'db \<Rightarrow> bool"
  sq_blob_read :: "string \<Rightarrow> u64 \<Rightarrow> nat \<Rightarrow> nat \<Rightarrow> 'db \<Rightarrow> bytes option"
  sq_blob_write :: "string \<Rightarrow> u64 \<Rightarrow> bytes \<Rightarrow> nat \<Rightarrow> 'db \<Rightarrow> 'db option"

text \<open>
  \<^verbatim>\<open>prepareStmt\<close> with \<^verbatim>\<open>bindUbjToStmt\<close>, then running the statement: \<^const>\<open>None\<close> when it
  cannot be prepared.
\<close>

definition act_run ::
    "'db sqlite \<Rightarrow> bool \<Rightarrow> sql_part \<Rightarrow> 'db \<Rightarrow> (sql_outcome option \<times> 'db) option" where
  "act_run sq vtab part db =
     (if \<not> sq_prepare sq (fst part) db then Some (None, db)
      else do {
        binds \<leftarrow> bindUbjToStmt vtab (snd part);
        let (out, db') = sq_exec sq (fst part) binds db;
        Some (Some out, db') })"

text \<open>
  The \<^verbatim>\<open>execute\<close> of the actions: what the callback gets (\<^const>\<open>None\<close> for an error) and the
  database.  \<^verbatim>\<open>step\<close> answers ROW before DONE.
\<close>

definition query_execute ::
    "'db sqlite \<Rightarrow> bool \<Rightarrow> sql_part \<Rightarrow> 'db \<Rightarrow> ((string \<times> sql_val) list list option \<times> 'db) option" where
  "query_execute sq vtab part db = do {
     (out, db') \<leftarrow> act_run sq vtab part db;
     Some (map_option so_rows out, db') }"

definition out_done :: "sql_outcome \<Rightarrow> bool" where
  "out_done out \<longleftrightarrow> so_rows out = [] \<and> so_done out"

definition insert_execute :: "'db sqlite \<Rightarrow> bool \<Rightarrow> sql_part \<Rightarrow> 'db \<Rightarrow> (u64 option \<times> 'db) option" where
  "insert_execute sq vtab part db = do {
     (out, db') \<leftarrow> act_run sq vtab part db;
     Some (case out of Some o' \<Rightarrow> if out_done o' then Some (so_rowid o') else None | None \<Rightarrow> None, db') }"

definition update_execute :: "'db sqlite \<Rightarrow> bool \<Rightarrow> sql_part \<Rightarrow> 'db \<Rightarrow> (u32 option \<times> 'db) option" where
  "update_execute sq vtab part db = do {
     (out, db') \<leftarrow> act_run sq vtab part db;
     Some (case out of Some o' \<Rightarrow> if out_done o' then Some (so_changes o') else None | None \<Rightarrow> None, db') }"

definition remove_execute :: "'db sqlite \<Rightarrow> bool \<Rightarrow> sql_part \<Rightarrow> 'db \<Rightarrow> (u32 option \<times> 'db) option" where
  "remove_execute sq vtab part db = update_execute sq vtab part db"

definition count_execute :: "'db sqlite \<Rightarrow> bool \<Rightarrow> sql_part \<Rightarrow> 'db \<Rightarrow> (u64 option \<times> 'db) option" where
  "count_execute sq vtab part db = do {
     (out, db') \<leftarrow> act_run sq vtab part db;
     Some (case out of
             Some o' \<Rightarrow>
               (case so_rows o' of
                  ((_, SQ_Int n) # _) # _ \<Rightarrow> Some n
                | _ # _ \<Rightarrow> Some 0
                | [] \<Rightarrow> None)
           | None \<Rightarrow> None, db') }"

definition transaction_execute :: "'db sqlite \<Rightarrow> sql_part \<Rightarrow> 'db \<Rightarrow> (bool \<times> 'db) option" where
  "transaction_execute sq part db = do {
     (out, db') \<leftarrow> act_run sq False part db;
     Some (case out of Some o' \<Rightarrow> out_done o' | None \<Rightarrow> False, db') }"

text \<open>Whether \<^verbatim>\<open>execute\<close> calls \<^verbatim>\<open>notify\<close>: not for an unprepared statement without callback.\<close>

definition act_notifies :: "'db sqlite \<Rightarrow> bool \<Rightarrow> sql_part \<Rightarrow> 'db \<Rightarrow> bool" where
  "act_notifies sq has_callback part db \<longleftrightarrow> sq_prepare sq (fst part) db \<or> has_callback"

section \<open>Table operations\<close>

text \<open>\<^verbatim>\<open>Cursor::forEach\<close> and \<^verbatim>\<open>Cursor::next\<close> over the rows of a query.\<close>

definition cursor_rows :: "bool \<Rightarrow> (string \<times> sql_val) list list \<Rightarrow> (string \<times> val) list list option" where
  "cursor_rows vtab rows = those (map (rowToUbj vtab) rows)"

definition cursor_next ::
    "bool \<Rightarrow> (string \<times> sql_val) list list \<Rightarrow> (string \<times> val) list option option" where
  "cursor_next vtab rows =
     (case rows of [] \<Rightarrow> Some None | r # _ \<Rightarrow> map_option Some (rowToUbj vtab r))"

definition st_query_list ::
    "(ubj_type \<Rightarrow> bytes \<Rightarrow> string) \<Rightarrow> 'db sqlite \<Rightarrow> bool \<Rightarrow> string \<Rightarrow> (string \<times> val) list
     \<Rightarrow> (string \<times> val) list \<Rightarrow> val list \<Rightarrow> u32 \<Rightarrow> u32 \<Rightarrow> 'db
     \<Rightarrow> (bool \<times> (string \<times> val) list list \<times> 'db) option" where
  "st_query_list fmt sq vtab table query order fs limit offset db = do {
     part \<leftarrow> query_sql fmt table query order fs limit offset;
     (rows, db') \<leftarrow> query_execute sq vtab part db;
     case rows of
       None \<Rightarrow> Some (False, [], db')
     | Some rs \<Rightarrow> do { os \<leftarrow> cursor_rows vtab rs; Some (True, os, db') } }"

definition st_query_one ::
    "(ubj_type \<Rightarrow> bytes \<Rightarrow> string) \<Rightarrow> 'db sqlite \<Rightarrow> bool \<Rightarrow> string \<Rightarrow> (string \<times> val) list
     \<Rightarrow> (string \<times> val) list \<Rightarrow> val list \<Rightarrow> u32 \<Rightarrow> 'db \<Rightarrow> ((string \<times> val) list option \<times> 'db) option" where
  "st_query_one fmt sq vtab table query order fs offset db = do {
     part \<leftarrow> query_sql fmt table query order fs 1 offset;
     (rows, db') \<leftarrow> query_execute sq vtab part db;
     case rows of
       None \<Rightarrow> Some (None, db')
     | Some rs \<Rightarrow> do { ob \<leftarrow> cursor_next vtab rs; Some (ob, db') } }"

text \<open>\<^verbatim>\<open>count\<close> answers -1 for an error.\<close>

definition st_count :: "'db sqlite \<Rightarrow> bool \<Rightarrow> string \<Rightarrow> (string \<times> val) list \<Rightarrow> 'db \<Rightarrow> (u32 \<times> 'db) option" where
  "st_count sq vtab table wh db = do {
     (n, db') \<leftarrow> count_execute sq vtab (count_sql table wh) db;
     Some (case n of Some k \<Rightarrow> ucast k | None \<Rightarrow> - 1, db') }"

definition st_insert :: "'db sqlite \<Rightarrow> bool \<Rightarrow> string \<Rightarrow> (string \<times> val) list \<Rightarrow> 'db \<Rightarrow> (u64 \<times> 'db) option" where
  "st_insert sq vtab table ins db = do {
     (r, db') \<leftarrow> insert_execute sq vtab (insert_sql table ins) db;
     Some (case r of Some i \<Rightarrow> i | None \<Rightarrow> 0, db') }"

text \<open>\<^verbatim>\<open>update\<close> and \<^verbatim>\<open>remove\<close> on a table that is not virtual; only \<^verbatim>\<open>update\<close> reports errors.\<close>

definition st_update ::
    "'db sqlite \<Rightarrow> string \<Rightarrow> (string \<times> val) list \<Rightarrow> (string \<times> val) list \<Rightarrow> 'db \<Rightarrow> (u32 \<times> 'db) option" where
  "st_update sq table upd wh db = do {
     (r, db') \<leftarrow> update_execute sq False (update_sql table upd wh) db;
     Some (case r of Some n \<Rightarrow> n | None \<Rightarrow> - 1, db') }"

definition st_remove :: "'db sqlite \<Rightarrow> string \<Rightarrow> (string \<times> val) list \<Rightarrow> 'db \<Rightarrow> (u32 \<times> 'db) option" where
  "st_remove sq table wh db = do {
     (r, db') \<leftarrow> remove_execute sq False (remove_sql table wh) db;
     Some (case r of Some n \<Rightarrow> n | None \<Rightarrow> 0, db') }"

definition st_truncate :: "'db sqlite \<Rightarrow> string \<Rightarrow> 'db \<Rightarrow> (u32 \<times> 'db) option" where
  "st_truncate sq table = st_remove sq table []"

definition st_queryInt ::
    "(ubj_type \<Rightarrow> bytes \<Rightarrow> string) \<Rightarrow> 'db sqlite \<Rightarrow> bool \<Rightarrow> string \<Rightarrow> string \<Rightarrow> (string \<times> val) list
     \<Rightarrow> (string \<times> val) list \<Rightarrow> u32 \<Rightarrow> 'db \<Rightarrow> (u64 \<times> 'db) option" where
  "st_queryInt fmt sq vtab table fld query order offset db = do {
     f \<leftarrow> val_of_string fld;
     (ob, db') \<leftarrow> st_query_one fmt sq vtab table query order [f] offset db;
     case ob of
       None \<Rightarrow> Some (0, db')
     | Some rec \<Rightarrow> map_option (\<lambda>n. (n, db')) (val_toLong (obj_get rec fld)) }"

section \<open>Blobs\<close>

record 'k blob =
  bl_table :: string
  bl_id :: u64
  bl_mode :: bool
  bl_size :: u32
  bl_aes :: "'k aes"

text \<open>
  AES for the store: the primitive, the key schedule, the (uninitialised) cipher object of a new
  blob, and the store key.
\<close>

record 'k store_cipher =
  sc_crypt :: "'k ctr_crypt"
  sc_sched :: "bytes \<Rightarrow> 'k"
  sc_fresh :: "'k aes"
  sc_key :: "membuf option"

text \<open>A buffer as the payload of a field, \<^verbatim>\<open>obj["x"].buffer()\<close>.\<close>

definition field_buffer :: "(string \<times> val) list \<Rightarrow> string \<Rightarrow> membuf option" where
  "field_buffer ob k =
     map_option (\<lambda>b. \<lparr>mb_data = Some b, mb_size = of_nat (length b)\<rparr>) (v_buffer (obj_get ob k))"

definition st_getBlobInfo ::
    "(ubj_type \<Rightarrow> bytes \<Rightarrow> string) \<Rightarrow> 'db sqlite \<Rightarrow> string \<Rightarrow> u64 \<Rightarrow> 'db
     \<Rightarrow> ((string \<times> val) list option \<times> 'db) option" where
  "st_getBlobInfo fmt sq table i db = do {
     fs \<leftarrow> those (map val_of_string [''mode'', ''size'', ''salt'']);
     part \<leftarrow> query_sql fmt table [(''rowid'', val_int64 i)] [] fs 0 0;
     (rows, db') \<leftarrow> query_execute sq False part db;
     case rows of
       None \<Rightarrow> Some (None, db')
     | Some rs \<Rightarrow> do { ob \<leftarrow> cursor_next False rs; Some (ob, db') } }"

text \<open>\<^verbatim>\<open>Blob::open\<close>; \<open>given\<close> are the mode, size and salt used when \<^verbatim>\<open>meta\<close> is false.\<close>

definition blob_open ::
    "(ubj_type \<Rightarrow> bytes \<Rightarrow> string) \<Rightarrow> 'db sqlite \<Rightarrow> 'k store_cipher \<Rightarrow> string \<Rightarrow> u64 \<Rightarrow> bool \<Rightarrow> bool
     \<Rightarrow> bool \<times> u32 \<times> membuf option \<Rightarrow> 'db \<Rightarrow> ('k blob option \<times> 'db) option" where
  "blob_open fmt sq sc table i readOnly meta given db = do {
     (info, db1) \<leftarrow> (if meta then st_getBlobInfo fmt sq table i db else Some (Some [], db));
     case info of
       None \<Rightarrow> Some (None, db1)
     | Some info1 \<Rightarrow>
         if \<not> sq_blob_open sq table i (\<not> readOnly) db1 then Some (None, db1)
         else do {
           (mode, size', salt) \<leftarrow>
             (if meta then do {
                m \<leftarrow> val_toInt (obj_get info1 ''mode'');
                s \<leftarrow> val_toInt (obj_get info1 ''size'');
                Some (m \<noteq> 0, s, field_buffer info1 ''salt'') }
              else Some given);
           a1 \<leftarrow> aes_setCtr salt (sc_fresh sc);
           a2 \<leftarrow> aes_setKey (sc_sched sc) (sc_key sc) a1;
           Some (Some \<lparr>bl_table = table, bl_id = i, bl_mode = mode, bl_size = size', bl_aes = a2\<rparr>, db1) } }"

text \<open>
  \<^verbatim>\<open>Blob::read\<close> into a block of memory: the bytes read, or nothing; an encrypted blob is
  decrypted in place with the counter where the last operation left it.
\<close>

definition blob_read ::
    "'db sqlite \<Rightarrow> 'k store_cipher \<Rightarrow> u32 \<Rightarrow> u32 \<Rightarrow> 'k blob \<Rightarrow> 'db \<Rightarrow> (bytes option \<times> 'k blob) option" where
  "blob_read sq sc size' offset b db =
     (case sq_blob_read sq (bl_table b) (bl_id b) (unat size') (unat offset) db of
        None \<Rightarrow> Some (None, b)
      | Some d \<Rightarrow>
          if bl_mode b then do {
            (r, a, dst, _) \<leftarrow> aes_decrypt (sc_crypt sc) True (None :: unit aes_callback option) d (Some d) size'
                                (bl_aes b) ();
            Some (if r then dst else None, b\<lparr>bl_aes := a\<rparr>) }
          else Some (Some d, b))"

text \<open>
  \<^verbatim>\<open>Blob::write\<close>: an encrypted blob is written chunk by chunk from the callback of
  \<^verbatim>\<open>encrypt\<close>, each chunk behind the ones before it.
\<close>

definition blob_chunk_writer :: "'db sqlite \<Rightarrow> string \<Rightarrow> u64 \<Rightarrow> u32 \<Rightarrow> 'db aes_callback" where
  "blob_chunk_writer sq table i offset out n sent size' db =
     (case sq_blob_write sq table i out (unat (offset + sent - n)) db of
        Some db' \<Rightarrow> (True, db')
      | None \<Rightarrow> (False, db))"

definition blob_write ::
    "'db sqlite \<Rightarrow> 'k store_cipher \<Rightarrow> bytes \<Rightarrow> u32 \<Rightarrow> u32 \<Rightarrow> 'k blob \<Rightarrow> 'db \<Rightarrow> (bool \<times> 'k blob \<times> 'db) option" where
  "blob_write sq sc data size' offset b db =
     (if bl_mode b then do {
        (r, a, _, db') \<leftarrow> aes_encrypt (sc_crypt sc) True
           (Some (blob_chunk_writer sq (bl_table b) (bl_id b) offset)) data None size' (bl_aes b) db;
        Some (r, b\<lparr>bl_aes := a\<rparr>, db') }
      else if length data < unat size' then None
      else
        (case sq_blob_write sq (bl_table b) (bl_id b) (take (unat size') data) (unat offset) db of
           Some db' \<Rightarrow> Some (True, b, db')
         | None \<Rightarrow> Some (False, b, db)))"

section \<open>The store's blob operations\<close>

text \<open>
  \<^verbatim>\<open>createBlob(table, size, encrypt)\<close>; \<open>rnd\<close> are the twelve random bytes of the salt.
\<close>

definition blob_salt :: "bytes option \<Rightarrow> membuf option" where
  "blob_salt rnd = map_option (\<lambda>r. \<lparr>mb_data = Some (take 12 r @ replicate 4 0), mb_size = 16\<rparr>) rnd"

definition val_of_membuf :: "membuf \<Rightarrow> val" where
  "val_of_membuf b = val_of_buffer (Some (mb_bytes b))"

definition zero_blob :: "u32 \<Rightarrow> val" where
  "zero_blob size' = val_of_obj [(''$zeroBlob'', val_int32 size')]"

definition bind_null :: val where
  "bind_null = val_of_obj [(''$bindNull'', val_int32 1)]"

definition st_createBlob_size ::
    "'db sqlite \<Rightarrow> bytes option \<Rightarrow> string \<Rightarrow> u32 \<Rightarrow> bool \<Rightarrow> 'db \<Rightarrow> (u64 \<times> 'db) option" where
  "st_createBlob_size sq rnd table size' encrypt db =
     (let rec = [(''data'', zero_blob size'), (''mode'', val_bool encrypt), (''size'', val_int32 size')]
      in if encrypt then
           (case blob_salt rnd of
              None \<Rightarrow> Some (0, db)
            | Some salt \<Rightarrow> st_insert sq False table (obj_setField ''salt'' (val_of_membuf salt) rec) db)
         else st_insert sq False table rec db)"

definition st_readBlob ::
    "(ubj_type \<Rightarrow> bytes \<Rightarrow> string) \<Rightarrow> 'db sqlite \<Rightarrow> 'k store_cipher \<Rightarrow> string \<Rightarrow> u64 \<Rightarrow> 'db
     \<Rightarrow> ('k blob option \<times> 'db) option" where
  "st_readBlob fmt sq sc table i db = blob_open fmt sq sc table i True True (False, 0, None) db"

definition st_writeBlob ::
    "(ubj_type \<Rightarrow> bytes \<Rightarrow> string) \<Rightarrow> 'db sqlite \<Rightarrow> 'k store_cipher \<Rightarrow> string \<Rightarrow> u64 \<Rightarrow> 'db
     \<Rightarrow> ('k blob option \<times> 'db) option" where
  "st_writeBlob fmt sq sc table i db = blob_open fmt sq sc table i False True (False, 0, None) db"

text \<open>\<^verbatim>\<open>updateBlobData\<close> ignores what the statement and the write answer.\<close>

definition st_updateBlobData ::
    "(ubj_type \<Rightarrow> bytes \<Rightarrow> string) \<Rightarrow> 'db sqlite \<Rightarrow> 'k store_cipher \<Rightarrow> bytes option \<Rightarrow> string \<Rightarrow> u64
     \<Rightarrow> membuf option \<Rightarrow> bool \<Rightarrow> 'db \<Rightarrow> (u32 \<times> 'db) option" where
  "st_updateBlobData fmt sq sc rnd table i data encrypt db =
     (case data of
        None \<Rightarrow> Some (0, db)
      | Some d \<Rightarrow>
          (case (if encrypt then map_option Some (blob_salt rnd) else Some None) of
             None \<Rightarrow> Some (0, db)
           | Some salt \<Rightarrow> do {
               let rec = [(''data'', if encrypt then zero_blob (mb_size d) else val_of_membuf d),
                          (''mode'', val_bool encrypt),
                          (''salt'', case salt of Some s \<Rightarrow> val_of_membuf s | None \<Rightarrow> bind_null),
                          (''size'', val_int32 (mb_size d))];
               (_, db1) \<leftarrow> st_update sq table rec [(''rowid'', val_int64 i)] db;
               if \<not> encrypt then Some (ucast i, db1)
               else do {
                 (blob, db2) \<leftarrow> st_writeBlob fmt sq sc table i db1;
                 case blob of
                   None \<Rightarrow> Some (ucast i, db2)
                 | Some b \<Rightarrow> do {
                     m \<leftarrow> mb_data d;
                     (_, _, db3) \<leftarrow> blob_write sq sc m (mb_size d) 0 b db2;
                     Some (ucast i, db3) } } }))"

definition st_removeBlob :: "'db sqlite \<Rightarrow> string \<Rightarrow> u64 \<Rightarrow> 'db \<Rightarrow> (bool \<times> 'db) option" where
  "st_removeBlob sq table i db = do {
     (n, db') \<leftarrow> st_remove sq table [(''rowid'', val_int64 i)] db;
     Some (n \<noteq> 0, db') }"

definition st_createBlob ::
    "(ubj_type \<Rightarrow> bytes \<Rightarrow> string) \<Rightarrow> 'db sqlite \<Rightarrow> 'k store_cipher \<Rightarrow> bytes option \<Rightarrow> string
     \<Rightarrow> membuf option \<Rightarrow> bool \<Rightarrow> 'db \<Rightarrow> (u64 \<times> 'db) option" where
  "st_createBlob fmt sq sc rnd table data encrypt db = do {
     let rec0 = [(''mode'', val_bool encrypt)];
     let rec1 = (case data of Some d \<Rightarrow> obj_setField ''size'' (val_int32 (mb_size d)) rec0 | None \<Rightarrow> rec0);
     let rec2 = (case data of
                   Some d \<Rightarrow> if encrypt then rec1 else obj_setField ''data'' (val_of_membuf d) rec1
                 | None \<Rightarrow> rec1);
     (i, db1) \<leftarrow> st_insert sq False table rec2 db;
     if i = 0 then Some (0, db1)
     else if data \<noteq> None \<and> encrypt then do {
       (r, db2) \<leftarrow> st_updateBlobData fmt sq sc rnd table i data encrypt db1;
       if r = 0 then map_option (\<lambda>(_, db3). (0, db3)) (st_removeBlob sq table i db2)
       else Some (i, db2) }
     else Some (i, db1) }"

definition st_createBlob_obj ::
    "(ubj_type \<Rightarrow> bytes \<Rightarrow> string) \<Rightarrow> 'db sqlite \<Rightarrow> 'k store_cipher \<Rightarrow> bytes option \<Rightarrow> string
     \<Rightarrow> (string \<times> val) list \<Rightarrow> bool \<Rightarrow> 'db \<Rightarrow> (u64 \<times> 'db) option" where
  "st_createBlob_obj fmt sq sc rnd table data encrypt db = do {
     buf \<leftarrow> writer_write (val_of_obj data);
     if buf = None then Some (0, db) else st_createBlob fmt sq sc rnd table buf encrypt db }"

text \<open>\<^verbatim>\<open>getBlobData\<close>: a buffer of the blob's size, filled when the read succeeds.\<close>

definition st_getBlobData ::
    "(ubj_type \<Rightarrow> bytes \<Rightarrow> string) \<Rightarrow> 'db sqlite \<Rightarrow> 'k store_cipher \<Rightarrow> string \<Rightarrow> u64 \<Rightarrow> 'db
     \<Rightarrow> (membuf option \<times> 'db) option" where
  "st_getBlobData fmt sq sc table i db = do {
     (blob, db1) \<leftarrow> st_readBlob fmt sq sc table i db;
     case blob of
       None \<Rightarrow> Some (None, db1)
     | Some b \<Rightarrow> do {
         (d, _) \<leftarrow> blob_read sq sc (bl_size b) 0 b db1;
         Some (Some \<lparr>mb_data = Some (case d of Some x \<Rightarrow> x | None \<Rightarrow> replicate (unat (bl_size b)) 0),
                     mb_size = bl_size b\<rparr>, db1) } }"

definition st_getBlobObject ::
    "(ubj_type \<Rightarrow> bytes \<Rightarrow> string) \<Rightarrow> 'db sqlite \<Rightarrow> 'k store_cipher \<Rightarrow> string \<Rightarrow> u64
     \<Rightarrow> (string \<times> val) list \<Rightarrow> 'db \<Rightarrow> (bool \<times> (string \<times> val) list \<times> 'db) option" where
  "st_getBlobObject fmt sq sc table i old db = do {
     (buf, db1) \<leftarrow> st_getBlobData fmt sq sc table i db;
     if buf = None then Some (False, old, db1)
     else do { (r, ob) \<leftarrow> obj_read_buffer old buf; Some (r, ob, db1) } }"

definition st_updateBlobObject ::
    "(ubj_type \<Rightarrow> bytes \<Rightarrow> string) \<Rightarrow> 'db sqlite \<Rightarrow> 'k store_cipher \<Rightarrow> bytes option \<Rightarrow> string \<Rightarrow> u64
     \<Rightarrow> (string \<times> val) list \<Rightarrow> bool \<Rightarrow> 'db \<Rightarrow> (u32 \<times> 'db) option" where
  "st_updateBlobObject fmt sq sc rnd table i data encrypt db = do {
     buf \<leftarrow> writer_write (val_of_obj data);
     if buf = None then Some (0, db)
     else do {
       (r, db1) \<leftarrow> st_updateBlobData fmt sq sc rnd table i buf encrypt db;
       Some (if r = 0 then 0 else ucast i, db1) } }"

definition st_getBlobIds ::
    "(ubj_type \<Rightarrow> bytes \<Rightarrow> string) \<Rightarrow> 'db sqlite \<Rightarrow> string \<Rightarrow> 'db \<Rightarrow> (val list \<times> 'db) option" where
  "st_getBlobIds fmt sq table db = do {
     f \<leftarrow> val_of_string ''id'';
     (_, os, db') \<leftarrow> st_query_list fmt sq False table [] [] [f] 0 0 db;
     Some (map (\<lambda>ob. obj_get ob ''id'') os, db') }"

section \<open>Updating and removing rows of a virtual table\<close>

text \<open>
  The rows of a virtual table are blobs: \<^verbatim>\<open>update\<close> reads the matching row ids through the
  virtual table, then rewrites each blob inside a transaction.  \<open>rnds\<close> gives the salt of each
  rewritten blob.
\<close>

definition row_ids :: "(string \<times> val) list list \<Rightarrow> u64 list option" where
  "row_ids os = those (map (\<lambda>ob. val_toLong (obj_get ob ''rowid'')) os)"

primrec update_blobs ::
    "(ubj_type \<Rightarrow> bytes \<Rightarrow> string) \<Rightarrow> 'db sqlite \<Rightarrow> 'k store_cipher \<Rightarrow> (u64 \<Rightarrow> bytes option) \<Rightarrow> string
     \<Rightarrow> (string \<times> val) list \<Rightarrow> u64 list \<Rightarrow> 'db \<Rightarrow> 'db option" where
  "update_blobs fmt sq sc rnds table upd [] db = Some db"
| "update_blobs fmt sq sc rnds table upd (i # is) db = do {
     (found, data, db1) \<leftarrow> st_getBlobObject fmt sq sc table i [] db;
     db2 \<leftarrow> (if found
             then map_option snd (st_updateBlobObject fmt sq sc (rnds i) table i (obj_merge data upd) True db1)
             else Some db1);
     update_blobs fmt sq sc rnds table upd is db2 }"

primrec remove_blobs :: "'db sqlite \<Rightarrow> string \<Rightarrow> u64 list \<Rightarrow> 'db \<Rightarrow> 'db option" where
  "remove_blobs sq table [] db = Some db"
| "remove_blobs sq table (i # is) db = do {
     (_, db1) \<leftarrow> st_removeBlob sq table i db; remove_blobs sq table is db1 }"

text \<open>\<^verbatim>\<open>beginTransaction(true, f)\<close>: the callback, then \<^verbatim>\<open>endTransaction\<close>.\<close>

definition in_transaction ::
    "'db sqlite \<Rightarrow> ('db \<Rightarrow> 'db option) \<Rightarrow> 'db \<Rightarrow> (bool \<times> 'db) option" where
  "in_transaction sq f db = do {
     (begun, db1) \<leftarrow> transaction_execute sq (begin_sql True) db;
     if \<not> begun then Some (False, db1)
     else do {
       db2 \<leftarrow> f db1;
       (_, db3) \<leftarrow> transaction_execute sq end_sql db2;
       Some (True, db3) } }"

definition st_vtab_apply ::
    "(ubj_type \<Rightarrow> bytes \<Rightarrow> string) \<Rightarrow> 'db sqlite \<Rightarrow> string \<Rightarrow> (string \<times> val) list
     \<Rightarrow> (u64 list \<Rightarrow> 'db \<Rightarrow> 'db option) \<Rightarrow> 'db \<Rightarrow> (u32 \<times> 'db) option" where
  "st_vtab_apply fmt sq table wh f db = do {
     fld \<leftarrow> val_of_string ''rowid'';
     (ok, os, db1) \<leftarrow> st_query_list fmt sq True table wh [] [fld] 0 0 db;
     ids \<leftarrow> row_ids os;
     if \<not> ok then Some (- 1, db1)
     else if ids = [] then Some (0, db1)
     else do {
       (done', db2) \<leftarrow> in_transaction sq (f ids) db1;
       Some (if done' then of_nat (length ids) else - 1, db2) } }"

definition st_vtab_update ::
    "(ubj_type \<Rightarrow> bytes \<Rightarrow> string) \<Rightarrow> 'db sqlite \<Rightarrow> 'k store_cipher \<Rightarrow> (u64 \<Rightarrow> bytes option) \<Rightarrow> string
     \<Rightarrow> string \<Rightarrow> (string \<times> val) list \<Rightarrow> (string \<times> val) list \<Rightarrow> 'db \<Rightarrow> (u32 \<times> 'db) option" where
  "st_vtab_update fmt sq sc rnds blobTable table upd wh =
     st_vtab_apply fmt sq table wh (update_blobs fmt sq sc rnds blobTable upd)"

definition st_vtab_remove ::
    "(ubj_type \<Rightarrow> bytes \<Rightarrow> string) \<Rightarrow> 'db sqlite \<Rightarrow> string \<Rightarrow> string \<Rightarrow> (string \<times> val) list \<Rightarrow> 'db
     \<Rightarrow> (u32 \<times> 'db) option" where
  "st_vtab_remove fmt sq blobTable table wh =
     st_vtab_apply fmt sq table wh (remove_blobs sq blobTable)"

end
