(* ===== verification/Store_Cursor.thy ===== *)
theory Store_Cursor
  imports Store_DB
begin

text \<open>
  Statements while they are stepped (\<^verbatim>\<open>Action::step\<close>, \<^verbatim>\<open>reset\<close>, \<^verbatim>\<open>finish\<close>) and
  the cursors over them (\<^verbatim>\<open>ubj/store/cursor.cpp\<close>), and the operations of
  \<^verbatim>\<open>ubj/store/blob.cpp\<close> on buffers.  \<^const>\<open>cursor_rows\<close> is what a whole loop gives.
\<close>

section \<open>Statements\<close>

type_synonym stmt_row = "(string \<times> sql_val) list"

text \<open>All rows, those still to come and the current one.\<close>

record stmt =
  sm_all :: "stmt_row list"
  sm_left :: "stmt_row list"
  sm_row :: "stmt_row option"

definition SQLITE_ROW :: u32 where "SQLITE_ROW = 100"
definition SQLITE_DONE :: u32 where "SQLITE_DONE = 101"

text \<open>\<open>None\<close> is an action without statement.  A step after the last one begins again.\<close>

definition act_step :: "stmt option \<Rightarrow> u32 \<times> stmt option" where
  "act_step a =
     (case a of
        None \<Rightarrow> (0, None)
      | Some s \<Rightarrow>
          (case sm_left s of
             [] \<Rightarrow> (SQLITE_DONE, Some (s\<lparr>sm_left := sm_all s, sm_row := None\<rparr>))
           | r # rs \<Rightarrow> (SQLITE_ROW, Some (s\<lparr>sm_left := rs, sm_row := Some r\<rparr>))))"

definition act_reset :: "stmt option \<Rightarrow> stmt option" where
  "act_reset a = map_option (\<lambda>s. s\<lparr>sm_left := sm_all s, sm_row := None\<rparr>) a"

definition act_finish :: "stmt option \<Rightarrow> stmt option" where
  "act_finish a = None"

section \<open>Cursors\<close>

text \<open>A cursor is its action, if it has one; the actions have a statement when there is a cursor.\<close>

definition cur_next :: "bool \<Rightarrow> stmt option \<Rightarrow> ((string \<times> val) list option \<times> stmt option) option" where
  "cur_next vtab a =
     (case act_step a of
        (r, a1) \<Rightarrow>
          if r = SQLITE_ROW then do {
            s \<leftarrow> a1;
            row \<leftarrow> sm_row s;
            ob \<leftarrow> rowToUbj vtab row;
            Some (Some ob, a1) }
          else Some (None, a1))"

definition cur_reset :: "stmt option \<Rightarrow> stmt option" where
  "cur_reset a = act_reset a"

text \<open>
  The loop of both \<^verbatim>\<open>forEach\<close>; the callback of the one that answers nothing never stops it.
  As many turns as rows and one are enough.
\<close>

primrec cur_loop ::
    "nat \<Rightarrow> bool \<Rightarrow> ((string \<times> val) list \<Rightarrow> 'w \<Rightarrow> bool \<times> 'w) \<Rightarrow> stmt option \<Rightarrow> 'w \<Rightarrow> ('w \<times> stmt option) option" where
  "cur_loop 0 vtab fn a w = None"
| "cur_loop (Suc n) vtab fn a w = do {
     (item, a1) \<leftarrow> cur_next vtab a;
     case item of
       None \<Rightarrow> Some (w, a1)
     | Some ob \<Rightarrow> (case fn ob w of (go, w1) \<Rightarrow> if go then cur_loop n vtab fn a1 w1 else Some (w1, a1)) }"

definition cur_forEach ::
    "bool \<Rightarrow> ((string \<times> val) list \<Rightarrow> 'w \<Rightarrow> bool \<times> 'w) \<Rightarrow> stmt option \<Rightarrow> 'w \<Rightarrow> (bool \<times> 'w \<times> stmt option) option" where
  "cur_forEach vtab fn a w =
     map_option (\<lambda>(w1, a1). (False, w1, a1))
       (cur_loop (Suc (case a of None \<Rightarrow> 0 | Some s \<Rightarrow> length (sm_all s))) vtab fn (cur_reset a) w)"

text \<open>
  A column of the current row as an integer.  \<^const>\<open>None\<close> is a column that is not there, which
  sqlite leaves undefined, or a value it would convert.
\<close>

definition cur_getLong :: "nat \<Rightarrow> stmt option \<Rightarrow> u64 option" where
  "cur_getLong i a =
     (case a of
        None \<Rightarrow> Some 0
      | Some s \<Rightarrow> do {
          row \<leftarrow> sm_row s;
          if i < length row
          then (case snd (row ! i) of SQ_Int n \<Rightarrow> Some n | SQ_Null \<Rightarrow> Some 0 | _ \<Rightarrow> None)
          else None })"

definition cur_getInt :: "nat \<Rightarrow> stmt option \<Rightarrow> u32 option" where
  "cur_getInt i a = map_option ucast (cur_getLong i a)"

section \<open>Loops over all rows\<close>

lemma cur_loop_all:
  assumes "cursor_rows vtab (sm_left s) = Some obs"
  shows "cur_loop (Suc (length (sm_left s))) vtab (\<lambda>ob w. (True, f ob w)) (Some s) w
    = Some (fold f obs w, Some (s\<lparr>sm_left := sm_all s, sm_row := None\<rparr>))"
  using assms
proof (induction "sm_left s" arbitrary: s obs w)
  case Nil
  then show ?case by (auto simp: cursor_rows_def cur_next_def act_step_def SQLITE_ROW_def SQLITE_DONE_def)
next
  case (Cons r rs)
  from Cons.prems Cons.hyps(2) [symmetric] obtain ob obs1 where
    o: "rowToUbj vtab r = Some ob" "cursor_rows vtab rs = Some obs1" "obs = ob # obs1"
    by (auto simp: cursor_rows_def split: option.splits)
  let ?s = "s\<lparr>sm_left := rs, sm_row := Some r\<rparr>"
  have next1: "cur_next vtab (Some s) = Some (Some ob, Some ?s)"
    using Cons.hyps(2) [symmetric] o(1) by (simp add: cur_next_def act_step_def)
  have "cur_loop (Suc (length rs)) vtab (\<lambda>ob w. (True, f ob w)) (Some ?s) (f ob w)
      = Some (fold f obs1 (f ob w), Some (?s\<lparr>sm_left := sm_all ?s, sm_row := None\<rparr>))"
    using Cons.hyps(1) [of ?s obs1 "f ob w"] o(2) by simp
  then show ?case
    using next1 o(3) Cons.hyps(2) [symmetric] by (simp del: cur_loop.simps add: cur_loop.simps(2) [of "Suc (length rs)"])
qed

text \<open>\<^verbatim>\<open>forEach\<close> hands every row to the callback, once and in order, and can be repeated.\<close>

theorem forEach_visits_all:
  assumes "cursor_rows vtab (sm_all s) = Some obs"
  shows "cur_forEach vtab (\<lambda>ob w. (True, f ob w)) (Some s) w
    = Some (False, fold f obs w, Some (s\<lparr>sm_left := sm_all s, sm_row := None\<rparr>))"
  using cur_loop_all [of vtab "s\<lparr>sm_left := sm_all s, sm_row := None\<rparr>" obs f w] assms
  by (simp del: cur_loop.simps add: cur_forEach_def cur_reset_def act_reset_def)

section \<open>Blobs and buffers\<close>

text \<open>The bytes read replace the beginning of the buffer.\<close>

definition blob_read_buffer ::
    "'db sqlite \<Rightarrow> 'k store_cipher \<Rightarrow> membuf option \<Rightarrow> u32 \<Rightarrow> u32 \<Rightarrow> 'k blob \<Rightarrow> 'db
     \<Rightarrow> (bool \<times> membuf option \<times> 'k blob) option" where
  "blob_read_buffer sq sc data size' offset b db =
     (case data of
        None \<Rightarrow> Some (False, data, b)
      | Some m \<Rightarrow>
          if mb_size m = 0 \<or> mb_size m < size' then Some (False, data, b)
          else do {
            (r, b1) \<leftarrow> blob_read sq sc (if size' \<noteq> 0 then size' else mb_size m) offset b db;
            Some (case r of
                None \<Rightarrow> (False, data, b1)
              | Some d \<Rightarrow> (True, Some (m\<lparr>mb_data := map_option (\<lambda>old. d @ drop (length d) old) (mb_data m)\<rparr>), b1)) })"

definition blob_write_buffer ::
    "'db sqlite \<Rightarrow> 'k store_cipher \<Rightarrow> membuf option \<Rightarrow> u32 \<Rightarrow> u32 \<Rightarrow> 'k blob \<Rightarrow> 'db
     \<Rightarrow> (bool \<times> 'k blob \<times> 'db) option" where
  "blob_write_buffer sq sc data size' offset b db =
     (case data of
        None \<Rightarrow> Some (False, b, db)
      | Some m \<Rightarrow>
          if mb_size m = 0 \<or> size' > mb_size m then Some (False, b, db)
          else do {
            d \<leftarrow> mb_data m;
            blob_write sq sc d (if size' \<noteq> 0 then size' else mb_size m) offset b db })"

text \<open>
  \<^verbatim>\<open>close\<close>: whether the handle is set, before and after; \<open>ok\<close> is the answer of
  \<^verbatim>\<open>sqlite3_blob_close\<close>, which releases the handle also when it fails.
\<close>

definition blob_close :: "bool \<Rightarrow> bool \<Rightarrow> bool \<times> bool" where
  "blob_close handle ok =
     (if \<not> handle then (False, handle) else if \<not> ok then (False, handle) else (True, False))"

text \<open>What was written through a buffer comes back through one, from a plain blob.\<close>

theorem blob_buffer_round_trip:
  assumes "\<not> bl_mode b" and "sq_blob_write sq (bl_table b) (bl_id b) d (unat off) db = Some db'"
    and "sq_blob_read sq (bl_table b) (bl_id b) (length d) (unat off) db' = Some d"
    and "mb_data m = Some d" and "mb_size m = of_nat (length d)" and "0 < length d" and "length d < 2 ^ 32"
    and "mb_data m' = Some d'" and "mb_size m' = mb_size m" and "length d' = length d"
  shows "blob_write_buffer sq sc (Some m) 0 off b db = Some (True, b, db')"
    and "blob_read_buffer sq sc (Some m') 0 off b db' = Some (True, Some (m'\<lparr>mb_data := Some d\<rparr>), b)"
proof -
  have u: "unat (of_nat (length d) :: u32) = length d" using assms(7) by (rule unat_of_nat_u32)
  then have nz: "(of_nat (length d) :: u32) \<noteq> 0" using assms(6) by (metis neq0_conv unat_0)
  show "blob_write_buffer sq sc (Some m) 0 off b db = Some (True, b, db')"
    using assms(1,2,4,5) u nz by (simp add: blob_write_buffer_def blob_write_def)
  show "blob_read_buffer sq sc (Some m') 0 off b db' = Some (True, Some (m'\<lparr>mb_data := Some d\<rparr>), b)"
    using assms(1,3,5,8-10) u nz by (simp add: blob_read_buffer_def blob_read_def)
qed

end
