(* ===== verification/Store_Blob.thy ===== *)
theory Store_Blob
  imports Store_DB
begin

text \<open>
  Blobs of the store hold what was put into them, encrypted or not.  \<open>blob_laws\<close> says what
  sqlite documents of the statements the store issues on one blob table; \<open>rows\<close> is the contents
  of that table: row id to column values.
\<close>

type_synonym sql_row = "string \<Rightarrow> sql_val option"

definition insert_text :: "string \<Rightarrow> string list \<Rightarrow> string" where
  "insert_text t cols = fst (insert_sql t (map (\<lambda>c. (c, val_null)) cols))"

definition blob_update_columns :: "string list" where
  "blob_update_columns = [''data'', ''mode'', ''salt'', ''size'']"

definition update_text :: "string \<Rightarrow> string" where
  "update_text t = fst (update_sql t (map (\<lambda>c. (c, val_null)) blob_update_columns) [(''rowid'', val_null)])"

definition select_text :: "string \<Rightarrow> string" where
  "select_text t = ''SELECT mode,size,salt FROM '' @ t @ '' WHERE rowid=?''"

text \<open>What a bound value is stored as.\<close>

definition stored :: "sql_val \<Rightarrow> sql_val" where
  "stored x = (case x of SQ_ZeroBlob n \<Rightarrow> SQ_Blob (replicate (nat (sint n)) 0) | _ \<Rightarrow> x)"

definition column_of :: "sql_row \<Rightarrow> string \<Rightarrow> sql_val" where
  "column_of row c = (case row c of Some x \<Rightarrow> x | None \<Rightarrow> SQ_Null)"

definition blob_laws :: "'db sqlite \<Rightarrow> string \<Rightarrow> ('db \<Rightarrow> bool) \<Rightarrow> ('db \<Rightarrow> u64 \<Rightarrow> sql_row option) \<Rightarrow> bool" where
  "blob_laws sq t dbok rows \<longleftrightarrow> (\<forall>db. dbok db \<longrightarrow>
     sq_prepare sq (update_text t) db \<and> sq_prepare sq (select_text t) db
     \<and> (\<forall>cols vals. cols \<in> {[''mode'', ''size''], [''data'', ''mode'', ''size'']} \<longrightarrow> length vals = length cols \<longrightarrow>
          (case sq_exec sq (insert_text t cols) (zip [1..<1 + length vals] vals) db of (out, db') \<Rightarrow>
             dbok db' \<and> (out_done out \<longrightarrow> so_rowid out \<noteq> 0 \<longrightarrow>
               rows db (so_rowid out) = None
               \<and> rows db' = (rows db)(so_rowid out \<mapsto> map_of (zip cols (map stored vals))))))
     \<and> (\<forall>i vals row. length vals = 4 \<longrightarrow> rows db i = Some row \<longrightarrow>
          (case sq_exec sq (update_text t) (zip [1..<6] (vals @ [SQ_Int i])) db of (out, db') \<Rightarrow>
             dbok db' \<and> rows db' = (rows db)(i \<mapsto> row ++ map_of (zip blob_update_columns (map stored vals)))))
     \<and> (\<forall>i row. rows db i = Some row \<longrightarrow>
          (case sq_exec sq (select_text t) [(1, SQ_Int i)] db of (out, db') \<Rightarrow>
             dbok db' \<and> rows db' = rows db
             \<and> so_rows out = [map (\<lambda>c. (c, column_of row c)) [''mode'', ''size'', ''salt'']]))
     \<and> (\<forall>i. rows db i = None \<longrightarrow>
          (case sq_exec sq (select_text t) [(1, SQ_Int i)] db of (out, db') \<Rightarrow>
             dbok db' \<and> rows db' = rows db \<and> so_rows out = []))
     \<and> (\<forall>i row d. rows db i = Some row \<longrightarrow> row ''data'' = Some (SQ_Blob d) \<longrightarrow>
          (\<forall>w. sq_blob_open sq t i w db)
          \<and> (\<forall>n off. off + n \<le> length d \<longrightarrow> sq_blob_read sq t i n off db = Some (take n (drop off d)))
          \<and> (\<forall>x off. off + length x \<le> length d \<longrightarrow>
               (\<exists>db'. sq_blob_write sq t i x off db = Some db' \<and> dbok db'
                  \<and> rows db' = (rows db)(i \<mapsto> row(''data'' \<mapsto>
                       SQ_Blob (take off d @ x @ drop (off + length x) d)))))))"

lemma blob_law_prepare:
  "blob_laws sq t dbok rows \<Longrightarrow> dbok db \<Longrightarrow> sq_prepare sq (update_text t) db \<and> sq_prepare sq (select_text t) db"
  unfolding blob_laws_def by (elim allE [of _ db]) simp

lemma blob_law_insert:
  assumes "blob_laws sq t dbok rows" and "dbok db"
    and "cols \<in> {[''mode'', ''size''], [''data'', ''mode'', ''size'']}" and "length vals = length cols"
    and "sq_exec sq (insert_text t cols) (zip [1..<1 + length vals] vals) db = (out, db')"
  shows "dbok db' \<and> (out_done out \<longrightarrow> so_rowid out \<noteq> 0 \<longrightarrow> rows db (so_rowid out) = None
     \<and> rows db' = (rows db)(so_rowid out \<mapsto> map_of (zip cols (map stored vals))))"
proof -
  have "\<forall>cols vals. cols \<in> {[''mode'', ''size''], [''data'', ''mode'', ''size'']} \<longrightarrow> length vals = length cols \<longrightarrow>
          (case sq_exec sq (insert_text t cols) (zip [1..<1 + length vals] vals) db of (out, db') \<Rightarrow>
             dbok db' \<and> (out_done out \<longrightarrow> so_rowid out \<noteq> 0 \<longrightarrow>
               rows db (so_rowid out) = None
               \<and> rows db' = (rows db)(so_rowid out \<mapsto> map_of (zip cols (map stored vals)))))"
    using assms(1,2) unfolding blob_laws_def by (elim allE [of _ db]) (elim impE conjE, assumption+)
  from this [rule_format, OF assms(3,4)] assms(5) show ?thesis by simp
qed

lemma blob_law_update:
  assumes "blob_laws sq t dbok rows" and "dbok db" and "length vals = 4" and "rows db i = Some row"
    and "sq_exec sq (update_text t) (zip [1..<6] (vals @ [SQ_Int i])) db = (out, db')"
  shows "dbok db' \<and> rows db' = (rows db)(i \<mapsto> row ++ map_of (zip blob_update_columns (map stored vals)))"
proof -
  have "\<forall>i vals row. length vals = 4 \<longrightarrow> rows db i = Some row \<longrightarrow>
          (case sq_exec sq (update_text t) (zip [1..<6] (vals @ [SQ_Int i])) db of (out, db') \<Rightarrow>
             dbok db' \<and> rows db' = (rows db)(i \<mapsto> row ++ map_of (zip blob_update_columns (map stored vals))))"
    using assms(1,2) unfolding blob_laws_def by (elim allE [of _ db]) (elim impE conjE, assumption+)
  from this [rule_format, OF assms(3,4)] assms(5) show ?thesis by simp
qed

lemma blob_law_select:
  assumes "blob_laws sq t dbok rows" and "dbok db" and "rows db i = Some row"
    and "sq_exec sq (select_text t) [(1, SQ_Int i)] db = (out, db')"
  shows "dbok db' \<and> rows db' = rows db
     \<and> so_rows out = [map (\<lambda>c. (c, column_of row c)) [''mode'', ''size'', ''salt'']]"
proof -
  have "\<forall>i row. rows db i = Some row \<longrightarrow>
          (case sq_exec sq (select_text t) [(1, SQ_Int i)] db of (out, db') \<Rightarrow>
             dbok db' \<and> rows db' = rows db
             \<and> so_rows out = [map (\<lambda>c. (c, column_of row c)) [''mode'', ''size'', ''salt'']])"
    using assms(1,2) unfolding blob_laws_def by (elim allE [of _ db]) (elim impE conjE, assumption+)
  from this [rule_format, OF assms(3)] assms(4) show ?thesis by simp
qed

lemma blob_law_missing:
  assumes "blob_laws sq t dbok rows" and "dbok db" and "rows db i = None"
    and "sq_exec sq (select_text t) [(1, SQ_Int i)] db = (out, db')"
  shows "dbok db' \<and> rows db' = rows db \<and> so_rows out = []"
proof -
  have "\<forall>i. rows db i = None \<longrightarrow>
          (case sq_exec sq (select_text t) [(1, SQ_Int i)] db of (out, db') \<Rightarrow>
             dbok db' \<and> rows db' = rows db \<and> so_rows out = [])"
    using assms(1,2) unfolding blob_laws_def by (elim allE [of _ db]) (elim impE conjE, assumption+)
  from this [rule_format, OF assms(3)] assms(4) show ?thesis by simp
qed

lemma blob_law_blob:
  assumes "blob_laws sq t dbok rows" and "dbok db" and "rows db i = Some row"
    and "row ''data'' = Some (SQ_Blob d)"
  shows "sq_blob_open sq t i w db"
    and "off + n \<le> length d \<Longrightarrow> sq_blob_read sq t i n off db = Some (take n (drop off d))"
    and "off + length x \<le> length d \<Longrightarrow> \<exists>db'. sq_blob_write sq t i x off db = Some db' \<and> dbok db'
      \<and> rows db' = (rows db)(i \<mapsto> row(''data'' \<mapsto> SQ_Blob (take off d @ x @ drop (off + length x) d)))"
proof -
  have all: "\<forall>i row d. rows db i = Some row \<longrightarrow> row ''data'' = Some (SQ_Blob d) \<longrightarrow>
          (\<forall>w. sq_blob_open sq t i w db)
          \<and> (\<forall>n off. off + n \<le> length d \<longrightarrow> sq_blob_read sq t i n off db = Some (take n (drop off d)))
          \<and> (\<forall>x off. off + length x \<le> length d \<longrightarrow>
               (\<exists>db'. sq_blob_write sq t i x off db = Some db' \<and> dbok db'
                  \<and> rows db' = (rows db)(i \<mapsto> row(''data'' \<mapsto>
                       SQ_Blob (take off d @ x @ drop (off + length x) d)))))"
    using assms(1,2) unfolding blob_laws_def by (elim allE [of _ db]) (elim impE conjE, assumption+)
  note b = all [rule_format, OF assms(3,4)]
  show "sq_blob_open sq t i w db" using b by blast
  show "off + n \<le> length d \<Longrightarrow> sq_blob_read sq t i n off db = Some (take n (drop off d))"
    using b by blast
  show "off + length x \<le> length d \<Longrightarrow> \<exists>db'. sq_blob_write sq t i x off db = Some db' \<and> dbok db'
      \<and> rows db' = (rows db)(i \<mapsto> row(''data'' \<mapsto> SQ_Blob (take off d @ x @ drop (off + length x) d)))"
    using b by blast
qed

subsection \<open>The statements\<close>

lemma insert_sql_text: "insert_sql t ins = (insert_text t (map fst ins), map snd ins)"
proof -
  have "map fst (map (\<lambda>c. (c, val_null)) (map fst ins)) = map fst ins" by (simp add: comp_def)
  moreover have "map (\<lambda>_. ''?'') (map (\<lambda>c. (c, val_null)) (map fst ins)) = map (\<lambda>_. ''?'') ins"
    by (simp add: comp_def)
  ultimately show ?thesis
    by (simp only: insert_sql_def insert_text_def insertPart_def Let_def prod.case fst_conv snd_conv)
qed

lemma wherePart_single:
  "v_type v \<noteq> UBJ_ARRAY \<Longrightarrow> v_type v \<noteq> UBJ_OBJECT \<Longrightarrow> wherePart [(k, v)] = (k @ ''=?'', [v])"
  by (subst wherePart_rec) (simp add: where_fields_def where_entry_def)

lemma where_rowid: "where_clause [(''rowid'', val_int64 i)] = ('' WHERE rowid=?'', [val_int64 i])"
  by (simp add: where_clause_def wherePart_single val_int64_def)

lemma where_rowid_null: "where_clause [(''rowid'', val_null)] = ('' WHERE rowid=?'', [val_null])"
  by (simp add: where_clause_def wherePart_single val_null_def)

lemma update_sql_text:
  "map fst upd = blob_update_columns \<Longrightarrow>
    update_sql t upd [(''rowid'', val_int64 i)] = (update_text t, map snd upd @ [val_int64 i])"
  by (auto simp: update_sql_def update_text_def updatePart_def where_rowid where_rowid_null
      blob_update_columns_def)

lemma info_sql:
  "those (map val_of_string [''mode'', ''size'', ''salt'']) = Some [v1, v2, v3] \<Longrightarrow>
    query_sql fmt t [(''rowid'', val_int64 i)] [] [v1, v2, v3] 0 0 = Some (select_text t, [val_int64 i])"
  by (auto simp: query_sql_def fieldsToReturnPart_def val_of_string_def set_string_def orderPart_def
      where_rowid val_toStr_def select_text_def word_gt_0 Let_def split: if_splits)

lemma info_fields:
  obtains v1 v2 v3 where "those (map val_of_string [''mode'', ''size'', ''salt'']) = Some [v1, v2, v3]"
  by (simp add: val_of_string_def set_string_def Let_def)

subsection \<open>Bindings\<close>

lemma bind_bool: "bind_value vt (val_bool b) = Some (Some (SQ_Int (if b then 1 else 0)))"
  by (simp add: bind_value_def val_bool_def)

lemma bind_int32: "bind_value vt (val_int32 w) = Some (Some (SQ_Int (scast w)))"
  by (simp add: bind_value_def val_int32_def)

lemma bind_int64: "bind_value vt (val_int64 w) = Some (Some (SQ_Int w))"
  by (simp add: bind_value_def val_int64_def)

lemma bind_buffer:
  assumes "mb_inv b" and "mb_bytes b \<noteq> []"
  shows "bind_value vt (val_of_membuf b) = Some (Some (SQ_Blob (mb_bytes b)))"
proof -
  from mb_inv_length [OF assms(1)] have l: "of_nat (length (mb_bytes b)) = mb_size b" by simp
  moreover have "mb_size b \<noteq> 0" using mb_inv_length [OF assms(1)] assms(2) by auto
  ultimately show ?thesis
    by (simp add: bind_value_def val_of_membuf_def val_of_buffer_def val_bufferSize_def)
qed

lemma ucast_scast_u32: "(ucast (scast (w :: u32) :: u64) :: u32) = w"
  by (rule bit_word_eqI) (simp add: bit_simps)

lemma bind_zero_blob: "bind_value vt (zero_blob w) = Some (Some (SQ_ZeroBlob w))"
  by (simp add: bind_value_def zero_blob_def val_of_obj_def val_hasField_def val_field_def
      val_toInt_def val_toLong_def val_int32_def ucast_scast_u32)

lemma bind_bind_null: "bind_value vt bind_null = Some (Some SQ_Null)"
  by (simp add: bind_value_def bind_null_def val_of_obj_def val_hasField_def)

lemma stored_zero_blob:
  assumes "unat w < 2 ^ 31"
  shows "stored (SQ_ZeroBlob w) = SQ_Blob (replicate (unat w) 0)"
proof -
  have "int (unat w) < int (2 ^ 31)" using assms by (simp only: of_nat_less_iff)
  then have "uint w < 2 ^ 31" by simp
  moreover have "0 \<le> uint w" by simp
  ultimately have "signed_take_bit 31 (uint w) = uint w" by (intro signed_take_bit_int_eq_self) linarith+
  moreover have "sint w = signed_take_bit 31 (uint w)" using sint_uint [of w] by simp
  ultimately have "nat (sint w) = unat w" by simp
  then show ?thesis by (simp add: stored_def)
qed

subsection \<open>Opening an existing blob\<close>

definition key_ok :: "'k store_cipher \<Rightarrow> bool" where
  "key_ok sc \<longleftrightarrow> (\<forall>kb. sc_key sc = Some kb \<longrightarrow> (\<exists>kd. mb_data kb = Some kd \<and> 32 \<le> length kd))"

text \<open>The cipher of a blob: the store's key, and the salt as the counter it starts from.\<close>

definition blob_cipher :: "'k store_cipher \<Rightarrow> bytes option \<Rightarrow> 'k aes" where
  "blob_cipher sc salt =
     \<lparr>aes_key = (case sc_key sc of Some kb \<Rightarrow> sc_sched sc (take 32 (mb_bytes kb)) | None \<Rightarrow> aes_key (sc_fresh sc)),
      aes_ctr = (case salt of Some s \<Rightarrow> take 16 s | None \<Rightarrow> aes_ctr (sc_fresh sc))\<rparr>"

definition salt_of :: "sql_row \<Rightarrow> bytes option" where
  "salt_of row = (case column_of row ''salt'' of SQ_Blob s \<Rightarrow> Some s | _ \<Rightarrow> None)"

definition blob_row :: "sql_row \<Rightarrow> bool \<Rightarrow> u32 \<Rightarrow> bytes \<Rightarrow> bool" where
  "blob_row row mode size' d \<longleftrightarrow>
     row ''mode'' = Some (SQ_Int (if mode then 1 else 0)) \<and> row ''size'' = Some (SQ_Int (scast size'))
     \<and> row ''data'' = Some (SQ_Blob d)
     \<and> (column_of row ''salt'' = SQ_Null \<or> (\<exists>s. column_of row ''salt'' = SQ_Blob s \<and> 16 \<le> length s))"

lemma blob_open_existing:
  assumes laws: "blob_laws sq t dbok rows" and ok: "dbok db" and row: "rows db i = Some row"
    and br: "blob_row row mode size' d" and key: "key_ok sc"
  shows "\<exists>db1. blob_open fmt sq sc t i ro True given db =
      Some (Some \<lparr>bl_table = t, bl_id = i, bl_mode = mode, bl_size = size', bl_aes = blob_cipher sc (salt_of row)\<rparr>, db1)
    \<and> dbok db1 \<and> rows db1 = rows db"
proof -
  obtain v1 v2 v3 where vs: "those (map val_of_string [''mode'', ''size'', ''salt'']) = Some [v1, v2, v3]"
    by (rule info_fields)
  note sql = info_sql [OF vs, of fmt t i]
  obtain out db1 where ex: "sq_exec sq (select_text t) [(1, SQ_Int i)] db = (out, db1)" by fastforce
  note sel = blob_law_select [OF laws ok row ex]
  then have db1: "dbok db1" "rows db1 = rows db"
    and out: "so_rows out = [map (\<lambda>c. (c, column_of row c)) [''mode'', ''size'', ''salt'']]" by simp_all
  have prep: "sq_prepare sq (select_text t) db" using blob_law_prepare [OF laws ok] by simp
  have row1: "rows db1 i = Some row" using row db1(2) by simp
  have "row ''data'' = Some (SQ_Blob d)" using br by (simp add: blob_row_def)
  note op = blob_law_blob(1) [OF laws db1(1) row1 this]
  define info1 where "info1 = (case column_of row ''salt'' of SQ_Blob s \<Rightarrow> omap_insert ''salt'' (val_of_buffer (Some s)) | _ \<Rightarrow> id)
     (omap_insert ''size'' (val_int64 (scast size'))
       (omap_insert ''mode'' (val_int64 (if mode then 1 else 0)) []))"
  have info: "st_getBlobInfo fmt sq t i db = Some (Some info1, db1)"
    unfolding st_getBlobInfo_def vs info1_def
    using br prep ex out
    by (auto simp: sql query_execute_def act_run_def bindUbjToStmt_def bind_int64 cursor_next_def
        rowToUbj_def row_step_def blob_row_def column_of_def split: sql_val.splits)
  have fields: "obj_get info1 ''mode'' = val_int64 (if mode then 1 else 0)"
    "obj_get info1 ''size'' = val_int64 (scast size')"
    "field_buffer info1 ''salt'' = map_option (\<lambda>s. \<lparr>mb_data = Some s, mb_size = of_nat (length s)\<rparr>) (salt_of row)"
    by (auto simp: info1_def obj_get_def field_buffer_def map_of_omap_insert salt_of_def val_of_buffer_def val_null_def
        split: sql_val.splits)
  have toInt: "val_toInt (val_int64 w) = Some (ucast w)" for w
    by (simp add: val_toInt_def val_int64_def)
  have ctr: "aes_setCtr (map_option (\<lambda>s. \<lparr>mb_data = Some s, mb_size = of_nat (length s)\<rparr>) (salt_of row)) (sc_fresh sc)
      = Some ((sc_fresh sc)\<lparr>aes_ctr := aes_ctr (blob_cipher sc (salt_of row))\<rparr>)"
    using br by (auto simp: aes_setCtr_def salt_of_def blob_cipher_def blob_row_def)
  have setkey: "aes_setKey (sc_sched sc) (sc_key sc) ((sc_fresh sc)\<lparr>aes_ctr := aes_ctr (blob_cipher sc (salt_of row))\<rparr>)
      = Some (blob_cipher sc (salt_of row))"
    using key by (auto simp: key_ok_def aes_setKey_def blob_cipher_def mb_bytes_def split: option.splits)
  show ?thesis
    using db1 by (simp add: blob_open_def info fields toInt op ctr setkey ucast_scast_u32)
qed

lemma blob_read_all:
  assumes "blob_laws sq t dbok rows" and "dbok db" and "rows db i = Some row"
    and "row ''data'' = Some (SQ_Blob d)" and "length d = unat size'"
    and "ctr_laws (sc_crypt sc)"
  shows "\<exists>b'. blob_read sq sc size' 0 \<lparr>bl_table = t, bl_id = i, bl_mode = mode, bl_size = size', bl_aes = a\<rparr> db
    = Some (Some (if mode then fst (sc_crypt sc (aes_key a) (aes_ctr a) d) else d), b')"
proof -
  have rd: "sq_blob_read sq t i (unat size') 0 db = Some d"
    using blob_law_blob(2) [OF assms(1-4), of 0 "unat size'"] assms(5) by simp
  obtain out c' where o': "sc_crypt sc (aes_key a) (aes_ctr a) d = (out, c')" by fastforce
  from aes_crypt_whole [OF assms(6) _ cb_keeps_None [of size' "()"], of d "Some d" True a out c' "()"] assms(5) o'
  have "aes_decrypt (sc_crypt sc) True None d (Some d) size' a () = Some (True, a\<lparr>aes_ctr := c'\<rparr>, Some out, ())"
    by (simp add: aes_decrypt_def)
  then show ?thesis by (simp add: blob_read_def rd o')
qed

subsection \<open>Writing\<close>

lemma blob_write_all:
  assumes laws: "blob_laws sq t dbok rows" and ok: "dbok db" and row: "rows db i = Some row"
    and data: "row ''data'' = Some (SQ_Blob d0)" and len: "length d0 = unat size'" "length src = unat size'"
    and ctr: "ctr_laws (sc_crypt sc)"
  shows "\<exists>b' db'. blob_write sq sc src size' 0 \<lparr>bl_table = t, bl_id = i, bl_mode = True, bl_size = size', bl_aes = a\<rparr> db
      = Some (True, b', db')
    \<and> dbok db' \<and> rows db' = (rows db)(i \<mapsto> row(''data'' \<mapsto> SQ_Blob (fst (sc_crypt sc (aes_key a) (aes_ctr a) src))))"
proof -
  define R where "R acc db' \<longleftrightarrow> dbok db'
    \<and> rows db' = (rows db)(i \<mapsto> row(''data'' \<mapsto> SQ_Blob (acc @ drop (length acc) d0)))" for acc db'
  obtain out c' where o': "sc_crypt sc (aes_key a) (aes_ctr a) src = (out, c')" by fastforce
  have lo: "length out = unat size'" using ctr_law_length [OF ctr o'] len by simp
  have "cb_keeps (Some (blob_chunk_writer sq t i 0)) size' R"
    unfolding cb_keeps_def option.case
  proof (intro allI impI)
    fix acc out :: bytes and n :: u32 and w
    assume r: "R acc w" and lo: "length out = unat n" and fits: "length acc + unat n \<le> unat size'"
    have "length acc + unat n < 2 ^ 32" using fits unat_u32_less [of size'] by linarith
    then have "(of_nat (length acc + unat n) :: u32) - n = of_nat (length acc)"
      and la: "length acc < 2 ^ 32" by simp_all
    then have pos: "unat ((of_nat (length acc + unat n) :: u32) - n) = length acc"
      by (simp add: add.commute)
    let ?old = "acc @ drop (length acc) d0"
    have w: "dbok w" "rows w i = Some (row(''data'' \<mapsto> SQ_Blob ?old))" using r by (simp_all add: R_def)
    have dat: "(row(''data'' \<mapsto> SQ_Blob ?old)) ''data'' = Some (SQ_Blob ?old)" by simp
    have "length acc + length out \<le> length ?old" using fits lo len by simp
    from blob_law_blob(3) [OF laws w dat this] obtain w' where
      w': "sq_blob_write sq t i out (length acc) w = Some w'" "dbok w'"
      "rows w' = (rows w)(i \<mapsto> (row(''data'' \<mapsto> SQ_Blob ?old))(''data'' \<mapsto>
          SQ_Blob (take (length acc) ?old @ out @ drop (length acc + length out) ?old)))"
      by blast
    have "take (length acc) ?old @ out @ drop (length acc + length out) ?old
        = (acc @ out) @ drop (length (acc @ out)) d0" by (simp add: add.commute)
    then have "rows w' = (rows db)(i \<mapsto> row(''data'' \<mapsto> SQ_Blob ((acc @ out) @ drop (length (acc @ out)) d0)))"
      unfolding w'(3) using r by (simp only: R_def fun_upd_upd)
    then have "R (acc @ out) w'" using w'(2) by (simp add: R_def)
    then show "case blob_chunk_writer sq t i 0 out n (of_nat (length acc + unat n)) size' w of
        (r, w') \<Rightarrow> r \<and> R (acc @ out) w'"
      using w'(1) by (simp add: blob_chunk_writer_def pos del: of_nat_add)
  qed
  moreover have "R [] db" using ok row data by (auto simp: R_def fun_eq_iff)
  ultimately obtain db' where db': "aes_crypt (sc_crypt sc) True (Some (blob_chunk_writer sq t i 0)) src None size' a db
      = Some (True, a\<lparr>aes_ctr := c'\<rparr>, None, db')" "R out db'"
    using aes_crypt_whole [OF ctr, of size' src "Some (blob_chunk_writer sq t i 0)" R None True a out c' db] len o'
    by auto
  from db'(2) lo len have "dbok db'" "rows db' = (rows db)(i \<mapsto> row(''data'' \<mapsto> SQ_Blob out))"
    by (simp_all add: R_def)
  then show ?thesis using db'(1) o' by (simp add: blob_write_def aes_encrypt_def)
qed

subsection \<open>Creating a blob\<close>

lemma insert_blob:
  assumes laws: "blob_laws sq t dbok rows" and ok: "dbok db"
    and cols: "map fst ins \<in> {[''mode'', ''size''], [''data'', ''mode'', ''size'']}"
    and binds: "list_all2 (\<lambda>v x. bind_value False v = Some (Some x)) (map snd ins) xs"
  shows "\<exists>i db'. st_insert sq False t ins db = Some (i, db') \<and> dbok db'
    \<and> (i \<noteq> 0 \<longrightarrow> rows db i = None \<and> rows db' = (rows db)(i \<mapsto> map_of (zip (map fst ins) (map stored xs))))"
proof -
  have len: "length xs = length (map fst ins)" using list_all2_lengthD [OF binds] by simp
  have b: "bindUbjToStmt False (map snd ins) = Some (zip [1..<1 + length xs] xs)"
    using bind_from_aligned [OF binds, of 0] len by (simp add: bindUbjToStmt_def)
  obtain out db' where ex: "sq_exec sq (insert_text t (map fst ins)) (zip [1..<1 + length xs] xs) db = (out, db')"
    by fastforce
  note law = blob_law_insert [OF laws ok cols len ex]
  show ?thesis
  proof (cases "sq_prepare sq (insert_text t (map fst ins)) db")
    case True
    then show ?thesis
      using law b ex
      by (auto simp: st_insert_def insert_sql_text insert_execute_def act_run_def)
  next
    case False
    then show ?thesis
      using ok by (simp add: st_insert_def insert_sql_text insert_execute_def act_run_def)
  qed
qed

lemma update_blob:
  assumes laws: "blob_laws sq t dbok rows" and ok: "dbok db" and row: "rows db i = Some row"
    and cols: "map fst upd = blob_update_columns"
    and binds: "list_all2 (\<lambda>v x. bind_value False v = Some (Some x)) (map snd upd) xs"
  shows "\<exists>n db'. st_update sq t upd [(''rowid'', val_int64 i)] db = Some (n, db') \<and> dbok db'
    \<and> rows db' = (rows db)(i \<mapsto> row ++ map_of (zip blob_update_columns (map stored xs)))"
proof -
  have len: "length xs = 4"
    using list_all2_lengthD [OF binds] arg_cong [OF cols, of length] by (simp add: blob_update_columns_def)
  have "list_all2 (\<lambda>v x. bind_value False v = Some (Some x)) (map snd upd @ [val_int64 i]) (xs @ [SQ_Int i])"
    using binds by (simp add: list_all2_appendI bind_int64)
  note al = bind_from_aligned [OF this, of 0]
  have l5: "length (map snd upd @ [val_int64 i]) = 5" using list_all2_lengthD [OF binds] len by simp
  have b: "bindUbjToStmt False (map snd upd @ [val_int64 i]) = Some (zip [1..<6] (xs @ [SQ_Int i]))"
    using al unfolding l5 bindUbjToStmt_def by simp
  obtain out db' where ex: "sq_exec sq (update_text t) (zip [1..<6] (xs @ [SQ_Int i])) db = (out, db')"
    by fastforce
  note law = blob_law_update [OF laws ok len row ex]
  have "sq_prepare sq (update_text t) db" using blob_law_prepare [OF laws ok] by simp
  then show ?thesis
    using law b ex
    by (auto simp: st_update_def update_sql_text [OF cols] update_execute_def act_run_def)
qed

lemma updateBlobData_encrypted:
  assumes laws: "blob_laws sq t dbok rows" and ok: "dbok db" and row: "rows db i = Some row"
    and d: "mb_inv d" "mb_data d = Some m" "unat (mb_size d) < 2 ^ 31"
    and rnd: "length r = 12" and key: "key_ok sc" and ctr: "ctr_laws (sc_crypt sc)"
  shows "\<exists>db' row' c. st_updateBlobData fmt sq sc (Some r) t i (Some d) True db = Some (ucast i, db') \<and> dbok db'
    \<and> rows db' = (rows db)(i \<mapsto> row') \<and> blob_row row' True (mb_size d) c \<and> salt_of row' = Some (r @ replicate 4 0)
    \<and> c = fst (sc_crypt sc (aes_key (blob_cipher sc (salt_of row'))) (aes_ctr (blob_cipher sc (salt_of row'))) m)"
proof -
  let ?salt = "r @ replicate 4 0" let ?size = "mb_size d"
  have len: "length m = unat ?size" using d(1,2) by (simp add: mb_inv_def)
  have salt: "blob_salt (Some r) = Some \<lparr>mb_data = Some ?salt, mb_size = 16\<rparr>"
    using rnd by (simp add: blob_salt_def)
  have sb: "mb_inv \<lparr>mb_data = Some ?salt, mb_size = 16\<rparr>" "mb_bytes \<lparr>mb_data = Some ?salt, mb_size = 16\<rparr> = ?salt"
    using rnd by (simp_all add: mb_inv_def mb_bytes_def)
  have bs: "bind_value False (val_of_membuf \<lparr>mb_data = Some ?salt, mb_size = 16\<rparr>) = Some (Some (SQ_Blob ?salt))"
    using bind_buffer [OF sb(1)] by (simp add: sb(2))
  let ?upd = "[(''data'', zero_blob ?size), (''mode'', val_bool True),
      (''salt'', val_of_membuf \<lparr>mb_data = Some ?salt, mb_size = 16\<rparr>), (''size'', val_int32 ?size)]"
  have "list_all2 (\<lambda>v x. bind_value False v = Some (Some x)) (map snd ?upd)
      [SQ_ZeroBlob ?size, SQ_Int 1, SQ_Blob ?salt, SQ_Int (scast ?size)]"
    by (simp add: bind_zero_blob bind_bool bs bind_int32)
  from update_blob [OF laws ok row _ this] obtain n db1 where
    up: "st_update sq t ?upd [(''rowid'', val_int64 i)] db = Some (n, db1)" "dbok db1"
    and rows1: "rows db1 = (rows db)(i \<mapsto> row ++ map_of (zip blob_update_columns
        (map stored [SQ_ZeroBlob ?size, SQ_Int 1, SQ_Blob ?salt, SQ_Int (scast ?size)])))"
    by (auto simp: blob_update_columns_def)
  define row1 where "row1 = row ++ map_of (zip blob_update_columns
        (map stored [SQ_ZeroBlob ?size, SQ_Int 1, SQ_Blob ?salt, SQ_Int (scast ?size)]))"
  have row1: "row1 ''data'' = Some (SQ_Blob (replicate (unat ?size) 0))" "row1 ''mode'' = Some (SQ_Int 1)"
    "row1 ''salt'' = Some (SQ_Blob ?salt)" "row1 ''size'' = Some (SQ_Int (scast ?size))"
    by (simp_all add: row1_def blob_update_columns_def stored_zero_blob [OF d(3)] stored_def [of "SQ_Int _"]
        stored_def [of "SQ_Blob _"])
  have br1: "blob_row row1 True ?size (replicate (unat ?size) 0)" and so1: "salt_of row1 = Some ?salt"
    using row1 rnd by (simp_all add: blob_row_def column_of_def salt_of_def)
  have at1: "rows db1 i = Some row1" using rows1 by (simp add: row1_def)
  from blob_open_existing [OF laws up(2) at1 br1 key, of fmt False "(False, 0, None)"] obtain db2 where
    op: "blob_open fmt sq sc t i False True (False, 0, None) db1 =
      Some (Some \<lparr>bl_table = t, bl_id = i, bl_mode = True, bl_size = ?size, bl_aes = blob_cipher sc (salt_of row1)\<rparr>, db2)"
      "dbok db2" "rows db2 = rows db1" by blast
  have at2: "rows db2 i = Some row1" using at1 op(3) by simp
  from blob_write_all [OF laws op(2) at2 row1(1) _ len ctr, of "blob_cipher sc (salt_of row1)"]
  obtain b' db3 where
    wr: "blob_write sq sc m ?size 0 \<lparr>bl_table = t, bl_id = i, bl_mode = True, bl_size = ?size,
        bl_aes = blob_cipher sc (salt_of row1)\<rparr> db2 = Some (True, b', db3)" "dbok db3"
      "rows db3 = (rows db2)(i \<mapsto> row1(''data'' \<mapsto> SQ_Blob (fst (sc_crypt sc
          (aes_key (blob_cipher sc (salt_of row1))) (aes_ctr (blob_cipher sc (salt_of row1))) m))))"
    by auto
  define c where "c = fst (sc_crypt sc (aes_key (blob_cipher sc (salt_of row1)))
      (aes_ctr (blob_cipher sc (salt_of row1))) m)"
  define row3 where "row3 = row1(''data'' \<mapsto> SQ_Blob c)"
  have s3: "salt_of row3 = salt_of row1" by (simp add: row3_def salt_of_def column_of_def)
  have "blob_row row3 True ?size c"
    using br1 by (simp add: row3_def blob_row_def column_of_def)
  moreover have "rows db3 = (rows db)(i \<mapsto> row3)"
    using wr(3) op(3) rows1 by (simp add: row3_def c_def)
  moreover have "st_updateBlobData fmt sq sc (Some r) t i (Some d) True db = Some (ucast i, db3)"
    using up(1) op(1) wr(1) d(2) by (simp add: st_updateBlobData_def salt st_writeBlob_def)
  ultimately show ?thesis
    using wr(2) so1 s3 by (intro exI [of _ db3] exI [of _ row3] exI [of _ c]) (simp add: c_def)
qed

lemma getBlobData_stored:
  assumes laws: "blob_laws sq t dbok rows" and ok: "dbok db" and row: "rows db i = Some row"
    and br: "blob_row row mode size' c" and len: "length c = unat size'"
    and key: "key_ok sc" and ctr: "ctr_laws (sc_crypt sc)"
  shows "\<exists>db'. st_getBlobData fmt sq sc t i db = Some (Some \<lparr>mb_data = Some (if mode
        then fst (sc_crypt sc (aes_key (blob_cipher sc (salt_of row))) (aes_ctr (blob_cipher sc (salt_of row))) c)
        else c), mb_size = size'\<rparr>, db') \<and> dbok db' \<and> rows db' = rows db"
proof -
  from blob_open_existing [OF laws ok row br key, of fmt True "(False, 0, None)"] obtain db1 where
    op: "blob_open fmt sq sc t i True True (False, 0, None) db =
      Some (Some \<lparr>bl_table = t, bl_id = i, bl_mode = mode, bl_size = size', bl_aes = blob_cipher sc (salt_of row)\<rparr>, db1)"
      "dbok db1" "rows db1 = rows db" by blast
  have at1: "rows db1 i = Some row" using row op(3) by simp
  have "row ''data'' = Some (SQ_Blob c)" using br by (simp add: blob_row_def)
  from blob_read_all [OF laws op(2) at1 this len ctr, of mode "blob_cipher sc (salt_of row)"]
  show ?thesis using op by (auto simp: st_getBlobData_def st_readBlob_def)
qed

lemma getBlobData_missing:
  assumes laws: "blob_laws sq t dbok rows" and ok: "dbok db" and row: "rows db i = None"
  shows "\<exists>db'. st_getBlobData fmt sq sc t i db = Some (None, db') \<and> dbok db' \<and> rows db' = rows db"
proof -
  obtain v1 v2 v3 where vs: "those (map val_of_string [''mode'', ''size'', ''salt'']) = Some [v1, v2, v3]"
    by (rule info_fields)
  obtain out db1 where ex: "sq_exec sq (select_text t) [(1, SQ_Int i)] db = (out, db1)" by fastforce
  note sel = blob_law_missing [OF laws ok row ex]
  have "sq_prepare sq (select_text t) db" using blob_law_prepare [OF laws ok] by simp
  then have "st_getBlobInfo fmt sq t i db = Some (None, db1)"
    unfolding st_getBlobInfo_def vs
    using ex sel by (simp add: info_sql [OF vs] query_execute_def act_run_def bindUbjToStmt_def bind_int64
        cursor_next_def)
  then show ?thesis using sel by (simp add: st_getBlobData_def st_readBlob_def blob_open_def)
qed

lemma removeBlob_total: "\<exists>r db'. st_removeBlob sq t i db = Some (r, db')"
proof -
  have "remove_sql t [(''rowid'', val_int64 i)] = (''DELETE FROM '' @ t @ '' WHERE rowid=?'', [val_int64 i])"
    by (simp add: remove_sql_def where_rowid)
  then show ?thesis
    by (auto simp: st_removeBlob_def st_remove_def remove_execute_def update_execute_def act_run_def
        bindUbjToStmt_def bind_int64 split: prod.splits)
qed

lemma blob_row_encrypted:
  assumes "blob_row row True n c" and "ctr_laws (sc_crypt sc)"
    and "c = fst (sc_crypt sc (aes_key (blob_cipher sc s)) (aes_ctr (blob_cipher sc s)) m)"
  shows "length c = length m"
    and "fst (sc_crypt sc (aes_key (blob_cipher sc s)) (aes_ctr (blob_cipher sc s)) c) = m"
proof -
  obtain c' k where "sc_crypt sc (aes_key (blob_cipher sc s)) (aes_ctr (blob_cipher sc s)) m = (c', k)" by fastforce
  with assms(3) ctr_law_length [OF assms(2) this] ctr_law_inverse [OF assms(2) this]
  show "length c = length m"
    "fst (sc_crypt sc (aes_key (blob_cipher sc s)) (aes_ctr (blob_cipher sc s)) c) = m" by simp_all
qed

lemma createBlob_fields:
  "obj_setField ''size'' s [(''mode'', m)] = [(''mode'', m), (''size'', s)]"
  "obj_setField ''data'' d [(''mode'', m), (''size'', s)] = [(''data'', d), (''mode'', m), (''size'', s)]"
  by (simp_all add: obj_setField_def)

lemma createBlob_encrypted:
  assumes laws: "blob_laws sq t dbok rows" and ok: "dbok db"
    and d: "mb_inv d" "mb_data d = Some m" "unat (mb_size d) < 2 ^ 31"
    and rnd: "length r = 12" and key: "key_ok sc" and ctr: "ctr_laws (sc_crypt sc)"
  shows "\<exists>i db'. st_createBlob fmt sq sc (Some r) t (Some d) True db = Some (i, db')
    \<and> (i \<noteq> 0 \<longrightarrow> rows db i = None \<and> (\<exists>db2. st_getBlobData fmt sq sc t i db' = Some (Some d, db2)))"
proof -
  let ?size = "mb_size d"
  let ?ins = "[(''mode'', val_bool True), (''size'', val_int32 ?size)]"
  have "list_all2 (\<lambda>v x. bind_value False v = Some (Some x)) (map snd ?ins) [SQ_Int 1, SQ_Int (scast ?size)]"
    by (simp add: bind_bool bind_int32)
  from insert_blob [OF laws ok _ this] obtain i db1 where
    ins: "st_insert sq False t ?ins db = Some (i, db1)" "dbok db1"
    and new: "i \<noteq> 0 \<Longrightarrow> rows db i = None" "i \<noteq> 0 \<Longrightarrow> rows db1 i \<noteq> None" by fastforce
  show ?thesis
  proof (cases "i = 0")
    case True
    then show ?thesis using ins by (simp add: st_createBlob_def createBlob_fields)
  next
    case False
    with new obtain row where row: "rows db1 i = Some row" by blast
    from updateBlobData_encrypted [OF laws ins(2) row d rnd key ctr, of fmt] obtain db2 row' c where
      up: "st_updateBlobData fmt sq sc (Some r) t i (Some d) True db1 = Some (ucast i, db2)" "dbok db2"
        "rows db2 = (rows db1)(i \<mapsto> row')" "blob_row row' True ?size c"
      and c: "c = fst (sc_crypt sc (aes_key (blob_cipher sc (salt_of row'))) (aes_ctr (blob_cipher sc (salt_of row'))) m)"
      by blast
    obtain x db3 where rm: "st_removeBlob sq t i db2 = Some (x, db3)"
      using removeBlob_total [of sq t i db2] by blast
    have len: "length c = unat ?size"
      using blob_row_encrypted(1) [OF up(4) ctr c] d(1,2) by (simp add: mb_inv_def)
    have "rows db2 i = Some row'" using up(3) by simp
    from getBlobData_stored [OF laws up(2) this up(4) len key ctr, of fmt]
      blob_row_encrypted(2) [OF up(4) ctr c] d(2)
    have "\<exists>db4. st_getBlobData fmt sq sc t i db2 = Some (Some d, db4)" by auto
    then show ?thesis
      using False ins up(1) rm new by (simp add: st_createBlob_def createBlob_fields)
  qed
qed

lemma createBlob_plain:
  assumes laws: "blob_laws sq t dbok rows" and ok: "dbok db"
    and d: "mb_inv d" "mb_data d = Some m" "m \<noteq> []"
    and key: "key_ok sc" and ctr: "ctr_laws (sc_crypt sc)"
  shows "\<exists>i db'. st_createBlob fmt sq sc rnd t (Some d) False db = Some (i, db')
    \<and> (i \<noteq> 0 \<longrightarrow> rows db i = None \<and> (\<exists>db2. st_getBlobData fmt sq sc t i db' = Some (Some d, db2)))"
proof -
  let ?size = "mb_size d"
  let ?ins = "[(''data'', val_of_membuf d), (''mode'', val_bool False), (''size'', val_int32 ?size)]"
  have m: "mb_bytes d = m" using d(2) by (simp add: mb_bytes_def)
  have "list_all2 (\<lambda>v x. bind_value False v = Some (Some x)) (map snd ?ins)
      [SQ_Blob m, SQ_Int 0, SQ_Int (scast ?size)]"
    using bind_buffer [OF d(1)] d(3) by (simp add: bind_bool bind_int32 m)
  from insert_blob [OF laws ok _ this] obtain i db1 where
    ins: "st_insert sq False t ?ins db = Some (i, db1)" "dbok db1"
    and new: "i \<noteq> 0 \<Longrightarrow> rows db i = None" "i \<noteq> 0 \<Longrightarrow> rows db1 i = Some (map_of (zip (map fst ?ins)
        (map stored [SQ_Blob m, SQ_Int 0, SQ_Int (scast ?size)])))" by fastforce
  have create: "st_createBlob fmt sq sc rnd t (Some d) False db = Some (i, db1)"
    using ins by (simp add: st_createBlob_def createBlob_fields)
  have "\<exists>db2. st_getBlobData fmt sq sc t i db1 = Some (Some d, db2)" if "i \<noteq> 0"
  proof -
    define row where "row = map_of (zip (map fst ?ins) (map stored [SQ_Blob m, SQ_Int 0, SQ_Int (scast ?size)]))"
    have "blob_row row False ?size m"
      by (simp add: row_def blob_row_def column_of_def stored_def)
    moreover have "length m = unat ?size" using d(1,2) by (simp add: mb_inv_def)
    moreover have "rows db1 i = Some row" unfolding row_def by (rule new(2) [OF that])
    ultimately obtain db2 where
      "st_getBlobData fmt sq sc t i db1 = Some (Some \<lparr>mb_data = Some m, mb_size = ?size\<rparr>, db2)"
      using getBlobData_stored [OF laws ins(2) _ _ _ key ctr, of i row False ?size m fmt] by auto
    moreover have "\<lparr>mb_data = Some m, mb_size = ?size\<rparr> = d" using d(2) by simp
    ultimately show ?thesis by auto
  qed
  with create new(1) show ?thesis by auto
qed

section \<open>A database that keeps the laws\<close>

text \<open>
  One table of rows numbered from 1, in memory; an insert into a full table fails.  It shows the
  laws can hold, and the examples run on it.
\<close>

definition mem_row :: "sql_row list \<Rightarrow> u64 \<Rightarrow> sql_row option" where
  "mem_row db i = (if 1 \<le> unat i \<and> unat i \<le> length db then Some (db ! (unat i - 1)) else None)"

definition mem_ok :: "sql_row list \<Rightarrow> bool" where
  "mem_ok db \<longleftrightarrow> length db \<le> 1000"

definition mem_outcome :: "(string \<times> sql_val) list list \<Rightarrow> bool \<Rightarrow> u64 \<Rightarrow> sql_outcome" where
  "mem_outcome rs dn i = \<lparr>so_rows = rs, so_done = dn, so_rowid = i, so_changes = 1\<rparr>"

definition mem_insert :: "string list \<Rightarrow> (nat \<times> sql_val) list \<Rightarrow> sql_row list \<Rightarrow> sql_outcome \<times> sql_row list" where
  "mem_insert cols binds db =
     (if length db < 1000
      then (mem_outcome [] True (of_nat (Suc (length db))),
            db @ [map_of (zip cols (map stored (map snd binds)))])
      else (mem_outcome [] False 0, db))"

definition mem_update :: "(nat \<times> sql_val) list \<Rightarrow> sql_row list \<Rightarrow> sql_outcome \<times> sql_row list" where
  "mem_update binds db =
     (case map snd binds of
        [a, b, c, d, SQ_Int i] \<Rightarrow>
          (case mem_row db i of
             Some row \<Rightarrow> (mem_outcome [] True 0,
               db[unat i - 1 := row ++ map_of (zip blob_update_columns (map stored [a, b, c, d]))])
           | None \<Rightarrow> (mem_outcome [] True 0, db))
      | _ \<Rightarrow> (mem_outcome [] False 0, db))"

definition mem_select :: "(nat \<times> sql_val) list \<Rightarrow> sql_row list \<Rightarrow> sql_outcome \<times> sql_row list" where
  "mem_select binds db =
     (case map snd binds of
        [SQ_Int i] \<Rightarrow>
          (case mem_row db i of
             Some row \<Rightarrow> (mem_outcome [map (\<lambda>c. (c, column_of row c)) [''mode'', ''size'', ''salt'']] True 0, db)
           | None \<Rightarrow> (mem_outcome [] True 0, db))
      | _ \<Rightarrow> (mem_outcome [] False 0, db))"

definition mem_exec :: "string \<Rightarrow> string \<Rightarrow> (nat \<times> sql_val) list \<Rightarrow> sql_row list \<Rightarrow> sql_outcome \<times> sql_row list" where
  "mem_exec t s binds db =
     (if s = insert_text t [''mode'', ''size''] then mem_insert [''mode'', ''size''] binds db
      else if s = insert_text t [''data'', ''mode'', ''size'']
      then mem_insert [''data'', ''mode'', ''size''] binds db
      else if s = update_text t then mem_update binds db
      else if s = select_text t then mem_select binds db
      else if s = ''SELECT id FROM '' @ t
      then (mem_outcome (map (\<lambda>i. [(''id'', SQ_Int (of_nat i))]) [1..<Suc (length db)]) True 0, db)
      else (mem_outcome [] True 0, db))"

definition mem_data :: "sql_row list \<Rightarrow> u64 \<Rightarrow> bytes option" where
  "mem_data db i = (case mem_row db i of
     Some row \<Rightarrow> (case row ''data'' of Some (SQ_Blob d) \<Rightarrow> Some d | _ \<Rightarrow> None) | None \<Rightarrow> None)"

definition mem_sqlite :: "string \<Rightarrow> sql_row list sqlite" where
  "mem_sqlite t = \<lparr>sq_prepare = \<lambda>s db. True, sq_exec = mem_exec t,
     sq_blob_open = \<lambda>_ i w db. mem_data db i \<noteq> None,
     sq_blob_read = \<lambda>_ i n off db. (case mem_data db i of
        Some d \<Rightarrow> if off + n \<le> length d then Some (take n (drop off d)) else None | None \<Rightarrow> None),
     sq_blob_write = \<lambda>_ i x off db. (case mem_data db i of
        Some d \<Rightarrow> if off + length x \<le> length d
          then Some (db[unat i - 1 := (db ! (unat i - 1))(''data'' \<mapsto>
                 SQ_Blob (take off d @ x @ drop (off + length x) d))])
          else None
      | None \<Rightarrow> None)\<rparr>"

lemma mem_texts:
  "insert_text t [''mode'', ''size''] = ''INSERT INTO '' @ t @ '' (mode,size) VALUES(?,?)''"
  "insert_text t [''data'', ''mode'', ''size''] = ''INSERT INTO '' @ t @ '' (data,mode,size) VALUES(?,?,?)''"
  "update_text t = ''UPDATE '' @ t @ '' SET data=?,mode=?,salt=?,size=? WHERE rowid=?''"
  "select_text t = ''SELECT mode,size,salt FROM '' @ t @ '' WHERE rowid=?''"
  by (simp_all add: insert_text_def insert_sql_def insertPart_def update_text_def update_sql_def
      updatePart_def blob_update_columns_def where_rowid_null select_text_def Let_def)

lemma mem_row_append:
  assumes "length db < 1000"
  shows "mem_row db (of_nat (Suc (length db))) = None"
    and "mem_row (db @ [row]) = (mem_row db)(of_nat (Suc (length db)) \<mapsto> row)"
proof -
  have u: "unat (of_nat (Suc (length db)) :: u64) = Suc (length db)"
    using assms by (subst unat_of_nat) (simp add: take_bit_nat_eq_self)
  show "mem_row db (of_nat (Suc (length db))) = None" by (simp only: mem_row_def u) simp
  have "i = of_nat (Suc (length db)) \<longleftrightarrow> unat i = Suc (length db)" for i :: u64
    using u by (simp add: word_unat_eq_iff del: of_nat_Suc)
  then show "mem_row (db @ [row]) = (mem_row db)(of_nat (Suc (length db)) \<mapsto> row)"
    by (auto simp: fun_eq_iff mem_row_def nth_append u simp del: of_nat_Suc)
qed

lemma mem_row_update:
  assumes "mem_row db i = Some row"
  shows "mem_row (db[unat i - 1 := row']) = (mem_row db)(i \<mapsto> row')"
proof
  fix j
  have eq: "unat i - 1 = unat j - 1 \<longleftrightarrow> i = j" if "1 \<le> unat j" "1 \<le> unat i"
    using that by (metis diff_add word_unat_eq_iff)
  show "mem_row (db[unat i - 1 := row']) j = ((mem_row db)(i \<mapsto> row')) j"
    using assms eq by (auto simp: mem_row_def nth_list_update split: if_splits)
qed

lemma mem_insert_law:
  assumes "mem_ok db" and "length vals = length cols" and "mem_insert cols (zip [1..<1 + length vals] vals) db = (out, db')"
  shows "mem_ok db' \<and> (out_done out \<longrightarrow> so_rowid out \<noteq> 0 \<longrightarrow> mem_row db (so_rowid out) = None
     \<and> mem_row db' = (mem_row db)(so_rowid out \<mapsto> map_of (zip cols (map stored vals))))"
proof -
  have vals: "map snd (zip [1..<1 + length vals] vals) = vals" by (rule map_snd_zip) (simp only: length_upt diff_add_inverse)
  then show ?thesis
    using assms mem_row_append
    unfolding mem_insert_def vals
    by (auto simp: mem_outcome_def mem_ok_def simp del: of_nat_Suc split: if_splits)
qed

lemma mem_update_law:
  assumes "mem_ok db" and "length vals = 4" and "mem_row db i = Some row"
    and "mem_update (zip [1..<6] (vals @ [SQ_Int i])) db = (out, db')"
  shows "mem_ok db' \<and> mem_row db' = (mem_row db)(i \<mapsto> row ++ map_of (zip blob_update_columns (map stored vals)))"
proof -
  from assms(2) obtain a b c d where v: "vals = [a, b, c, d]" by (auto simp: numeral_eq_Suc length_Suc_conv)
  have "map snd (zip [1..<6] (vals @ [SQ_Int i])) = [a, b, c, d, SQ_Int i]"
    using v by (simp add: upt_rec)
  with assms v mem_row_update [OF assms(3)] show ?thesis
    by (auto simp: mem_update_def mem_ok_def simp del: map_snd_zip)
qed

lemma mem_blob_laws: "blob_laws (mem_sqlite t) t mem_ok mem_row"
  unfolding blob_laws_def
proof (intro allI impI conjI, goal_cases)
  case (3 db cols vals)
  obtain out db' where o': "mem_insert cols (zip [1..<1 + length vals] vals) db = (out, db')" by fastforce
  have "mem_exec t (insert_text t cols) (zip [1..<1 + length vals] vals) db = (out, db')"
    using 3(2) o' by (auto simp: mem_exec_def mem_texts)
  then show ?case using mem_insert_law [OF 3(1,3) o'] by (simp add: mem_sqlite_def)
next
  case (4 db i vals row)
  obtain out db' where o': "mem_update (zip [1..<6] (vals @ [SQ_Int i])) db = (out, db')" by fastforce
  then show ?case using mem_update_law [OF 4(1,2,3) o'] by (simp add: mem_sqlite_def mem_exec_def mem_texts)
next
  case (5 db i row)
  then show ?case
    by (simp add: mem_sqlite_def mem_exec_def mem_texts mem_select_def mem_outcome_def)
next
  case (6 db i)
  then show ?case
    by (simp add: mem_sqlite_def mem_exec_def mem_texts mem_select_def mem_outcome_def)
next
  case (7 db i row d w)
  then show ?case by (simp add: mem_sqlite_def mem_data_def)
next
  case (8 db i row d n off)
  then show ?case by (simp add: mem_sqlite_def mem_data_def)
next
  case (9 db i row d x off)
  have row: "db ! (unat i - 1) = row" using 9(2) by (simp add: mem_row_def split: if_splits)
  show ?case
    using 9 row mem_row_update [OF 9(2)] by (simp add: mem_sqlite_def mem_data_def mem_ok_def)
qed (simp_all add: mem_sqlite_def)

end
