(* ===== verification/UBJ_Numbers.thy ===== *)
theory UBJ_Numbers
  imports UBJ_Value
begin

text \<open>
  The conversions of \<^verbatim>\<open>src/ubj/value.cpp\<close> to floating-point numbers: \<^verbatim>\<open>toFloat\<close> and
  \<^verbatim>\<open>toDouble\<close>, with the rounding of IEEE 754 to the nearest number and to even, which is what
  the compiler's conversions do.  A number too large becomes an infinity.
\<close>

section \<open>Rounding\<close>

fun bits_of :: "nat \<Rightarrow> nat" where
  "bits_of n = (if n = 0 then 0 else Suc (bits_of (n div 2)))"

declare bits_of.simps [simp del]

definition round_even :: "nat \<Rightarrow> nat \<Rightarrow> nat" where
  "round_even k m =
     (let q = m div 2 ^ k; r = m mod 2 ^ k
      in if 2 * r > 2 ^ k \<or> 2 * r = 2 ^ k \<and> odd q then q + 1 else q)"

text \<open>
  The bits of \<open>m * 2 ^ e\<close> below the sign: \<open>p\<close> bits of precision, \<open>emin\<close> the exponent of the
  smallest number.  A carry out of the fraction moves into the exponent field.
\<close>

definition fp_raw :: "nat \<Rightarrow> int \<Rightarrow> nat \<Rightarrow> int \<Rightarrow> nat" where
  "fp_raw p emin m e =
     (if m = 0 then 0
      else
        let u = max (e + int (bits_of m) - int p) emin
        in nat (u - emin) * 2 ^ (p - 1)
           + (if u \<le> e then m * 2 ^ nat (e - u) else round_even (nat (u - e)) m))"

definition f64_of :: "bool \<times> nat \<times> int \<Rightarrow> u64" where
  "f64_of = (\<lambda>(s, m, e).
     of_nat (of_bool s * 2 ^ 63 + min (fp_raw 53 (-1074) m e) (2047 * 2 ^ 52)))"

definition f32_of :: "bool \<times> nat \<times> int \<Rightarrow> u32" where
  "f32_of = (\<lambda>(s, m, e).
     of_nat (of_bool s * 2 ^ 31 + min (fp_raw 24 (-149) m e) (255 * 2 ^ 23)))"

section \<open>Conversions\<close>

text \<open>A NaN keeps its sign and the top of its fraction and becomes quiet.\<close>

definition quiet :: "nat \<Rightarrow> nat" where
  "quiet f = (if 0 < f mod 2 ^ 23 \<and> f mod 2 ^ 23 < 2 ^ 22 then f + 2 ^ 22 else f)"

definition f64_of_f32 :: "u32 \<Rightarrow> u64" where
  "f64_of_f32 w =
     (case f32_decode w of
        Some x \<Rightarrow> f64_of x
      | None \<Rightarrow> of_nat (of_bool (bit w 31) * 2 ^ 63 + 2047 * 2 ^ 52 + quiet (unat (w AND 0x7FFFFF)) * 2 ^ 29))"

definition f32_of_f64 :: "u64 \<Rightarrow> u32" where
  "f32_of_f64 w =
     (case f64_decode w of
        Some x \<Rightarrow> f32_of x
      | None \<Rightarrow>
          let f = unat (w AND 0xFFFFFFFFFFFFF); t = f div 2 ^ 29
          in of_nat (of_bool (bit w 63) * 2 ^ 31 + 255 * 2 ^ 23
               + (if f \<noteq> 0 \<and> t < 2 ^ 22 then t + 2 ^ 22 else t)))"

definition int_parts :: "int \<Rightarrow> bool \<times> nat \<times> int" where
  "int_parts i = (i < 0, nat \<bar>i\<bar>, 0)"

definition val_toDouble :: "val \<Rightarrow> u64 option" where
  "val_toDouble v =
     (case v_buffer v of
        None \<Rightarrow> Some 0
      | Some b \<Rightarrow>
          (case v_type v of
             UBJ_INT32 \<Rightarrow> map_option (\<lambda>w. f64_of (int_parts (sint w))) (le_load32 b)
           | UBJ_INT64 \<Rightarrow> map_option (\<lambda>w. f64_of (int_parts (sint w))) (le_load64 b)
           | UBJ_FLOAT32 \<Rightarrow> map_option f64_of_f32 (le_load32 b)
           | UBJ_FLOAT64 \<Rightarrow> le_load64 b
           | UBJ_BOOL_TRUE \<Rightarrow> Some (f64_of (int_parts 1))
           | _ \<Rightarrow> Some 0))"

definition val_toFloat :: "val \<Rightarrow> u32 option" where
  "val_toFloat v =
     (case v_buffer v of
        None \<Rightarrow> Some 0
      | Some b \<Rightarrow>
          (case v_type v of
             UBJ_INT32 \<Rightarrow> map_option (\<lambda>w. f32_of (int_parts (sint w))) (le_load32 b)
           | UBJ_INT64 \<Rightarrow> map_option (\<lambda>w. f32_of (int_parts (sint w))) (le_load64 b)
           | UBJ_FLOAT32 \<Rightarrow> le_load32 b
           | UBJ_FLOAT64 \<Rightarrow> map_option f32_of_f64 (le_load64 b)
           | UBJ_BOOL_TRUE \<Rightarrow> Some (f32_of (int_parts 1))
           | _ \<Rightarrow> Some 0))"

text \<open>On its own type the conversion is the bit pattern, which is all the writer uses.\<close>

lemma val_float_bits_toFloat: "v_type v = UBJ_FLOAT32 \<Longrightarrow> val_float_bits v = val_toFloat v"
  by (simp add: val_float_bits_def val_toFloat_def split: option.splits)

lemma val_double_bits_toDouble: "v_type v = UBJ_FLOAT64 \<Longrightarrow> val_double_bits v = val_toDouble v"
  by (simp add: val_double_bits_def val_toDouble_def split: option.splits)

section \<open>Lengths\<close>

lemma bits_of_bounds: "0 < m \<Longrightarrow> 0 < bits_of m \<and> 2 ^ (bits_of m - 1) \<le> m \<and> m < 2 ^ bits_of m"
proof (induction m rule: less_induct)
  case (less m)
  have b: "bits_of m = Suc (bits_of (m div 2))"
    using less.prems by (simp add: bits_of.simps [of m])
  show ?case
  proof (cases "m div 2 = 0")
    case True
    then have "m = 1" using less.prems by simp
    with b show ?thesis by (simp add: bits_of.simps [of 0])
  next
    case False
    then have "0 < bits_of (m div 2)" and l: "2 ^ (bits_of (m div 2) - 1) \<le> m div 2"
      and u: "m div 2 < 2 ^ bits_of (m div 2)"
      using less.IH [of "m div 2"] less.prems by auto
    then have "2 ^ bits_of (m div 2) = 2 * (2 :: nat) ^ (bits_of (m div 2) - 1)"
      by (metis Suc_diff_1 power_Suc)
    with l u show ?thesis unfolding b by simp linarith
  qed
qed

lemma bits_of_eqI:
  assumes "2 ^ k \<le> m" and "m < 2 ^ Suc k"
  shows "bits_of m = Suc k"
proof -
  have "0 < m" using assms(1) by (metis gr0I not_less zero_less_numeral zero_less_power)
  from bits_of_bounds [OF this] have b: "0 < bits_of m" "2 ^ (bits_of m - 1) \<le> m" "m < 2 ^ bits_of m" by auto
  have "2 ^ (bits_of m - 1) < (2 :: nat) ^ Suc k" using b(2) assms(2) by linarith
  then have "bits_of m - 1 < Suc k" by (metis nat_power_less_imp_less zero_less_numeral)
  moreover have "2 ^ k < (2 :: nat) ^ bits_of m" using assms(1) b(3) by linarith
  then have "k < bits_of m" by (metis nat_power_less_imp_less zero_less_numeral)
  ultimately show ?thesis using b(1) by linarith
qed

lemma bits_of_shift:
  assumes "0 < m"
  shows "bits_of (m * 2 ^ k) = bits_of m + k"
proof -
  from bits_of_bounds [OF assms] obtain l where l: "bits_of m = Suc l" "2 ^ l \<le> m" "m < 2 ^ Suc l"
    by (metis Suc_diff_1)
  then have "2 ^ (l + k) \<le> m * 2 ^ k" "m * 2 ^ k < 2 ^ Suc (l + k)"
    by (simp_all add: power_add)
  then have "bits_of (m * 2 ^ k) = Suc (l + k)" by (rule bits_of_eqI)
  with l(1) show ?thesis by simp
qed

lemma bits_of_le: "m < 2 ^ k \<Longrightarrow> bits_of m \<le> k"
proof (cases "m = 0")
  case False
  assume "m < 2 ^ k"
  with bits_of_bounds [of m] False have "2 ^ (bits_of m - 1) < (2 :: nat) ^ k" by (metis gr0I le_less_trans)
  then have "bits_of m - 1 < k" by (metis nat_power_less_imp_less zero_less_numeral)
  then show ?thesis by linarith
qed (simp add: bits_of.simps)

lemma round_even_exact: "round_even k (m * 2 ^ k) = m"
  by (simp add: round_even_def)

section \<open>Fields\<close>

lemma unat_of_nat_small:
  "n < 2 ^ 64 \<Longrightarrow> unat (of_nat n :: u64) = n" "n < 2 ^ 32 \<Longrightarrow> unat (of_nat n :: u32) = n"
  by (simp_all add: unsigned_of_nat take_bit_eq_mod)

lemma div_below_twice: "n < 2 * k \<Longrightarrow> n div k = of_bool (k \<le> n)" for n k :: nat
  by (auto simp: le_div_geq)

lemma div_mod_parts: "f < k \<Longrightarrow> (a * k + f) div k = a" "f < k \<Longrightarrow> (a * k + f) mod k = f" for a f k :: nat
  by auto

lemma fields64:
  fixes w :: u64
  shows "unat (drop_bit 52 w AND 0x7FF) = unat w div 2 ^ 52 mod 2 ^ 11"
    and "unat (w AND 0xFFFFFFFFFFFFF) = unat w mod 2 ^ 52"
    and "bit w 63 \<longleftrightarrow> 2 ^ 63 \<le> unat w"
proof -
  have "x AND mask 11 = x mod 2 ^ 11" "x AND mask 52 = x mod 2 ^ 52" for x :: u64
    by (simp_all only: take_bit_eq_mask [symmetric] take_bit_eq_mod)
  then have "x AND 0x7FF = x mod 2 ^ 11" "x AND 0xFFFFFFFFFFFFF = x mod 2 ^ 52" for x :: u64
    by (simp_all add: mask_eq_exp_minus_1)
  then show "unat (drop_bit 52 w AND 0x7FF) = unat w div 2 ^ 52 mod 2 ^ 11"
    and "unat (w AND 0xFFFFFFFFFFFFF) = unat w mod 2 ^ 52"
    by (simp_all add: drop_bit_eq_div unat_div_distrib unat_mod_distrib)
  have "bit w 63 \<longleftrightarrow> bit (unat w) 63" by (simp add: bit_unsigned_iff)
  also have "\<dots> \<longleftrightarrow> odd (unat w div 2 ^ 63)" by (rule bit_iff_odd)
  also have "unat w div 2 ^ 63 = of_bool (2 ^ 63 \<le> unat w)"
    by (rule div_below_twice) (use unsigned_less [of w] in simp)
  finally show "bit w 63 \<longleftrightarrow> 2 ^ 63 \<le> unat w" by simp
qed

lemma fields32:
  fixes w :: u32
  shows "unat (drop_bit 23 w AND 0xFF) = unat w div 2 ^ 23 mod 2 ^ 8"
    and "unat (w AND 0x7FFFFF) = unat w mod 2 ^ 23"
    and "bit w 31 \<longleftrightarrow> 2 ^ 31 \<le> unat w"
proof -
  have "x AND mask 8 = x mod 2 ^ 8" "x AND mask 23 = x mod 2 ^ 23" for x :: u32
    by (simp_all only: take_bit_eq_mask [symmetric] take_bit_eq_mod)
  then have "x AND 0xFF = x mod 2 ^ 8" "x AND 0x7FFFFF = x mod 2 ^ 23" for x :: u32
    by (simp_all add: mask_eq_exp_minus_1)
  then show "unat (drop_bit 23 w AND 0xFF) = unat w div 2 ^ 23 mod 2 ^ 8"
    and "unat (w AND 0x7FFFFF) = unat w mod 2 ^ 23"
    by (simp_all add: drop_bit_eq_div unat_div_distrib unat_mod_distrib)
  have "bit w 31 \<longleftrightarrow> bit (unat w) 31" by (simp add: bit_unsigned_iff)
  also have "\<dots> \<longleftrightarrow> odd (unat w div 2 ^ 31)" by (rule bit_iff_odd)
  also have "unat w div 2 ^ 31 = of_bool (2 ^ 31 \<le> unat w)"
    by (rule div_below_twice) (use unsigned_less [of w] in simp)
  finally show "bit w 31 \<longleftrightarrow> 2 ^ 31 \<le> unat w" by simp
qed

lemma f64_decode_parts:
  assumes "E < 2 ^ 11" and "f < 2 ^ 52"
  shows "f64_decode (of_nat (of_bool s * 2 ^ 63 + E * 2 ^ 52 + f)) =
    (if E = 2047 then None else if E = 0 then Some (s, f, -1074) else Some (s, f + 2 ^ 52, int E - 1075))"
    and "unat (of_nat (of_bool s * 2 ^ 63 + E * 2 ^ 52 + f) AND 0xFFFFFFFFFFFFF :: u64) = f"
    and "bit (of_nat (of_bool s * 2 ^ 63 + E * 2 ^ 52 + f) :: u64) 63 \<longleftrightarrow> s"
proof -
  define n :: nat where "n = of_bool s * 2 ^ 63 + E * 2 ^ 52 + f"
  have u: "unat (of_nat n :: u64) = n"
    by (rule unat_of_nat_small) (use assms in \<open>cases s; simp add: n_def\<close>)
  have n: "n = (of_bool s * 2 ^ 11 + E) * 2 ^ 52 + f" by (simp add: n_def algebra_simps)
  have E: "n div 2 ^ 52 = of_bool s * 2 ^ 11 + E" and f: "n mod 2 ^ 52 = f"
    unfolding n by (rule div_mod_parts, rule assms)+
  have E': "n div 2 ^ 52 mod 2 ^ 11 = E"
    unfolding E by (rule div_mod_parts) (rule assms)
  have s: "2 ^ 63 \<le> n \<longleftrightarrow> s"
    using assms by (cases s) (simp_all add: n_def)
  note facts = fields64 [of "of_nat n", unfolded u E' f s]
  show "unat (of_nat (of_bool s * 2 ^ 63 + E * 2 ^ 52 + f) AND 0xFFFFFFFFFFFFF :: u64) = f"
    and "bit (of_nat (of_bool s * 2 ^ 63 + E * 2 ^ 52 + f) :: u64) 63 \<longleftrightarrow> s"
    unfolding n_def [symmetric] by (rule facts(2), rule facts(3))
  show "f64_decode (of_nat (of_bool s * 2 ^ 63 + E * 2 ^ 52 + f)) =
    (if E = 2047 then None else if E = 0 then Some (s, f, -1074) else Some (s, f + 2 ^ 52, int E - 1075))"
    unfolding n_def [symmetric] f64_decode_def Let_def facts by (rule refl)
qed

section \<open>Exact conversions\<close>

text \<open>A number of at most 53 bits in the range of normal doubles keeps its value.\<close>

lemma f64_of_exact:
  assumes "0 < m" and "bits_of m \<le> 53" and "-1021 \<le> e + int (bits_of m)" and "e + int (bits_of m) \<le> 1024"
  shows "f64_decode (f64_of (s, m, e)) = Some (s, m * 2 ^ (53 - bits_of m), e + int (bits_of m) - 53)"
proof -
  let ?L = "bits_of m" and ?u = "e + int (bits_of m) - 53"
  let ?m = "m * 2 ^ (53 - ?L)"
  have "bits_of ?m = 53" using assms(1,2) by (simp add: bits_of_shift)
  moreover have "0 < ?m" using assms(1) by simp
  ultimately have m: "2 ^ 52 \<le> ?m" "?m < 2 ^ 53" using bits_of_bounds [of ?m] by simp_all
  obtain E where E: "nat (?u + 1074) = E" "E \<le> 2045" "int E = ?u + 1074" using assms(3,4) by simp
  have "max ?u (-1074) = ?u" "?u \<le> e" "nat (e - ?u) = 53 - ?L" "nat (?u - (-1074)) = E"
    using assms(2,3) E(1) by simp_all
  then have "fp_raw 53 (-1074) m e = E * 2 ^ 52 + ?m"
    using assms(1) by (simp only: fp_raw_def Let_def of_nat_numeral) simp
  also have "\<dots> = (E + 1) * 2 ^ 52 + (?m - 2 ^ 52)" using m(1) by simp
  finally have raw: "fp_raw 53 (-1074) m e = (E + 1) * 2 ^ 52 + (?m - 2 ^ 52)" .
  have le: "(E + 1) * 2 ^ 52 + (?m - 2 ^ 52) \<le> 2047 * 2 ^ 52"
    using E(2) m by simp
  have "f64_of (s, m, e) = of_nat (of_bool s * 2 ^ 63 + (E + 1) * 2 ^ 52 + (?m - 2 ^ 52))"
    unfolding f64_of_def case_prod_conv raw min_absorb1 [OF le] by (simp add: add.assoc)
  moreover have "E + 1 < 2 ^ 11" "?m - 2 ^ 52 < 2 ^ 52" using E(2) m by simp_all
  ultimately have "f64_decode (f64_of (s, m, e)) = Some (s, ?m - 2 ^ 52 + 2 ^ 52, int (E + 1) - 1075)"
    using E(2) by (simp only: f64_decode_parts(1)) simp
  with m(1) E(3) show ?thesis by simp
qed

text \<open>So an integer of at most 53 bits comes back from a double.\<close>

lemma float_to_int_scaled:
  assumes "l \<le> 53"
  shows "float_to_int k (Some (s, m * 2 ^ (53 - l), int l - 53)) =
    (let i = if s then - int m else int m in if - (2 ^ (k - 1)) \<le> i \<and> i < 2 ^ (k - 1) then Some i else None)"
proof -
  have "nat (- (int l - 53)) = 53 - l" "int (m * 2 ^ (53 - l)) div 2 ^ (53 - l) = int m"
    using assms by simp_all
  then have "(if 0 \<le> int l - 53 then int (m * 2 ^ (53 - l)) * 2 ^ nat (int l - 53)
      else int (m * 2 ^ (53 - l)) div 2 ^ nat (- (int l - 53))) = int m"
    using assms by auto
  then show ?thesis by (simp only: float_to_int_def bind.bind_lunit case_prod_conv Let_def)
qed

lemma float_to_int_exact:
  assumes "\<bar>i\<bar> < 2 ^ 53" and "- (2 ^ (k - 1)) \<le> i" and "i < 2 ^ (k - 1)"
  shows "float_to_int k (f64_decode (f64_of (int_parts i))) = Some i"
proof (cases "i = 0")
  case True
  have "f64_decode 0 = Some (False, 0, -1074)"
    using f64_decode_parts(1) [of 0 0 False] by simp
  with True assms show ?thesis
    by (simp add: int_parts_def f64_of_def fp_raw_def float_to_int_def)
next
  case False
  let ?m = "nat \<bar>i\<bar>"
  have m: "0 < ?m" "?m < 2 ^ 53" using False assms(1) by simp_all
  then have L: "bits_of ?m \<le> 53" by (intro bits_of_le)
  then have d: "f64_decode (f64_of (int_parts i)) = Some (i < 0, ?m * 2 ^ (53 - bits_of ?m), int (bits_of ?m) - 53)"
    unfolding int_parts_def using m(1) by (subst f64_of_exact) simp_all
  show ?thesis
    unfolding d float_to_int_scaled [OF L] using assms(2,3) by simp
qed

section \<open>A float through a double\<close>

lemma f32_parts:
  fixes w :: u32
  obtains s E f where "w = of_nat (of_bool s * 2 ^ 31 + E * 2 ^ 23 + f)" and "E < 2 ^ 8" and "f < 2 ^ 23"
    and "bit w 31 = s" and "unat (w AND 0x7FFFFF) = f" and "unat (drop_bit 23 w AND 0xFF) = E"
    and "f32_decode w = (if E = 255 then None else if E = 0 then Some (s, f, -149) else Some (s, f + 2 ^ 23, int E - 150))"
proof
  let ?E = "unat w div 2 ^ 23 mod 2 ^ 8" and ?f = "unat w mod 2 ^ 23" and ?s = "2 ^ 31 \<le> unat w"
  show "bit w 31 = ?s" "unat (w AND 0x7FFFFF) = ?f" "unat (drop_bit 23 w AND 0xFF) = ?E"
    by (rule fields32)+
  show "?E < 2 ^ 8" "?f < 2 ^ 23" by (rule mod_less_divisor, simp)+
  show "f32_decode w = (if ?E = 255 then None else if ?E = 0 then Some (?s, ?f, -149) else Some (?s, ?f + 2 ^ 23, int ?E - 150))"
    unfolding f32_decode_def Let_def fields32 by (rule refl)
  have "unat w div 2 ^ 31 = of_bool ?s"
    by (rule div_below_twice) (use unsigned_less [of w] in simp)
  then have "unat w div 2 ^ 23 div 2 ^ 8 = of_bool ?s"
    by (simp add: div_mult2_eq [symmetric])
  then have "unat w div 2 ^ 23 = of_bool ?s * 2 ^ 8 + ?E"
    by (metis div_mult_mod_eq)
  then have "unat w = (of_bool ?s * 2 ^ 8 + ?E) * 2 ^ 23 + ?f"
    by (metis div_mult_mod_eq)
  also have "\<dots> = of_bool ?s * 2 ^ 31 + ?E * 2 ^ 23 + ?f" by (simp add: algebra_simps)
  finally have n: "unat w = of_bool ?s * 2 ^ 31 + ?E * 2 ^ 23 + ?f" .
  show "w = of_nat (of_bool ?s * 2 ^ 31 + ?E * 2 ^ 23 + ?f)"
    by (subst n [symmetric]) simp
qed

lemma f32_of_scaled:
  assumes "0 < m" and "m < 2 ^ 24" and "-149 \<le> e" and "e \<le> 104" and "2 ^ 23 \<le> m \<or> e = -149"
  shows "f32_of (s, m * 2 ^ (53 - bits_of m), e + int (bits_of m) - 53)
    = of_nat (of_bool s * 2 ^ 31 + nat (e + 149) * 2 ^ 23 + m)"
proof -
  let ?L = "bits_of m"
  have L: "?L \<le> 24" "2 ^ 23 \<le> m \<longrightarrow> ?L = 24"
    using bits_of_le [OF assms(2)] bits_of_eqI [of 23 m] assms(2) by simp_all
  let ?e = "e + int ?L - 53" and ?m = "m * 2 ^ (53 - ?L)"
  have b: "bits_of ?m = 53" using assms(1) L(1) by (simp add: bits_of_shift)
  have u: "max (?e + int (bits_of ?m) - int 24) (-149) = e" "\<not> e \<le> ?e" "nat (e - ?e) = 53 - ?L"
    "nat (e - (-149)) = nat (e + 149)"
    using L assms(3,5) unfolding b by auto
  have "?m \<noteq> 0" using assms(1) by simp
  then have raw: "fp_raw 24 (-149) ?m ?e = nat (e + 149) * 2 ^ 23 + m"
    using u by (simp only: fp_raw_def Let_def if_False round_even_exact) simp
  have "nat (e + 149) \<le> 253" using assms(4) by simp
  then have le: "nat (e + 149) * 2 ^ 23 + m \<le> 255 * 2 ^ 23" using assms(2) by simp
  show ?thesis
    unfolding f32_of_def case_prod_conv raw min_absorb1 [OF le] by (simp add: add.assoc)
qed

lemma f32_finite_roundtrip:
  assumes "f32_decode w = Some (s, m, e)"
  shows "f32_of_f64 (f64_of_f32 w) = w"
proof -
  obtain s' E f where w: "w = of_nat (of_bool s' * 2 ^ 31 + E * 2 ^ 23 + f)" "E < 2 ^ 8" "f < 2 ^ 23"
    and d: "f32_decode w = (if E = 255 then None else if E = 0 then Some (s', f, -149) else Some (s', f + 2 ^ 23, int E - 150))"
    by (rule f32_parts [of w])
  have E: "E \<noteq> 255" and s: "s' = s" and m: "m = (if E = 0 then f else f + 2 ^ 23)"
    and e: "e = (if E = 0 then -149 else int E - 150)"
    using assms d by (auto split: if_splits)
  have out: "f64_of_f32 w = f64_of (s, m, e)" by (simp add: f64_of_f32_def assms)
  show ?thesis
  proof (cases "m = 0")
    case True
    then have "E = 0" "f = 0" using m by (auto split: if_splits)
    have "f64_of_f32 w = of_nat (of_bool s * 2 ^ 63 + 0 * 2 ^ 52 + 0)"
      unfolding out using True by (simp add: f64_of_def fp_raw_def)
    then have "f64_decode (f64_of_f32 w) = Some (s, 0, -1074)"
      using f64_decode_parts(1) [of 0 0 s] by simp
    then show ?thesis
      using w(1) \<open>E = 0\<close> \<open>f = 0\<close> s by (simp add: f32_of_f64_def f32_of_def fp_raw_def)
  next
    case False
    have p: "0 < m" "m < 2 ^ 24" "-149 \<le> e" "e \<le> 104" "2 ^ 23 \<le> m \<or> e = -149"
      using False m e E w(2,3) by (auto split: if_splits)
    have L: "0 < bits_of m" "bits_of m \<le> 24" using bits_of_bounds [OF p(1)] bits_of_le [OF p(2)] by auto
    have "f64_decode (f64_of_f32 w) = Some (s, m * 2 ^ (53 - bits_of m), e + int (bits_of m) - 53)"
      unfolding out by (rule f64_of_exact) (use p L in simp_all)
    then have "f32_of_f64 (f64_of_f32 w) = of_nat (of_bool s * 2 ^ 31 + nat (e + 149) * 2 ^ 23 + m)"
      by (simp only: f32_of_f64_def option.case f32_of_scaled [OF p])
    moreover have "nat (e + 149) * 2 ^ 23 + m = E * 2 ^ 23 + f"
      using m e by (cases E) simp_all
    ultimately show ?thesis by (simp only: add.assoc w(1) s)
  qed
qed

text \<open>
  Infinities and NaNs.  So the detour of \<open>f32_via_double\<close>, which the reader takes, is the two
  conversions one after the other.
\<close>

lemma bit22:
  assumes "w = of_nat (of_bool s * 2 ^ 31 + E * 2 ^ 23 + f)" and "E < 2 ^ 8" and "f < 2 ^ 23"
  shows "bit (w :: u32) 22 \<longleftrightarrow> 2 ^ 22 \<le> f"
    and "w OR 0x400000 = (if 2 ^ 22 \<le> f then w else of_nat (of_bool s * 2 ^ 31 + E * 2 ^ 23 + (f + 2 ^ 22)))"
proof -
  have u: "unat w = of_bool s * 2 ^ 31 + E * 2 ^ 23 + f"
    unfolding assms(1) by (rule unat_of_nat_small) (use assms(2,3) in \<open>cases s; simp\<close>)
  have "unat w = (of_bool s * 2 ^ 9 + E * 2) * 2 ^ 22 + f" unfolding u by (simp add: algebra_simps)
  then have "unat w div 2 ^ 22 = of_bool s * 2 ^ 9 + E * 2 + f div 2 ^ 22" by simp
  also have "f div 2 ^ 22 = of_bool (2 ^ 22 \<le> f)" by (rule div_below_twice) (use assms(3) in simp)
  finally have "odd (unat w div 2 ^ 22) \<longleftrightarrow> 2 ^ 22 \<le> f" by simp
  moreover have "bit w 22 \<longleftrightarrow> bit (unat w) 22" by (simp add: bit_unsigned_iff)
  ultimately show b: "bit w 22 \<longleftrightarrow> 2 ^ 22 \<le> f" by (simp only: bit_iff_odd)
  have q: "bit (0x400000 :: u32) n \<longleftrightarrow> n = 22" for n
  proof -
    have "0x400000 = (2 ^ 22 :: u32)" by simp
    then show ?thesis by (simp only: bit_exp_iff possible_bit_word) auto
  qed
  show "w OR 0x400000 = (if 2 ^ 22 \<le> f then w else of_nat (of_bool s * 2 ^ 31 + E * 2 ^ 23 + (f + 2 ^ 22)))"
  proof (cases "2 ^ 22 \<le> f")
    case True
    with b have "w OR 0x400000 = w"
      by (intro bit_eqI) (auto simp only: bit_or_iff q)
    with True show ?thesis by simp
  next
    case False
    with b have "w AND 0x400000 = 0"
      by (intro bit_eqI) (simp only: bit_and_iff q, auto)
    then have "w OR 0x400000 = w + 0x400000" by (rule disjunctive_add_eq_or [symmetric])
    with False show ?thesis by (simp add: assms(1))
  qed
qed

lemma exponent_ones: "w AND 0x7F800000 = 0x7F800000 \<longleftrightarrow> unat (drop_bit 23 w AND 0xFF) = 255" for w :: u32
proof -
  have q: "0x7F800000 = (push_bit 23 (mask 8) :: u32)" "0xFF = (mask 8 :: u32)"
    by (simp_all add: mask_eq_exp_minus_1)
  have "w AND push_bit 23 (mask 8) = push_bit 23 (mask 8) \<longleftrightarrow> drop_bit 23 w AND mask 8 = mask 8"
  proof
    assume h: "w AND push_bit 23 (mask 8) = push_bit 23 (mask 8)"
    show "drop_bit 23 w AND mask 8 = mask 8"
    proof (rule bit_eqI)
      fix n
      have "bit (w AND push_bit 23 (mask 8)) (n + 23) = bit (push_bit 23 (mask 8) :: u32) (n + 23)" by (simp only: h)
      then show "bit (drop_bit 23 w AND mask 8) n = bit (mask 8 :: u32) n"
        by (auto simp: bit_simps add.commute)
    qed
  next
    assume h: "drop_bit 23 w AND mask 8 = mask 8"
    show "w AND push_bit 23 (mask 8) = push_bit 23 (mask 8)"
    proof (rule bit_eqI)
      fix n
      have "bit (drop_bit 23 w AND mask 8) (n - 23) = bit (mask 8 :: u32) (n - 23)" by (simp only: h)
      then show "bit (w AND push_bit 23 (mask 8)) n = bit (push_bit 23 (mask 8) :: u32) n"
        by (auto simp: bit_simps)
    qed
  qed
  moreover have "drop_bit 23 w AND mask 8 = mask 8 \<longleftrightarrow> unat (drop_bit 23 w AND mask 8) = 255"
    by (simp add: word_unat_eq_iff mask_eq_exp_minus_1)
  ultimately show ?thesis unfolding q by simp
qed

lemma f32_of_f64_of_f32: "f32_of_f64 (f64_of_f32 w) = f32_via_double w"
proof (cases "f32_decode w")
  case (Some x)
  then show ?thesis
    using f32_finite_roundtrip exponent_ones
    by (cases x) (auto simp: f32_via_double_def f32_decode_def Let_def)
next
  case None
  obtain s E f where w: "w = of_nat (of_bool s * 2 ^ 31 + E * 2 ^ 23 + f)" "E < 2 ^ 8" "f < 2 ^ 23"
    and p: "bit w 31 = s" "unat (w AND 0x7FFFFF) = f" "unat (drop_bit 23 w AND 0xFF) = E"
    and d: "f32_decode w = (if E = 255 then None else if E = 0 then Some (s, f, -149) else Some (s, f + 2 ^ 23, int E - 150))"
    by (rule f32_parts [of w])
  have E: "E = 255" using None d by (auto split: if_splits)
  have q: "quiet f < 2 ^ 23" "quiet f < 2 ^ 22 \<longleftrightarrow> quiet f = 0"
    using w(3) by (auto simp: quiet_def)
  have out: "f64_of_f32 w = of_nat (of_bool s * 2 ^ 63 + 2047 * 2 ^ 52 + quiet f * 2 ^ 29)"
    by (simp only: f64_of_f32_def None option.case p)
  have b: "(2047 :: nat) < 2 ^ 11" "quiet f * 2 ^ 29 < 2 ^ 52" using q(1) by simp_all
  have "f32_of_f64 (f64_of_f32 w) = of_nat (of_bool s * 2 ^ 31 + 255 * 2 ^ 23 + quiet f)"
    unfolding out f32_of_f64_def Let_def f64_decode_parts [OF b] using q by (cases "quiet f = 0") simp_all
  moreover have "f32_via_double w = of_nat (of_bool s * 2 ^ 31 + 255 * 2 ^ 23 + quiet f)"
  proof -
    have n: "w AND 0x7FFFFF \<noteq> 0 \<longleftrightarrow> f \<noteq> 0" using p(2) by (simp add: word_unat_eq_iff)
    show ?thesis
      unfolding f32_via_double_def exponent_ones p(3) n bit22(2) [OF w] using w(1,3) E
      by (auto simp: quiet_def)
  qed
  ultimately show ?thesis by simp
qed

lemma int32_through_double:
  "\<exists>d. val_toDouble (val_int32 i) = Some d \<and> val_toInt (val_double d) = Some i"
proof -
  have r: "- (2 ^ (32 - 1)) \<le> sint i" "sint i < 2 ^ (32 - 1)"
    using sint_range_size [of i] by (simp_all add: word_size)
  moreover from r have "\<bar>sint i\<bar> < 2 ^ 53" by (simp add: abs_less_iff)
  ultimately have "float_to_int 32 (f64_decode (f64_of (int_parts (sint i)))) = Some (sint i)"
    by (intro float_to_int_exact)
  then show ?thesis
    by (simp add: val_toDouble_def val_toInt_def val_int32_def val_double_def)
qed

lemma int64_through_double:
  assumes "\<bar>sint l\<bar> < 2 ^ 53"
  shows "\<exists>d. val_toDouble (val_int64 l) = Some d \<and> val_toLong (val_double d) = Some l"
proof -
  have "- (2 ^ (64 - 1)) \<le> sint l" "sint l < 2 ^ (64 - 1)"
    using sint_range_size [of l] by (simp_all add: word_size)
  with assms have "float_to_int 64 (f64_decode (f64_of (int_parts (sint l)))) = Some (sint l)"
    by (rule float_to_int_exact)
  then show ?thesis
    by (simp add: val_toDouble_def val_toLong_def val_int64_def val_double_def)
qed

lemma float_through_double:
  "\<exists>d. val_toDouble (val_float w) = Some d \<and> val_toFloat (val_double d) = Some (f32_via_double w)"
  by (simp add: val_toDouble_def val_toFloat_def val_float_def val_double_def f32_of_f64_of_f32)

lemma f32_via_double_finite: "f32_decode w \<noteq> None \<Longrightarrow> f32_via_double w = w"
  using f32_finite_roundtrip by (auto simp flip: f32_of_f64_of_f32)

text \<open>The bound is sharp: the next integer is rounded to its neighbour.\<close>

lemma beyond_the_fraction:
  "val_toDouble (val_int64 0x20000000000001) = val_toDouble (val_int64 0x20000000000000)"
proof -
  have b: "bits_of 0x20000000000001 = Suc 53" "bits_of 0x20000000000000 = Suc 53"
    by (rule bits_of_eqI; simp)+
  have "fp_raw 53 (-1074) 0x20000000000001 0 = fp_raw 53 (-1074) 0x20000000000000 0"
    by (simp add: fp_raw_def b round_even_def)
  then show ?thesis by (simp add: val_toDouble_def val_int64_def int_parts_def f64_of_def)
qed

end
