(* ===== verification/Store_Module.thy ===== *)
theory Store_Module
  imports Store_Blob UBJ_Numbers
begin

text \<open>
  The virtual tables of \<^verbatim>\<open>ubj/store/module.cpp\<close>: rows are the objects in the blobs of one
  table whose field \<open>_$type\<close> is the module's type.  An index maps the text of a field's value
  to the ids of the blobs that have it.  sqlite calls the \<^verbatim>\<open>x...\<close> functions; values passed
  to and from it are \<^typ>\<open>sql_val\<close>s.  \<^const>\<open>None\<close> is undefined behaviour.
\<close>

record vmodule =
  vm_type :: u32
  vm_blobTable :: string
  vm_columns :: "string list"
  vm_ids :: "val list"
  vm_indexes :: "(string \<times> val) list"
  vm_hitmap :: "(string \<times> val) list"
  vm_sql :: string

definition vm_new :: vmodule where
  "vm_new = \<lparr>vm_type = 0, vm_blobTable = [], vm_columns = [], vm_ids = [], vm_indexes = [], vm_hitmap = [],
     vm_sql = []\<rparr>"

section \<open>Index tables\<close>

text \<open>The loop of \<^verbatim>\<open>hasIndexItem\<close>; it stops at the first hit.\<close>

primrec items_have :: "u32 \<Rightarrow> val list \<Rightarrow> bool option" where
  "items_have i [] = Some False"
| "items_have i (v # vs) = do { n \<leftarrow> val_toInt v; if n = i then Some True else items_have i vs }"

definition hasIndexItem :: "(string \<times> val) list \<Rightarrow> string \<Rightarrow> u32 \<Rightarrow> bool option" where
  "hasIndexItem index k i =
     (if obj_hasField index k \<and> v_type (obj_get index k) = UBJ_ARRAY
      then do { vs \<leftarrow> v_arr (obj_get index k); items_have i vs }
      else Some False)"

definition addIndexItem :: "(string \<times> val) list \<Rightarrow> string \<Rightarrow> u32 \<Rightarrow> (string \<times> val) list option" where
  "addIndexItem index k i =
     (if \<not> obj_hasField index k then Some (obj_setField k (val_of_arr [val_int32 i]) index)
      else do {
        h \<leftarrow> hasIndexItem index k i;
        if h then Some index
        else do {
          vs \<leftarrow> v_arr (obj_get index k);
          Some (obj_setField k (Val (v_type (obj_get index k)) (v_buffer (obj_get index k))
                  (v_obj (obj_get index k)) (Some (arr_push vs (val_int32 i)))) index) } })"

primrec items_without :: "u32 \<Rightarrow> val list \<Rightarrow> val list option" where
  "items_without i [] = Some []"
| "items_without i (v # vs) = do {
     n \<leftarrow> val_toInt v;
     rest \<leftarrow> items_without i vs;
     Some (if n \<noteq> i then v # rest else rest) }"

definition removeIndexItem :: "(string \<times> val) list \<Rightarrow> string \<Rightarrow> u32 \<Rightarrow> (string \<times> val) list option" where
  "removeIndexItem index k i =
     (if obj_hasField index k \<and> v_type (obj_get index k) = UBJ_ARRAY
      then do {
        vs \<leftarrow> v_arr (obj_get index k);
        ids \<leftarrow> items_without i vs;
        Some (if ids = [] then omap_erase k (obj_setField k (val_of_arr ids) index)
              else obj_setField k (val_of_arr ids) index) }
      else Some (omap_erase k index))"

definition getIndex :: "string \<Rightarrow> vmodule \<Rightarrow> (string \<times> val) list \<Rightarrow> bool \<times> (string \<times> val) list" where
  "getIndex column m index =
     (if obj_hasField (vm_indexes m) column then (True, val_toObject (obj_get (vm_indexes m) column))
      else (False, index))"

section \<open>Building an index\<close>

text \<open>
  \<open>get\<close> stands for \<^verbatim>\<open>m_store->getBlobData(m_blobTable, id)\<close> followed by
  \<^verbatim>\<open>Value::read\<close>; \<^verbatim>\<open>uint32_t id = v.toInt()\<close> cuts the id.
\<close>

type_synonym 'db blob_getter = "u64 \<Rightarrow> 'db \<Rightarrow> ((string \<times> val) list option \<times> 'db) option"

definition vm_getBlob ::
    "(ubj_type \<Rightarrow> bytes \<Rightarrow> string) \<Rightarrow> 'db sqlite \<Rightarrow> 'k store_cipher \<Rightarrow> string \<Rightarrow> 'db blob_getter" where
  "vm_getBlob fmt sq sc table i db = do {
     (found, ob, db1) \<leftarrow> st_getBlobObject fmt sq sc table i [] db;
     Some (if found then Some ob else None, db1) }"

primrec index_blobs ::
    "(ubj_type \<Rightarrow> bytes \<Rightarrow> string) \<Rightarrow> 'db blob_getter \<Rightarrow> string \<Rightarrow> val list \<Rightarrow> (string \<times> val) list \<Rightarrow> 'db
     \<Rightarrow> ((string \<times> val) list \<times> 'db) option" where
  "index_blobs fmt get column [] res db = Some (res, db)"
| "index_blobs fmt get column (v # vs) res db = do {
     i \<leftarrow> val_toInt v;
     (ob, db1) \<leftarrow> get (ucast i) db;
     res1 \<leftarrow> (case ob of
                Some ob' \<Rightarrow>
                  if obj_hasField ob' column
                  then do { s \<leftarrow> val_toStr fmt (obj_get ob' column); addIndexItem res s i }
                  else Some res
              | None \<Rightarrow> Some res);
     index_blobs fmt get column vs res1 db1 }"

definition createIndex ::
    "(ubj_type \<Rightarrow> bytes \<Rightarrow> string) \<Rightarrow> 'db sqlite \<Rightarrow> 'k store_cipher \<Rightarrow> vmodule \<Rightarrow> string \<Rightarrow> val list \<Rightarrow> 'db
     \<Rightarrow> ((string \<times> val) list \<times> 'db) option" where
  "createIndex fmt sq sc m column ids db = do {
     (blobIds, db1) \<leftarrow> (if ids \<noteq> [] then Some (ids, db) else st_getBlobIds fmt sq (vm_blobTable m) db);
     index_blobs fmt (vm_getBlob fmt sq sc (vm_blobTable m)) column blobIds [] db1 }"

primrec index_columns ::
    "(ubj_type \<Rightarrow> bytes \<Rightarrow> string) \<Rightarrow> 'db sqlite \<Rightarrow> 'k store_cipher \<Rightarrow> vmodule \<Rightarrow> val list \<Rightarrow> string list
     \<Rightarrow> (string \<times> val) list \<Rightarrow> 'db \<Rightarrow> ((string \<times> val) list \<times> 'db) option" where
  "index_columns fmt sq sc m ids [] indexes db = Some (indexes, db)"
| "index_columns fmt sq sc m ids (c # cs) indexes db = do {
     (indexes1, db1) \<leftarrow>
       (if obj_hasField indexes c then Some (indexes, db)
        else do { (ix, db') \<leftarrow> createIndex fmt sq sc m c ids db;
                  Some (obj_setField c (val_of_obj ix) indexes, db') });
     index_columns fmt sq sc m ids cs indexes1 db1 }"

definition createIndexes ::
    "(ubj_type \<Rightarrow> bytes \<Rightarrow> string) \<Rightarrow> 'db sqlite \<Rightarrow> 'k store_cipher \<Rightarrow> vmodule \<Rightarrow> (string \<times> val) list
     \<Rightarrow> val list \<Rightarrow> 'db \<Rightarrow> ((string \<times> val) list \<times> 'db) option" where
  "createIndexes fmt sq sc m indexes ids db = index_columns fmt sq sc m ids (vm_columns m) indexes db"

text \<open>\<^verbatim>\<open>updateIds\<close>: the ids of the blobs of the module's type.\<close>

definition vm_type_key :: "vmodule \<Rightarrow> string" where
  "vm_type_key m = int_to_string (sint (vm_type m))"

definition updateIds ::
    "(ubj_type \<Rightarrow> bytes \<Rightarrow> string) \<Rightarrow> 'db sqlite \<Rightarrow> 'k store_cipher \<Rightarrow> vmodule \<Rightarrow> 'db \<Rightarrow> (vmodule \<times> 'db) option" where
  "updateIds fmt sq sc m db = do {
     (ids, db1) \<leftarrow> st_getBlobIds fmt sq (vm_blobTable m) db;
     (index, db2) \<leftarrow> createIndex fmt sq sc m ''_$type'' ids db1;
     Some (m\<lparr>vm_ids := val_toArray (obj_get index (vm_type_key m))\<rparr>, db2) }"

section \<open>Creating the module\<close>

primrec vm_columns_text :: "(string \<times> string) list \<Rightarrow> string" where
  "vm_columns_text [] = []"
| "vm_columns_text (ct # cts) =
     ''`'' @ fst ct @ ''` '' @ snd ct @ (if cts \<noteq> [] then '','' @ vm_columns_text cts else [])"

definition vm_create ::
    "(ubj_type \<Rightarrow> bytes \<Rightarrow> string) \<Rightarrow> 'db sqlite \<Rightarrow> bool \<Rightarrow> string \<Rightarrow> u32 \<Rightarrow> bool \<Rightarrow> string list \<Rightarrow> string list
     \<Rightarrow> vmodule \<Rightarrow> 'db \<Rightarrow> (bool \<times> vmodule \<times> 'db) option" where
  "vm_create fmt sq registered blobTable typ index columns types m db =
     (if \<not> registered then Some (False, m, db)
      else if length types < length columns then None
      else do {
        let m1 = m\<lparr>vm_type := typ, vm_blobTable := blobTable, vm_columns := columns,
                   vm_sql := ''CREATE TABLE vtab ('' @ vm_columns_text (zip columns types) @ '')''\<rparr>;
        if index then Some (True, m1, db)
        else do {
          (ids, db1) \<leftarrow> st_getBlobIds fmt sq blobTable db;
          Some (True, m1\<lparr>vm_ids := ids\<rparr>, db1) } })"

section \<open>Choosing an index\<close>

text \<open>
  A constraint is its column, \<^const>\<open>None\<close> for the row id, and its operator.  The result has the
  number of the index, the position of the constraint passed to \<^verbatim>\<open>xFilter\<close> with its
  operator, and the estimate.
\<close>

record best_index =
  bi_idxNum :: int
  bi_arg :: "(nat \<times> nat) option"
  bi_rows :: "u64 option"

primrec best_loop ::
    "string list \<Rightarrow> (nat option \<times> nat) list \<Rightarrow> nat \<Rightarrow> int \<times> nat \<times> u32 \<times> u64 option \<Rightarrow> (string \<times> val) list
     \<Rightarrow> ((int \<times> nat \<times> u32 \<times> u64 option) \<times> (string \<times> val) list) option" where
  "best_loop cols [] i st hm = Some (st, hm)"
| "best_loop cols (c # cs) i st hm =
     (case st of (idx, ix, numValues, est) \<Rightarrow>
       (case fst c of
          None \<Rightarrow> best_loop cols cs (Suc i) (- 1, i, numValues, est) hm
        | Some n \<Rightarrow>
            if length cols \<le> n then None
            else do {
              hits \<leftarrow> val_toInt (obj_get hm (cols ! n));
              let hm1 = (if obj_hasField hm (cols ! n) then hm else obj_setField (cols ! n) val_null hm);
              best_loop cols cs (Suc i)
                (if hits \<noteq> 0 \<and> (numValues = 0 \<or> hits < numValues)
                 then (int n + 1, i, hits, Some (scast hits)) else st) hm1 }))"

definition xBestIndex :: "(nat option \<times> nat) list \<Rightarrow> vmodule \<Rightarrow> (best_index \<times> vmodule) option" where
  "xBestIndex cs m = do {
     ((idx, ix, _, est), hm) \<leftarrow> best_loop (vm_columns m) cs 0 (0, 0, 0, None) (vm_hitmap m);
     Some (\<lparr>bi_idxNum = idx, bi_arg = (if idx \<noteq> 0 then Some (ix, snd (cs ! ix)) else None), bi_rows = est\<rparr>,
           m\<lparr>vm_hitmap := hm\<rparr>) }"

section \<open>Cursors\<close>

record vcursor =
  vc_rowIds :: "u32 list"
  vc_rows :: "(string \<times> val) list list"
  vc_pos :: nat

definition xOpen :: vcursor where
  "xOpen = \<lparr>vc_rowIds = [], vc_rows = [], vc_pos = 0\<rparr>"

definition xEof :: "vcursor \<Rightarrow> bool" where
  "xEof c \<longleftrightarrow> \<not> vc_pos c < length (vc_rows c)"

definition xNext :: "vcursor \<Rightarrow> vcursor" where
  "xNext c = c\<lparr>vc_pos := vc_pos c + 1\<rparr>"

definition xRowid :: "vcursor \<Rightarrow> u32 option" where
  "xRowid c = (if vc_pos c < length (vc_rowIds c) then Some (vc_rowIds c ! vc_pos c) else None)"

text \<open>The operators of a constraint: \<^verbatim>\<open>SQLITE_INDEX_CONSTRAINT_EQ\<close> and so on.\<close>

definition int_matches :: "nat \<Rightarrow> u64 \<Rightarrow> u64 \<Rightarrow> bool" where
  "int_matches op a b \<longleftrightarrow>
     (op = 2 \<and> a = b) \<or> (op = 4 \<and> a > b) \<or> (op = 8 \<and> a \<le> b) \<or> (op = 16 \<and> a < b) \<or> (op = 32 \<and> a \<ge> b)"

definition text_matches :: "nat \<Rightarrow> string \<Rightarrow> string \<Rightarrow> bool" where
  "text_matches op a b \<longleftrightarrow>
     (op = 2 \<and> a = b) \<or> (op = 4 \<and> a > b) \<or> (op = 8 \<and> a \<le> b) \<or> (op = 16 \<and> a < b) \<or> (op = 32 \<and> a \<ge> b)"

text \<open>The ids under the keys that match.\<close>

primrec ids_matching :: "(string \<Rightarrow> bool option) \<Rightarrow> (string \<times> val) list \<Rightarrow> val list option" where
  "ids_matching P [] = Some []"
| "ids_matching P (kv # kvs) = do {
     hit \<leftarrow> P (fst kv);
     here \<leftarrow> (if hit then v_arr (snd kv) else Some []);
     rest \<leftarrow> ids_matching P kvs;
     Some (here @ rest) }"

text \<open>
  The ids \<^verbatim>\<open>xFilter\<close> selects before it falls back to all of them.  The keys are texts, and
  \<^verbatim>\<open>Value(text).toInt()\<close> is 0.
\<close>

definition filter_ids ::
    "(ubj_type \<Rightarrow> bytes \<Rightarrow> string) \<Rightarrow> int \<Rightarrow> nat \<Rightarrow> sql_val list \<Rightarrow> vmodule \<Rightarrow> (val list \<times> vmodule) option" where
  "filter_ids fmt idxNum op argv m =
     (if idxNum = - 1 then
        (if op = 2 then
           (case argv of SQ_Int w # _ \<Rightarrow> Some ([val_int64 w], m) | _ # _ \<Rightarrow> Some ([val_int64 0], m) | [] \<Rightarrow> None)
         else Some ([], m))
      else if idxNum > 0 then
        (if length (vm_columns m) < nat idxNum \<or> argv = [] then None
         else do {
           let key = vm_columns m ! nat (idxNum - 1);
           let m1 = (if obj_hasField (vm_indexes m) key then m
                     else m\<lparr>vm_indexes := obj_setField key val_null (vm_indexes m)\<rparr>);
           let index = val_toObject (obj_get (vm_indexes m) key);
           ids \<leftarrow> (case hd argv of
                     SQ_Int w \<Rightarrow> do {
                       ids0 \<leftarrow> ids_matching (\<lambda>k. do { v \<leftarrow> val_of_string k; n \<leftarrow> val_toInt v;
                                                  Some (int_matches op (scast n) w) }) index;
                       s \<leftarrow> val_toStr fmt (val_int64 w);
                       Some (if ids0 = [] then val_toArray (obj_get index s) else ids0) }
                   | SQ_Text t \<Rightarrow>
                       if op \<in> {64, 65, 66, 67} then Some []
                       else do {
                         let w = string_of_bytes (c_str t);
                         ids0 \<leftarrow> ids_matching (\<lambda>k. Some (text_matches op k w)) index;
                         Some (if ids0 = [] then val_toArray (obj_get index w) else ids0) }
                   | _ \<Rightarrow> Some []);
           Some (ids, m1) })
      else Some ([], m))"

primrec filter_rows :: "'db blob_getter \<Rightarrow> val list \<Rightarrow> 'db \<Rightarrow> ((u32 \<times> (string \<times> val) list) list \<times> 'db) option" where
  "filter_rows get [] db = Some ([], db)"
| "filter_rows get (v # vs) db = do {
     i \<leftarrow> val_toInt v;
     (ob, db1) \<leftarrow> get (ucast i) db;
     (rest, db2) \<leftarrow> filter_rows get vs db1;
     Some (case ob of Some ob' \<Rightarrow> (i, ob') # rest | None \<Rightarrow> rest, db2) }"

definition xFilter ::
    "(ubj_type \<Rightarrow> bytes \<Rightarrow> string) \<Rightarrow> 'db sqlite \<Rightarrow> 'k store_cipher \<Rightarrow> int \<Rightarrow> nat \<Rightarrow> sql_val list \<Rightarrow> vmodule \<Rightarrow> 'db
     \<Rightarrow> (vcursor \<times> vmodule \<times> 'db) option" where
  "xFilter fmt sq sc idxNum op argv m db = do {
     (ids, m1) \<leftarrow> filter_ids fmt idxNum op argv m;
     (rs, db1) \<leftarrow> filter_rows (vm_getBlob fmt sq sc (vm_blobTable m1)) (if ids = [] then vm_ids m1 else ids) db;
     Some (\<lparr>vc_rowIds = map fst rs, vc_rows = map snd rs, vc_pos = 0\<rparr>, m1, db1) }"

definition xColumn :: "nat \<Rightarrow> vmodule \<Rightarrow> vcursor \<Rightarrow> sql_val option" where
  "xColumn n m c =
     (if length (vc_rows c) \<le> vc_pos c \<or> length (vm_columns m) \<le> n then None
      else
        let ob = vc_rows c ! vc_pos c; key = vm_columns m ! n; v = obj_get ob key
        in if \<not> obj_hasField ob key then Some SQ_Null
           else (case v_type v of
               UBJ_OBJECT \<Rightarrow> map_option (\<lambda>b. case b of Some d \<Rightarrow> SQ_Blob (mb_bytes d) | None \<Rightarrow> SQ_Null) (writer_write v)
             | UBJ_ARRAY \<Rightarrow> map_option (\<lambda>b. case b of Some d \<Rightarrow> SQ_Blob (mb_bytes d) | None \<Rightarrow> SQ_Null) (writer_write v)
             | UBJ_INT32 \<Rightarrow> map_option (\<lambda>w. SQ_Int (scast w)) (val_toInt v)
             | UBJ_INT64 \<Rightarrow> map_option SQ_Int (val_toLong v)
             | UBJ_FLOAT32 \<Rightarrow> map_option (\<lambda>w. SQ_Real (f64_of_f32 w)) (val_float_bits v)
             | UBJ_FLOAT64 \<Rightarrow> map_option SQ_Real (val_double_bits v)
             | UBJ_STRING \<Rightarrow> Some (SQ_Text (case v_buffer v of Some b \<Rightarrow> b | None \<Rightarrow> []))
             | _ \<Rightarrow> Some SQ_Null))"

section \<open>Inserting\<close>

text \<open>
  \<^verbatim>\<open>xUpdate\<close>: only the insertion does something; \<open>args\<close> are the values behind the first two.
  Real and null values leave no field.
\<close>

definition update_field :: "string \<Rightarrow> sql_val \<Rightarrow> (string \<times> val) list \<Rightarrow> (string \<times> val) list option" where
  "update_field key x ob =
     (case x of
        SQ_Int w \<Rightarrow> Some (obj_setField key (val_int64 w) ob)
      | SQ_Text t \<Rightarrow> map_option (\<lambda>v. obj_setField key v ob) (val_of_c_string (Some t) 0)
      | SQ_Blob d \<Rightarrow> map_option (\<lambda>(_, v). obj_setField key v ob)
                      (reader_read (obj_get ob key) (if d = [] then None else Some d) (of_nat (length d)))
      | _ \<Rightarrow> Some ob)"

primrec update_fields :: "(string \<times> sql_val) list \<Rightarrow> (string \<times> val) list \<Rightarrow> (string \<times> val) list option" where
  "update_fields [] ob = Some ob"
| "update_fields (kx # kxs) ob = do { ob1 \<leftarrow> update_field (fst kx) (snd kx) ob; update_fields kxs ob1 }"

definition xUpdate ::
    "(ubj_type \<Rightarrow> bytes \<Rightarrow> string) \<Rightarrow> 'db sqlite \<Rightarrow> 'k store_cipher \<Rightarrow> bytes option \<Rightarrow> sql_val list \<Rightarrow> vmodule
     \<Rightarrow> 'db \<Rightarrow> (u64 option \<times> 'db) option" where
  "xUpdate fmt sq sc rnd argv m db =
     (case argv of
        SQ_Null # _ # args \<Rightarrow>
          if length (vm_columns m) < length args then None
          else do {
            ob \<leftarrow> update_fields (zip (vm_columns m) args) [];
            let ob1 = obj_setField ''_$type'' (val_int32 (vm_type m)) ob;
            data \<leftarrow> writer_write (val_of_obj ob1);
            (case data of
               None \<Rightarrow> Some (None, db)
             | Some d \<Rightarrow> do {
                 (i, db1) \<leftarrow> st_createBlob fmt sq sc rnd (vm_blobTable m) (Some d) True db;
                 Some (if i = 0 then None else Some i, db1) }) }
      | _ \<Rightarrow> Some (None, db))"

section \<open>Index tables as finite multimaps\<close>

text \<open>
  What the module relies on: an index maps each key to the list of ids added under it, each
  once and in the order of addition, minus those removed.
\<close>

locale index_table =
  fixes has :: "'ix \<Rightarrow> string \<Rightarrow> u32 \<Rightarrow> bool option"
    and add :: "'ix \<Rightarrow> string \<Rightarrow> u32 \<Rightarrow> 'ix option"
    and rem :: "'ix \<Rightarrow> string \<Rightarrow> u32 \<Rightarrow> 'ix option"
    and ids :: "'ix \<Rightarrow> string \<Rightarrow> u32 list"
    and ok :: "'ix \<Rightarrow> bool"
    and none :: 'ix
  assumes none: "ok none" "ids none k = []"
    and has: "ok ix \<Longrightarrow> has ix k i = Some (i \<in> set (ids ix k))"
    and add: "ok ix \<Longrightarrow> \<exists>ix'. add ix k i = Some ix' \<and> ok ix'
      \<and> ids ix' = (ids ix)(k := if i \<in> set (ids ix k) then ids ix k else ids ix k @ [i])"
    and rem: "ok ix \<Longrightarrow> \<exists>ix'. rem ix k i = Some ix' \<and> ok ix'
      \<and> ids ix' = (ids ix)(k := filter (\<lambda>j. j \<noteq> i) (ids ix k))"
begin

lemma has_after_add:
  assumes "ok ix"
  obtains ix' where "add ix k i = Some ix'" "ok ix'"
    "\<And>k' j. has ix' k' j = Some (k' = k \<and> j = i \<or> j \<in> set (ids ix k'))"
proof -
  from add [OF assms, of k i] obtain ix' where a: "add ix k i = Some ix'" "ok ix'"
    "ids ix' = (ids ix)(k := if i \<in> set (ids ix k) then ids ix k else ids ix k @ [i])" by blast
  have "has ix' k' j = Some (k' = k \<and> j = i \<or> j \<in> set (ids ix k'))" for k' j
    using a(2,3) by (auto simp: has)
  with that [OF a(1,2)] show thesis .
qed

lemma has_after_rem:
  assumes "ok ix"
  obtains ix' where "rem ix k i = Some ix'" "ok ix'"
    "\<And>k' j. has ix' k' j = Some (j \<in> set (ids ix k') \<and> (k', j) \<noteq> (k, i))"
proof -
  from rem [OF assms, of k i] obtain ix' where a: "rem ix k i = Some ix'" "ok ix'"
    "ids ix' = (ids ix)(k := filter (\<lambda>j. j \<noteq> i) (ids ix k))" by blast
  have "has ix' k' j = Some (j \<in> set (ids ix k') \<and> (k', j) \<noteq> (k, i))" for k' j
    using a(2,3) by (auto simp: has)
  with that [OF a(1,2)] show thesis .
qed

lemma add_then_rem:
  assumes "ok ix" and "i \<notin> set (ids ix k)"
  shows "\<exists>ix1 ix2. add ix k i = Some ix1 \<and> rem ix1 k i = Some ix2 \<and> ok ix2 \<and> ids ix2 = ids ix"
proof -
  from add [OF assms(1), of k i] assms(2) obtain ix1 where
    a: "add ix k i = Some ix1" "ok ix1" "ids ix1 = (ids ix)(k := ids ix k @ [i])" by auto
  from rem [OF a(2), of k i] obtain ix2 where
    r: "rem ix1 k i = Some ix2" "ok ix2" "ids ix2 = (ids ix1)(k := filter (\<lambda>j. j \<noteq> i) (ids ix1 k))" by blast
  have "filter (\<lambda>j. j \<noteq> i) (ids ix k) = ids ix k" using assms(2) by (auto simp: filter_id_conv)
  with a r show ?thesis by (auto simp: fun_eq_iff)
qed

text \<open>Adding pairs with different ids one after the other.\<close>

primrec add_all :: "(string \<times> u32) list \<Rightarrow> 'ix \<Rightarrow> 'ix option" where
  "add_all [] ix = Some ix"
| "add_all (ki # kis) ix = do { ix1 \<leftarrow> add ix (fst ki) (snd ki); add_all kis ix1 }"

lemma add_all_ids:
  assumes "ok ix" and "distinct (map snd kis)" and "\<forall>k. \<forall>i \<in> snd ` set kis. i \<notin> set (ids ix k)"
  shows "\<exists>ix'. add_all kis ix = Some ix' \<and> ok ix'
    \<and> (\<forall>k. ids ix' k = ids ix k @ map snd (filter (\<lambda>ki. fst ki = k) kis))"
  using assms
proof (induction kis arbitrary: ix)
  case (Cons ki kis)
  from add [OF Cons.prems(1), of "fst ki" "snd ki"] Cons.prems(3) obtain ix1 where
    a: "add ix (fst ki) (snd ki) = Some ix1" "ok ix1"
      "ids ix1 = (ids ix)(fst ki := ids ix (fst ki) @ [snd ki])" by auto
  have "snd ki \<notin> snd ` set kis" using Cons.prems(2) by simp
  then have "\<forall>k. \<forall>i \<in> snd ` set kis. i \<notin> set (ids ix1 k)"
    using Cons.prems(3) by (auto simp: a(3) image_iff)
  from Cons.IH [OF a(2) _ this] Cons.prems(2) obtain ix' where
    "add_all kis ix1 = Some ix'" "ok ix'" "\<forall>k. ids ix' k = ids ix1 k @ map snd (filter (\<lambda>ki. fst ki = k) kis)"
    by auto
  with a show ?case by auto
qed simp

end

subsection \<open>The model's index tables\<close>

definition ix_items :: "val \<Rightarrow> u32 list option" where
  "ix_items v = (if v_type v = UBJ_ARRAY \<and> v_buffer v = None \<and> v_obj v = None
     then do { vs \<leftarrow> v_arr v; is \<leftarrow> those (map val_toInt vs); if map val_int32 is = vs then Some is else None }
     else None)"

lemma val_toInt_int32 [simp]: "val_toInt (val_int32 w) = Some w"
  by (simp add: val_toInt_def val_int32_def)

lemma val_toInt_int64 [simp]: "val_toInt (val_int64 w) = Some (ucast w)"
  by (simp add: val_toInt_def val_int64_def)

lemma those_toInt [simp]: "those (map (val_toInt \<circ> val_int32) is) = Some is"
  by (induction "is") auto

lemma ix_items_iff: "ix_items v = Some is \<longleftrightarrow> v = val_of_arr (map val_int32 is)"
  by (cases v) (auto simp: ix_items_def val_of_arr_def split: if_splits bind_splits option.splits)

lemma ix_items_arr [simp]: "ix_items (val_of_arr (map val_int32 is)) = Some is"
  by (simp add: ix_items_iff)

definition ix_ok :: "(string \<times> val) list \<Rightarrow> bool" where
  "ix_ok index \<longleftrightarrow> omap_inv index
     \<and> (\<forall>kv \<in> set index. \<exists>is. is \<noteq> [] \<and> snd kv = val_of_arr (map val_int32 is))"

definition ix_ids :: "(string \<times> val) list \<Rightarrow> string \<Rightarrow> u32 list" where
  "ix_ids index k = (case map_of index k of Some v \<Rightarrow> (case ix_items v of Some is \<Rightarrow> is | None \<Rightarrow> []) | None \<Rightarrow> [])"

lemma ix_ok_lookup:
  assumes "ix_ok index"
  shows "(map_of index k = None \<and> ix_ids index k = [])
    \<or> (map_of index k = Some (val_of_arr (map val_int32 (ix_ids index k))) \<and> ix_ids index k \<noteq> [])"
proof (cases "map_of index k")
  case (Some v)
  then have "(k, v) \<in> set index" by (rule map_of_SomeD)
  with assms obtain "is" where "v = val_of_arr (map val_int32 is)" "is \<noteq> []"
    by (auto simp: ix_ok_def)
  with Some show ?thesis by (simp add: ix_ids_def)
qed (simp add: ix_ids_def)

lemma items_have_ints: "items_have i (map val_int32 is) = Some (i \<in> set is)"
  by (induction "is") auto

lemma items_without_ints: "items_without i (map val_int32 is) = Some (map val_int32 (filter (\<lambda>j. j \<noteq> i) is))"
  by (induction "is") auto

lemma set_omap_insert: "set (omap_insert k v m) \<subseteq> insert (k, v) (set m)"
  by (induction k v m rule: omap_insert.induct) auto

lemma ix_ok_insert: "ix_ok index \<Longrightarrow> is \<noteq> [] \<Longrightarrow> ix_ok (omap_insert k (val_of_arr (map val_int32 is)) index)"
proof -
  assume ok: "ix_ok index" and ne: "is \<noteq> []"
  have "\<exists>is'. is' \<noteq> [] \<and> snd kv = val_of_arr (map val_int32 is')"
    if "kv \<in> set (omap_insert k (val_of_arr (map val_int32 is)) index)" for kv
  proof (cases "kv \<in> set index")
    case False
    with that set_omap_insert [of k "val_of_arr (map val_int32 is)" index]
    have "kv = (k, val_of_arr (map val_int32 is))" by blast
    with ne show ?thesis by auto
  qed (use ok in \<open>simp add: ix_ok_def\<close>)
  with ok show ?thesis by (simp add: ix_ok_def omap_insert_inv)
qed

lemma set_omap_erase: "omap_inv m \<Longrightarrow> set (omap_erase k m) = {kv \<in> set m. fst kv \<noteq> k}"
  by (induction k m rule: omap_erase.induct) auto

lemma ix_ok_erase: "ix_ok index \<Longrightarrow> ix_ok (omap_erase k index)"
  using set_omap_erase_subset [of k index] unfolding ix_ok_def by (auto simp: omap_erase_inv)

lemma ix_ids_insert [simp]:
  "ix_ids (omap_insert k (val_of_arr (map val_int32 is)) index) = (ix_ids index)(k := is)"
  by (auto simp: ix_ids_def map_of_omap_insert fun_eq_iff)

lemma ix_ids_erase: "omap_inv index \<Longrightarrow> ix_ids (omap_erase k index) = (ix_ids index)(k := [])"
  by (auto simp: ix_ids_def map_of_omap_erase fun_eq_iff)

lemma hasIndexItem_ok:
  assumes "ix_ok index"
  shows "hasIndexItem index k i = Some (i \<in> set (ix_ids index k))"
  using ix_ok_lookup [OF assms, of k]
  by (auto simp: hasIndexItem_def obj_hasField_def obj_get_def val_of_arr_def items_have_ints)

lemma addIndexItem_ok:
  assumes "ix_ok index"
  shows "\<exists>index'. addIndexItem index k i = Some index' \<and> ix_ok index'
    \<and> ix_ids index' = (ix_ids index)(k := if i \<in> set (ix_ids index k) then ix_ids index k else ix_ids index k @ [i])"
  using ix_ok_lookup [OF assms, of k]
proof (elim disjE conjE)
  assume n: "map_of index k = None" "ix_ids index k = []"
  then have "addIndexItem index k i = Some (omap_insert k (val_of_arr (map val_int32 [i])) index)"
    by (simp add: addIndexItem_def obj_hasField_def obj_setField_def)
  with n ix_ok_insert [OF assms, of "[i]" k] ix_ids_insert [of k "[i]" index] show ?thesis by simp
next
  let ?l = "ix_ids index k"
  assume s: "map_of index k = Some (val_of_arr (map val_int32 ?l))"
  show ?thesis
  proof (cases "i \<in> set ?l")
    case True
    with s show ?thesis
      using assms hasIndexItem_ok [OF assms, of k i] by (auto simp: addIndexItem_def obj_hasField_def fun_eq_iff)
  next
    case False
    have "addIndexItem index k i = Some (omap_insert k (val_of_arr (map val_int32 (?l @ [i]))) index)"
      using s False hasIndexItem_ok [OF assms, of k i]
      by (simp add: addIndexItem_def obj_hasField_def obj_get_def obj_setField_def val_of_arr_def arr_push_def)
    with False ix_ok_insert [OF assms, of "?l @ [i]" k] ix_ids_insert [of k "?l @ [i]" index] show ?thesis by simp
  qed
qed

lemma removeIndexItem_ok:
  assumes "ix_ok index"
  shows "\<exists>index'. removeIndexItem index k i = Some index' \<and> ix_ok index'
    \<and> ix_ids index' = (ix_ids index)(k := filter (\<lambda>j. j \<noteq> i) (ix_ids index k))"
  using ix_ok_lookup [OF assms, of k]
proof (elim disjE conjE)
  assume n: "map_of index k = None" "ix_ids index k = []"
  have "omap_inv index" using assms by (simp add: ix_ok_def)
  with n ix_ok_erase [OF assms, of k] show ?thesis
    by (auto simp: removeIndexItem_def obj_hasField_def ix_ids_erase fun_eq_iff)
next
  let ?l = "filter (\<lambda>j. j \<noteq> i) (ix_ids index k)"
  assume s: "map_of index k = Some (val_of_arr (map val_int32 (ix_ids index k)))"
  let ?ins = "omap_insert k (val_of_arr (map val_int32 ?l)) index"
  have r: "removeIndexItem index k i = Some (if ?l = [] then omap_erase k ?ins else ?ins)"
    using s by (simp add: removeIndexItem_def obj_hasField_def obj_get_def obj_setField_def val_of_arr_def
        items_without_ints)
  show ?thesis
  proof (cases "?l = []")
    case True
    have inv: "omap_inv ?ins" using assms by (simp add: ix_ok_def omap_insert_inv)
    have "set (omap_erase k ?ins) \<subseteq> set index"
      using set_omap_insert [of k "val_of_arr (map val_int32 ?l)" index] set_omap_erase [OF inv, of k] by auto
    then have "ix_ok (omap_erase k ?ins)"
      using assms inv by (auto simp: ix_ok_def omap_erase_inv)
    with True r inv ix_ids_insert [of k ?l index] show ?thesis by (simp add: ix_ids_erase del: ix_ids_insert)
  next
    case False
    with r ix_ok_insert [OF assms, of ?l k] show ?thesis by simp
  qed
qed

interpretation ix: index_table hasIndexItem addIndexItem removeIndexItem ix_ids ix_ok "[]"
proof
  show "ix_ok []" by (simp add: ix_ok_def)
  show "ix_ids [] k = []" for k by (simp add: ix_ids_def)
qed (rule hasIndexItem_ok addIndexItem_ok removeIndexItem_ok; assumption)+

section \<open>What a scan lists\<close>

text \<open>
  \<open>reads get dbok content\<close>: in every state of the database that can occur, the blob with a given
  id reads as the object \<open>content\<close> says, or not at all.
\<close>

definition reads :: "'db blob_getter \<Rightarrow> ('db \<Rightarrow> bool) \<Rightarrow> (u64 \<Rightarrow> (string \<times> val) list option) \<Rightarrow> bool" where
  "reads get dbok content \<longleftrightarrow> (\<forall>i db. dbok db \<longrightarrow> (\<exists>db'. get i db = Some (content i, db') \<and> dbok db'))"

definition cut :: "u64 \<Rightarrow> u32" where
  "cut j = ucast j"

definition blob_key ::
    "(ubj_type \<Rightarrow> bytes \<Rightarrow> string) \<Rightarrow> (u64 \<Rightarrow> (string \<times> val) list option) \<Rightarrow> string \<Rightarrow> u64 \<Rightarrow> string option" where
  "blob_key fmt content column j = do {
     ob \<leftarrow> content (ucast (cut j));
     if obj_hasField ob column then val_toStr fmt (obj_get ob column) else None }"

definition index_pairs ::
    "(ubj_type \<Rightarrow> bytes \<Rightarrow> string) \<Rightarrow> (u64 \<Rightarrow> (string \<times> val) list option) \<Rightarrow> string \<Rightarrow> u64 list \<Rightarrow> (string \<times> u32) list" where
  "index_pairs fmt content column js =
     List.map_filter (\<lambda>j. map_option (\<lambda>s. (s, cut j)) (blob_key fmt content column j)) js"

definition texts_defined ::
    "(ubj_type \<Rightarrow> bytes \<Rightarrow> string) \<Rightarrow> (u64 \<Rightarrow> (string \<times> val) list option) \<Rightarrow> string \<Rightarrow> bool" where
  "texts_defined fmt content column \<longleftrightarrow>
     (\<forall>i. \<forall>ob \<in> set_option (content i). val_toStr fmt (obj_get ob column) \<noteq> None)"

lemma index_blobs_pairs:
  assumes "reads get dbok content" and "texts_defined fmt content column" and "dbok db"
  shows "\<exists>db'. dbok db' \<and> index_blobs fmt get column (map val_int64 js) res db
    = map_option (\<lambda>index. (index, db')) (ix.add_all (index_pairs fmt content column js) res)"
  using assms(3)
proof (induction js arbitrary: res db)
  case Nil
  then show ?case by (auto simp: index_pairs_def List.map_filter_simps)
next
  case (Cons j js)
  from assms(1) Cons.prems obtain db1 where
    g: "get (ucast (cut j)) db = Some (content (ucast (cut j)), db1)" "dbok db1"
    unfolding reads_def by blast
  show ?case
  proof (cases "blob_key fmt content column j")
    case None
    have "\<not> obj_hasField ob column" if "content (ucast (cut j)) = Some ob" for ob
    proof -
      have "val_toStr fmt (obj_get ob column) \<noteq> None"
        using assms(2) that unfolding texts_defined_def by (metis option.set_intros)
      with None that show ?thesis by (auto simp: blob_key_def split: if_splits)
    qed
    then have skip: "index_blobs fmt get column (map val_int64 (j # js)) res db
        = index_blobs fmt get column (map val_int64 js) res db1"
      using g by (auto simp: cut_def split: option.splits)
    have "index_pairs fmt content column (j # js) = index_pairs fmt content column js"
      using None by (simp add: index_pairs_def List.map_filter_simps)
    with skip Cons.IH [OF g(2), of res] show ?thesis by simp
  next
    case (Some s)
    then have step: "index_blobs fmt get column (map val_int64 (j # js)) res db
        = do { res1 \<leftarrow> addIndexItem res s (cut j); index_blobs fmt get column (map val_int64 js) res1 db1 }"
      using g by (auto simp: blob_key_def cut_def split: bind_splits if_splits)
    have pairs: "index_pairs fmt content column (j # js) = (s, cut j) # index_pairs fmt content column js"
      using Some by (simp add: index_pairs_def List.map_filter_simps)
    show ?thesis
    proof (cases "addIndexItem res s (cut j)")
      case None
      with step pairs g(2) show ?thesis by auto
    next
      case (Some res1)
      with step pairs Cons.IH [OF g(2), of res1] show ?thesis by auto
    qed
  qed
qed

text \<open>The index of a column: under each text the ids, in order, of the blobs with that text.\<close>

lemma index_blobs_index:
  assumes "reads get dbok content" and "texts_defined fmt content column" and "dbok db" and "distinct (map cut js)"
  shows "\<exists>index db'. index_blobs fmt get column (map val_int64 js) [] db = Some (index, db') \<and> dbok db' \<and> ix_ok index
    \<and> (\<forall>k. ix_ids index k = map cut (filter (\<lambda>j. blob_key fmt content column j = Some k) js))"
proof -
  have ids: "map snd (filter (\<lambda>ki. fst ki = k) (index_pairs fmt content column js))
      = map cut (filter (\<lambda>j. blob_key fmt content column j = Some k) js)" for k
    by (induction js) (auto simp: index_pairs_def List.map_filter_simps split: option.splits)
  have sub: "set (map snd (index_pairs fmt content column js)) \<subseteq> set (map cut js)"
    by (induction js) (auto simp: index_pairs_def List.map_filter_simps split: option.splits)
  have "distinct (map snd (index_pairs fmt content column js))"
    using assms(4)
  proof (induction js)
    case (Cons j js)
    have "set (map snd (index_pairs fmt content column js)) \<subseteq> set (map cut js)"
      by (induction js) (auto simp: index_pairs_def List.map_filter_simps split: option.splits)
    with Cons show ?case by (auto simp: index_pairs_def List.map_filter_simps split: option.splits)
  qed (simp add: index_pairs_def List.map_filter_simps)
  from ix.add_all_ids [OF ix.none(1) this] obtain index where
    i: "ix.add_all (index_pairs fmt content column js) [] = Some index" "ix_ok index"
      "\<forall>k. ix_ids index k = map snd (filter (\<lambda>ki. fst ki = k) (index_pairs fmt content column js))"
    by (auto simp: ix.none)
  from index_blobs_pairs [OF assms(1-3), of js "[]"] i(1) obtain db' where
    "index_blobs fmt get column (map val_int64 js) [] db = Some (index, db')" "dbok db'" by auto
  with i ids show ?thesis by auto
qed

definition lists_ids ::
    "(ubj_type \<Rightarrow> bytes \<Rightarrow> string) \<Rightarrow> 'db sqlite \<Rightarrow> string \<Rightarrow> ('db \<Rightarrow> bool) \<Rightarrow> u64 list \<Rightarrow> bool" where
  "lists_ids fmt sq t dbok js \<longleftrightarrow>
     (\<forall>db. dbok db \<longrightarrow> (\<exists>db'. st_getBlobIds fmt sq t db = Some (map val_int64 js, db') \<and> dbok db'))"

text \<open>The ids of the blobs of a module's type, in the order of the table.\<close>

definition typed_ids ::
    "(ubj_type \<Rightarrow> bytes \<Rightarrow> string) \<Rightarrow> (u64 \<Rightarrow> (string \<times> val) list option) \<Rightarrow> vmodule \<Rightarrow> u64 list \<Rightarrow> u64 list" where
  "typed_ids fmt content m js = filter (\<lambda>j. blob_key fmt content ''_$type'' j = Some (vm_type_key m)) js"

lemma updateIds_typed:
  assumes "reads (vm_getBlob fmt sq sc (vm_blobTable m)) dbok content"
    and "texts_defined fmt content ''_$type''" and "lists_ids fmt sq (vm_blobTable m) dbok js"
    and "distinct (map cut js)" and "dbok db"
  shows "\<exists>db'. updateIds fmt sq sc m db
      = Some (m\<lparr>vm_ids := map (val_int32 \<circ> cut) (typed_ids fmt content m js)\<rparr>, db') \<and> dbok db'"
proof -
  from assms(3,5) obtain db1 where 1: "st_getBlobIds fmt sq (vm_blobTable m) db = Some (map val_int64 js, db1)" "dbok db1"
    unfolding lists_ids_def by blast
  from assms(3) 1(2) obtain db2 where 2: "st_getBlobIds fmt sq (vm_blobTable m) db1 = Some (map val_int64 js, db2)" "dbok db2"
    unfolding lists_ids_def by blast
  have "\<exists>db3. dbok db3 \<and> createIndex fmt sq sc m ''_$type'' (map val_int64 js) db1
      = index_blobs fmt (vm_getBlob fmt sq sc (vm_blobTable m)) ''_$type'' (map val_int64 js) [] db3"
    using 1 2 by (cases "js = []") (auto simp: createIndex_def)
  then obtain db3 where 3: "dbok db3" "createIndex fmt sq sc m ''_$type'' (map val_int64 js) db1
      = index_blobs fmt (vm_getBlob fmt sq sc (vm_blobTable m)) ''_$type'' (map val_int64 js) [] db3" by blast
  from index_blobs_index [OF assms(1,2) 3(1) assms(4)] obtain index db4 where
    i: "index_blobs fmt (vm_getBlob fmt sq sc (vm_blobTable m)) ''_$type'' (map val_int64 js) [] db3 = Some (index, db4)"
      "dbok db4" "ix_ok index"
      "ix_ids index (vm_type_key m) = map cut (typed_ids fmt content m js)"
    by (auto simp: typed_ids_def)
  have "val_toArray (obj_get index (vm_type_key m)) = map (val_int32 \<circ> cut) (typed_ids fmt content m js)"
    using ix_ok_lookup [OF i(3), of "vm_type_key m"] i(4)
    by (auto simp: obj_get_def val_toArray_def val_null_def val_of_arr_def)
  with 1 3 i show ?thesis by (simp add: updateIds_def)
qed

lemma filter_rows_reads:
  assumes "reads get dbok content" and "dbok db"
  shows "\<exists>db'. filter_rows get (map val_int32 is) db
    = Some (List.map_filter (\<lambda>i. map_option (Pair i) (content (ucast i))) is, db') \<and> dbok db'"
  using assms(2)
proof (induction "is" arbitrary: db)
  case (Cons i "is")
  from assms(1) Cons.prems obtain db1 where g: "get (ucast i) db = Some (content (ucast i), db1)" "dbok db1"
    unfolding reads_def by blast
  from Cons.IH [OF g(2)] g(1) show ?case by (auto simp: List.map_filter_simps split: option.splits)
qed (simp add: List.map_filter_simps)

text \<open>Walking a cursor to its end.\<close>

function vc_scan :: "vcursor \<Rightarrow> (u32 option \<times> (string \<times> val) list) list" where
  "vc_scan c = (if xEof c then [] else (xRowid c, vc_rows c ! vc_pos c) # vc_scan (xNext c))"
  by pat_completeness auto
termination by (relation "measure (\<lambda>c. length (vc_rows c) - vc_pos c)") (auto simp: xEof_def xNext_def)

declare vc_scan.simps [simp del]

lemma vc_scan_from:
  assumes "length (vc_rowIds c) = length (vc_rows c)"
  shows "vc_scan c = drop (vc_pos c) (zip (map Some (vc_rowIds c)) (vc_rows c))"
  using assms
proof (induction c rule: vc_scan.induct)
  case (1 c)
  show ?case
  proof (cases "xEof c")
    case True
    then show ?thesis using 1(2) by (simp add: vc_scan.simps [of c] xEof_def)
  next
    case False
    then have p: "vc_pos c < length (vc_rows c)" by (simp add: xEof_def)
    have "vc_scan (xNext c) = drop (Suc (vc_pos c)) (zip (map Some (vc_rowIds c)) (vc_rows c))"
      using 1(1) [OF False] 1(2) by (simp add: xNext_def)
    moreover have "xRowid c = Some (vc_rowIds c ! vc_pos c)" using p 1(2) by (simp add: xRowid_def)
    ultimately show ?thesis
      using p 1(2) False by (subst vc_scan.simps) (simp add: Cons_nth_drop_Suc [symmetric])
  qed
qed

lemma map_filter_all: "(\<And>x. x \<in> set xs \<Longrightarrow> f x = Some (g x)) \<Longrightarrow> List.map_filter f xs = map g xs"
  by (induction xs) (simp_all add: List.map_filter_simps)

text \<open>A full scan lists the objects of the module's type, each once, with the ids of their blobs.\<close>

lemma full_scan:
  assumes "reads (vm_getBlob fmt sq sc (vm_blobTable m)) dbok content"
    and "texts_defined fmt content ''_$type''" and "lists_ids fmt sq (vm_blobTable m) dbok js"
    and "distinct (map cut js)" and "dbok db"
  shows "\<exists>m' db1 c db2. updateIds fmt sq sc m db = Some (m', db1)
    \<and> xFilter fmt sq sc 0 op argv m' db1 = Some (c, m', db2) \<and> dbok db2
    \<and> vc_scan c = map (\<lambda>j. (Some (cut j), the (content (ucast (cut j))))) (typed_ids fmt content m js)"
proof -
  let ?ids = "map cut (typed_ids fmt content m js)"
  let ?m = "m\<lparr>vm_ids := map val_int32 ?ids\<rparr>"
  from updateIds_typed [OF assms] obtain db1 where u: "updateIds fmt sq sc m db = Some (?m, db1)" "dbok db1"
    by auto
  let ?rows = "List.map_filter (\<lambda>i. map_option (Pair i) (content (ucast i))) ?ids"
  from filter_rows_reads [OF assms(1) u(2), of ?ids] obtain db2 where
    f: "filter_rows (vm_getBlob fmt sq sc (vm_blobTable m)) (map val_int32 ?ids) db1 = Some (?rows, db2)" "dbok db2"
    by blast
  have rows: "?rows = map (\<lambda>i. (i, the (content (ucast i)))) ?ids"
    by (rule map_filter_all) (auto simp: typed_ids_def blob_key_def split: bind_splits)
  let ?c = "\<lparr>vc_rowIds = map fst ?rows, vc_rows = map snd ?rows, vc_pos = 0\<rparr>"
  have "xFilter fmt sq sc 0 op argv ?m db1 = Some (?c, ?m, db2)"
    using f(1) by (simp add: xFilter_def filter_ids_def)
  moreover have "vc_scan ?c = map (\<lambda>j. (Some (cut j), the (content (ucast (cut j))))) (typed_ids fmt content m js)"
    unfolding rows by (subst vc_scan_from) (simp_all add: zip_map_map zip_same_conv_map comp_def)
  ultimately show ?thesis using u f(2) by blast
qed

section \<open>Reading from a table that keeps the laws\<close>

definition plain_of :: "'k store_cipher \<Rightarrow> sql_row \<Rightarrow> bool \<Rightarrow> bytes \<Rightarrow> bytes" where
  "plain_of sc row mode c =
     (if mode then fst (sc_crypt sc (aes_key (blob_cipher sc (salt_of row))) (aes_ctr (blob_cipher sc (salt_of row))) c)
      else c)"

definition row_reads :: "'k store_cipher \<Rightarrow> sql_row \<Rightarrow> (string \<times> val) list option \<Rightarrow> bool" where
  "row_reads sc row ob \<longleftrightarrow> (\<exists>mode n c r x. blob_row row mode n c \<and> length c = unat n
     \<and> obj_read [] (Some (plain_of sc row mode c)) n = Some (r, x) \<and> ob = (if r then Some x else None))"

lemma reads_rows:
  assumes "blob_laws sq t dbok rows" and "key_ok sc" and "ctr_laws (sc_crypt sc)"
    and "\<forall>i. case R i of None \<Rightarrow> content i = None | Some row \<Rightarrow> row_reads sc row (content i)"
  shows "reads (vm_getBlob fmt sq sc t) (\<lambda>db. dbok db \<and> rows db = R) content"
  unfolding reads_def
proof (intro allI impI)
  fix i db
  assume ok: "dbok db \<and> rows db = R"
  show "\<exists>db'. vm_getBlob fmt sq sc t i db = Some (content i, db') \<and> dbok db' \<and> rows db' = R"
  proof (cases "R i")
    case None
    with ok have "rows db i = None" by simp
    with getBlobData_missing [OF assms(1)] ok obtain db' where
      "st_getBlobData fmt sq sc t i db = Some (None, db')" "dbok db'" "rows db' = R" by metis
    moreover have "content i = None" using assms(4) None by (auto dest: spec [of _ i])
    ultimately show ?thesis by (simp add: vm_getBlob_def st_getBlobObject_def)
  next
    case (Some row)
    with assms(4) have "row_reads sc row (content i)" by (auto dest: spec [of _ i])
    then obtain mode n c r x where
      b: "blob_row row mode n c" "length c = unat n"
        "obj_read [] (Some (plain_of sc row mode c)) n = Some (r, x)" "content i = (if r then Some x else None)"
      unfolding row_reads_def by blast
    have "rows db i = Some row" using ok Some by simp
    from getBlobData_stored [OF assms(1) _ this b(1,2) assms(2,3), of fmt] ok obtain db' where
      "st_getBlobData fmt sq sc t i db = Some (Some \<lparr>mb_data = Some (plain_of sc row mode c), mb_size = n\<rparr>, db')"
      "dbok db'" "rows db' = R"
      by (auto simp: plain_of_def)
    with b show ?thesis by (simp add: vm_getBlob_def st_getBlobObject_def obj_read_buffer_def)
  qed
qed

end
