(* ===== verification/Store_Seal.thy ===== *)
theory Store_Seal
  imports Store_Module UBJ_Codec
begin

text \<open>
  Creating and opening a store (\<^verbatim>\<open>Store::init\<close>, \<^verbatim>\<open>Store::open\<close> of
  \<^verbatim>\<open>ubj/store/store.cpp\<close>): the store's random key is kept in the root blob, encrypted
  with a key derived from the password; so is that derived key, to recognise the password.
  The key derivation \<open>kdf\<close> (password, salt, length) is nettle's, an argument.  The hooks
  \<^verbatim>\<open>createBlobTables\<close> and \<^verbatim>\<open>createVTables\<close> are those of the base class, which do nothing.
\<close>

section \<open>Sealing the key\<close>

definition seal_cipher :: "'k store_cipher \<Rightarrow> membuf \<Rightarrow> 'k aes option" where
  "seal_cipher sc pwd = do {
     a1 \<leftarrow> aes_setCtr (Some \<lparr>mb_data = Some (replicate 16 0), mb_size = 16\<rparr>) (sc_fresh sc);
     aes_setKey (sc_sched sc) (Some pwd) a1 }"

definition crypt32 :: "'k store_cipher \<Rightarrow> bytes \<Rightarrow> bytes \<Rightarrow> 'k aes \<Rightarrow> (bytes \<times> 'k aes) option" where
  "crypt32 sc src dst a = do {
     (_, a', out, _) \<leftarrow> aes_crypt (sc_crypt sc) True (None :: unit aes_callback option) src (Some dst) 32 a ();
     d \<leftarrow> out;
     Some (d, a') }"

definition seal_key :: "'k store_cipher \<Rightarrow> membuf \<Rightarrow> membuf \<Rightarrow> (bytes \<times> bytes) option" where
  "seal_key sc pwd key = do {
     a \<leftarrow> seal_cipher sc pwd;
     (k, a1) \<leftarrow> crypt32 sc (mb_bytes key) (replicate 32 0) a;
     (p, _) \<leftarrow> crypt32 sc (mb_bytes pwd) (mb_bytes pwd) a1;
     Some (k, p) }"

text \<open>The other direction: the key, or nothing when the password is not the store's.\<close>

definition unseal_key :: "'k store_cipher \<Rightarrow> membuf \<Rightarrow> bytes \<Rightarrow> bytes \<Rightarrow> bytes option option" where
  "unseal_key sc pwd key tmp = do {
     a \<leftarrow> seal_cipher sc pwd;
     (k, a1) \<leftarrow> crypt32 sc key key a;
     (t, _) \<leftarrow> crypt32 sc tmp tmp a1;
     if length t < 32 \<or> length (mb_bytes pwd) < 32 then None
     else Some (if take 32 t = take 32 (mb_bytes pwd) then Some k else None) }"

lemma crypt32_whole:
  assumes "ctr_laws (sc_crypt sc)" and "length src = 32" and "length dst = 32"
    and "sc_crypt sc (aes_key a) (aes_ctr a) src = (out, c)"
  shows "crypt32 sc src dst a = Some (out, a\<lparr>aes_ctr := c\<rparr>)"
  using aes_crypt_whole [OF assms(1) _ cb_keeps_None [of 32 "()"], of src "Some dst" True a out c "()"] assms(2-4)
  by (simp add: crypt32_def)

lemma seal_cipher_key:
  assumes "mb_data pwd = Some p" and "32 \<le> length p"
  obtains a where "seal_cipher sc pwd = Some a"
  using assms by (simp add: seal_cipher_def aes_setCtr_def aes_setKey_def)

lemma seal_unseal:
  assumes "ctr_laws (sc_crypt sc)" and "mb_data pwd = Some p" "length p = 32" and "mb_data key = Some k" "length k = 32"
  shows "\<exists>ck cp. seal_key sc pwd key = Some (ck, cp) \<and> length ck = 32 \<and> length cp = 32
    \<and> unseal_key sc pwd ck cp = Some (Some k)"
proof -
  obtain a where a: "seal_cipher sc pwd = Some a" using seal_cipher_key [OF assms(2)] assms(3) by auto
  have b: "mb_bytes pwd = p" "mb_bytes key = k" using assms by (simp_all add: mb_bytes_def)
  obtain ck c1 where ck: "sc_crypt sc (aes_key a) (aes_ctr a) k = (ck, c1)" by fastforce
  obtain cp c2 where cp: "sc_crypt sc (aes_key a) c1 p = (cp, c2)" by fastforce
  obtain k' c1' where k': "sc_crypt sc (aes_key a) (aes_ctr a) ck = (k', c1')" by fastforce
  have len: "length ck = 32" "length cp = 32"
    using ctr_law_length [OF assms(1) ck] ctr_law_length [OF assms(1) cp] assms(3,5) by simp_all
  have "k' = k" using ctr_law_inverse [OF assms(1) ck] k' by simp
  have "c1' = c1" using ctr_law_next [OF assms(1) k' ck] len assms(5) by simp
  obtain p' c2' where p': "sc_crypt sc (aes_key a) c1 cp = (p', c2')" by fastforce
  have "p' = p" using ctr_law_inverse [OF assms(1) cp] p' by simp
  note w = crypt32_whole [OF assms(1)]
  have s1: "crypt32 sc k (replicate 32 0) a = Some (ck, a\<lparr>aes_ctr := c1\<rparr>)"
    by (rule w) (use assms ck in auto)
  have s2: "crypt32 sc p p (a\<lparr>aes_ctr := c1\<rparr>) = Some (cp, a\<lparr>aes_ctr := c2\<rparr>)"
    using w [of p p "a\<lparr>aes_ctr := c1\<rparr>" cp c2] assms cp by simp
  have o1: "crypt32 sc ck ck a = Some (k, a\<lparr>aes_ctr := c1\<rparr>)"
    using w [of ck ck a k c1] len k' \<open>k' = k\<close> \<open>c1' = c1\<close> by simp
  have o2: "crypt32 sc cp cp (a\<lparr>aes_ctr := c1\<rparr>) = Some (p, a\<lparr>aes_ctr := c2'\<rparr>)"
    using w [of cp cp "a\<lparr>aes_ctr := c1\<rparr>" p c2'] len p' \<open>p' = p\<close> by simp
  show ?thesis
    using a b s1 s2 o1 o2 len assms(3) by (simp add: seal_key_def unseal_key_def)
qed

text \<open>What is accepted as the password: only a derived key that the stored one decrypts to.\<close>

lemma unseal_accepts:
  assumes "unseal_key sc pwd ck cp = Some (Some k)"
  shows "\<exists>a a1 a2 t. seal_cipher sc pwd = Some a \<and> crypt32 sc ck ck a = Some (k, a1)
    \<and> crypt32 sc cp cp a1 = Some (t, a2) \<and> take 32 t = take 32 (mb_bytes pwd)"
  using assms by (auto simp: unseal_key_def split: bind_splits if_splits)

section \<open>Tables\<close>

text \<open>\<^verbatim>\<open>sqlite3_exec\<close> of one statement: prepare, run to completion.\<close>

definition sql_run :: "'db sqlite \<Rightarrow> string \<Rightarrow> 'db \<Rightarrow> bool \<times> 'db" where
  "sql_run sq text db =
     (if \<not> sq_prepare sq text db then (False, db)
      else case sq_exec sq text [] db of (out, db') \<Rightarrow> (so_done out, db'))"

definition blob_table_sql :: "string \<Rightarrow> string" where
  "blob_table_sql name =
     ''CREATE TABLE IF NOT EXISTS '' @ name @ '' (id INTEGER PRIMARY KEY,mode INTEGER,size INTEGER,salt BLOB,data BLOB);''"

definition createBlobTable :: "'db sqlite \<Rightarrow> string \<Rightarrow> 'db \<Rightarrow> bool \<times> 'db" where
  "createBlobTable sq name db = sql_run sq (blob_table_sql name) db"

definition createInternalBlobTables :: "'db sqlite \<Rightarrow> 'db \<Rightarrow> bool \<times> 'db" where
  "createInternalBlobTables sq db =
     (case createBlobTable sq ''__main'' db of
        (False, db1) \<Rightarrow> (False, db1)
      | (True, db1) \<Rightarrow> createBlobTable sq ''__indexes'' db1)"

definition createInternalVTables ::
    "(ubj_type \<Rightarrow> bytes \<Rightarrow> string) \<Rightarrow> 'db sqlite \<Rightarrow> bool \<Rightarrow> 'db \<Rightarrow> (bool \<times> vmodule \<times> 'db) option" where
  "createInternalVTables fmt sq registered db =
     vm_create fmt sq registered ''__indexes'' 0 False [''name'', ''ids'', ''idx'', ''status'']
       [''STRING'', ''BLOB'', ''BLOB'', ''INTEGER''] vm_new db"

definition MainNodeId :: u64 where "MainNodeId = 1"

definition RootNodeId :: u64 where "RootNodeId = 2"

text \<open>An open store: its key and its virtual tables.\<close>

record ustore =
  us_key :: "membuf option"
  us_vtabs :: "(string \<times> vmodule) list"

definition st_vtab :: "ustore \<Rightarrow> string \<Rightarrow> vmodule option" where
  "st_vtab s name = map_of (us_vtabs s) name"

section \<open>Creating\<close>

definition root_object :: "bytes \<Rightarrow> bytes \<Rightarrow> bytes \<Rightarrow> (string \<times> val) list" where
  "root_object salt key pwd =
     [(''key'', val_of_buffer (Some key)), (''pwd'', val_of_buffer (Some pwd)), (''salt'', val_of_buffer (Some salt))]"

text \<open>
  \<^verbatim>\<open>init\<close>.  \<open>exists\<close> tells whether the file is there, \<open>opened\<close> whether sqlite opened it; \<open>salt\<close>
  and \<open>key\<close> are the random bytes, or nothing.
\<close>

definition st_init ::
    "(ubj_type \<Rightarrow> bytes \<Rightarrow> string) \<Rightarrow> 'db sqlite \<Rightarrow> 'k store_cipher \<Rightarrow> (bytes \<Rightarrow> bytes \<Rightarrow> nat \<Rightarrow> bytes) \<Rightarrow> bool \<Rightarrow> bool
     \<Rightarrow> bool \<Rightarrow> bytes option \<Rightarrow> bytes option \<Rightarrow> bytes \<Rightarrow> 'db \<Rightarrow> (ustore option \<times> 'db) option" where
  "st_init fmt sq sc kdf exists opened registered salt key password db =
     (if exists \<or> \<not> opened then Some (None, db)
      else case createInternalBlobTables sq db of
        (False, db1) \<Rightarrow> Some (None, db1)
      | (True, db1) \<Rightarrow> do {
          (okv, ixm, db2) \<leftarrow> createInternalVTables fmt sq registered db1;
          if \<not> okv then Some (None, db2)
          else do {
            (i, db3) \<leftarrow> st_createBlob_obj fmt sq (sc\<lparr>sc_key := None\<rparr>) None ''__main''
                          [(''version'', val_int32 1)] False db2;
            if i = 0 then Some (None, db3)
            else (case salt of
              None \<Rightarrow> Some (None, db3)
            | Some s \<Rightarrow>
                let pwd = \<lparr>mb_data = Some (kdf password (take 16 s) 32), mb_size = 32\<rparr>
                in case key of
                  None \<Rightarrow> Some (None, db3)
                | Some k \<Rightarrow> do {
                    let kb = \<lparr>mb_data = Some (take 32 k), mb_size = 32\<rparr>;
                    (ck, cp) \<leftarrow> seal_key sc pwd kb;
                    (j, db4) \<leftarrow> st_createBlob_obj fmt sq (sc\<lparr>sc_key := Some kb\<rparr>) None ''__main''
                                  (root_object (take 16 s) ck cp) False db3;
                    if j = 0 then Some (None, db4)
                    else Some (Some \<lparr>us_key = Some kb, us_vtabs = [(''_$indexes'', ixm)]\<rparr>, db4) }) } })"

section \<open>Opening\<close>

definition has_buffer :: "(string \<times> val) list \<Rightarrow> string \<Rightarrow> bool" where
  "has_buffer ob k \<longleftrightarrow> obj_hasField ob k \<and> val_bufferSize (obj_get ob k) \<noteq> 0"

text \<open>Loading the root blob and recognising the password.\<close>

definition open_root ::
    "(ubj_type \<Rightarrow> bytes \<Rightarrow> string) \<Rightarrow> 'db sqlite \<Rightarrow> 'k store_cipher \<Rightarrow> (bytes \<Rightarrow> bytes \<Rightarrow> nat \<Rightarrow> bytes) \<Rightarrow> bytes \<Rightarrow> 'db
     \<Rightarrow> (bytes option \<times> 'db) option" where
  "open_root fmt sq sc kdf password db = do {
     (found, root, db1) \<leftarrow> st_getBlobObject fmt sq (sc\<lparr>sc_key := None\<rparr>) ''__main'' RootNodeId [] db;
     if \<not> found then Some (None, db1)
     else if \<not> has_buffer root ''key'' \<or> \<not> has_buffer root ''pwd'' then Some (None, db1)
     else do {
       salt \<leftarrow> v_buffer (obj_get root ''salt'');
       let pwd = \<lparr>mb_data = Some (kdf password salt 32), mb_size = 32\<rparr>;
       ck \<leftarrow> v_buffer (obj_get root ''key'');
       cp \<leftarrow> v_buffer (obj_get root ''pwd'');
       k \<leftarrow> unseal_key sc pwd ck cp;
       Some (k, db1) } }"

definition st_open ::
    "(ubj_type \<Rightarrow> bytes \<Rightarrow> string) \<Rightarrow> 'db sqlite \<Rightarrow> 'k store_cipher \<Rightarrow> (bytes \<Rightarrow> bytes \<Rightarrow> nat \<Rightarrow> bytes) \<Rightarrow> bool \<Rightarrow> bool
     \<Rightarrow> bytes \<Rightarrow> 'db \<Rightarrow> (ustore option \<times> 'db) option" where
  "st_open fmt sq sc kdf opened registered password db =
     (if \<not> opened then Some (None, db)
      else case createInternalBlobTables sq db of
        (False, db1) \<Rightarrow> Some (None, db1)
      | (True, db1) \<Rightarrow> do {
          (okv, ixm, db2) \<leftarrow> createInternalVTables fmt sq registered db1;
          if \<not> okv then Some (None, db2)
          else do {
            (k, db3) \<leftarrow> open_root fmt sq sc kdf password db2;
            Some (map_option (\<lambda>b. \<lparr>us_key = Some \<lparr>mb_data = Some b, mb_size = of_nat (length b)\<rparr>,
                                  us_vtabs = [(''_$indexes'', ixm)]\<rparr>) k, db3) } })"

section \<open>A created store can be opened\<close>

text \<open>
  What is relied on besides \<open>blob_laws\<close>: creating tables that exist or not leaves the rows
  alone, the ids of \<open>__indexes\<close> can be read, and a new row gets the next number.
\<close>

definition tables_ok :: "(ubj_type \<Rightarrow> bytes \<Rightarrow> string) \<Rightarrow> 'db sqlite \<Rightarrow> ('db \<Rightarrow> bool) \<Rightarrow> ('db \<Rightarrow> u64 \<Rightarrow> sql_row option) \<Rightarrow> bool" where
  "tables_ok fmt sq dbok rows \<longleftrightarrow> (\<forall>db. dbok db \<longrightarrow>
     (\<forall>t \<in> {''__main'', ''__indexes''}. \<exists>db'. createBlobTable sq t db = (True, db') \<and> dbok db' \<and> rows db' = rows db)
     \<and> (\<exists>ids db'. st_getBlobIds fmt sq ''__indexes'' db = Some (ids, db') \<and> dbok db' \<and> rows db' = rows db))"

definition next_rowid :: "'db sqlite \<Rightarrow> string \<Rightarrow> ('db \<Rightarrow> bool) \<Rightarrow> ('db \<Rightarrow> u64 \<Rightarrow> sql_row option) \<Rightarrow> bool" where
  "next_rowid sq t dbok rows \<longleftrightarrow> (\<forall>db vals. dbok db \<longrightarrow>
     (case sq_exec sq (insert_text t [''data'', ''mode'', ''size'']) (zip [1..<1 + length vals] vals) db of
        (out, _) \<Rightarrow> out_done out \<longrightarrow> so_rowid out = of_nat (Suc (card (dom (rows db))))))"

lemma next_rowid_new:
  assumes "next_rowid sq t dbok rows" and "dbok db"
    and "sq_exec sq (insert_text t [''data'', ''mode'', ''size'']) (zip [1..<1 + length vals] vals) db = (out, db')"
  shows "out_done out \<Longrightarrow> so_rowid out = of_nat (Suc (card (dom (rows db))))"
  using assms(1) [unfolded next_rowid_def, THEN spec, THEN spec, THEN mp, OF assms(2), of vals]
  unfolding assms(3) by simp

lemma internal_tables:
  assumes "tables_ok fmt sq dbok rows" and "dbok db"
  shows "\<exists>db1 ix db2. createInternalBlobTables sq db = (True, db1)
    \<and> createInternalVTables fmt sq True db1 = Some (True, ix, db2) \<and> dbok db2 \<and> rows db2 = rows db"
proof -
  from assms obtain d1 where 1: "createBlobTable sq ''__main'' db = (True, d1)" "dbok d1" "rows d1 = rows db"
    unfolding tables_ok_def by blast
  from assms(1) 1(2) obtain d2 where 2: "createBlobTable sq ''__indexes'' d1 = (True, d2)" "dbok d2" "rows d2 = rows d1"
    unfolding tables_ok_def by blast
  from assms(1) 2(2) obtain i d3 where 3: "st_getBlobIds fmt sq ''__indexes'' d2 = Some (i, d3)" "dbok d3" "rows d3 = rows d2"
    unfolding tables_ok_def by blast
  from 1 2 3 show ?thesis
    by (auto simp: createInternalBlobTables_def createInternalVTables_def vm_create_def)
qed

text \<open>An object in an unencrypted blob is stored as its encoding.\<close>

lemma createBlob_object:
  assumes laws: "blob_laws sq t dbok rows" and ok: "dbok db" and nr: "next_rowid sq t dbok rows"
    and v: "ser (val_of_obj ob)" "v_depth (val_of_obj ob) < CONTAINER_STACK_MAX" "length (enc (val_of_obj ob)) < 2 ^ 31"
  shows "\<exists>i db' row. st_createBlob_obj fmt sq sc rnd t ob False db = Some (i, db') \<and> dbok db'
    \<and> (i \<noteq> 0 \<longrightarrow> i = of_nat (Suc (card (dom (rows db)))) \<and> rows db i = None \<and> rows db' = (rows db)(i \<mapsto> row)
         \<and> blob_row row False (of_nat (length (enc (val_of_obj ob)))) (enc (val_of_obj ob)))"
proof -
  let ?e = "enc (val_of_obj ob)"
  let ?size = "of_nat (length ?e) :: u32"
  have "v_type (val_of_obj ob) = UBJ_OBJECT \<or> v_type (val_of_obj ob) = UBJ_ARRAY" by (simp add: val_of_obj_def)
  from value_roundtrip [OF v(1) this v(2)] v(3) obtain d where
    d: "writer_write (val_of_obj ob) = Some (Some d)" "mb_inv d" "mb_bytes d = ?e" by auto
  have size: "mb_size d = ?size" using mb_inv_length [OF d(2)] d(3) by simp
  have ne: "?e \<noteq> []" using enc_nonempty [OF v(1)] by auto
  let ?ins = "[(''data'', val_of_membuf d), (''mode'', val_bool False), (''size'', val_int32 ?size)]"
  let ?xs = "[SQ_Blob ?e, SQ_Int 0, SQ_Int (scast ?size)]"
  have binds: "list_all2 (\<lambda>v x. bind_value False v = Some (Some x)) (map snd ?ins) ?xs"
    using bind_buffer [OF d(2)] ne by (simp add: bind_bool bind_int32 d(3))
  from insert_blob [OF laws ok _ binds] obtain i db1 where
    ins: "st_insert sq False t ?ins db = Some (i, db1)" "dbok db1"
    and new: "i \<noteq> 0 \<longrightarrow> rows db i = None \<and> rows db1 = (rows db)(i \<mapsto> map_of (zip (map fst ?ins) (map stored ?xs)))"
    by auto
  have id: "i = of_nat (Suc (card (dom (rows db))))" if "i \<noteq> 0"
  proof -
    have b: "bindUbjToStmt False (map snd ?ins) = Some (zip [1..<1 + length ?xs] ?xs)"
      using bind_from_aligned [OF binds, of 0] by (simp add: bindUbjToStmt_def)
    obtain out db2 where ex: "sq_exec sq (insert_text t [''data'', ''mode'', ''size'']) (zip [1..<1 + length ?xs] ?xs) db = (out, db2)"
      by fastforce
    have "so_rowid out = i \<and> out_done out"
      using ins(1) that b ex
      by (auto simp: st_insert_def insert_sql_text insert_execute_def act_run_def split: if_splits)
    with next_rowid_new [OF nr ok ex] show ?thesis by simp
  qed
  have create: "st_createBlob_obj fmt sq sc rnd t ob False db = Some (i, db1)"
    using d(1) ins(1) size by (simp add: st_createBlob_obj_def st_createBlob_def createBlob_fields)
  have "blob_row (map_of (zip (map fst ?ins) (map stored ?xs))) False ?size ?e"
    by (simp add: blob_row_def column_of_def stored_def)
  with create ins(2) new id show ?thesis by auto
qed

lemmas eval_object = val_of_obj_def val_int32_def ser_node_def ser_key_def enc_node_def
  enc_count_def enc_integer_def enc_text_def min_integer_type_def llabs_def depth_node_def
  bytes_of_string_def byte_of_char_def no_nul_def le_mem32_def to_bigendian32_def
  to_bigendian16_def CONTAINER_STACK_MAX_def word_sless_alt val_of_buffer_def

lemma version_object:
  "ser (val_of_obj [(''version'', val_int32 1)])" "v_depth (val_of_obj [(''version'', val_int32 1)]) < CONTAINER_STACK_MAX"
  "length (enc (val_of_obj [(''version'', val_int32 1)])) < 2 ^ 31"
  by (simp_all add: eval_object)

lemma root_object_ser:
  assumes "length s = 16" and "length k = 32" and "length p = 32"
  shows "ser (val_of_obj (root_object s k p))" "v_depth (val_of_obj (root_object s k p)) < CONTAINER_STACK_MAX"
    "length (enc (val_of_obj (root_object s k p))) < 2 ^ 31"
proof -
  have ne: "s \<noteq> []" "k \<noteq> []" "p \<noteq> []" using assms by auto
  show "ser (val_of_obj (root_object s k p))" "v_depth (val_of_obj (root_object s k p)) < CONTAINER_STACK_MAX"
    using ne by (simp_all add: eval_object root_object_def)
  show "length (enc (val_of_obj (root_object s k p))) < 2 ^ 31"
    using assms ne by (simp add: eval_object root_object_def)
qed

lemma getBlobObject_stored:
  assumes "blob_laws sq t dbok rows" and "dbok db" and "rows db i = Some row"
    and "blob_row row False (of_nat (length (enc (val_of_obj ob)))) (enc (val_of_obj ob))"
    and "ser (val_of_obj ob)" and "length (enc (val_of_obj ob)) < 2 ^ 31"
    and "key_ok sc" and "ctr_laws (sc_crypt sc)"
  shows "\<exists>db'. st_getBlobObject fmt sq sc t i old db = Some (True, ob, db') \<and> dbok db' \<and> rows db' = rows db"
proof -
  let ?e = "enc (val_of_obj ob)"
  have n: "length ?e = unat (of_nat (length ?e) :: u32)"
    using assms(6) by (subst unat_of_nat_u32) simp_all
  from getBlobData_stored [OF assms(1-4) n assms(7,8), of fmt] obtain db' where
    g: "st_getBlobData fmt sq sc t i db = Some (Some \<lparr>mb_data = Some ?e, mb_size = of_nat (length ?e)\<rparr>, db')"
      "dbok db'" "rows db' = rows db" by auto
  have "reader_read val_null (Some ?e) (of_nat (length ?e)) = Some (True, val_of_obj ob)"
    using reader_read_enc [OF assms(5), of "[]" "[]"] assms(6) by (simp add: val_of_obj_def)
  with g show ?thesis
    by (simp add: st_getBlobObject_def obj_read_buffer_def obj_read_def val_of_obj_def val_toObject_def)
qed

lemma root_object_fields:
  "obj_get (root_object s k p) ''key'' = val_of_buffer (Some k)" "obj_get (root_object s k p) ''pwd'' = val_of_buffer (Some p)"
  "obj_get (root_object s k p) ''salt'' = val_of_buffer (Some s)"
  "obj_hasField (root_object s k p) ''key''" "obj_hasField (root_object s k p) ''pwd''"
  by (simp_all add: root_object_def obj_get_def obj_hasField_def)

lemma open_root_created:
  assumes laws: "blob_laws sq ''__main'' dbok rows" and ok: "dbok db" and row: "rows db RootNodeId = Some row"
    and ctr: "ctr_laws (sc_crypt sc)" and kdf: "\<forall>p s. length (kdf p s 32) = 32"
    and len: "length s = 16" "length k = 32"
    and seal: "seal_key sc \<lparr>mb_data = Some (kdf password s 32), mb_size = 32\<rparr> \<lparr>mb_data = Some k, mb_size = 32\<rparr> = Some (ck, cp)"
    and br: "blob_row row False (of_nat (length (enc (val_of_obj (root_object s ck cp))))) (enc (val_of_obj (root_object s ck cp)))"
  shows "\<exists>db'. open_root fmt sq sc kdf password db = Some (Some k, db') \<and> dbok db' \<and> rows db' = rows db"
proof -
  from seal_unseal [OF ctr, of "\<lparr>mb_data = Some (kdf password s 32), mb_size = 32\<rparr>" "kdf password s 32"
      "\<lparr>mb_data = Some k, mb_size = 32\<rparr>" k] kdf len seal
  have cc: "length ck = 32" "length cp = 32"
    and un: "unseal_key sc \<lparr>mb_data = Some (kdf password s 32), mb_size = 32\<rparr> ck cp = Some (Some k)" by auto
  have "key_ok (sc\<lparr>sc_key := None\<rparr>)" "ctr_laws (sc_crypt (sc\<lparr>sc_key := None\<rparr>))"
    using ctr by (simp_all add: key_ok_def)
  from getBlobObject_stored [OF laws ok row br root_object_ser(1,3) [OF len(1) cc] this, of fmt "[]"] obtain db' where
    g: "st_getBlobObject fmt sq (sc\<lparr>sc_key := None\<rparr>) ''__main'' RootNodeId [] db = Some (True, root_object s ck cp, db')"
      "dbok db'" "rows db' = rows db" by blast
  have "val_bufferSize (val_of_buffer (Some ck)) = 32" "val_bufferSize (val_of_buffer (Some cp)) = 32"
    using cc by (simp_all add: val_bufferSize_def val_of_buffer_def)
  with g un show ?thesis
    by (simp add: open_root_def has_buffer_def root_object_fields) (simp add: val_of_buffer_def)
qed

lemma store_reopens:
  assumes laws: "blob_laws sq ''__main'' dbok rows" and tabs: "tables_ok fmt sq dbok rows"
    and nr: "next_rowid sq ''__main'' dbok rows" and ok: "dbok db" and empty: "rows db = (\<lambda>_. None)"
    and ctr: "ctr_laws (sc_crypt sc)" and kdf: "\<forall>p s. length (kdf p s 32) = 32"
    and len: "length salt = 16" "length key = 32"
    and created: "st_init fmt sq sc kdf False True True (Some salt) (Some key) password db = Some (Some s, db1)"
  shows "\<exists>s' db2. st_open fmt sq sc kdf True True password db1 = Some (Some s', db2)
    \<and> us_key s' = Some \<lparr>mb_data = Some key, mb_size = 32\<rparr> \<and> us_key s = us_key s'"
proof -
  let ?kb = "\<lparr>mb_data = Some key, mb_size = 32 :: u32\<rparr>"
  let ?pwd = "\<lparr>mb_data = Some (kdf password salt 32), mb_size = 32 :: u32\<rparr>"
  from internal_tables [OF tabs ok] obtain d1 ix d2 where
    t: "createInternalBlobTables sq db = (True, d1)" "createInternalVTables fmt sq True d1 = Some (True, ix, d2)"
      "dbok d2" "rows d2 = (\<lambda>_. None)" using empty by auto
  from createBlob_object [OF laws t(3) nr version_object, of fmt "sc\<lparr>sc_key := None\<rparr>" None] obtain i d3 row1 where
    m: "st_createBlob_obj fmt sq (sc\<lparr>sc_key := None\<rparr>) None ''__main'' [(''version'', val_int32 1)] False d2 = Some (i, d3)"
      "dbok d3" "i \<noteq> 0 \<Longrightarrow> i = of_nat (Suc (card (dom (rows d2)))) \<and> rows d3 = (rows d2)(i \<mapsto> row1)" by blast
  from seal_unseal [OF ctr, of ?pwd "kdf password salt 32" ?kb key] kdf len obtain ck cp where
    c: "seal_key sc ?pwd ?kb = Some (ck, cp)" "length ck = 32" "length cp = 32" by auto
  from createBlob_object [OF laws m(2) nr root_object_ser [OF len(1) c(2,3)], of fmt "sc\<lparr>sc_key := Some ?kb\<rparr>" None]
  obtain j d4 row2 where
    r: "st_createBlob_obj fmt sq (sc\<lparr>sc_key := Some ?kb\<rparr>) None ''__main'' (root_object salt ck cp) False d3 = Some (j, d4)"
      "dbok d4"
    and r': "j \<noteq> 0 \<Longrightarrow> j = of_nat (Suc (card (dom (rows d3)))) \<and> rows d4 = (rows d3)(j \<mapsto> row2)
        \<and> blob_row row2 False (of_nat (length (enc (val_of_obj (root_object salt ck cp)))))
            (enc (val_of_obj (root_object salt ck cp)))" by blast
  have ids: "i \<noteq> 0" "j \<noteq> 0" and s: "us_key s = Some ?kb" "db1 = d4"
    using created t m(1) r(1) c(1) len by (auto simp: st_init_def Let_def split: if_splits)
  have "dom (rows d3) = {i}" using m(3) ids t(4) by simp
  then have "j = RootNodeId" using r' ids by (simp add: RootNodeId_def)
  with r' ids have row: "rows d4 RootNodeId = Some row2" by simp
  from internal_tables [OF tabs r(2)] obtain e1 ix' e2 where
    o': "createInternalBlobTables sq d4 = (True, e1)" "createInternalVTables fmt sq True e1 = Some (True, ix', e2)"
      "dbok e2" "rows e2 = rows d4" by blast
  have "rows e2 RootNodeId = Some row2" using row o'(4) by simp
  then obtain e3 where "open_root fmt sq sc kdf password e2 = Some (Some key, e3)"
    using open_root_created [of sq dbok rows e2 row2 sc kdf salt key password ck cp fmt]
      laws o'(3) ctr kdf len c(1) r' ids by blast
  with o' s len show ?thesis by (simp add: st_open_def)
qed

section \<open>The database in memory\<close>

lemma mem_tables_ok: "tables_ok (\<lambda>_ _. []) (mem_sqlite ''__main'') mem_ok mem_row"
proof -
  have create: "createBlobTable (mem_sqlite ''__main'') t db = (True, db)" for t db
    by (simp add: createBlobTable_def sql_run_def blob_table_sql_def mem_sqlite_def mem_exec_def mem_texts mem_outcome_def)
  have f: "val_of_string ''id'' = Some (Val UBJ_STRING (Some (bytes_of_string ''id'')) None None)"
    by (simp add: val_of_string_def set_string_def bytes_of_string_def val_null_def word_gt_0)
  have w: "wherePart [] = ([], [])" by (subst wherePart_rec) (simp add: where_fields_def)
  have "st_getBlobIds (\<lambda>_ _. []) (mem_sqlite ''__main'') ''__indexes'' db = Some ([], db)" for db
    by (simp add: st_getBlobIds_def f st_query_list_def query_sql_def fieldsToReturnPart_def where_clause_def
        orderPart_def val_toStr_def w query_execute_def act_run_def mem_sqlite_def bindUbjToStmt_def mem_exec_def
        mem_texts mem_outcome_def cursor_rows_def)
  with create show ?thesis by (simp add: tables_ok_def)
qed

lemma mem_rows_card:
  assumes "length db \<le> 1000"
  shows "card (dom (mem_row db)) = length db"
proof -
  have u: "unat (of_nat n :: u64) = n" if "n \<le> 1000" for n
    using that by (subst unat_of_nat) (simp add: take_bit_nat_eq_self)
  have "dom (mem_row db) = of_nat ` {1..length db}"
  proof (intro equalityI subsetI)
    fix i assume "i \<in> dom (mem_row db)"
    then have "unat i \<in> {1..length db}" by (auto simp: mem_row_def split: if_splits)
    moreover have "i = of_nat (unat i)" by simp
    ultimately show "i \<in> of_nat ` {1..length db}" by blast
  next
    fix i :: u64 assume "i \<in> of_nat ` {1..length db}"
    with u assms show "i \<in> dom (mem_row db)" by (auto simp: mem_row_def)
  qed
  moreover have "inj_on (of_nat :: nat \<Rightarrow> u64) {1..length db}"
    by (rule inj_on_inverseI [of _ unat]) (use u assms in auto)
  ultimately show ?thesis by (simp add: card_image)
qed

lemma mem_next_rowid: "next_rowid (mem_sqlite t) t mem_ok mem_row"
  using mem_rows_card
  by (auto simp: next_rowid_def mem_sqlite_def mem_exec_def mem_texts mem_insert_def mem_outcome_def mem_ok_def
      out_done_def simp del: of_nat_Suc)

lemma mem_createBlob_object:
  assumes "length db < 1000" and "ser (val_of_obj ob)" and "v_depth (val_of_obj ob) < CONTAINER_STACK_MAX"
    and "length (enc (val_of_obj ob)) < 2 ^ 31"
  shows "\<exists>row. st_createBlob_obj fmt (mem_sqlite t) sc rnd t ob False db = Some (of_nat (Suc (length db)), db @ [row])"
proof -
  have "v_type (val_of_obj ob) = UBJ_OBJECT \<or> v_type (val_of_obj ob) = UBJ_ARRAY" by (simp add: val_of_obj_def)
  from value_roundtrip [OF assms(2) this assms(3)] assms(4) obtain d where
    d: "writer_write (val_of_obj ob) = Some (Some d)" "mb_inv d" "mb_bytes d = enc (val_of_obj ob)" by auto
  have "enc (val_of_obj ob) \<noteq> []" using enc_nonempty [OF assms(2)] by auto
  with bind_buffer [OF d(2)] d(3) have b: "bind_value False (val_of_membuf d) = Some (Some (SQ_Blob (mb_bytes d)))" by simp
  have "of_nat (Suc (length db)) \<noteq> (0 :: u64)"
  proof
    assume "of_nat (Suc (length db)) = (0 :: u64)"
    then have "unat (of_nat (Suc (length db)) :: u64) = 0" by simp
    then show False using assms(1) by (simp add: unat_of_nat take_bit_nat_eq_self del: of_nat_Suc)
  qed
  with assms(1) d(1) show ?thesis
    by (simp add: st_createBlob_obj_def st_createBlob_def createBlob_fields st_insert_def insert_sql_text insert_execute_def
        act_run_def bindUbjToStmt_def b bind_bool bind_int32 mem_sqlite_def mem_exec_def mem_texts
        mem_insert_def mem_outcome_def out_done_def Let_def del: of_nat_Suc)
qed

end
