(* ===== verification/Store_Api.thy ===== *)
theory Store_Api
  imports Store_Seal
begin

text \<open>
  What the application sees of the open store and of the platform: the public operations of
  \<^verbatim>\<open>UBJ::Store\<close>, the random source and the clock, over one state \<open>'s\<close>.  The operations of
  \<^verbatim>\<open>Zway::Store\<close>, of the requests and of the client are written over this record, so what is
  proved of them holds whatever the store answers; \<open>store_api\<close> is the record made of the
  operations of \<open>Store_DB\<close>, \<open>Store_Blob\<close> and \<open>Store_Module\<close>.
\<close>

type_synonym fields = "(string \<times> val) list"

section \<open>The operations\<close>

text \<open>
  \<open>ap_query\<close> is the query whose rows a cursor runs through (\<^const>\<open>None\<close> for an error) with
  limit and offset; \<open>ap_query_one\<close> takes the first row.  An outer \<^const>\<open>None\<close> is undefined
  behaviour.
\<close>

record 's api =
  ap_query :: "string \<Rightarrow> fields \<Rightarrow> fields \<Rightarrow> val list \<Rightarrow> u32 \<Rightarrow> u32 \<Rightarrow> 's \<Rightarrow> (fields list option \<times> 's) option"
  ap_query_one :: "string \<Rightarrow> fields \<Rightarrow> fields \<Rightarrow> val list \<Rightarrow> u32 \<Rightarrow> 's \<Rightarrow> (fields option \<times> 's) option"
  ap_queryInt :: "string \<Rightarrow> string \<Rightarrow> fields \<Rightarrow> 's \<Rightarrow> (u64 \<times> 's) option"
  ap_count :: "string \<Rightarrow> fields \<Rightarrow> 's \<Rightarrow> (u32 \<times> 's) option"
  ap_insert :: "string \<Rightarrow> fields \<Rightarrow> 's \<Rightarrow> (u64 \<times> 's) option"
  ap_update :: "string \<Rightarrow> fields \<Rightarrow> fields \<Rightarrow> 's \<Rightarrow> (u32 \<times> 's) option"
  ap_remove :: "string \<Rightarrow> fields \<Rightarrow> 's \<Rightarrow> (u32 \<times> 's) option"
  ap_createBlob :: "string \<Rightarrow> membuf option \<Rightarrow> 's \<Rightarrow> (u64 \<times> 's) option"
  ap_createBlobObj :: "string \<Rightarrow> fields \<Rightarrow> 's \<Rightarrow> (u64 \<times> 's) option"
  ap_updateBlobObj :: "string \<Rightarrow> u64 \<Rightarrow> fields \<Rightarrow> 's \<Rightarrow> (u32 \<times> 's) option"
  ap_removeBlob :: "string \<Rightarrow> u64 \<Rightarrow> 's \<Rightarrow> (bool \<times> 's) option"
  ap_getBlobData :: "string \<Rightarrow> u64 \<Rightarrow> 's \<Rightarrow> (membuf option \<times> 's) option"
  ap_getBlobObj :: "string \<Rightarrow> u64 \<Rightarrow> fields \<Rightarrow> 's \<Rightarrow> (bool \<times> fields \<times> 's) option"
  ap_random :: "nat \<Rightarrow> 's \<Rightarrow> bytes option \<times> 's"
  ap_time :: "'s \<Rightarrow> u64"

section \<open>The store behind them\<close>

text \<open>
  The host: number formatting, sqlite with the virtual tables registered with it, the ciphers,
  what the \<open>n\<close>-th draw from \<^verbatim>\<open>/dev/urandom\<close> gives and the clock at that moment.  sqlite
  draws the salt of a row it hands to \<^verbatim>\<open>xUpdate\<close>, so it depends on the draw; \<open>ho_salts\<close> are
  the salts of the blobs one \<^verbatim>\<open>update\<close> rewrites.
\<close>

record ('db, 'k) host =
  ho_fmt :: "ubj_type \<Rightarrow> bytes \<Rightarrow> string"
  ho_sq :: "nat \<Rightarrow> (string \<times> vmodule) list \<Rightarrow> 'db sqlite"
  ho_sc :: "'k store_cipher"
  ho_random :: "nat \<Rightarrow> nat \<Rightarrow> bytes option"
  ho_salts :: "nat \<Rightarrow> u64 \<Rightarrow> bytes option"
  ho_time :: "nat \<Rightarrow> u64"

record 'db world =
  wo_db :: 'db
  wo_store :: ustore
  wo_draws :: nat

definition wo_sqlite :: "('db, 'k) host \<Rightarrow> 'db world \<Rightarrow> 'db sqlite" where
  "wo_sqlite h w = ho_sq h (wo_draws w) (us_vtabs (wo_store w))"

definition wo_cipher :: "('db, 'k) host \<Rightarrow> 'db world \<Rightarrow> 'k store_cipher" where
  "wo_cipher h w = (ho_sc h)\<lparr>sc_key := us_key (wo_store w)\<rparr>"

definition wo_vtab :: "'db world \<Rightarrow> string \<Rightarrow> bool" where
  "wo_vtab w table \<longleftrightarrow> st_vtab (wo_store w) table \<noteq> None"

text \<open>Running a step on the database.\<close>

definition on_db :: "('db \<Rightarrow> ('a \<times> 'db) option) \<Rightarrow> 'db world \<Rightarrow> ('a \<times> 'db world) option" where
  "on_db f w = map_option (\<lambda>(x, db). (x, w\<lparr>wo_db := db\<rparr>)) (f (wo_db w))"

text \<open>\<^verbatim>\<open>Random::random\<close> from the device.\<close>

definition drawn :: "'db world \<Rightarrow> 'db world" where
  "drawn w = w\<lparr>wo_draws := Suc (wo_draws w)\<rparr>"

definition wo_random :: "('db, 'k) host \<Rightarrow> nat \<Rightarrow> 'db world \<Rightarrow> bytes option \<times> 'db world" where
  "wo_random h n w = (ho_random h (wo_draws w) n, drawn w)"

text \<open>\<^verbatim>\<open>m_vtabs[table].updateIds()\<close>, which \<^verbatim>\<open>query\<close> and \<^verbatim>\<open>count\<close> begin with.\<close>

definition refresh :: "('db, 'k) host \<Rightarrow> string \<Rightarrow> 'db world \<Rightarrow> 'db world option" where
  "refresh h table w =
     (case st_vtab (wo_store w) table of
        None \<Rightarrow> Some w
      | Some m \<Rightarrow> do {
          (m1, db1) \<leftarrow> updateIds (ho_fmt h) (wo_sqlite h w) (wo_cipher h w) m (wo_db w);
          Some (w\<lparr>wo_db := db1,
                  wo_store := (wo_store w)\<lparr>us_vtabs := omap_insert table m1 (us_vtabs (wo_store w))\<rparr>\<rparr>) })"

definition us_query ::
    "('db, 'k) host \<Rightarrow> string \<Rightarrow> fields \<Rightarrow> fields \<Rightarrow> val list \<Rightarrow> u32 \<Rightarrow> u32 \<Rightarrow> 'db world
     \<Rightarrow> (fields list option \<times> 'db world) option" where
  "us_query h table query order fs limit offset w = do {
     w1 \<leftarrow> refresh h table w;
     ((ok, rows), w2) \<leftarrow>
       on_db (\<lambda>db. map_option (\<lambda>(ok, rows, db'). ((ok, rows), db'))
                     (st_query_list (ho_fmt h) (wo_sqlite h w1) (wo_vtab w1 table) table query order fs limit offset db)) w1;
     Some (if ok then Some rows else None, w2) }"

definition us_query_one ::
    "('db, 'k) host \<Rightarrow> string \<Rightarrow> fields \<Rightarrow> fields \<Rightarrow> val list \<Rightarrow> u32 \<Rightarrow> 'db world
     \<Rightarrow> (fields option \<times> 'db world) option" where
  "us_query_one h table query order fs offset w = do {
     w1 \<leftarrow> refresh h table w;
     on_db (st_query_one (ho_fmt h) (wo_sqlite h w1) (wo_vtab w1 table) table query order fs offset) w1 }"

definition us_queryInt ::
    "('db, 'k) host \<Rightarrow> string \<Rightarrow> string \<Rightarrow> fields \<Rightarrow> 'db world \<Rightarrow> (u64 \<times> 'db world) option" where
  "us_queryInt h table field query w = do {
     w1 \<leftarrow> refresh h table w;
     on_db (st_queryInt (ho_fmt h) (wo_sqlite h w1) (wo_vtab w1 table) table field query [] 0) w1 }"

definition us_count :: "('db, 'k) host \<Rightarrow> string \<Rightarrow> fields \<Rightarrow> 'db world \<Rightarrow> (u32 \<times> 'db world) option" where
  "us_count h table wh w = do {
     w1 \<leftarrow> refresh h table w;
     on_db (st_count (wo_sqlite h w1) (wo_vtab w1 table) table wh) w1 }"

definition us_insert :: "('db, 'k) host \<Rightarrow> string \<Rightarrow> fields \<Rightarrow> 'db world \<Rightarrow> (u64 \<times> 'db world) option" where
  "us_insert h table ins w = on_db (st_insert (wo_sqlite h w) (wo_vtab w table) table ins) (drawn w)"

text \<open>
  \<^verbatim>\<open>update\<close> and \<^verbatim>\<open>remove\<close>: the rows of a virtual table are blobs, found by a query (which
  refreshes the module) and rewritten one by one, each with a salt of its own.
\<close>

definition us_update ::
    "('db, 'k) host \<Rightarrow> string \<Rightarrow> fields \<Rightarrow> fields \<Rightarrow> 'db world \<Rightarrow> (u32 \<times> 'db world) option" where
  "us_update h table upd wh w =
     (case st_vtab (wo_store w) table of
        Some m \<Rightarrow> do {
          w1 \<leftarrow> refresh h table w;
          on_db (st_vtab_update (ho_fmt h) (wo_sqlite h w1) (wo_cipher h w1) (ho_salts h (wo_draws w1))
                   (vm_blobTable m) table upd wh) (drawn w1) }
      | None \<Rightarrow> on_db (st_update (wo_sqlite h w) table upd wh) w)"

definition us_remove :: "('db, 'k) host \<Rightarrow> string \<Rightarrow> fields \<Rightarrow> 'db world \<Rightarrow> (u32 \<times> 'db world) option" where
  "us_remove h table wh w =
     (case st_vtab (wo_store w) table of
        Some m \<Rightarrow> do {
          w1 \<leftarrow> refresh h table w;
          on_db (st_vtab_remove (ho_fmt h) (wo_sqlite h w1) (vm_blobTable m) table wh) w1 }
      | None \<Rightarrow> on_db (st_remove (wo_sqlite h w) table wh) w)"

text \<open>The blob operations draw their salts from the random source.\<close>

definition us_createBlob ::
    "('db, 'k) host \<Rightarrow> string \<Rightarrow> membuf option \<Rightarrow> 'db world \<Rightarrow> (u64 \<times> 'db world) option" where
  "us_createBlob h table data w =
     (case wo_random h 12 w of
        (rnd, w1) \<Rightarrow> on_db (st_createBlob (ho_fmt h) (wo_sqlite h w1) (wo_cipher h w1) rnd table data True) w1)"

definition us_createBlobObj ::
    "('db, 'k) host \<Rightarrow> string \<Rightarrow> fields \<Rightarrow> 'db world \<Rightarrow> (u64 \<times> 'db world) option" where
  "us_createBlobObj h table data w =
     (case wo_random h 12 w of
        (rnd, w1) \<Rightarrow> on_db (st_createBlob_obj (ho_fmt h) (wo_sqlite h w1) (wo_cipher h w1) rnd table data True) w1)"

definition us_updateBlobObj ::
    "('db, 'k) host \<Rightarrow> string \<Rightarrow> u64 \<Rightarrow> fields \<Rightarrow> 'db world \<Rightarrow> (u32 \<times> 'db world) option" where
  "us_updateBlobObj h table i data w =
     (case wo_random h 12 w of
        (rnd, w1) \<Rightarrow> on_db (st_updateBlobObject (ho_fmt h) (wo_sqlite h w1) (wo_cipher h w1) rnd table i data True) w1)"

definition us_getBlobObj ::
    "('db, 'k) host \<Rightarrow> string \<Rightarrow> u64 \<Rightarrow> fields \<Rightarrow> 'db world \<Rightarrow> (bool \<times> fields \<times> 'db world) option" where
  "us_getBlobObj h table i old w =
     map_option (\<lambda>(r, ob, db). (r, ob, w\<lparr>wo_db := db\<rparr>))
       (st_getBlobObject (ho_fmt h) (wo_sqlite h w) (wo_cipher h w) table i old (wo_db w))"

definition store_api :: "('db, 'k) host \<Rightarrow> 'db world api" where
  "store_api h =
     \<lparr>ap_query = us_query h, ap_query_one = us_query_one h, ap_queryInt = us_queryInt h,
      ap_count = us_count h, ap_insert = us_insert h, ap_update = us_update h, ap_remove = us_remove h,
      ap_createBlob = us_createBlob h, ap_createBlobObj = us_createBlobObj h,
      ap_updateBlobObj = us_updateBlobObj h,
      ap_removeBlob = (\<lambda>table i w. on_db (st_removeBlob (wo_sqlite h w) table i) w),
      ap_getBlobData = (\<lambda>table i w. on_db (st_getBlobData (ho_fmt h) (wo_sqlite h w) (wo_cipher h w) table i) w),
      ap_getBlobObj = us_getBlobObj h, ap_random = wo_random h,
      ap_time = (\<lambda>w. ho_time h (wo_draws w))\<rparr>"

section \<open>Random numbers\<close>

text \<open>
  \<^verbatim>\<open>Random::random(buf, n)\<close>: it fails when the device cannot be opened, and then leaves the
  buffer alone.  \<^verbatim>\<open>mkId\<close> ignores the failure and returns an uninitialised variable.
\<close>

definition draw :: "'s api \<Rightarrow> nat \<Rightarrow> 's \<Rightarrow> (bytes option \<times> 's) option" where
  "draw A n w =
     (case ap_random A n w of
        (None, w1) \<Rightarrow> Some (None, w1)
      | (Some bs, w1) \<Rightarrow> if length bs < n then None else Some (Some (take n bs), w1))"

definition mkId :: "'s api \<Rightarrow> 's \<Rightarrow> (u32 \<times> 's) option" where
  "mkId A w = do {
     (r, w1) \<leftarrow> draw A 4 w;
     bs \<leftarrow> r;
     i \<leftarrow> le_load32 bs;
     Some (i, w1) }"

lemma draw_length: "draw A n w = Some (Some bs, w1) \<Longrightarrow> length bs = n"
  by (auto simp: draw_def split: prod.splits option.splits if_splits)

section \<open>Objects\<close>

text \<open>\<^verbatim>\<open>UBJ_OBJ(a << x << b << y)\<close>: the pairs in the order of insertion.\<close>

definition mk_obj :: "(string \<times> val) list \<Rightarrow> fields" where
  "mk_obj kvs = obj_merge [] kvs"

text \<open>A field given by text; the constructor leaves the value null for the empty text.\<close>

definition text_val :: "string \<Rightarrow> val" where
  "text_val s = the (val_of_string s)"

lemma val_of_string_text: "val_of_string s = Some (text_val s)"
  using val_of_string_total [of s] by (auto simp: text_val_def)

lemma val_field_obj [simp]: "val_field (val_of_obj ob) k = obj_get ob k"
  by (simp add: val_field_def val_of_obj_def obj_get_def split: option.splits)

lemma map_of_merge: "map_of (obj_merge ob kvs) k = (case map_of (rev kvs) k of Some v \<Rightarrow> Some v | None \<Rightarrow> map_of ob k)"
  by (induction kvs arbitrary: ob)
    (auto simp: obj_merge_def map_of_omap_insert map_add_def split: option.splits)

lemma obj_get_mk_obj: "obj_get (mk_obj kvs) k = (case map_of (rev kvs) k of Some v \<Rightarrow> v | None \<Rightarrow> val_null)"
  by (simp add: obj_get_def mk_obj_def map_of_merge split: option.splits)

lemma obj_hasField_mk_obj: "obj_hasField (mk_obj kvs) k \<longleftrightarrow> map_of (rev kvs) k \<noteq> None"
  by (simp add: obj_hasField_def mk_obj_def map_of_merge split: option.splits)

lemma field_buffer_membuf:
  assumes "mb_inv b" and "obj_get ob k = val_of_membuf b"
  shows "field_buffer ob k = Some \<lparr>mb_data = Some (mb_bytes b), mb_size = mb_size b\<rparr>"
  using assms(2) mb_inv_length [OF assms(1)] by (simp add: field_buffer_def val_of_membuf_def val_of_buffer_def)

end
