(* ===== verification/Store_Handler.thy ===== *)
theory Store_Handler
  imports Store_Api Threads
begin

text \<open>
  How the store runs its actions (\<^verbatim>\<open>ubj/store/store.cpp\<close>, \<^verbatim>\<open>ubj/store/handler.cpp\<close>
  and the transactions and blob actions of \<^verbatim>\<open>ubj/store/action/\<close>): directly, or on the
  handler's thread while the caller waits.  \<open>Threads\<close> has the interleavings of that waiting; here a
  caller whose action never calls \<^verbatim>\<open>notify\<close> does not return, which is an outer \<^const>\<open>None\<close>.
\<close>

section \<open>Transactions\<close>

text \<open>What \<^verbatim>\<open>execute\<close> answers, whether it has called \<^verbatim>\<open>notify\<close>, and the database.\<close>

record 'db ran =
  ra_ok :: bool
  ra_notified :: bool
  ra_db :: 'db

type_synonym 'db tx_callback = "(bool \<Rightarrow> 'db \<Rightarrow> 'db option) option"

definition call_back :: "'db tx_callback \<Rightarrow> bool \<Rightarrow> 'db \<Rightarrow> 'db option" where
  "call_back cb err db = (case cb of None \<Rightarrow> Some db | Some f \<Rightarrow> f err db)"

definition end_execute :: "'db sqlite \<Rightarrow> 'db tx_callback \<Rightarrow> 'db \<Rightarrow> 'db ran option" where
  "end_execute sq cb db = do {
     (out, db1) \<leftarrow> act_run sq False end_sql db;
     case out of
       None \<Rightarrow> do { db2 \<leftarrow> call_back cb True db1; Some \<lparr>ra_ok = False, ra_notified = (cb \<noteq> None), ra_db = db2\<rparr> }
     | Some o' \<Rightarrow> do {
         db2 \<leftarrow> call_back cb (\<not> out_done o') db1;
         Some \<lparr>ra_ok = out_done o', ra_notified = True, ra_db = db2\<rparr> } }"

text \<open>
  \<^verbatim>\<open>BeginTransaction\<close> ends the transaction itself, after its callback, when it has one; this
  runs on the thread that executes the action, so \<^verbatim>\<open>endTransaction\<close> is executed directly.
\<close>

definition begin_execute :: "'db sqlite \<Rightarrow> bool \<Rightarrow> 'db tx_callback \<Rightarrow> 'db \<Rightarrow> 'db ran option" where
  "begin_execute sq exclusive cb db = do {
     (out, db1) \<leftarrow> act_run sq False (begin_sql exclusive) db;
     case out of
       None \<Rightarrow> do { db2 \<leftarrow> call_back cb True db1; Some \<lparr>ra_ok = False, ra_notified = (cb \<noteq> None), ra_db = db2\<rparr> }
     | Some o' \<Rightarrow>
         if out_done o' then
           (case cb of
              None \<Rightarrow> Some \<lparr>ra_ok = True, ra_notified = True, ra_db = db1\<rparr>
            | Some f \<Rightarrow> do {
                db2 \<leftarrow> f False db1;
                e \<leftarrow> end_execute sq None db2;
                Some \<lparr>ra_ok = True, ra_notified = True, ra_db = ra_db e\<rparr> })
         else do {
           db2 \<leftarrow> call_back cb True db1;
           Some \<lparr>ra_ok = False, ra_notified = True, ra_db = db2\<rparr> } }"

section \<open>Blob actions\<close>

text \<open>The callback gets the blob, or nothing for an error.\<close>

definition readblob_execute ::
    "(ubj_type \<Rightarrow> bytes \<Rightarrow> string) \<Rightarrow> 'db sqlite \<Rightarrow> 'k store_cipher \<Rightarrow> string \<Rightarrow> u64
     \<Rightarrow> ('k blob option \<Rightarrow> 'db \<Rightarrow> 'db option) option \<Rightarrow> 'db \<Rightarrow> 'db ran option" where
  "readblob_execute fmt sq sc table i cb db = do {
     (b, db1) \<leftarrow> st_readBlob fmt sq sc table i db;
     db2 \<leftarrow> (case cb of None \<Rightarrow> Some db1 | Some f \<Rightarrow> f b db1);
     Some \<lparr>ra_ok = (b \<noteq> None), ra_notified = True, ra_db = db2\<rparr> }"

definition writeblob_execute ::
    "(ubj_type \<Rightarrow> bytes \<Rightarrow> string) \<Rightarrow> 'db sqlite \<Rightarrow> 'k store_cipher \<Rightarrow> string \<Rightarrow> u64
     \<Rightarrow> ('k blob option \<Rightarrow> 'db \<Rightarrow> 'db option) option \<Rightarrow> 'db \<Rightarrow> 'db ran option" where
  "writeblob_execute fmt sq sc table i cb db = do {
     (b, db1) \<leftarrow> st_writeBlob fmt sq sc table i db;
     db2 \<leftarrow> (case cb of None \<Rightarrow> Some db1 | Some f \<Rightarrow> f b db1);
     Some \<lparr>ra_ok = (b \<noteq> None), ra_notified = True, ra_db = db2\<rparr> }"

section \<open>Running an action\<close>

text \<open>
  \<^verbatim>\<open>processAction\<close>: \<open>handler\<close> is the thread of the handler, if there is one, \<open>me\<close> the calling
  thread.  It answers true whatever the action does.
\<close>

definition is_posted :: "nat option \<Rightarrow> nat \<Rightarrow> bool" where
  "is_posted handler me \<longleftrightarrow> handler \<noteq> None \<and> handler \<noteq> Some me"

definition processAction ::
    "nat option \<Rightarrow> nat \<Rightarrow> ('db \<Rightarrow> 'db ran option) \<Rightarrow> 'db \<Rightarrow> (bool \<times> 'db) option" where
  "processAction handler me run db = do {
     r \<leftarrow> run db;
     if is_posted handler me \<and> \<not> ra_notified r then None else Some (True, ra_db r) }"

definition st_beginTransaction ::
    "'db sqlite \<Rightarrow> nat option \<Rightarrow> nat \<Rightarrow> bool \<Rightarrow> 'db tx_callback \<Rightarrow> 'db \<Rightarrow> 'db option" where
  "st_beginTransaction sq handler me exclusive cb db =
     map_option snd (processAction handler me (begin_execute sq exclusive cb) db)"

definition st_endTransaction :: "'db sqlite \<Rightarrow> nat option \<Rightarrow> nat \<Rightarrow> 'db tx_callback \<Rightarrow> 'db \<Rightarrow> 'db option" where
  "st_endTransaction sq handler me cb db =
     map_option snd (processAction handler me (end_execute sq cb) db)"

lemma processAction_always_true: "processAction handler me run db = Some (r, db') \<Longrightarrow> r"
  by (auto simp: processAction_def split: if_splits bind_splits)

text \<open>With a callback every caller is woken; the one inside a transaction is \<open>in_transaction\<close>.\<close>

lemma begin_execute_notifies: "begin_execute sq x (Some f) db = Some r \<Longrightarrow> ra_notified r"
  by (auto simp: begin_execute_def split: bind_splits option.splits if_splits)

lemma end_execute_notifies: "end_execute sq (Some f) db = Some r \<Longrightarrow> ra_notified r"
  by (auto simp: end_execute_def split: bind_splits option.splits if_splits)

lemma blob_actions_notify:
  "readblob_execute fmt sq sc table i cb db = Some r \<Longrightarrow> ra_notified r"
  "writeblob_execute fmt sq sc table i cb' db = Some r \<Longrightarrow> ra_notified r"
  by (auto simp: readblob_execute_def writeblob_execute_def split: bind_splits)

lemma begin_execute_transaction:
  "map_option (\<lambda>r. (ra_ok r, ra_db r)) (begin_execute sq True (Some (\<lambda>err d. if err then Some d else f d)) db)
     = in_transaction sq f db"
  by (auto simp: begin_execute_def in_transaction_def transaction_execute_def end_execute_def call_back_def
      split: bind_splits option.splits)

lemma transaction_anywhere:
  "st_beginTransaction sq handler me True (Some (\<lambda>err d. if err then Some d else f d)) db
     = map_option snd (in_transaction sq f db)"
  unfolding st_beginTransaction_def processAction_def begin_execute_transaction [symmetric]
  by (auto simp: begin_execute_notifies split: bind_splits)

text \<open>Without a callback a caller on another thread waits for ever when the text is not prepared.\<close>

lemma begin_hangs:
  assumes "\<not> sq_prepare sq (fst (begin_sql x)) db" and "is_posted handler me"
  shows "st_beginTransaction sq handler me x None db = None"
    and "st_beginTransaction sq (Some me) me x None db = Some db"
  using assms by (simp_all add: st_beginTransaction_def processAction_def begin_execute_def act_run_def
      call_back_def is_posted_def)

section \<open>Transactions are balanced\<close>

text \<open>
  What sqlite promises of transactions: \<^verbatim>\<open>BEGIN\<close> succeeds only outside one, \<^verbatim>\<open>END\<close>
  closes it; the texts always prepare, and a failed statement changes nothing.
\<close>

definition tx_laws :: "'db sqlite \<Rightarrow> ('db \<Rightarrow> bool) \<Rightarrow> bool" where
  "tx_laws sq inside \<longleftrightarrow>
     (\<forall>db x. sq_prepare sq (fst (begin_sql x)) db
        \<and> (case sq_exec sq (fst (begin_sql x)) [] db of
             (out, db') \<Rightarrow> if out_done out then \<not> inside db \<and> inside db' else db' = db))
   \<and> (\<forall>db. sq_prepare sq (fst end_sql) db
        \<and> (case sq_exec sq (fst end_sql) [] db of
             (out, db') \<Rightarrow> if inside db then out_done out \<and> \<not> inside db' else \<not> out_done out \<and> db' = db))"

text \<open>A database that only knows whether a transaction is open keeps them.\<close>

definition tx_outcome :: "bool \<Rightarrow> sql_outcome" where
  "tx_outcome done' = \<lparr>so_rows = [], so_done = done', so_rowid = 0, so_changes = 0\<rparr>"

definition tx_sqlite :: "bool sqlite" where
  "tx_sqlite = \<lparr>sq_prepare = (\<lambda>_ _. True),
     sq_exec = (\<lambda>t _ inside. if t = fst end_sql then (tx_outcome inside, False) else (tx_outcome (\<not> inside), True)),
     sq_blob_open = (\<lambda>_ _ _ _. False), sq_blob_read = (\<lambda>_ _ _ _ _. None),
     sq_blob_write = (\<lambda>_ _ _ _ _. None)\<rparr>"

lemma tx_laws_hold: "tx_laws tx_sqlite (\<lambda>inside. inside)"
  by (simp add: tx_laws_def tx_sqlite_def tx_outcome_def out_done_def begin_sql_def end_sql_def)

lemma act_run_begin:
  assumes "tx_laws sq inside"
  shows "\<exists>out db'. act_run sq False (begin_sql x) db = Some (Some out, db')
    \<and> (if out_done out then \<not> inside db \<and> inside db' else db' = db)"
proof -
  have "sq_prepare sq (fst (begin_sql x)) db"
    and l: "case sq_exec sq (fst (begin_sql x)) [] db of
              (out, db') \<Rightarrow> if out_done out then \<not> inside db \<and> inside db' else db' = db"
    using assms by (simp_all only: tx_laws_def)
  moreover obtain out db' where e: "sq_exec sq (fst (begin_sql x)) [] db = (out, db')" by fastforce
  ultimately have "act_run sq False (begin_sql x) db = Some (Some out, db')"
    by (simp add: act_run_def begin_sql_def bindUbjToStmt_def)
  with l show ?thesis unfolding e by auto
qed

lemma act_run_end:
  assumes "tx_laws sq inside"
  shows "\<exists>out db'. act_run sq False end_sql db = Some (Some out, db')
    \<and> (if inside db then out_done out \<and> \<not> inside db' else \<not> out_done out \<and> db' = db)"
proof -
  have "sq_prepare sq (fst end_sql) db"
    and l: "case sq_exec sq (fst end_sql) [] db of
              (out, db') \<Rightarrow> if inside db then out_done out \<and> \<not> inside db' else \<not> out_done out \<and> db' = db"
    using assms by (simp_all only: tx_laws_def)
  moreover obtain out db' where e: "sq_exec sq (fst end_sql) [] db = (out, db')" by fastforce
  ultimately have "act_run sq False end_sql db = Some (Some out, db')"
    by (simp add: act_run_def end_sql_def bindUbjToStmt_def)
  with l show ?thesis unfolding e by auto
qed

text \<open>
  A transaction with a callback that leaves it open is closed afterwards; one without a callback
  stays open; inside a transaction the callback gets an error, so transactions do not nest.
\<close>

lemma begin_closes:
  assumes "tx_laws sq inside" and "\<And>e d d'. f e d = Some d' \<Longrightarrow> inside d' = inside d"
    and "begin_execute sq x (Some f) db = Some r"
  shows "inside (ra_db r) = inside db"
proof -
  from act_run_begin [OF assms(1), of x db] obtain out db1
    where b: "act_run sq False (begin_sql x) db = Some (Some out, db1)"
      and l: "if out_done out then \<not> inside db \<and> inside db1 else db1 = db" by blast
  show ?thesis
  proof (cases "out_done out")
    case True
    with b assms(3) obtain db2 e where f: "f False db1 = Some db2"
      and e: "end_execute sq None db2 = Some e" and r: "ra_db r = ra_db e"
      by (auto simp: begin_execute_def split: bind_splits)
    have "inside db2" using assms(2) [OF f] l True by simp
    with act_run_end [OF assms(1), of db2] e have "\<not> inside (ra_db e)"
      by (auto simp: end_execute_def call_back_def)
    with l True r show ?thesis by simp
  next
    case False
    with b assms(3) l have "f True db = Some (ra_db r)"
      by (auto simp: begin_execute_def call_back_def split: bind_splits)
    then show ?thesis by (rule assms(2))
  qed
qed

lemma begin_leaves_open:
  assumes "tx_laws sq inside" and "begin_execute sq x None db = Some r" and "ra_ok r"
  shows "inside (ra_db r)"
  using act_run_begin [OF assms(1), of x db] assms(2,3)
  by (auto simp: begin_execute_def call_back_def split: if_splits)

lemma transactions_do_not_nest:
  assumes "tx_laws sq inside" and "inside db"
  shows "in_transaction sq f db = Some (False, db)"
  using act_run_begin [OF assms(1), of True db] assms(2)
  by (auto simp: in_transaction_def transaction_execute_def split: if_splits)

section \<open>A busy database\<close>

text \<open>
  \<^verbatim>\<open>busyHandler\<close> sleeps half a second and answers whether to go on waiting.  sqlite calls it
  with 0, 1, 2, \<dots> as long as the database is locked; \<open>busy_wait\<close> answers whether the lock was
  got and how often the handler slept.
\<close>

definition busyHandler :: "bool \<Rightarrow> nat \<Rightarrow> bool" where
  "busyHandler canceled arg \<longleftrightarrow> (if arg = 10 then False else if canceled then False else True)"

primrec busy_wait :: "nat \<Rightarrow> (nat \<Rightarrow> bool) \<Rightarrow> (nat \<Rightarrow> bool) \<Rightarrow> nat \<Rightarrow> (bool \<times> nat) option" where
  "busy_wait 0 locked canceled n = None"
| "busy_wait (Suc k) locked canceled n =
     (if \<not> locked n then Some (True, n)
      else if busyHandler (canceled n) n then busy_wait k locked canceled (Suc n)
      else Some (False, Suc n))"

text \<open>After eleven sleeps at most, five and a half seconds, it is over.\<close>

lemma busy_wait_bounded:
  "n \<le> 10 \<Longrightarrow> \<exists>got k. busy_wait (11 - n) locked canceled n = Some (got, k) \<and> k \<le> 11 \<and> (got \<longrightarrow> \<not> locked k)"
proof (induction "11 - n" arbitrary: n)
  case (Suc m)
  then have m: "11 - n = Suc m" "n = 10 \<or> m = 11 - Suc n \<and> Suc n \<le> 10" by auto
  show ?case
  proof (cases "\<not> locked n \<or> \<not> busyHandler (canceled n) n")
    case True
    with Suc.prems show ?thesis by (auto simp: m(1))
  next
    case False
    then have "m = 11 - Suc n" "Suc n \<le> 10" using m(2) by (auto simp: busyHandler_def)
    with Suc.hyps(1) [of "Suc n"] False show ?thesis by (simp add: m(1))
  qed
qed simp

section \<open>The index table and closing\<close>

definition us_getIndex :: "('db, 'k) host \<Rightarrow> string \<Rightarrow> 'db world \<Rightarrow> ((string \<times> val) list option \<times> 'db world) option" where
  "us_getIndex h table w = us_query_one h ''_$indexes'' (mk_obj [(''name'', text_val table)]) [] [] 0 w"

text \<open>\<^verbatim>\<open>setIndex\<close>: an error of \<^verbatim>\<open>count\<close> is not zero and leads to the update.\<close>

definition us_setIndex ::
    "('db, 'k) host \<Rightarrow> string \<Rightarrow> val list \<Rightarrow> (string \<times> val) list \<Rightarrow> 'db world \<Rightarrow> (bool \<times> 'db world) option" where
  "us_setIndex h table ids index w = do {
     let n = (''name'', text_val table);
     let ob = [(''ids'', val_of_arr ids), (''idx'', val_of_obj index)];
     (k, w1) \<leftarrow> us_count h ''_$indexes'' (mk_obj [n]) w;
     if k \<noteq> 0 then do {
       (u, w2) \<leftarrow> us_update h ''_$indexes'' (mk_obj ob) (mk_obj [n]) w1;
       Some (u \<noteq> 0, w2) }
     else do {
       (i, w2) \<leftarrow> us_insert h ''_$indexes'' (mk_obj (n # ob)) w1;
       Some (i \<noteq> 0, w2) } }"

text \<open>
  \<^verbatim>\<open>vacuum\<close>: \<open>run\<close> is what \<^verbatim>\<open>sqlite3_exec\<close> does, with the message of an error.
  \<^verbatim>\<open>close\<close> stops the handler, closes the database and drops the key.
\<close>

definition st_vacuum :: "('db \<Rightarrow> string option \<times> 'db) \<Rightarrow> string \<Rightarrow> 'db \<Rightarrow> bool \<times> string \<times> 'db" where
  "st_vacuum run err db =
     (case run db of
        (Some msg, db1) \<Rightarrow> (False, msg, db1)
      | (None, db1) \<Rightarrow> (True, err, db1))"

record 'a open_store =
  os_handler :: "'a handler option"
  os_db :: bool
  os_key :: "membuf option"

definition st_close :: "'a open_store \<Rightarrow> 'a open_store" where
  "st_close s = s\<lparr>os_handler := None, os_db := False, os_key := None\<rparr>"

text \<open>
  Closing joins a handler that may leave its loop with actions in its queue: whoever posted them
  is never notified.
\<close>

lemma canceled_handler_leaves_queue:
  assumes "h_pc s = H_Check" and "h_canceled s"
  obtains s1 s2 where "h_run s = Some s1" and "h_run s1 = Some s2"
    and "h_pc s2 = H_Dead" and "h_queue s2 = h_queue s" and "h_done s2 = h_done s"
  using assms by (simp add: h_run_def)

end
