(* ===== verification/UBJ_Typed.thy ===== *)
theory UBJ_Typed
  imports UBJ_Value
begin

text \<open>
  Which values are well formed: the payload of every value in the tree is the one its type says.
  Whatever bytes the reader is given it makes well-formed values only, and on these the
  conversions of \<^verbatim>\<open>src/ubj/value.cpp\<close> read no byte outside a buffer.
\<close>

section \<open>Well-formed values\<close>

text \<open>
  A number has a buffer of its width, a text has a buffer, an object has fields in strict key
  order.  An array may have neither items nor a buffer, after reading cells of another type than
  \<^verbatim>\<open>int8\<close>.
\<close>


definition node_ok :: "val \<Rightarrow> bool" where
  "node_ok v \<longleftrightarrow>
     (v_type v = UBJ_INT32 \<or> v_type v = UBJ_FLOAT32 \<longrightarrow> map_option length (v_buffer v) = Some 4)
   \<and> (v_type v = UBJ_INT64 \<or> v_type v = UBJ_FLOAT64 \<longrightarrow> map_option length (v_buffer v) = Some 8)
   \<and> (v_type v = UBJ_STRING \<longrightarrow> v_buffer v \<noteq> None)
   \<and> (v_type v = UBJ_OBJECT \<longrightarrow> v_obj v \<noteq> None)
   \<and> (case v_obj v of Some kvs \<Rightarrow> omap_inv kvs | None \<Rightarrow> True)"

text \<open>All values of a tree.\<close>

primrec nodes :: "val \<Rightarrow> val list" where
  "nodes (Val t b o' a) = Val t b o' a
     # (case map_option (map (map_prod id nodes)) o' of Some kvs \<Rightarrow> concat (map snd kvs) | None \<Rightarrow> [])
     @ (case map_option (map nodes) a of Some vs \<Rightarrow> concat vs | None \<Rightarrow> [])"

definition val_ok :: "val \<Rightarrow> bool" where
  "val_ok v \<longleftrightarrow> list_all node_ok (nodes v)"

lemma val_ok_iff:
  "val_ok v \<longleftrightarrow> node_ok v
     \<and> (\<forall>kvs. v_obj v = Some kvs \<longrightarrow> (\<forall>x \<in> snd ` set kvs. val_ok x))
     \<and> (\<forall>vs. v_arr v = Some vs \<longrightarrow> (\<forall>x \<in> set vs. val_ok x))"
  by (cases v) (fastforce simp: val_ok_def list_all_iff split: option.splits)

lemma val_ok_null [simp]: "val_ok val_null"
  by (simp add: val_ok_def node_ok_def val_null_def)

lemma val_ok_payload:
  assumes "val_ok v" and "v_obj u = v_obj v" and "v_arr u = v_arr v" and "node_ok u"
  shows "val_ok u"
  using assms by (subst val_ok_iff) (auto simp: val_ok_iff [of v])

lemma val_ok_set_type:
  "val_ok v \<Longrightarrow> t \<in> {UBJ_NULLTYPE, UBJ_BOOL_TRUE, UBJ_BOOL_FALSE, UBJ_ARRAY} \<Longrightarrow> val_ok (set_type t v)"
  by (rule val_ok_payload [of v]) (auto simp: set_type_def node_ok_def val_ok_iff [of v])

lemma val_ok_scalar:
  "val_ok (val_int32 w)" "val_ok (val_int64 x)" "val_ok (val_float w)" "val_ok (val_double x)"
  by (simp_all add: val_ok_def node_ok_def val_int32_def val_int64_def val_float_def val_double_def
      le_mem32_def le_mem64_def)

definition fields_ok :: "(string \<times> val) list \<Rightarrow> bool" where
  "fields_ok kvs \<longleftrightarrow> omap_inv kvs \<and> (\<forall>x \<in> snd ` set kvs. val_ok x)"

lemma val_ok_of_obj: "val_ok (val_of_obj kvs) \<longleftrightarrow> fields_ok kvs"
  by (subst val_ok_iff) (simp add: node_ok_def val_of_obj_def fields_ok_def)

lemma val_ok_of_arr: "val_ok (val_of_arr vs) \<longleftrightarrow> (\<forall>x \<in> set vs. val_ok x)"
  by (subst val_ok_iff) (simp add: node_ok_def val_of_arr_def)

lemma val_ok_of_string: "val_of_string s = Some v \<Longrightarrow> val_ok v"
  by (auto simp: val_of_string_def set_string_def val_ok_def node_ok_def val_null_def Let_def
      split: if_splits)

lemma set_omap_insert_subset: "set (omap_insert k v m) \<subseteq> insert (k, v) (set m)"
  by (induction k v m rule: omap_insert.induct) auto

lemma fields_ok_insert: "fields_ok m \<Longrightarrow> val_ok v \<Longrightarrow> fields_ok (omap_insert k v m)"
  using set_omap_insert_subset [of k v m] by (auto simp: fields_ok_def omap_insert_inv)

lemma fields_ok_lookup: "fields_ok m \<Longrightarrow> map_of m k = Some v \<Longrightarrow> val_ok v"
  by (force simp: fields_ok_def dest: map_of_SomeD)

section \<open>The reader\<close>

lemma read_object_step_ok:
  assumes "\<And>f v. f \<in> snd ` set flds \<Longrightarrow> val_ok v \<Longrightarrow> val_ok (f v)" and "fields_ok res"
  shows "fields_ok (read_object_step flds k res)"
proof -
  let ?old = "case map_of res (string_of_bytes (c_str k)) of Some x \<Rightarrow> x | None \<Rightarrow> val_null"
  have old: "val_ok ?old"
    using assms(2) by (simp add: fields_ok_lookup split: option.splits)
  have "val_ok (case object_lookup flds k of Some f \<Rightarrow> f ?old | None \<Rightarrow> ?old)"
  proof (cases "object_lookup flds k")
    case (Some f)
    then have "f \<in> snd ` set flds" using object_lookup_sound by force
    with Some old show ?thesis by (simp add: assms(1))
  qed (simp add: old)
  with assms(2) show ?thesis
    unfolding read_object_step_def Let_def by (rule fields_ok_insert)
qed

lemma read_object_ok:
  assumes "\<And>f v. f \<in> snd ` set flds \<Longrightarrow> val_ok v \<Longrightarrow> val_ok (f v)"
  shows "val_ok (read_object flds)"
proof -
  have "fields_ok (fold (read_object_step flds) ks res)" if "fields_ok res" for ks res
    using that
  proof (induction ks arbitrary: res)
    case (Cons k ks)
    have "fields_ok (read_object_step flds k res)"
      by (rule read_object_step_ok [OF _ Cons.prems]) (rule assms)
    then show ?case by (simp add: Cons.IH)
  qed simp
  then have "fields_ok (fold (read_object_step flds) (map fst flds) [])"
    by (simp add: fields_ok_def [of "[]"])
  then show ?thesis by (simp only: read_object_def val_ok_of_obj)
qed

lemma val_ok_buffer: "val_ok v \<Longrightarrow> v_type v = UBJ_ARRAY \<Longrightarrow> val_ok (Val UBJ_ARRAY b (v_obj v) (v_arr v))"
  by (rule val_ok_payload [of v]) (simp_all add: node_ok_def, simp add: val_ok_iff [of v] node_ok_def)

lemma read_array_ok:
  assumes "\<And>f v. f \<in> set fs \<Longrightarrow> val_ok v \<Longrightarrow> val_ok (f v)" and "val_ok v" and "v_type v = UBJ_ARRAY"
  shows "val_ok (read_array t ds fs v)"
proof -
  have "val_ok (val_of_arr (map (\<lambda>f. f val_null) fs))"
    by (simp add: val_ok_of_arr assms(1))
  with assms(2,3) val_ok_buffer [OF assms(2,3)] show ?thesis by (simp add: read_array_def)
qed

lemma read_dyn_ok: "val_ok v \<Longrightarrow> val_ok (read_dyn d v)"
proof (induction d arbitrary: v)
  case (DStr t s)
  then show ?case by (auto split: option.splits dest: val_ok_of_string)
next
  case (DArr sized t ds dims)
  have "val_ok (read_array t ds (map read_dyn ds) (set_type UBJ_ARRAY v))"
    by (rule read_array_ok) (use DArr in \<open>auto simp: val_ok_set_type\<close>, simp add: set_type_def)
  then show ?case by simp
next
  case (DObj sized t kvs)
  have "val_ok (read_object (map (map_prod id read_dyn) kvs))"
    by (rule read_object_ok) (use DObj.IH in force)
  then show ?case by simp
qed (simp_all add: val_ok_set_type val_ok_scalar)

lemma reader_read_ok: "reader_read old d n = Some (r, v) \<Longrightarrow> val_ok old \<Longrightarrow> val_ok v"
  by (auto simp: reader_read_def read_dyn_ok split: option.splits if_splits bind_splits)

lemma val_read_buffer_ok: "val_read_buffer old b = Some (r, v) \<Longrightarrow> val_ok old \<Longrightarrow> val_ok v"
  by (auto simp: val_read_buffer_def reader_read_ok split: bind_splits)

section \<open>Building values\<close>

lemma val_ok_get: "fields_ok kvs \<Longrightarrow> val_ok (obj_get kvs k)"
  by (simp add: obj_get_def fields_ok_lookup split: option.splits)

lemma val_ok_setField: "fields_ok kvs \<Longrightarrow> val_ok v \<Longrightarrow> fields_ok (obj_setField k v kvs)"
  by (simp add: obj_setField_def fields_ok_insert)

lemma val_ok_merge: "fields_ok kvs \<Longrightarrow> \<forall>x \<in> snd ` set us. val_ok x \<Longrightarrow> fields_ok (obj_merge kvs us)"
  unfolding obj_merge_def by (induction us arbitrary: kvs) (auto simp: fields_ok_insert)

lemma val_ok_push: "val_ok (val_of_arr vs) \<Longrightarrow> val_ok v \<Longrightarrow> val_ok (val_of_arr (arr_push vs v))"
  by (simp add: val_ok_of_arr arr_push_def)

section \<open>Conversions\<close>

lemma le_load32_some: "length b = 4 \<Longrightarrow> le_load32 b \<noteq> None"
  by (cases b rule: le_load32.cases) auto

lemma le_load64_some: "length b = 8 \<Longrightarrow> le_load64 b \<noteq> None"
  by (cases b rule: le_load64.cases) auto

lemma node_ok_number:
  assumes "node_ok v"
  shows "v_type v = UBJ_INT32 \<or> v_type v = UBJ_FLOAT32 \<Longrightarrow> \<exists>b w. v_buffer v = Some b \<and> le_load32 b = Some w"
    and "v_type v = UBJ_INT64 \<or> v_type v = UBJ_FLOAT64 \<Longrightarrow> \<exists>b w. v_buffer v = Some b \<and> le_load64 b = Some w"
  using assms le_load32_some le_load64_some by (auto simp: node_ok_def)

lemma conversions_defined:
  assumes "node_ok v"
  shows "val_toBool v \<noteq> None" and "val_toStr fmt v \<noteq> None"
    and "val_toInt v = None \<Longrightarrow> v_type v = UBJ_FLOAT32 \<or> v_type v = UBJ_FLOAT64"
    and "val_toLong v = None \<Longrightarrow> v_type v = UBJ_FLOAT32 \<or> v_type v = UBJ_FLOAT64"
  using node_ok_number [OF assms]
  by (cases "v_type v"; fastforce simp: val_toBool_def val_toStr_def val_toInt_def val_toLong_def
      split: option.splits)+

end
