(* ===== verification/Utilities.thy ===== *)
theory Utilities
  imports UBJ_Typed Crypto
begin

text \<open>
  Small parts beside the components: the random generator (\<^verbatim>\<open>crypto/random.cpp\<close>), the
  reader of Exif orientations (\<^verbatim>\<open>util/exif.cpp\<close>) and the printing of values
  (\<^verbatim>\<open>ubj/dumper.cpp\<close>), and the variants of the digest and the cipher on buffers.
  nettle's Yarrow and libexif are arguments.
\<close>

section \<open>Random numbers\<close>

datatype random_level = RL_Weak | RL_Strong | RL_VeryStrong

record 'y yarrow =
  ya_init :: 'y
  ya_seed :: "bytes \<Rightarrow> 'y \<Rightarrow> 'y"
  ya_seeded :: "'y \<Rightarrow> bool"
  ya_random :: "nat \<Rightarrow> 'y \<Rightarrow> bytes \<times> 'y"

text \<open>
  \<^verbatim>\<open>fread\<close> into a buffer: what the device gives, the rest of the buffer stays.  The number
  of items read is not looked at.
\<close>

definition fread_into :: "bytes \<Rightarrow> bytes \<Rightarrow> bytes" where
  "fread_into got buf = take (length buf) got @ drop (length got) buf"

text \<open>
  \<^verbatim>\<open>setup\<close>: \<open>stack\<close> is what the uninitialised seed buffer holds; \<open>dev\<close> is \<^const>\<open>None\<close> when
  \<^verbatim>\<open>/dev/urandom\<close> cannot be opened.
\<close>

definition random_setup :: "'y yarrow \<Rightarrow> bytes option \<Rightarrow> bytes \<Rightarrow> bool \<times> 'y" where
  "random_setup ya dev stack =
     (case dev of
        None \<Rightarrow> (False, ya_init ya)
      | Some got \<Rightarrow>
          let y = ya_seed ya (fread_into got stack) (ya_init ya)
          in (ya_seeded ya y, y))"

definition random_bytes ::
    "'y yarrow \<Rightarrow> random_level \<Rightarrow> bytes option \<Rightarrow> bytes \<Rightarrow> 'y \<Rightarrow> bool \<times> bytes \<times> 'y" where
  "random_bytes ya level dev buf y =
     (case level of
        RL_VeryStrong \<Rightarrow>
          if \<not> ya_seeded ya y then (False, buf, y)
          else (case ya_random ya (length buf) y of (bs, y') \<Rightarrow> (True, fread_into bs buf, y'))
      | _ \<Rightarrow>
          (case dev of
             None \<Rightarrow> (False, buf, y)
           | Some got \<Rightarrow> (True, fread_into got buf, y)))"

lemma length_fread_into [simp]: "length (fread_into got buf) = length buf"
  by (simp add: fread_into_def)

lemma fread_into_full: "length buf \<le> length got \<Longrightarrow> fread_into got buf = take (length buf) got"
  by (simp add: fread_into_def)

text \<open>
  The result never depends on what was in the buffer when the device gives enough; when it gives
  less, the tail of the buffer stays and success is reported all the same.
\<close>

lemma random_bytes_full:
  assumes "level \<noteq> RL_VeryStrong" and "length buf \<le> length got"
  shows "random_bytes ya level (Some got) buf y = (True, take (length buf) got, y)"
  using assms by (cases level) (simp_all add: random_bytes_def fread_into_full)

lemma random_bytes_short:
  assumes "level \<noteq> RL_VeryStrong" and "length got < length buf"
  shows "fst (random_bytes ya level (Some got) buf y)
    \<and> drop (length got) (fst (snd (random_bytes ya level (Some got) buf y))) = drop (length got) buf"
  using assms by (cases level) (simp_all add: random_bytes_def fread_into_def)

lemma random_bytes_failed: "\<not> fst (random_bytes ya level dev buf y) \<Longrightarrow> snd (random_bytes ya level dev buf y) = (buf, y)"
  by (cases level) (auto simp: random_bytes_def split: option.splits if_splits prod.splits)

lemma random_bytes_length: "length (fst (snd (random_bytes ya level dev buf y))) = length buf"
  by (cases level) (auto simp: random_bytes_def split: option.splits prod.splits)

lemma random_unseeded_until_setup:
  "random_setup ya dev stack = (False, y) \<Longrightarrow> \<not> ya_seeded ya (ya_init ya)
   \<Longrightarrow> \<not> fst (random_bytes ya RL_VeryStrong d buf y)"
  by (auto simp: random_setup_def random_bytes_def Let_def split: option.splits)

section \<open>Exif\<close>

text \<open>
  libexif: the data of a file or of a block of memory, and the bytes of an entry of the first
  directory.  An \<^verbatim>\<open>Exif\<close> is the data it holds; \<open>clear\<close> also answers what it has released.
\<close>

record 'x libexif =
  xf_file :: "string \<Rightarrow> 'x option"
  xf_memory :: "bytes \<Rightarrow> 'x option"
  xf_entry :: "'x \<Rightarrow> u32 \<Rightarrow> bytes option"

definition exif_clear :: "'x option \<Rightarrow> 'x option \<times> 'x list" where
  "exif_clear x = (None, case x of Some d \<Rightarrow> [d] | None \<Rightarrow> [])"

definition exif_load_file :: "'x libexif \<Rightarrow> string \<Rightarrow> 'x option \<Rightarrow> bool \<times> 'x option \<times> 'x list" where
  "exif_load_file xf path x =
     (let (_, released) = exif_clear x; d = xf_file xf path in (d \<noteq> None, d, released))"

definition exif_load_memory :: "'x libexif \<Rightarrow> bytes \<Rightarrow> 'x option \<Rightarrow> bool \<times> 'x option \<times> 'x list" where
  "exif_load_memory xf bs x =
     (let (_, released) = exif_clear x; d = xf_memory xf bs in (d \<noteq> None, d, released))"

definition exif_getEntry :: "'x libexif \<Rightarrow> u32 \<Rightarrow> 'x option \<Rightarrow> bytes option" where
  "exif_getEntry xf tag x = (case x of Some d \<Rightarrow> xf_entry xf d tag | None \<Rightarrow> None)"

text \<open>\<^verbatim>\<open>(uint16_t)*entry->data\<close> is the first byte.\<close>

definition exif_getShortValue :: "'x libexif \<Rightarrow> u32 \<Rightarrow> 'x option \<Rightarrow> u16" where
  "exif_getShortValue xf tag x =
     (case exif_getEntry xf tag x of
        Some [a, b] \<Rightarrow> ucast a
      | _ \<Rightarrow> 0)"

text \<open>
  So a value below 256 is read from a little-endian file, and every such value reads as 0 from a
  big-endian one.
\<close>

lemma exif_short_value:
  assumes "n < 256"
  shows "exif_getEntry xf tag x = Some [of_nat n, 0] \<Longrightarrow> exif_getShortValue xf tag x = of_nat n"
    and "exif_getEntry xf tag x = Some [0, of_nat n] \<Longrightarrow> exif_getShortValue xf tag x = 0"
  using assms by (simp_all add: exif_getShortValue_def word_eq_iff_unsigned unsigned_ucast_eq take_bit_eq_mod
      unsigned_of_nat)

section \<open>Printing values\<close>

text \<open>
  \<^verbatim>\<open>Dumper::dump\<close>.  \<open>fmt\<close> renders floating-point numbers; an integer whose buffer is too
  short is undefined.  \<open>dump_fields\<close> and \<open>dump_items\<close> take the texts of the components.
\<close>

definition spaces :: "nat \<Rightarrow> string" where
  "spaces n = replicate n CHR '' ''"

primrec dump_fields :: "nat \<Rightarrow> (string \<times> string option) list \<Rightarrow> string option" where
  "dump_fields n [] = Some []"
| "dump_fields n (f # fs) = do {
     t \<leftarrow> snd f; ts \<leftarrow> dump_fields n fs;
     Some (spaces n @ fst f @ '' : '' @ t @ [CHR 0x0A] @ ts) }"

definition dump_items :: "nat \<Rightarrow> string option list \<Rightarrow> string option" where
  "dump_items n ts = dump_fields n (zip (map nat_to_string [0..<length ts]) ts)"

definition dump_node ::
    "(ubj_type \<Rightarrow> bytes \<Rightarrow> string) \<Rightarrow> nat \<Rightarrow> val \<Rightarrow> (string \<times> (nat \<Rightarrow> string option)) list option
     \<Rightarrow> (nat \<Rightarrow> string option) list option \<Rightarrow> nat \<Rightarrow> string option" where
  "dump_node fmt indent v flds elems depth =
     (case v_type v of
        UBJ_OBJECT \<Rightarrow>
          (case flds of
             Some (f # fs) \<Rightarrow> do {
               t \<leftarrow> dump_fields (indent * (depth + 1)) (map (\<lambda>(k, d). (k, d (depth + 1))) (f # fs));
               Some (''{'' @ [CHR 0x0A] @ t @ spaces (indent * depth) @ ''}'') }
           | _ \<Rightarrow> Some ''{}'')
      | UBJ_ARRAY \<Rightarrow>
          if val_bufferSize v = 0 then
            (case elems of
               Some (i # is) \<Rightarrow> do {
                 t \<leftarrow> dump_items (indent * (depth + 1)) (map (\<lambda>d. d (depth + 1)) (i # is));
                 Some (''['' @ [CHR 0x0A] @ t @ spaces (indent * depth) @ '']'') }
             | _ \<Rightarrow> Some ''[]'')
          else Some (''DATA '' @ nat_to_string (unat (val_bufferSize v)))
      | UBJ_BOOL_TRUE \<Rightarrow> Some ''TRUE''
      | UBJ_BOOL_FALSE \<Rightarrow> Some ''FALSE''
      | UBJ_INT32 \<Rightarrow> map_option (\<lambda>w. int_to_string (sint w)) (val_toInt v)
      | UBJ_INT64 \<Rightarrow> map_option (\<lambda>w. int_to_string (sint w)) (val_toLong v)
      | UBJ_FLOAT32 \<Rightarrow> Some (case v_buffer v of Some b \<Rightarrow> fmt UBJ_FLOAT32 b | None \<Rightarrow> ''0'')
      | UBJ_FLOAT64 \<Rightarrow> Some (case v_buffer v of Some b \<Rightarrow> fmt UBJ_FLOAT64 b | None \<Rightarrow> ''0'')
      | UBJ_STRING \<Rightarrow> map_option (\<lambda>s. [CHR 0x22] @ s @ [CHR 0x22]) (val_toStr fmt v)
      | UBJ_NULLTYPE \<Rightarrow> Some ''NULL''
      | _ \<Rightarrow> Some [])"

primrec dump :: "(ubj_type \<Rightarrow> bytes \<Rightarrow> string) \<Rightarrow> nat \<Rightarrow> val \<Rightarrow> nat \<Rightarrow> string option" where
  "dump fmt indent (Val t b o' a) =
     dump_node fmt indent (Val t b o' a) (map_option (map (map_prod id (dump fmt indent))) o')
       (map_option (map (dump fmt indent)) a)"

text \<open>A well-formed value can be printed, at any depth.\<close>

lemma dump_fields_total: "\<forall>f \<in> set fs. snd f \<noteq> None \<Longrightarrow> dump_fields n fs \<noteq> None"
  by (induction fs) auto

lemma dump_items_total: "\<forall>t \<in> set ts. t \<noteq> None \<Longrightarrow> dump_items n ts \<noteq> None"
  unfolding dump_items_def by (rule dump_fields_total) (auto dest: set_zip_rightD)

lemma dump_node_total:
  assumes "node_ok v"
    and "\<And>fs. flds = Some fs \<Longrightarrow> \<forall>f \<in> set fs. \<forall>d. snd f d \<noteq> None"
    and "\<And>is. elems = Some is \<Longrightarrow> \<forall>i \<in> set is. \<forall>d. i d \<noteq> None"
  shows "dump_node fmt indent v flds elems depth \<noteq> None"
proof (cases "v_type v")
  case UBJ_OBJECT
  have "\<exists>t. dump_fields n (map (\<lambda>(k, d). (k, d e)) fs) = Some t" if "flds = Some fs" for n e fs
    unfolding not_None_eq [symmetric] by (rule dump_fields_total) (use assms(2) [OF that] in auto)
  then have "\<forall>p ps. flds = Some (p # ps) \<longrightarrow> (\<exists>t. dump_fields (indent * (depth + 1))
      (map (\<lambda>(k, d). (k, d (depth + 1))) (p # ps)) = Some t)" by blast
  with UBJ_OBJECT show ?thesis
    by (fastforce simp: dump_node_def simp del: dump_fields.simps list.map split: option.splits list.splits)
next
  case UBJ_ARRAY
  have "\<exists>t. dump_items n (map (\<lambda>d. d e) is) = Some t" if "elems = Some is" for n e "is"
    unfolding not_None_eq [symmetric] by (rule dump_items_total) (use assms(3) [OF that] in auto)
  then have "\<forall>p ps. elems = Some (p # ps) \<longrightarrow> (\<exists>t. dump_items (indent * (depth + 1))
      (map (\<lambda>d. d (depth + 1)) (p # ps)) = Some t)" by blast
  with UBJ_ARRAY show ?thesis
    by (fastforce simp: dump_node_def simp del: list.map split: option.splits list.splits)
qed (use conversions_defined [OF assms(1)] in \<open>auto simp: dump_node_def\<close>)

lemma dump_total: "val_ok v \<Longrightarrow> dump fmt indent v depth \<noteq> None"
proof (induction v arbitrary: depth)
  case (Val t b o' a)
  show ?case
    unfolding dump.simps
  proof (rule dump_node_total)
    show "node_ok (Val t b o' a)" using Val.prems by (simp add: val_ok_iff [of "Val t b o' a"])
    show "\<forall>f \<in> set fs. \<forall>d. snd f d \<noteq> None" if "map_option (map (map_prod id (dump fmt indent))) o' = Some fs" for fs
      using that Val.IH(1) Val.prems by (auto simp: val_ok_iff [of "Val t b o' a"]) (metis image_eqI snd_conv snds.intros)
    show "\<forall>i \<in> set is. \<forall>d. i d \<noteq> None" if "map_option (map (dump fmt indent)) a = Some is" for "is"
      using that Val.IH(2) Val.prems by (auto simp: val_ok_iff [of "Val t b o' a"])
  qed
qed

section \<open>Digests and ciphers of buffers\<close>

definition digestHexStr_buffer ::
    "'c hash \<Rightarrow> bool \<Rightarrow> membuf option \<Rightarrow> digest_type \<Rightarrow> secmem option \<Rightarrow> (string \<times> secmem option) option" where
  "digestHexStr_buffer h ok data t inst =
     (case data of None \<Rightarrow> Some ([], inst) | Some b \<Rightarrow> digestHexStr h ok (mb_data b) (mb_size b) t inst)"

text \<open>The variants on buffers; a missing source is a null pointer.\<close>

definition aes_encrypt_buffer ::
    "'k ctr_crypt \<Rightarrow> bool \<Rightarrow> 'w aes_callback option \<Rightarrow> membuf option \<Rightarrow> membuf option \<Rightarrow> u32 \<Rightarrow> 'k aes \<Rightarrow> 'w
     \<Rightarrow> (bool \<times> 'k aes \<times> bytes option \<times> 'w) option" where
  "aes_encrypt_buffer crypt ok cb src dst size' a w = do {
     s \<leftarrow> src;
     aes_encrypt crypt ok cb (case mb_data s of Some d \<Rightarrow> d | None \<Rightarrow> []) (Option.bind dst mb_data) size' a w }"

definition aes_decrypt_buffer ::
    "'k ctr_crypt \<Rightarrow> bool \<Rightarrow> 'w aes_callback option \<Rightarrow> membuf option \<Rightarrow> membuf option \<Rightarrow> u32 \<Rightarrow> 'k aes \<Rightarrow> 'w
     \<Rightarrow> (bool \<times> 'k aes \<times> bytes option \<times> 'w) option" where
  "aes_decrypt_buffer crypt ok cb src dst size' a w = do {
     s \<leftarrow> src;
     aes_decrypt crypt ok cb (case mb_data s of Some d \<Rightarrow> d | None \<Rightarrow> []) (Option.bind dst mb_data) size' a w }"

text \<open>\<^verbatim>\<open>getCtr\<close> copies the end of the counter into a local variable and answers 0.\<close>

definition aes_getCtr :: "'k aes \<Rightarrow> u32" where
  "aes_getCtr a = 0"

end
