(* ===== verification/Packet.thy ===== *)
theory Packet
  imports Memory_Buffer
begin

text \<open>
  \<^verbatim>\<open>include/Zway/packet.h\<close> and \<^verbatim>\<open>src/packet.cpp\<close>: the unit of transmission.  The head
  is the plain structure that is copied to and from the wire; the body is a (possibly null)
  shared memory buffer.
\<close>

definition MAX_PACKET_BODY :: u32 where
  "MAX_PACKET_BODY = 65536"

text \<open>The enumeration \<^verbatim>\<open>Packet::StreamType\<close>; the head stores it as a plain integer.\<close>

definition ST_Undefined :: u32 where "ST_Undefined = 0"
definition ST_Request :: u32 where "ST_Request = 1"
definition ST_Resource :: u32 where "ST_Resource = 2"

record head =
  h_id :: u32
  h_streamId :: u32
  h_streamType :: u32
  h_part :: u32
  h_parts :: u32
  h_bodySize :: u32

record packet =
  p_head :: head
  p_body :: "membuf option"

definition pkt_create :: "u32 \<Rightarrow> packet" where
  "pkt_create i =
     \<lparr>p_head = \<lparr>h_id = i, h_streamId = 0, h_streamType = 0, h_part = 0, h_parts = 0, h_bodySize = 0\<rparr>,
      p_body = None\<rparr>"

definition pkt_streamId :: "packet \<Rightarrow> u32" where "pkt_streamId p = h_streamId (p_head p)"
definition pkt_streamType :: "packet \<Rightarrow> u32" where "pkt_streamType p = h_streamType (p_head p)"
definition pkt_part :: "packet \<Rightarrow> u32" where "pkt_part p = h_part (p_head p)"
definition pkt_parts :: "packet \<Rightarrow> u32" where "pkt_parts p = h_parts (p_head p)"
definition pkt_bodySize :: "packet \<Rightarrow> u32" where "pkt_bodySize p = h_bodySize (p_head p)"

text \<open>\<^verbatim>\<open>bodyData()\<close> dereferences the body: undefined (\<^const>\<open>None\<close>) on a null body.\<close>

definition pkt_bodyData :: "packet \<Rightarrow> bytes option option" where
  "pkt_bodyData p = map_option mb_data (p_body p)"

definition pkt_setId :: "u32 \<Rightarrow> packet \<Rightarrow> packet" where
  "pkt_setId x p = p\<lparr>p_head := (p_head p)\<lparr>h_id := x\<rparr>\<rparr>"

definition pkt_setStreamId :: "u32 \<Rightarrow> packet \<Rightarrow> packet" where
  "pkt_setStreamId x p = p\<lparr>p_head := (p_head p)\<lparr>h_streamId := x\<rparr>\<rparr>"

definition pkt_setStreamType :: "u32 \<Rightarrow> packet \<Rightarrow> packet" where
  "pkt_setStreamType x p = p\<lparr>p_head := (p_head p)\<lparr>h_streamType := x\<rparr>\<rparr>"

definition pkt_setPart :: "u32 \<Rightarrow> packet \<Rightarrow> packet" where
  "pkt_setPart x p = p\<lparr>p_head := (p_head p)\<lparr>h_part := x\<rparr>\<rparr>"

definition pkt_setParts :: "u32 \<Rightarrow> packet \<Rightarrow> packet" where
  "pkt_setParts x p = p\<lparr>p_head := (p_head p)\<lparr>h_parts := x\<rparr>\<rparr>"

definition pkt_setBodySize :: "u32 \<Rightarrow> packet \<Rightarrow> packet" where
  "pkt_setBodySize x p = p\<lparr>p_head := (p_head p)\<lparr>h_bodySize := x\<rparr>\<rparr>"

definition pkt_setBody :: "membuf option \<Rightarrow> u32 \<Rightarrow> packet \<Rightarrow> packet" where
  "pkt_setBody b sz p =
     (let p' = (case b of
                  Some m \<Rightarrow> pkt_setBodySize (if sz \<noteq> 0 then sz else mb_size m) p
                | None \<Rightarrow> p)
      in p'\<lparr>p_body := b\<rparr>)"

lemmas pkt_getters =
  pkt_streamId_def pkt_streamType_def pkt_part_def pkt_parts_def pkt_bodySize_def

lemmas pkt_setters =
  pkt_setId_def pkt_setStreamId_def pkt_setStreamType_def pkt_setPart_def pkt_setParts_def
  pkt_setBodySize_def pkt_setBody_def

section \<open>The head on the wire\<close>

text \<open>
  \<^verbatim>\<open>Sender::sendPacket\<close> transmits \<^verbatim>\<open>(uint8_t*)&pkt->head()\<close>: six 32-bit words in
  memory order, 24 bytes without padding; \<^verbatim>\<open>Receiver::recvPacket\<close> reads them back.
\<close>

definition HEAD_SIZE :: nat where
  "HEAD_SIZE = 24"

definition head_bytes :: "head \<Rightarrow> bytes" where
  "head_bytes h =
     le_mem32 (h_id h) @ le_mem32 (h_streamId h) @ le_mem32 (h_streamType h) @
     le_mem32 (h_part h) @ le_mem32 (h_parts h) @ le_mem32 (h_bodySize h)"

definition head_of_bytes :: "bytes \<Rightarrow> head option" where
  "head_of_bytes bs = do {
     a \<leftarrow> le_load32 bs;
     b \<leftarrow> le_load32 (drop 4 bs);
     c \<leftarrow> le_load32 (drop 8 bs);
     d \<leftarrow> le_load32 (drop 12 bs);
     e \<leftarrow> le_load32 (drop 16 bs);
     f \<leftarrow> le_load32 (drop 20 bs);
     Some \<lparr>h_id = a, h_streamId = b, h_streamType = c, h_part = d, h_parts = e, h_bodySize = f\<rparr> }"

lemma length_head_bytes [simp]: "length (head_bytes h) = HEAD_SIZE"
  by (simp add: head_bytes_def HEAD_SIZE_def)

lemma head_of_head_bytes [simp]: "head_of_bytes (head_bytes h @ r) = Some h"
  by (simp add: head_of_bytes_def head_bytes_def)

end
