(* ===== verification/Stream_Sender.thy ===== *)
theory Stream_Sender
  imports Packet
begin

text \<open>
  \<^verbatim>\<open>src/streamsender.cpp\<close> and \<^verbatim>\<open>src/buffersender.cpp\<close>.  A sender cuts a stream into
  numbered packets of at most \<^const>\<open>MAX_PACKET_BODY\<close> bytes, one packet per call of
  \<open>process\<close>.  The virtual functions \<^verbatim>\<open>preparePacket\<close> and \<^verbatim>\<open>processPacket\<close> are
  arguments of \<open>ss_process\<close>; subclasses extend the sender's record.  The results are in
  the option type, \<^const>\<open>None\<close> for a dereferenced null body; the last component of a
  result of \<open>ss_process\<close> tells whether the callback was invoked.
\<close>

datatype ss_status = SS_Idle | SS_Outgoing | SS_Completed | SS_Error

record stream_sender =
  ss_id :: u32
  ss_type :: u32
  ss_status :: ss_status
  ss_size :: u32
  ss_part :: u32
  ss_parts :: u32
  ss_body :: "membuf option"

record 'b buffer_sender = stream_sender +
  bs_buffer :: "'b option"

text \<open>\<^verbatim>\<open>StreamSender::init(streamSize)\<close>; \<open>ok\<close> is the success of the allocation.\<close>

definition ss_parts_of :: "u32 \<Rightarrow> u32" where
  "ss_parts_of size' =
     (if size' \<ge> MAX_PACKET_BODY
      then size' div MAX_PACKET_BODY + (if size' mod MAX_PACKET_BODY \<noteq> 0 then 1 else 0)
      else 1)"

definition ss_init ::
    "bool \<Rightarrow> u32 \<Rightarrow> 'x stream_sender_scheme \<Rightarrow> (bool \<times> 'x stream_sender_scheme) option" where
  "ss_init ok streamSize s = do {
     mbo \<leftarrow> mb_create ok None MAX_PACKET_BODY;
     let s1 = s\<lparr>ss_body := mbo\<rparr>;
     Some (case mbo of
             None \<Rightarrow> (False, s1)
           | Some _ \<Rightarrow>
               (True, if streamSize \<noteq> 0
                      then s1\<lparr>ss_size := streamSize, ss_parts := ss_parts_of streamSize\<rparr>
                      else s1)) }"

text \<open>\<^verbatim>\<open>StreamSender::preparePacket\<close>: the head of the next packet.\<close>

definition ss_prepare_head :: "'x stream_sender_scheme \<Rightarrow> packet \<Rightarrow> packet" where
  "ss_prepare_head s p =
     pkt_setParts (ss_parts s) (pkt_setPart (ss_part s + 1)
       (pkt_setStreamType (ss_type s) (pkt_setStreamId (ss_id s) p)))"

text \<open>\<^verbatim>\<open>StreamSender::process\<close>.\<close>

definition ss_process ::
    "('x stream_sender_scheme \<Rightarrow> packet \<Rightarrow> u32 \<Rightarrow> u32
        \<Rightarrow> (bool \<times> packet option \<times> 'x stream_sender_scheme) option)
     \<Rightarrow> ('x stream_sender_scheme \<Rightarrow> packet \<Rightarrow> (bool \<times> packet \<times> 'x stream_sender_scheme) option)
     \<Rightarrow> 'x stream_sender_scheme
     \<Rightarrow> (bool \<times> packet option \<times> 'x stream_sender_scheme \<times> bool) option" where
  "ss_process prepare procpkt s =
     (let bytesSent = ss_part s * MAX_PACKET_BODY;
          bytesToSend = (if ss_size s > 0 \<and> ss_size s - bytesSent < MAX_PACKET_BODY
                         then ss_size s - bytesSent else MAX_PACKET_BODY)
      in do {
        body \<leftarrow> ss_body s;
        let s0 = s\<lparr>ss_body := Some (mb_clear body)\<rparr>;
        (prepared, pkt, s1) \<leftarrow> prepare s0 (pkt_create 0) bytesToSend bytesSent;
        if \<not> prepared then Some (False, pkt, s1\<lparr>ss_status := SS_Error\<rparr>, True)
        else do {
          (processed, pkt', s2) \<leftarrow>
            (case pkt of
               None \<Rightarrow> Some (True, None, s1)
             | Some p \<Rightarrow> map_option (\<lambda>(r, p', s'). (r, Some p', s')) (procpkt s1 p));
          if \<not> processed then Some (False, pkt', s2\<lparr>ss_status := SS_Error\<rparr>, True)
          else
            let s3 = (if pkt' = None then s2 else s2\<lparr>ss_part := ss_part s2 + 1\<rparr>)
            in if ss_parts s3 > 0 \<and> ss_part s3 = ss_parts s3
               then Some (True, pkt', s3\<lparr>ss_status := SS_Completed\<rparr>, True)
               else Some (True, pkt', s3, False)
        }
      })"

text \<open>\<^verbatim>\<open>StreamSender::processPacket\<close> accepts every packet.\<close>

definition ss_process_packet ::
    "'x stream_sender_scheme \<Rightarrow> packet \<Rightarrow> (bool \<times> packet \<times> 'x stream_sender_scheme) option" where
  "ss_process_packet s p = Some (True, p, s)"

section \<open>BufferSender\<close>

definition bs_new :: "u32 \<Rightarrow> u32 \<Rightarrow> 'b option \<Rightarrow> 'b buffer_sender" where
  "bs_new i type' buf =
     \<lparr>ss_id = i, ss_type = type', ss_status = SS_Idle, ss_size = 0, ss_part = 0, ss_parts = 0,
      ss_body = None, bs_buffer = buf\<rparr>"

definition bs_init ::
    "('b \<Rightarrow> u32) \<Rightarrow> bool \<Rightarrow> 'b buffer_sender \<Rightarrow> (bool \<times> 'b buffer_sender) option" where
  "bs_init bsize ok s =
     (case bs_buffer s of
        None \<Rightarrow> Some (False, s)
      | Some b \<Rightarrow> ss_init ok (bsize b) s)"

definition bs_create ::
    "('b \<Rightarrow> u32) \<Rightarrow> bool \<Rightarrow> u32 \<Rightarrow> u32 \<Rightarrow> 'b option \<Rightarrow> 'b buffer_sender option option" where
  "bs_create bsize ok i type' buf =
     map_option (\<lambda>(r, s). if r then Some s else None) (bs_init bsize ok (bs_new i type' buf))"

text \<open>
  \<^verbatim>\<open>BufferSender::preparePacket\<close>: the head, then a chunk of the buffer read into the body;
  \<^verbatim>\<open>pkt.reset()\<close> when nothing was read.
\<close>

definition bs_prepare ::
    "('b \<Rightarrow> bytes option \<Rightarrow> u32 \<Rightarrow> u32 \<Rightarrow> (bool \<times> u32 option \<times> bytes option) option)
     \<Rightarrow> 'b buffer_sender \<Rightarrow> packet \<Rightarrow> u32 \<Rightarrow> u32
     \<Rightarrow> (bool \<times> packet option \<times> 'b buffer_sender) option" where
  "bs_prepare bread s p bytesToSend bytesSent = do {
     let p1 = ss_prepare_head s p;
     buf \<leftarrow> bs_buffer s;
     body \<leftarrow> ss_body s;
     (r, n, d) \<leftarrow> bread buf (mb_data body) bytesToSend bytesSent;
     let body' = body\<lparr>mb_data := d\<rparr>;
     let s' = s\<lparr>ss_body := Some body'\<rparr>;
     let bytesRead = (case n of None \<Rightarrow> 0 | Some k \<Rightarrow> k);
     Some (if \<not> r then (False, Some p1, s')
           else if bytesRead \<noteq> 0 then (True, Some (pkt_setBody (Some body') bytesRead p1), s')
           else (True, None, s')) }"

definition bs_process ::
    "('b \<Rightarrow> bytes option \<Rightarrow> u32 \<Rightarrow> u32 \<Rightarrow> (bool \<times> u32 option \<times> bytes option) option)
     \<Rightarrow> 'b buffer_sender \<Rightarrow> (bool \<times> packet option \<times> 'b buffer_sender \<times> bool) option" where
  "bs_process bread = ss_process (bs_prepare bread) ss_process_packet"

text \<open>
  Calling \<open>process\<close> as the engine does until the sender is completed or fails, at most
  \<open>fuel\<close> times; the packets in the order they are handed out.
\<close>

fun bs_run ::
    "('b \<Rightarrow> bytes option \<Rightarrow> u32 \<Rightarrow> u32 \<Rightarrow> (bool \<times> u32 option \<times> bytes option) option)
     \<Rightarrow> nat \<Rightarrow> 'b buffer_sender \<Rightarrow> (packet list \<times> 'b buffer_sender) option" where
  "bs_run bread 0 s = None"
| "bs_run bread (Suc fuel) s =
     (case bs_process bread s of
        None \<Rightarrow> None
      | Some (False, _, s', _) \<Rightarrow> Some ([], s')
      | Some (True, p, s', _) \<Rightarrow>
          (let ps = (case p of None \<Rightarrow> [] | Some q \<Rightarrow> [q])
           in if ss_status s' = SS_Completed then Some (ps, s')
              else map_option (\<lambda>(qs, t). (ps @ qs, t)) (bs_run bread fuel s')))"


section \<open>What a stream looks like\<close>

abbreviation (input) BODY :: nat where
  "BODY \<equiv> 65536"

definition chunk :: "bytes \<Rightarrow> nat \<Rightarrow> bytes" where
  "chunk c k = take BODY (drop (k * BODY) c)"

definition n_chunks :: "nat \<Rightarrow> nat" where
  "n_chunks L = (L + (BODY - 1)) div BODY"

text \<open>
  The packet that carries chunk \<open>k\<close> of the contents \<open>c\<close>: numbered from 1, its body
  padded with zeros to the full packet size.
\<close>

definition stream_packet :: "u32 \<Rightarrow> u32 \<Rightarrow> bytes \<Rightarrow> nat \<Rightarrow> packet" where
  "stream_packet i ty c k =
     \<lparr>p_head = \<lparr>h_id = 0, h_streamId = i, h_streamType = ty, h_part = of_nat (k + 1),
               h_parts = of_nat (n_chunks (length c)), h_bodySize = of_nat (length (chunk c k))\<rparr>,
      p_body = Some \<lparr>mb_data = Some (chunk c k @ replicate (BODY - length (chunk c k)) 0),
                     mb_size = MAX_PACKET_BODY\<rparr>\<rparr>"

lemma length_chunk: "length (chunk c k) = min BODY (length c - k * BODY)"
  by (simp add: chunk_def)

lemma n_chunks_less: "k < n_chunks L \<longleftrightarrow> k * BODY < L"
  unfolding n_chunks_def by linarith

lemma n_chunks_pos [simp]: "0 < n_chunks L \<longleftrightarrow> 0 < L"
  using n_chunks_less [of 0 L] by simp

lemma n_chunks_le: "L < 2 ^ 32 \<Longrightarrow> n_chunks L \<le> BODY"
  unfolding n_chunks_def by simp

lemma concat_chunks: "concat (map (chunk c) [0..<k]) = take (k * BODY) c"
proof (induction k)
  case 0
  then show ?case by simp
next
  case (Suc k)
  have "take (Suc k * BODY) c = take (k * BODY + BODY) c" by (simp add: add.commute)
  also have "\<dots> = take (k * BODY) c @ chunk c k" by (simp only: take_add chunk_def)
  finally show ?case using Suc.IH by simp
qed

lemma concat_all_chunks: "concat (map (chunk c) [0..<n_chunks (length c)]) = c"
proof -
  have "length c \<le> n_chunks (length c) * BODY"
    unfolding n_chunks_def by linarith
  then show ?thesis by (simp add: concat_chunks)
qed

lemma u32_of_nat_less [simp]:
  "a < 2 ^ 32 \<Longrightarrow> b < 2 ^ 32 \<Longrightarrow> (of_nat a :: u32) < of_nat b \<longleftrightarrow> a < b"
  by (simp add: word_less_nat_alt)

lemma u32_of_nat_eq [simp]:
  "a < 2 ^ 32 \<Longrightarrow> b < 2 ^ 32 \<Longrightarrow> (of_nat a :: u32) = of_nat b \<longleftrightarrow> a = b"
  by (metis unat_of_nat_u32)

lemma ceiling_div:
  fixes L B :: nat
  assumes "0 < B"
  shows "(L + (B - 1)) div B = L div B + (if L mod B \<noteq> 0 then 1 else 0)"
proof -
  have "L + (B - 1) = (L mod B + (B - 1)) + L div B * B"
    by (metis add.assoc add.commute div_mult_mod_eq)
  then have "(L + (B - 1)) div B = ((L mod B + (B - 1)) + L div B * B) div B"
    by (rule arg_cong)
  also have "\<dots> = L div B + (L mod B + (B - 1)) div B"
    using assms by (intro div_mult_self1) simp
  finally have "(L + (B - 1)) div B = L div B + (L mod B + (B - 1)) div B" .
  moreover have "(L mod B + (B - 1)) div B = (if L mod B \<noteq> 0 then 1 else 0)"
  proof (cases "L mod B = 0")
    case False
    have "L mod B < B" using assms by simp
    then have "L mod B + (B - 1) = B + (L mod B - 1)" and "L mod B - 1 < B"
      using False assms by linarith+
    then have "(L mod B + (B - 1)) div B = 1"
      by (metis Nat.add_0_right add.commute assms div_add_self1 div_less neq0_conv)
    then show ?thesis using False by simp
  qed (use assms in simp)
  ultimately show ?thesis by simp
qed

lemma MAX_of_nat: "MAX_PACKET_BODY = of_nat BODY"
  by (simp add: MAX_PACKET_BODY_def)

lemma ss_parts_of_nat:
  assumes "0 < L" and "L < 2 ^ 32"
  shows "ss_parts_of (of_nat L) = of_nat (n_chunks L)"
proof -
  have u: "unat (of_nat L :: u32) = L" by (rule unat_of_nat_u32 [OF assms(2)])
  have ge: "(of_nat L :: u32) \<ge> MAX_PACKET_BODY \<longleftrightarrow> L \<ge> BODY"
    by (simp add: MAX_PACKET_BODY_def word_le_nat_alt u del: unat_of_nat_u32)
  have d: "unat ((of_nat L :: u32) div MAX_PACKET_BODY) = L div BODY"
    by (simp add: MAX_PACKET_BODY_def unat_div u del: unat_of_nat_u32)
  have m: "(of_nat L :: u32) mod MAX_PACKET_BODY \<noteq> 0 \<longleftrightarrow> L mod BODY \<noteq> 0"
    by (simp add: MAX_PACKET_BODY_def unat_mod u flip: unat_eq_zero del: unat_of_nat_u32)
  have "(of_nat L :: u32) div MAX_PACKET_BODY = of_nat (L div BODY)"
    by (rule of_nat_eq_wordI [OF d, symmetric])
  then have "ss_parts_of (of_nat L) =
      (if BODY \<le> L then of_nat (L div BODY + (if L mod BODY \<noteq> 0 then 1 else 0)) else 1)"
    unfolding ss_parts_of_def ge m by simp
  also have "\<dots> = of_nat (n_chunks L)"
  proof (cases "BODY \<le> L")
    case True
    then show ?thesis unfolding n_chunks_def ceiling_div [of BODY L, OF zero_less_numeral] by simp
  next
    case False
    with assms(1) have "n_chunks L = 1" unfolding n_chunks_def by linarith
    with False show ?thesis by simp
  qed
  finally show ?thesis .
qed

text \<open>The two byte counts \<open>process\<close> computes, without wrap-around inside the stream.\<close>

lemma process_counts:
  assumes "L < 2 ^ 32" and "k * BODY < L"
  shows "(of_nat k :: u32) * MAX_PACKET_BODY = of_nat (k * BODY)"
    and "(if (of_nat L :: u32) > 0 \<and> of_nat L - of_nat (k * BODY) < MAX_PACKET_BODY
          then of_nat L - of_nat (k * BODY) else MAX_PACKET_BODY)
         = (of_nat (min BODY (L - k * BODY)) :: u32)"
proof -
  show "(of_nat k :: u32) * MAX_PACKET_BODY = of_nat (k * BODY)"
    by (simp add: MAX_PACKET_BODY_def)
  have diff: "(of_nat L :: u32) - of_nat (k * BODY) = of_nat (L - k * BODY)"
    using assms(2) by simp
  have pos: "(of_nat L :: u32) > 0"
    using assms u32_of_nat_less [of 0 L] by simp
  have "(of_nat (L - k * BODY) :: u32) < of_nat BODY \<longleftrightarrow> L - k * BODY < BODY"
    using assms by (intro u32_of_nat_less) auto
  then show "(if (of_nat L :: u32) > 0 \<and> of_nat L - of_nat (k * BODY) < MAX_PACKET_BODY
          then of_nat L - of_nat (k * BODY) else MAX_PACKET_BODY)
         = (of_nat (min BODY (L - k * BODY)) :: u32)"
    unfolding diff using pos by (simp add: MAX_of_nat min_def not_less del: of_nat_diff)
qed


section \<open>A sender over any buffer\<close>

text \<open>The state of a sender that has handed out \<open>k\<close> packets.\<close>

definition bs_at ::
    "u32 \<Rightarrow> u32 \<Rightarrow> 'b \<Rightarrow> nat \<Rightarrow> nat \<Rightarrow> 'b buffer_sender \<Rightarrow> bool" where
  "bs_at i ty b L k s \<longleftrightarrow>
     ss_id s = i \<and> ss_type s = ty \<and> bs_buffer s = Some b \<and> ss_size s = of_nat L
     \<and> ss_part s = of_nat k \<and> ss_parts s = of_nat (n_chunks L)
     \<and> ss_status s = (if k = n_chunks L then SS_Completed else SS_Idle)
     \<and> (\<exists>m. ss_body s = Some m \<and> mb_inv m \<and> mb_size m = MAX_PACKET_BODY)"

lemma unat_MAX [simp]: "unat MAX_PACKET_BODY = BODY"
  by (simp add: MAX_PACKET_BODY_def)

lemma mb_clear_full:
  "mb_inv m \<Longrightarrow> mb_size m = MAX_PACKET_BODY \<Longrightarrow>
    mb_clear m = \<lparr>mb_data = Some (replicate BODY 0), mb_size = MAX_PACKET_BODY\<rparr>"
  by (cases m)
    (auto simp: mb_clear_def mb_inv_def mb_is_empty_def MAX_PACKET_BODY_def split: option.splits)

text \<open>
  One successful call of \<open>process\<close>, whatever the hooks are: the part number goes up by one and
  the sender is completed with its last part.
\<close>

lemma ss_process_ok:
  assumes "L < 2 ^ 32" and "k < n_chunks L" and "ss_body s = Some m"
    and "ss_size s = of_nat L" and "ss_part s = of_nat k"
    and "prepare (s\<lparr>ss_body := Some (mb_clear m)\<rparr>) (pkt_create 0) (of_nat (min BODY (L - k * BODY)))
           (of_nat (k * BODY)) = Some (True, Some p1, s1)"
    and "procpkt s1 p1 = Some (True, p2, s2)"
    and "ss_part s2 = of_nat k" and "ss_parts s2 = of_nat (n_chunks L)"
  shows "ss_process prepare procpkt s = Some (True, Some p2,
      (if k + 1 = n_chunks L then s2\<lparr>ss_part := of_nat (k + 1), ss_status := SS_Completed\<rparr>
       else s2\<lparr>ss_part := of_nat (k + 1)\<rparr>), k + 1 = n_chunks L)"
proof -
  have n: "n_chunks L \<le> BODY" by (rule n_chunks_le [OF assms(1)])
  have kL: "k * BODY < L" using assms(2) by (simp add: n_chunks_less)
  have small: "k + 1 < 2 ^ 32" "n_chunks L < 2 ^ 32" "0 < n_chunks L"
    using n assms(2) by (simp_all del: n_chunks_pos)
  have done': "(of_nat (k + 1) :: u32) = of_nat (n_chunks L) \<longleftrightarrow> k + 1 = n_chunks L"
    by (rule u32_of_nat_eq) (use small in auto)
  have npos: "(of_nat (n_chunks L) :: u32) > 0"
    using u32_of_nat_less [of 0 "n_chunks L"] small by (simp del: n_chunks_pos)
  show ?thesis
    unfolding ss_process_def Let_def assms(3-5) process_counts [OF assms(1) kL]
    using done' npos assms(6-)
    by (simp add: add.commute [of "of_nat k"] del: of_nat_mult of_nat_min of_nat_diff)
qed

context buffer
begin

lemma bs_create_at:
  assumes "inv b" and "bytes_in b \<noteq> []"
  shows "\<exists>s. bs_create bsize True i ty (Some b) = Some (Some s)
     \<and> bs_at i ty b (length (bytes_in b)) 0 s"
proof -
  let ?L = "length (bytes_in b)"
  have L: "0 < ?L" "?L < 2 ^ 32" using assms length_less by auto
  have sz: "bsize b = of_nat ?L" using size_law [OF assms(1)] by (metis of_nat_eq_wordI)
  have "bsize b \<noteq> 0" using L size_law [OF assms(1)] by auto
  then show ?thesis
    using L ss_parts_of_nat [OF L]
    by (auto simp: bs_create_def bs_init_def bs_new_def ss_init_def mb_create_zero bs_at_def
        sz mb_inv_def Let_def)
qed

lemma bs_process_step:
  assumes b: "inv b" and at: "bs_at i ty b (length (bytes_in b)) k s"
    and k: "k < n_chunks (length (bytes_in b))"
  shows "\<exists>s'. bs_process bread s =
      Some (True, Some (stream_packet i ty (bytes_in b) k), s',
            k + 1 = n_chunks (length (bytes_in b)))
     \<and> bs_at i ty b (length (bytes_in b)) (k + 1) s'"
proof -
  let ?c = "bytes_in b" let ?L = "length (bytes_in b)" let ?n = "n_chunks (length (bytes_in b))"
  let ?len = "min BODY (?L - k * BODY)"
  have L: "?L < 2 ^ 32" by (rule length_less [OF b])
  have kL: "k * BODY < ?L" using k by (simp add: n_chunks_less)
  have n: "?n \<le> BODY" by (rule n_chunks_le [OF L])
  have small: "?len < 2 ^ 32" "k + 1 < 2 ^ 32" "?n < 2 ^ 32" "k * BODY < 2 ^ 32" "0 < ?len"
    using L kL n k by auto
  from at obtain m where m: "ss_body s = Some m" "mb_inv m" "mb_size m = MAX_PACKET_BODY"
    by (auto simp: bs_at_def)
  have len0: "(of_nat ?len :: u32) \<noteq> 0"
    using small(1,5) u32_of_nat_eq [of ?len 0] by simp
  have read: "bread b (Some (replicate BODY 0)) (of_nat ?len) (of_nat (k * BODY)) =
      Some (True, Some (of_nat ?len), Some (chunk ?c k @ replicate (BODY - length (chunk ?c k)) 0))"
  proof -
    have u: "unat (of_nat ?len :: u32) = ?len" "unat (of_nat (k * BODY) :: u32) = k * BODY"
      using small by (simp_all only: unat_of_nat_u32)
    have ch: "take ?len (drop (k * BODY) ?c) = chunk ?c k"
      by (simp add: chunk_def min_def)
    have "drop ?len (replicate BODY (0::byte)) = replicate (BODY - length (chunk ?c k)) 0"
      by (simp only: drop_replicate length_chunk)
    moreover have "?len \<le> length (replicate BODY (0::byte))" and "k * BODY + ?len \<le> ?L"
      using kL by auto
    ultimately show ?thesis
      using read_inside [OF b, of "of_nat ?len" "replicate BODY 0" "of_nat (k * BODY)"] len0
      unfolding u ch by simp
  qed
  have body: "pkt_setBody (Some \<lparr>mb_data = Some d, mb_size = MAX_PACKET_BODY\<rparr>) (of_nat ?len) p
      = p\<lparr>p_head := (p_head p)\<lparr>h_bodySize := of_nat ?len\<rparr>,
          p_body := Some \<lparr>mb_data = Some d, mb_size = MAX_PACKET_BODY\<rparr>\<rparr>" for d p
    using len0 by (simp add: pkt_setBody_def pkt_setBodySize_def)
  let ?m = "\<lparr>mb_data = Some (chunk ?c k @ replicate (BODY - length (chunk ?c k)) 0),
      mb_size = MAX_PACKET_BODY\<rparr>"
  let ?s1 = "s\<lparr>ss_body := Some ?m\<rparr>"
  let ?s2 = "?s1\<lparr>ss_part := of_nat (k + 1)\<rparr>"
  let ?s3 = "if k + 1 = ?n then ?s2\<lparr>ss_status := SS_Completed\<rparr> else ?s2"
  have sizes: "ss_size s = of_nat ?L" "ss_part s = of_nat k" "ss_parts s = of_nat ?n"
    "bs_buffer s = Some b" "ss_id s = i" "ss_type s = ty"
    using at by (simp_all add: bs_at_def)
  have prep: "bs_prepare bread (s\<lparr>ss_body := Some (mb_clear m)\<rparr>) (pkt_create 0) (of_nat ?len)
      (of_nat (k * BODY)) = Some (True, Some (stream_packet i ty ?c k), ?s1)"
    unfolding bs_prepare_def mb_clear_full [OF m(2,3)]
    using read len0
    by (simp add: Let_def body sizes ss_prepare_head_def pkt_setters pkt_create_def
        stream_packet_def length_chunk del: of_nat_mult of_nat_min of_nat_diff)
  have proc: "bs_process bread s =
      Some (True, Some (stream_packet i ty ?c k), ?s3, k + 1 = ?n)"
    unfolding bs_process_def
    by (subst ss_process_ok [where prepare = "bs_prepare bread" and procpkt = ss_process_packet,
          OF L k m(1) sizes(1,2) prep])
      (simp_all add: ss_process_packet_def sizes)
  have "bs_at i ty b ?L (k + 1) ?s3"
    using at k by (auto simp: bs_at_def mb_inv_def length_chunk simp flip: of_nat_Suc)
  with proc show ?thesis by blast
qed

lemma bs_run_from:
  assumes "inv b" and "bs_at i ty b (length (bytes_in b)) k s"
    and "k < n_chunks (length (bytes_in b))" and "n_chunks (length (bytes_in b)) - k \<le> fuel"
  shows "\<exists>s'. bs_run bread fuel s =
      Some (map (stream_packet i ty (bytes_in b)) [k..<n_chunks (length (bytes_in b))], s')
    \<and> bs_at i ty b (length (bytes_in b)) (n_chunks (length (bytes_in b))) s'"
  using assms(2-)
proof (induction fuel arbitrary: k s)
  case 0
  then show ?case by simp
next
  case (Suc fuel)
  let ?n = "n_chunks (length (bytes_in b))"
  from bs_process_step [OF assms(1) Suc.prems(1,2)] obtain s' where
    step: "bs_process bread s =
      Some (True, Some (stream_packet i ty (bytes_in b) k), s', k + 1 = ?n)"
    and at: "bs_at i ty b (length (bytes_in b)) (k + 1) s'" by blast
  have upt: "[k..<?n] = k # [k + 1..<?n]"
    using Suc.prems(2) upt_conv_Cons [of k ?n] by simp
  show ?case
  proof (cases "k + 1 = ?n")
    case True
    with at have "ss_status s' = SS_Completed" by (simp add: bs_at_def)
    with step upt True at show ?thesis by (auto simp: Let_def)
  next
    case False
    with at have st: "ss_status s' = SS_Idle" by (simp add: bs_at_def)
    from False Suc.prems have "k + 1 < ?n" and "?n - (k + 1) \<le> fuel" by linarith+
    from Suc.IH [OF at this] obtain t where
      "bs_run bread fuel s' = Some (map (stream_packet i ty (bytes_in b)) [k + 1..<?n], t)"
      and "bs_at i ty b (length (bytes_in b)) ?n t" by blast
    with step st upt show ?thesis by (auto simp: Let_def)
  qed
qed

text \<open>
  A created sender hands out exactly the packets of its stream, in order, and completes after
  \<^const>\<open>n_chunks\<close> calls of \<open>process\<close>.
\<close>

lemma bs_run_stream:
  assumes "inv b" and "bytes_in b \<noteq> []"
  shows "\<exists>s s'. bs_create bsize True i ty (Some b) = Some (Some s)
    \<and> bs_run bread (n_chunks (length (bytes_in b))) s =
        Some (map (stream_packet i ty (bytes_in b)) [0..<n_chunks (length (bytes_in b))], s')
    \<and> ss_status s' = SS_Completed"
proof -
  from bs_create_at [OF assms] obtain s where
    s: "bs_create bsize True i ty (Some b) = Some (Some s)"
    "bs_at i ty b (length (bytes_in b)) 0 s" by blast
  have "0 < n_chunks (length (bytes_in b))" using assms(2) by simp
  from bs_run_from [OF assms(1) s(2) this] s(1) show ?thesis
    by (auto simp: bs_at_def)
qed

end

end
