(* ===== verification/Stream_Receiver.thy ===== *)
theory Stream_Receiver
  imports Stream_Sender
begin

text \<open>
  \<^verbatim>\<open>src/streamreceiver.cpp\<close> and \<^verbatim>\<open>src/bufferreceiver.cpp\<close>.  A receiver takes the
  packets of one stream and lays their bodies into a memory buffer.  \<^verbatim>\<open>processPacket\<close>
  is an argument of \<open>sr_process\<close>; subclasses extend the receiver's record.  \<^const>\<open>None\<close>
  marks undefined behaviour (a null body, a copy past the end); the last component of a
  result of \<open>sr_process\<close> tells whether the callback was invoked.
\<close>

datatype sr_status = SR_Idle | SR_Incoming | SR_Completed | SR_Error

record stream_receiver =
  sr_id :: u32
  sr_type :: u32
  sr_status :: sr_status
  sr_part :: u32
  sr_parts :: u32

definition sr_init :: "packet \<Rightarrow> 'x stream_receiver_scheme \<Rightarrow> bool \<times> 'x stream_receiver_scheme" where
  "sr_init p r =
     (True, r\<lparr>sr_id := pkt_streamId p, sr_type := pkt_streamType p, sr_part := pkt_part p,
              sr_parts := pkt_parts p\<rparr>)"

definition sr_process ::
    "('x stream_receiver_scheme \<Rightarrow> packet \<Rightarrow> (bool \<times> 'x stream_receiver_scheme) option)
     \<Rightarrow> 'x stream_receiver_scheme \<Rightarrow> packet \<Rightarrow> (bool \<times> 'x stream_receiver_scheme \<times> bool) option" where
  "sr_process procpkt r p =
     (if pkt_part p > 1 \<and> pkt_part p \<noteq> sr_part r + 1 then Some (False, r, False)
      else do {
        (processed, r1) \<leftarrow> procpkt r p;
        if \<not> processed then Some (False, r1\<lparr>sr_status := SR_Error\<rparr>, True)
        else
          let r2 = r1\<lparr>sr_part := pkt_part p\<rparr>
          in if sr_part r2 = sr_parts r2
             then Some (True, r2\<lparr>sr_status := SR_Completed\<rparr>, True)
             else Some (True, r2, False) })"

definition sr_process_packet ::
    "'x stream_receiver_scheme \<Rightarrow> packet \<Rightarrow> (bool \<times> 'x stream_receiver_scheme) option" where
  "sr_process_packet r p = Some (True, r)"

section \<open>BufferReceiver\<close>

record buffer_receiver = stream_receiver +
  br_buffer :: "membuf option"
  br_bytesReceived :: u32

definition br_new :: buffer_receiver where
  "br_new =
     \<lparr>sr_id = 0, sr_type = ST_Undefined, sr_status = SR_Idle, sr_part = 0, sr_parts = 0,
      br_buffer = None, br_bytesReceived = 0\<rparr>"

definition br_init ::
    "bool \<Rightarrow> packet \<Rightarrow> membuf option \<Rightarrow> 'x buffer_receiver_scheme
     \<Rightarrow> (bool \<times> 'x buffer_receiver_scheme) option" where
  "br_init ok p buf r =
     (case sr_init p r of
        (False, r1) \<Rightarrow> Some (False, r1)
      | (True, r1) \<Rightarrow> do {
          b \<leftarrow> (case buf of
                  Some b \<Rightarrow> Some (Some b)
                | None \<Rightarrow> mb_create ok None (pkt_parts p * MAX_PACKET_BODY));
          Some (b \<noteq> None, r1\<lparr>br_buffer := b\<rparr>) })"

definition br_create ::
    "bool \<Rightarrow> packet \<Rightarrow> membuf option \<Rightarrow> buffer_receiver option option" where
  "br_create ok p buf = map_option (\<lambda>(r, s). if r then Some s else None) (br_init ok p buf br_new)"

definition br_process_packet ::
    "'x buffer_receiver_scheme \<Rightarrow> packet \<Rightarrow> (bool \<times> 'x buffer_receiver_scheme) option" where
  "br_process_packet r p = do {
     (accepted, r0) \<leftarrow> sr_process_packet r p;
     if \<not> accepted then Some (False, r0)
     else do {
       b \<leftarrow> br_buffer r0;
       d \<leftarrow> pkt_bodyData p;
       (written, _, b') \<leftarrow> mb_write b d (pkt_bodySize p) ((pkt_part p - 1) * MAX_PACKET_BODY);
       let r1 = r0\<lparr>br_buffer := Some b'\<rparr>;
       Some (if \<not> written then (False, r1)
             else (True, r1\<lparr>br_bytesReceived := br_bytesReceived r1 + pkt_bodySize p\<rparr>)) } }"

definition br_process ::
    "'x buffer_receiver_scheme \<Rightarrow> packet \<Rightarrow> (bool \<times> 'x buffer_receiver_scheme \<times> bool) option" where
  "br_process = sr_process br_process_packet"

text \<open>The packets of a stream, one call of \<open>process\<close> each, while they are accepted.\<close>

primrec br_run ::
    "'x buffer_receiver_scheme \<Rightarrow> packet list \<Rightarrow> (bool \<times> 'x buffer_receiver_scheme) option" where
  "br_run r [] = Some (True, r)"
| "br_run r (p # ps) =
     (case br_process r p of
        None \<Rightarrow> None
      | Some (False, r', _) \<Rightarrow> Some (False, r')
      | Some (True, r', _) \<Rightarrow> br_run r' ps)"


section \<open>The order of packets\<close>

text \<open>A packet that does not continue the stream changes nothing.\<close>

lemma sr_process_out_of_order:
  "pkt_part p > 1 \<Longrightarrow> pkt_part p \<noteq> sr_part r + 1 \<Longrightarrow> sr_process f r p = Some (False, r, False)"
  by (simp add: sr_process_def)

lemma sr_process_failed:
  assumes "\<not> (pkt_part p > 1 \<and> pkt_part p \<noteq> sr_part r + 1)" and "f r p = Some (False, r1)"
  shows "sr_process f r p = Some (False, r1\<lparr>sr_status := SR_Error\<rparr>, True)"
  using assms by (auto simp: sr_process_def)

lemma br_process_packet_inv:
  assumes "br_process_packet r p = Some (a, r')" and "br_buffer r = Some b" and "mb_inv b"
  shows "\<exists>b'. br_buffer r' = Some b' \<and> mb_inv b' \<and> mb_size b' = mb_size b"
proof -
  from assms(1,2) obtain w k b' where
    "mb_write b (the (pkt_bodyData p)) (pkt_bodySize p) ((pkt_part p - 1) * MAX_PACKET_BODY)
       = Some (w, k, b')" and "br_buffer r' = Some b'"
    by (auto simp: br_process_packet_def sr_process_packet_def Let_def
        split: option.splits if_splits bind_splits)
  with assms(3) show ?thesis by (blast intro: mb_write_inv mb_write_size)
qed

text \<open>No sequence of packets writes outside the buffer or changes its size.\<close>

lemma br_run_inv:
  "br_run r ps = Some (a, r') \<Longrightarrow> br_buffer r = Some b \<Longrightarrow> mb_inv b \<Longrightarrow>
    \<exists>b'. br_buffer r' = Some b' \<and> mb_inv b' \<and> mb_size b' = mb_size b"
proof (induction ps arbitrary: r b)
  case Nil
  then show ?case by auto
next
  case (Cons p ps)
  have step: "\<exists>b'. br_buffer r1 = Some b' \<and> mb_inv b' \<and> mb_size b' = mb_size b"
    if "br_process r p = Some (ok, r1, cb)" for ok r1 cb
  proof -
    from that consider "r1 = r" | a1 r0 where "br_process_packet r p = Some (a1, r0)"
        and "br_buffer r1 = br_buffer r0"
      by (auto simp: br_process_def sr_process_def Let_def split: if_splits bind_splits)
    then show ?thesis
      using Cons.prems(2,3) br_process_packet_inv by cases fastforce+
  qed
  from Cons.prems(1) consider r1 cb where "br_process r p = Some (False, r1, cb)" "r' = r1"
    | r1 cb where "br_process r p = Some (True, r1, cb)" "br_run r1 ps = Some (a, r')"
    by (auto split: option.splits bool.splits)
  then show ?case
  proof cases
    case 1
    with step show ?thesis by blast
  next
    case (2 r1 cb)
    with step obtain b1 where "br_buffer r1 = Some b1" "mb_inv b1" "mb_size b1 = mb_size b"
      by blast
    with Cons.IH [OF 2(2) this(1,2)] show ?thesis by simp
  qed
qed

section \<open>Reassembly\<close>

text \<open>
  The receiver that has taken the first \<open>k\<close> packets of the stream of the contents \<open>c\<close>: the
  buffer holds what arrived, followed by zeros.
\<close>

definition br_at :: "u32 \<Rightarrow> u32 \<Rightarrow> bytes \<Rightarrow> nat \<Rightarrow> 'x buffer_receiver_scheme \<Rightarrow> bool" where
  "br_at i ty c k r \<longleftrightarrow>
     sr_id r = i \<and> sr_type r = ty \<and> sr_parts r = of_nat (n_chunks (length c))
     \<and> (k > 0 \<longrightarrow> sr_part r = of_nat k)
     \<and> sr_status r = (if k = n_chunks (length c) then SR_Completed else SR_Idle)
     \<and> br_bytesReceived r = of_nat (min (length c) (k * BODY))
     \<and> (\<exists>b. br_buffer r = Some b \<and> mb_inv b
          \<and> mb_size b = of_nat (n_chunks (length c) * BODY)
          \<and> mb_bytes b = take (k * BODY) c
              @ replicate (n_chunks (length c) * BODY - min (length c) (k * BODY)) 0)"

lemma chunk_append: "take (k * BODY) c @ chunk c k = take (Suc k * BODY) c"
proof -
  have "take (Suc k * BODY) c = take (k * BODY + BODY) c" by (simp add: add.commute)
  also have "\<dots> = take (k * BODY) c @ chunk c k" by (simp only: take_add chunk_def)
  finally show ?thesis by simp
qed

lemma n_chunks_covers: "L \<le> n_chunks L * BODY"
  unfolding n_chunks_def by linarith

lemma br_create_at:
  assumes "c \<noteq> []" and "n_chunks (length c) < BODY"
  shows "\<exists>r. br_create True (stream_packet i ty c 0) None = Some (Some r) \<and> br_at i ty c 0 r"
proof -
  let ?n = "n_chunks (length c)"
  have "?n * BODY < 2 ^ 32" using assms(2) by simp
  then have u: "unat (of_nat (?n * BODY) :: u32) = ?n * BODY" by (rule unat_of_nat_u32)
  have sz: "(of_nat ?n :: u32) * MAX_PACKET_BODY = of_nat (?n * BODY)"
    by (simp add: MAX_PACKET_BODY_def)
  have "?n \<noteq> 0" using assms(1) n_chunks_pos [of "length c"] by (metis length_0_conv neq0_conv)
  then show ?thesis
    by (auto simp: br_create_def br_init_def br_new_def sr_init_def pkt_getters stream_packet_def
        sz mb_create_zero br_at_def mb_inv_def mb_bytes_def u simp del: of_nat_mult n_chunks_pos)
qed

lemma br_process_step:
  assumes at: "br_at i ty c k r" and k: "k < n_chunks (length c)"
    and n: "n_chunks (length c) < BODY"
  shows "\<exists>r'. br_process r (stream_packet i ty c k) = Some (True, r', k + 1 = n_chunks (length c))
     \<and> br_at i ty c (k + 1) r'"
proof -
  let ?n = "n_chunks (length c)" let ?L = "length c" let ?len = "length (chunk c k)"
  let ?p = "stream_packet i ty c k"
  have kL: "k * BODY < ?L" using k by (simp add: n_chunks_less)
  have len: "?len = min BODY (?L - k * BODY)" by (rule length_chunk)
  have mono: "Suc k * BODY \<le> ?n * BODY" by (rule mult_le_mono1) (use k in simp)
  have cap: "?n * BODY < 2 ^ 32" "?L \<le> ?n * BODY" "k * BODY + ?len \<le> ?L"
      "k * BODY + BODY \<le> ?n * BODY"
    using n n_chunks_covers [of ?L] kL len mono by auto
  have small: "k * BODY < 2 ^ 32" "?len < 2 ^ 32" "k + 1 < 2 ^ 32" "?n < 2 ^ 32"
    using cap kL k n by linarith+
  from at obtain b where b: "br_buffer r = Some b" "mb_inv b" "mb_size b = of_nat (?n * BODY)"
    and content: "mb_bytes b = take (k * BODY) c @ replicate (?n * BODY - k * BODY) 0"
    using kL by (auto simp: br_at_def min_def)
  have lenb: "length (mb_bytes b) = ?n * BODY"
    using content kL cap by simp
  have ne: "mb_bytes b \<noteq> []" using content kL cap by auto
  have off: "(pkt_part ?p - 1) * MAX_PACKET_BODY = of_nat (k * BODY)"
    by (simp add: pkt_getters stream_packet_def MAX_PACKET_BODY_def)
  have sz: "pkt_bodySize ?p = of_nat ?len"
    by (simp add: pkt_getters stream_packet_def)
  have u: "unat (of_nat ?len :: u32) = ?len" "unat (of_nat (k * BODY) :: u32) = k * BODY"
    using small by (simp_all only: unat_of_nat_u32)
  let ?d = "chunk c k @ replicate (BODY - ?len) 0"
  have body: "pkt_bodyData ?p = Some (Some ?d)"
    by (simp add: pkt_bodyData_def stream_packet_def)
  have "unat (of_nat ?len :: u32) \<le> length ?d" unfolding u by simp
  from mb_write_ok [OF b(2) ne this, of "of_nat (k * BODY)"] obtain b' where
    w: "mb_write b (Some ?d) (of_nat ?len) (of_nat (k * BODY)) =
        Some (True, Some (of_nat (min ?len (length (mb_bytes b) - k * BODY))), b')"
    and b': "mb_inv b'" "mb_size b' = mb_size b"
    and bytes: "mb_bytes b' = (let m = min ?len (length (mb_bytes b) - k * BODY)
        in take (k * BODY) (mb_bytes b) @ take m ?d @ drop (k * BODY + m) (mb_bytes b))"
    unfolding u by blast
  have m: "min ?len (length (mb_bytes b) - k * BODY) = ?len"
    using lenb cap len by simp
  have "mb_bytes b' = take (k * BODY) c @ chunk c k @ replicate (?n * BODY - (k * BODY + ?len)) 0"
    unfolding bytes Let_def m using kL by (simp add: content)
  also have "\<dots> = take (Suc k * BODY) c @ replicate (?n * BODY - (k * BODY + ?len)) 0"
    unfolding chunk_append [symmetric] by (simp only: append_assoc)
  also have "k * BODY + ?len = min ?L (Suc k * BODY)" using len kL by simp
  finally have content': "mb_bytes b' =
      take (Suc k * BODY) c @ replicate (?n * BODY - min ?L (Suc k * BODY)) 0" .
  let ?r1 = "r\<lparr>br_buffer := Some b', br_bytesReceived := br_bytesReceived r + of_nat ?len\<rparr>"
  have pp: "br_process_packet r ?p = Some (True, ?r1)"
    unfolding br_process_packet_def sr_process_packet_def off sz body
    using w by (simp add: b(1) del: of_nat_mult)
  have recv: "br_bytesReceived ?r1 = of_nat (min ?L (Suc k * BODY))"
  proof -
    have "min ?L (k * BODY) + ?len = min ?L (Suc k * BODY)"
      using len kL by simp
    then have "of_nat (min ?L (k * BODY)) + of_nat ?len = (of_nat (min ?L (Suc k * BODY)) :: u32)"
      by (metis of_nat_add)
    with at show ?thesis by (simp add: br_at_def del: of_nat_min)
  qed
  have part: "pkt_part ?p = of_nat (k + 1)" "pkt_parts ?p = of_nat ?n"
    by (simp_all add: pkt_getters stream_packet_def)
  have last: "(of_nat (k + 1) :: u32) = of_nat ?n \<longleftrightarrow> k + 1 = ?n"
    by (rule u32_of_nat_eq) (use small in auto)
  have order: "\<not> (pkt_part ?p > 1 \<and> pkt_part ?p \<noteq> sr_part r + 1)"
  proof (cases "k = 0")
    case True
    then have "pkt_part ?p = 1" by (simp add: pkt_getters stream_packet_def)
    then show ?thesis by simp
  next
    case False
    with at have "sr_part r = of_nat k" by (simp add: br_at_def)
    then show ?thesis by (simp add: part)
  qed
  let ?r2 = "?r1\<lparr>sr_part := of_nat (k + 1)\<rparr>"
  let ?r3 = "if k + 1 = ?n then ?r2\<lparr>sr_status := SR_Completed\<rparr> else ?r2"
  have parts: "sr_parts r = of_nat ?n" using at by (simp add: br_at_def)
  have "br_process r ?p = Some (True, ?r3, k + 1 = ?n)"
    unfolding br_process_def sr_process_def
    using order last by (simp add: pp part(1) parts Let_def del: of_nat_Suc)
  moreover have "(of_nat ?n :: u32) = 1 + of_nat k" if "Suc k = ?n"
    unfolding that [symmetric] by simp
  then have "br_at i ty c (k + 1) ?r3"
    using at k recv b' b(3) content'
    by (auto simp: br_at_def simp del: of_nat_min of_nat_mult)
  ultimately show ?thesis by blast
qed

lemma br_run_from:
  assumes "br_at i ty c k r" and "k \<le> n_chunks (length c)" and "n_chunks (length c) < BODY"
  shows "\<exists>r'. br_run r (map (stream_packet i ty c) [k..<n_chunks (length c)]) = Some (True, r')
     \<and> br_at i ty c (n_chunks (length c)) r'"
  using assms(1,2)
proof (induction "n_chunks (length c) - k" arbitrary: k r)
  case 0
  then have "k = n_chunks (length c)" by simp
  with 0 show ?case by auto
next
  case (Suc d)
  then have k: "k < n_chunks (length c)" by linarith
  from br_process_step [OF Suc.prems(1) k assms(3)] obtain r' where
    r': "br_process r (stream_packet i ty c k) = Some (True, r', k + 1 = n_chunks (length c))"
    "br_at i ty c (k + 1) r'" by blast
  have "d = n_chunks (length c) - (k + 1)" "k + 1 \<le> n_chunks (length c)"
    using Suc.hyps(2) k by linarith+
  from Suc.hyps(1) [OF this(1) r'(2) this(2)] r'(1) k show ?case
    by (simp add: upt_conv_Cons)
qed

end
