(* ===== verification/UBJ_Stream.thy ===== *)
theory UBJ_Stream
  imports UBJ_Codec Stream_Receiver
begin

text \<open>
  \<^verbatim>\<open>src/ubjsender.cpp\<close> and \<^verbatim>\<open>src/ubjreceiver.cpp\<close>: a value is serialised into a
  memory buffer and sent as a stream of packets; the receiver decodes the value with the
  last packet.  The end-to-end lemma composes the three round trips: value, buffer, stream.
\<close>

type_synonym ubj_sender = "membuf buffer_sender"

definition us_init :: "bool \<Rightarrow> val \<Rightarrow> ubj_sender \<Rightarrow> (bool \<times> ubj_sender) option" where
  "us_init ok v s = do {
     buf \<leftarrow> writer_write v;
     let s1 = s\<lparr>bs_buffer := buf\<rparr>;
     (if buf = None then Some (False, s1) else bs_init mb_size ok s1) }"

definition us_create :: "bool \<Rightarrow> u32 \<Rightarrow> u32 \<Rightarrow> val \<Rightarrow> ubj_sender option option" where
  "us_create ok i type' v =
     map_option (\<lambda>(r, s). if r then Some s else None) (us_init ok v (bs_new i type' None))"

record ubj_receiver = buffer_receiver +
  ur_value :: val

definition ur_new :: ubj_receiver where
  "ur_new =
     \<lparr>sr_id = 0, sr_type = ST_Undefined, sr_status = SR_Idle, sr_part = 0, sr_parts = 0,
      br_buffer = None, br_bytesReceived = 0, ur_value = val_null\<rparr>"

definition ur_create :: "bool \<Rightarrow> packet \<Rightarrow> ubj_receiver option option" where
  "ur_create ok p = map_option (\<lambda>(r, s). if r then Some s else None) (br_init ok p None ur_new)"

definition ur_process_packet :: "ubj_receiver \<Rightarrow> packet \<Rightarrow> (bool \<times> ubj_receiver) option" where
  "ur_process_packet r p = do {
     (accepted, r1) \<leftarrow> br_process_packet r p;
     if \<not> accepted then Some (False, r1)
     else if pkt_part p = pkt_parts p then do {
       b \<leftarrow> br_buffer r1;
       (_, v) \<leftarrow> reader_read (ur_value r1) (mb_data b) (br_bytesReceived r1);
       Some (True, r1\<lparr>ur_value := v\<rparr>) }
     else Some (True, r1) }"

definition ur_process :: "ubj_receiver \<Rightarrow> packet \<Rightarrow> (bool \<times> ubj_receiver \<times> bool) option" where
  "ur_process = sr_process ur_process_packet"

section \<open>Composition\<close>

text \<open>The sender of a value is the buffer sender of its encoding.\<close>

lemma us_create_buffer:
  assumes "writer_write v = Some (Some b)"
  shows "us_create ok i ty v = bs_create mb_size ok i ty (Some b)"
  using assms by (simp add: us_create_def us_init_def bs_create_def bs_new_def)

text \<open>A receiver of values is a buffer receiver that decodes after the last part.\<close>

lemma ur_process_eq:
  "ur_process r p = do {
     (ok, r1, cb) \<leftarrow> br_process r p;
     if ok \<and> pkt_part p = pkt_parts p then do {
       b \<leftarrow> br_buffer r1;
       (_, v) \<leftarrow> reader_read (ur_value r1) (mb_data b) (br_bytesReceived r1);
       Some (True, r1\<lparr>ur_value := v\<rparr>, cb) }
     else Some (ok, r1, cb) }"
proof (cases "pkt_part p > 1 \<and> pkt_part p \<noteq> sr_part r + 1")
  case True
  then show ?thesis by (simp add: ur_process_def br_process_def sr_process_def)
next
  case False
  show ?thesis
  proof (cases "br_process_packet r p")
    case None
    with False show ?thesis
      by (auto simp: ur_process_def br_process_def sr_process_def ur_process_packet_def)
  next
    case (Some q)
    obtain a r1 where q: "q = (a, r1)" by (cases q)
    show ?thesis
      using False Some unfolding q
      by (cases "br_buffer r1")
        (auto simp: ur_process_def br_process_def sr_process_def ur_process_packet_def Let_def
          split: bind_splits)
  qed
qed

definition ur_at :: "u32 \<Rightarrow> u32 \<Rightarrow> val \<Rightarrow> nat \<Rightarrow> ubj_receiver \<Rightarrow> bool" where
  "ur_at i ty v k r \<longleftrightarrow>
     br_at i ty (enc v) k r \<and> ur_value r = (if k = n_chunks (length (enc v)) then v else val_null)"

lemma br_at_value [simp]: "br_at i ty c k (r\<lparr>ur_value := v\<rparr>) \<longleftrightarrow> br_at i ty c k r"
  by (simp add: br_at_def)

text \<open>The values that fit a stream.\<close>

definition sendable :: "val \<Rightarrow> bool" where
  "sendable v \<longleftrightarrow>
     ser v \<and> (v_type v = UBJ_OBJECT \<or> v_type v = UBJ_ARRAY) \<and> v_depth v < CONTAINER_STACK_MAX
     \<and> n_chunks (length (enc v)) < BODY"

lemma n_chunks_bound: "n_chunks L < BODY \<Longrightarrow> L < 2 ^ 32"
  using n_chunks_covers [of L] by simp

lemma br_process_packet_value:
  "br_process_packet r p = Some (a, r1) \<Longrightarrow> ur_value r1 = ur_value r"
  by (auto simp: br_process_packet_def sr_process_packet_def Let_def split: bind_splits if_splits)

lemma br_process_value:
  assumes "br_process r p = Some (ok, r1, cb)"
  shows "ur_value r1 = ur_value r"
proof -
  have "ur_value r0 = ur_value r" if "br_process_packet r p = Some (a, r0)" for a r0
    using that by (rule br_process_packet_value)
  with assms show ?thesis
    by (auto simp: br_process_def sr_process_def Let_def split: if_splits bind_splits)
qed

lemma ur_create_at:
  assumes "sendable v"
  shows "\<exists>r. ur_create True (stream_packet i ty (enc v) 0) = Some (Some r) \<and> ur_at i ty v 0 r"
proof -
  let ?n = "n_chunks (length (enc v))" let ?p = "stream_packet i ty (enc v) 0"
  have ne: "enc v \<noteq> []" and n: "?n < BODY"
    using assms enc_nonempty by (auto simp: sendable_def)
  then have "?n * BODY < 2 ^ 32" by simp
  then have u: "unat (of_nat (?n * BODY) :: u32) = ?n * BODY" by (rule unat_of_nat_u32)
  have sz: "(of_nat ?n :: u32) * MAX_PACKET_BODY = of_nat (?n * BODY)"
    by (simp add: MAX_PACKET_BODY_def)
  have "?n \<noteq> 0" using ne n_chunks_pos [of "length (enc v)"] by (metis length_0_conv neq0_conv)
  then show ?thesis
    by (auto simp: ur_create_def br_init_def ur_new_def sr_init_def pkt_getters stream_packet_def
        sz mb_create_zero br_at_def ur_at_def mb_inv_def mb_bytes_def u
        simp del: of_nat_mult n_chunks_pos)
qed

lemma ur_process_step:
  assumes v: "sendable v" and at: "ur_at i ty v k r" and k: "k < n_chunks (length (enc v))"
  shows "\<exists>r'. ur_process r (stream_packet i ty (enc v) k) =
      Some (True, r', k + 1 = n_chunks (length (enc v))) \<and> ur_at i ty v (k + 1) r'"
proof -
  let ?n = "n_chunks (length (enc v))" let ?p = "stream_packet i ty (enc v) k"
  from v have n: "?n < BODY" by (simp add: sendable_def)
  from at have "br_at i ty (enc v) k r" and old: "ur_value r = val_null"
    using k by (auto simp: ur_at_def)
  from br_process_step [OF this(1) k n] obtain r1 where
    step: "br_process r ?p = Some (True, r1, k + 1 = ?n)" and at1: "br_at i ty (enc v) (k + 1) r1"
    by blast
  have val1: "ur_value r1 = val_null" using br_process_value [OF step] old by simp
  have part: "pkt_part ?p = of_nat (k + 1)" "pkt_parts ?p = of_nat ?n"
    by (simp_all add: pkt_getters stream_packet_def)
  have last: "pkt_part ?p = pkt_parts ?p \<longleftrightarrow> k + 1 = ?n"
    unfolding part by (rule u32_of_nat_eq) (use k n in auto)
  show ?thesis
  proof (cases "k + 1 = ?n")
    case False
    with step last at1 val1 show ?thesis by (auto simp: ur_process_eq ur_at_def)
  next
    case True
    have "length (enc v) \<le> (k + 1) * BODY" using n_chunks_covers [of "length (enc v)"] True by simp
    with at1 True obtain b where b: "br_buffer r1 = Some b" "mb_inv b"
        "mb_bytes b = enc v @ replicate (?n * BODY - length (enc v)) 0"
      and recv: "br_bytesReceived r1 = of_nat (length (enc v))"
      by (auto simp: br_at_def min_def)
    from b(3) have "mb_bytes b \<noteq> []" using enc_nonempty v by (auto simp: sendable_def)
    then have "mb_data b = Some (mb_bytes b)" by (simp add: mb_bytes_def split: option.splits)
    then have d: "mb_data b = Some (enc v @ [] @ replicate (?n * BODY - length (enc v)) 0)"
      using b(3) by simp
    have "reader_read val_null (mb_data b) (br_bytesReceived r1) = Some (True, v)"
      using reader_read_enc [of v "[]"] v n_chunks_bound [OF n] unfolding d recv
      by (simp add: sendable_def)
    with step last True at1 val1 b(1) have
      "ur_process r ?p = Some (True, r1\<lparr>ur_value := v\<rparr>, True)"
      by (simp add: ur_process_eq)
    with True at1 show ?thesis by (auto simp: ur_at_def)
  qed
qed

end
