(* ===== verification/Engine.thy ===== *)
theory Engine
  imports UBJ_Stream
begin

text \<open>
  \<^verbatim>\<open>src/request.cpp\<close> and \<^verbatim>\<open>src/engine.cpp\<close>.  The engine owns the table of stream
  receivers, the list of stream senders and the table of pending requests.  Senders are
  shared objects, so a list cell carries a handle standing for the pointer, and the request
  that started it (the one whose status its callback sets).  Calls of virtual methods that
  subclasses override (\<^verbatim>\<open>processResponse\<close>, \<^verbatim>\<open>processIncomingRequest\<close>,
  \<^verbatim>\<open>processRequestTimeout\<close>) are returned as a list; the base class does nothing in them.
  The locks make each operation atomic.  \<open>ok\<close> is the success of allocations and \<open>now\<close> the
  clock; \<^const>\<open>None\<close> is undefined behaviour inherited from the lower layers.
\<close>

section \<open>Requests\<close>

datatype rq_status = RQ_Outgoing | RQ_WaitingForResponse | RQ_Completed | RQ_Timeout | RQ_Error

record request =
  rq_type :: u32
  rq_status :: rq_status
  rq_id :: u32
  rq_timeout :: u32
  rq_time :: u64
  rq_args :: "(string \<times> val) list"
  rq_head :: "(string \<times> val) list"

definition DEFAULT_TIMEOUT :: u32 where
  "DEFAULT_TIMEOUT = 20"

definition rq_new :: "u32 \<Rightarrow> (string \<times> val) list \<Rightarrow> u32 \<Rightarrow> request option" where
  "rq_new type' args timeout = do {
     i \<leftarrow> val_toInt (obj_get args ''requestId'');
     Some \<lparr>rq_type = type', rq_status = RQ_Outgoing, rq_id = i, rq_timeout = timeout, rq_time = 0,
           rq_args = args, rq_head = []\<rparr> }"

definition rq_start :: "bool \<Rightarrow> u64 \<Rightarrow> request \<Rightarrow> (ubj_sender option \<times> request) option" where
  "rq_start ok now r =
     (let head = obj_setField ''requestType'' (val_int32 (rq_type r))
                   (obj_setField ''requestId'' (val_int32 (rq_id r)) (rq_head r));
          r1 = r\<lparr>rq_head := head\<rparr>
      in do {
        sender \<leftarrow> us_create ok (rq_id r1) ST_Request (val_of_obj head);
        Some (case sender of
                None \<Rightarrow> (None, r1\<lparr>rq_status := RQ_Error\<rparr>)
              | Some s \<Rightarrow> (Some s, r1\<lparr>rq_time := now, rq_status := RQ_Outgoing\<rparr>)) })"

definition rq_setId :: "u32 \<Rightarrow> request \<Rightarrow> request" where
  "rq_setId i r = r\<lparr>rq_head := obj_setField ''requestId'' (val_int32 i) (rq_head r), rq_id := i\<rparr>"

definition rq_setStatus :: "rq_status \<Rightarrow> request \<Rightarrow> request" where
  "rq_setStatus st r = r\<lparr>rq_status := st\<rparr>"

definition rq_checkTimeout :: "u64 \<Rightarrow> request \<Rightarrow> bool \<times> request" where
  "rq_checkTimeout time r =
     (if rq_timeout r > 0 \<and> rq_time r > 0 \<and> time \<ge> rq_time r + ucast (rq_timeout r)
      then (True, rq_setStatus RQ_Timeout r) else (False, r))"

section \<open>The engine's state\<close>

record sender_slot =
  sl_handle :: nat
  sl_owner :: "u32 option"
  sl_sender :: ubj_sender

record engine =
  en_receivers :: "(u32, ubj_receiver) omap"
  en_senders :: "sender_slot list"
  en_requests :: "(u32, request) omap"
  en_next :: nat

datatype eng_call =
    ProcessResponse u32 "(string \<times> val) list"
  | ProcessIncomingRequest "(string \<times> val) list"
  | ProcessRequestTimeout request

definition eng_new :: engine where
  "eng_new = \<lparr>en_receivers = [], en_senders = [], en_requests = [], en_next = 0\<rparr>"

text \<open>\<^verbatim>\<open>addStreamSender\<close>: a null sender and the identifier 0 are refused.\<close>

definition eng_addStreamSender :: "u32 option \<Rightarrow> ubj_sender option \<Rightarrow> engine \<Rightarrow> bool \<times> engine" where
  "eng_addStreamSender owner sender e =
     (case sender of
        None \<Rightarrow> (False, e)
      | Some s \<Rightarrow>
          if ss_id s = 0 then (False, e)
          else (True, e\<lparr>en_senders := en_senders e @
                          [\<lparr>sl_handle = en_next e, sl_owner = owner, sl_sender = s\<rparr>],
                        en_next := en_next e + 1\<rparr>))"

definition eng_addUbjSender :: "bool \<Rightarrow> u32 \<Rightarrow> u32 \<Rightarrow> val \<Rightarrow> engine \<Rightarrow> (bool \<times> engine) option" where
  "eng_addUbjSender ok i type' v e = do {
     s \<leftarrow> us_create ok i type' v;
     Some (eng_addStreamSender None s e) }"

definition eng_requestPending :: "u32 \<Rightarrow> u32 \<Rightarrow> engine \<Rightarrow> bool" where
  "eng_requestPending type' i e =
     (if i \<noteq> 0 then list_ex (\<lambda>(_, r). rq_type r = type' \<and> rq_id r = i) (en_requests e)
      else list_ex (\<lambda>(_, r). rq_type r = type') (en_requests e))"

text \<open>
  A sender posted earlier under the id \<open>i\<close> belongs to a request object that is no longer the
  table's entry for \<open>i\<close> once another one is stored there: its callback changes that object only.
\<close>

definition eng_disown :: "u32 \<Rightarrow> engine \<Rightarrow> engine" where
  "eng_disown i e =
     e\<lparr>en_senders := map (\<lambda>sl. if sl_owner sl = Some i then sl\<lparr>sl_owner := None\<rparr> else sl) (en_senders e)\<rparr>"

text \<open>\<^verbatim>\<open>postRequest\<close>: the result, the caller's request afterwards, the engine.\<close>

definition eng_postRequest ::
    "bool \<Rightarrow> u64 \<Rightarrow> request option \<Rightarrow> engine \<Rightarrow> (bool \<times> request option \<times> engine) option" where
  "eng_postRequest ok now request e =
     (case request of
        None \<Rightarrow> Some (False, None, e)
      | Some r \<Rightarrow>
          if eng_requestPending (rq_type r) (rq_id r) e then Some (False, Some r, e)
          else do {
            (sender, r1) \<leftarrow> rq_start ok now r;
            if sender = None then Some (False, Some r1, e)
            else case eng_addStreamSender (Some (rq_id r1)) sender (eng_disown (rq_id r1) e) of
                (False, _) \<Rightarrow> Some (False, Some r1, e)
              | (True, e1) \<Rightarrow>
                  Some (True, Some r1, e1\<lparr>en_requests := omap_insert (rq_id r1) r1 (en_requests e1)\<rparr>) })"

definition eng_postRequestSuccess ::
    "bool \<Rightarrow> u32 \<Rightarrow> (string \<times> val) list \<Rightarrow> engine \<Rightarrow> (bool \<times> engine) option" where
  "eng_postRequestSuccess ok i head e =
     eng_addUbjSender ok i ST_Request
       (val_of_obj (obj_setField ''status'' (val_int32 1)
                     (obj_setField ''requestId'' (val_int32 i) head))) e"

definition eng_postRequestFailure ::
    "bool \<Rightarrow> u32 \<Rightarrow> u32 \<Rightarrow> string \<Rightarrow> engine \<Rightarrow> (bool \<times> engine) option" where
  "eng_postRequestFailure ok i code msg e = do {
     m \<leftarrow> val_of_string msg;
     eng_addUbjSender ok i ST_Request
       (val_of_obj (obj_setField ''message'' m (obj_setField ''code'' (val_int32 code)
          (obj_setField ''status'' (val_int32 0) (obj_setField ''requestId'' (val_int32 i) []))))) e }"

text \<open>\<^verbatim>\<open>process\<close>: timed-out requests are marked, reported and erased by their id.\<close>

definition eng_process :: "u64 \<Rightarrow> engine \<Rightarrow> engine \<times> eng_call list" where
  "eng_process now e =
     (let checked = map (\<lambda>(k, r). (k, rq_checkTimeout now r)) (en_requests e);
          table = map (\<lambda>(k, (_, r)). (k, r)) checked;
          removed = map (\<lambda>(_, (_, r)). r) (filter (\<lambda>(_, (t, _)). t) checked)
      in (e\<lparr>en_requests := fold omap_erase (map rq_id removed) table\<rparr>,
          map ProcessRequestTimeout removed))"

definition eng_finish :: "engine \<Rightarrow> engine" where
  "eng_finish e = e\<lparr>en_requests := [], en_senders := [], en_receivers := []\<rparr>"

definition eng_numStreamSenders :: "engine \<Rightarrow> u32" where
  "eng_numStreamSenders e = of_nat (length (en_senders e))"

section \<open>Sending\<close>

definition eng_find_sender :: "nat \<Rightarrow> engine \<Rightarrow> sender_slot option" where
  "eng_find_sender h e = find (\<lambda>sl. sl_handle sl = h) (en_senders e)"

definition eng_removeStreamSender :: "nat \<Rightarrow> engine \<Rightarrow> engine" where
  "eng_removeStreamSender h e = e\<lparr>en_senders := filter (\<lambda>sl. sl_handle sl \<noteq> h) (en_senders e)\<rparr>"

definition eng_update_sender :: "nat \<Rightarrow> ubj_sender \<Rightarrow> engine \<Rightarrow> engine" where
  "eng_update_sender h s e =
     e\<lparr>en_senders := map (\<lambda>sl. if sl_handle sl = h then sl\<lparr>sl_sender := s\<rparr> else sl) (en_senders e)\<rparr>"

text \<open>
  The callback \<^verbatim>\<open>Request::start\<close> gives its sender: a completed sender lets its request
  wait for the response (a request no longer in the table is out of the engine's reach).
\<close>

definition eng_sender_callback :: "u32 option \<Rightarrow> ubj_sender \<Rightarrow> engine \<Rightarrow> engine" where
  "eng_sender_callback owner s e =
     (case owner of
        None \<Rightarrow> e
      | Some i \<Rightarrow>
          if ss_status s = SS_Completed then
            (case map_of (en_requests e) i of
               Some r \<Rightarrow> e\<lparr>en_requests := omap_insert i (rq_setStatus RQ_WaitingForResponse r)
                                          (en_requests e)\<rparr>
             | None \<Rightarrow> e)
          else e)"

text \<open>
  \<^verbatim>\<open>processStreamSenders\<close>: one round over a snapshot of the senders, stopped by the first
  that completes or fails; the packet callback \<open>pc\<close> acts on a state of its own.
\<close>

definition copy_packet_body :: "packet \<Rightarrow> packet option" where
  "copy_packet_body p = do {
     b \<leftarrow> p_body p;
     c \<leftarrow> mb_copy True b;
     Some (pkt_setBody c (pkt_bodySize p) p) }"

primrec eng_sender_round ::
    "bool \<Rightarrow> (packet \<Rightarrow> 'w \<Rightarrow> bool \<times> 'w) \<Rightarrow> nat list \<Rightarrow> engine \<Rightarrow> 'w \<Rightarrow> int
     \<Rightarrow> (int \<times> engine \<times> 'w) option" where
  "eng_sender_round copyBody pc [] e w res = Some (res, e, w)"
| "eng_sender_round copyBody pc (h # hs) e w res = do {
     sl \<leftarrow> eng_find_sender h e;
     (sent, pkt, s, invoked) \<leftarrow> bs_process mb_read (sl_sender sl);
     let e1 = eng_update_sender h s e;
     let e2 = (if invoked then eng_sender_callback (sl_owner sl) s e1 else e1);
     if \<not> sent then Some (res, eng_removeStreamSender h e2, w)
     else do {
       (accepted, res1, w1) \<leftarrow>
         (case pkt of
            None \<Rightarrow> Some (True, res, w)
          | Some p \<Rightarrow> do {
              q \<leftarrow> (if copyBody then copy_packet_body p else Some p);
              let (a, w') = pc q w in Some (a, res + 1, w') });
       if \<not> accepted then Some (0, e2, w1)
       else if ss_status s = SS_Completed then Some (res1, eng_removeStreamSender h e2, w1)
       else eng_sender_round copyBody pc hs e2 w1 res1 } }"

definition eng_processStreamSenders ::
    "bool \<Rightarrow> (packet \<Rightarrow> 'w \<Rightarrow> bool \<times> 'w) \<Rightarrow> engine \<Rightarrow> 'w \<Rightarrow> (int \<times> engine \<times> 'w) option" where
  "eng_processStreamSenders copyBody pc e w =
     eng_sender_round copyBody pc (map sl_handle (en_senders e)) e w 0"

section \<open>Receiving\<close>

text \<open>\<^verbatim>\<open>createStreamReceiver\<close>: the base class only knows request streams.\<close>

definition eng_createStreamReceiver :: "bool \<Rightarrow> packet \<Rightarrow> ubj_receiver option option" where
  "eng_createStreamReceiver ok p =
     (if pkt_streamType p = ST_Request then ur_create ok p else Some None)"

text \<open>The receiver's callback: a response for a pending request, or an incoming request.\<close>

definition eng_receiver_callback :: "ubj_receiver \<Rightarrow> engine \<Rightarrow> (engine \<times> eng_call list) option" where
  "eng_receiver_callback r e =
     (let head = val_toObject (ur_value r)
      in if sr_status r \<noteq> SR_Completed then Some (e, [])
         else do {
           request \<leftarrow>
             (if obj_hasField head ''requestId''
              then map_option (\<lambda>i. map_of (en_requests e) i) (val_toInt (obj_get head ''requestId''))
              else Some None);
           Some (case request of
                   Some rq \<Rightarrow> (e\<lparr>en_requests := omap_erase (rq_id rq) (en_requests e)\<rparr>,
                               [ProcessResponse (rq_id rq) head])
                 | None \<Rightarrow>
                     if obj_hasField head ''requestType'' then (e, [ProcessIncomingRequest head])
                     else (e, [])) })"

text \<open>
  The table part of \<^verbatim>\<open>processIncomingPacket\<close>: the result, the table, and the receiver
  whose callback was invoked.
\<close>

definition recv_packet ::
    "bool \<Rightarrow> packet \<Rightarrow> (u32, ubj_receiver) omap
     \<Rightarrow> (bool \<times> (u32, ubj_receiver) omap \<times> ubj_receiver option) option" where
  "recv_packet ok p tab = do {
     (receiver, tab1) \<leftarrow>
       (case map_of tab (pkt_streamId p) of
          Some r \<Rightarrow> Some (Some r, tab)
        | None \<Rightarrow> do {
            c \<leftarrow> eng_createStreamReceiver ok p;
            Some (c, case c of Some r \<Rightarrow> omap_insert (pkt_streamId p) r tab | None \<Rightarrow> tab) });
     (case receiver of
        None \<Rightarrow> Some (False, tab1, None)
      | Some r \<Rightarrow> do {
          (done', r1, invoked) \<leftarrow> ur_process r p;
          let cb = (if invoked then Some r1 else None);
          Some (if done' then
                  (if sr_status r1 = SR_Completed then (True, omap_erase (sr_id r1) tab1, cb)
                   else (True, omap_insert (pkt_streamId p) r1 tab1, cb))
                else (False, omap_erase (sr_id r1) tab1, cb)) }) }"

definition eng_processIncomingPacket ::
    "bool \<Rightarrow> packet \<Rightarrow> engine \<Rightarrow> (bool \<times> engine \<times> eng_call list) option" where
  "eng_processIncomingPacket ok p e = do {
     (res, tab, cb) \<leftarrow> recv_packet ok p (en_receivers e);
     (e1, calls) \<leftarrow> (case cb of None \<Rightarrow> Some (e, []) | Some r \<Rightarrow> eng_receiver_callback r e);
     Some (res, e1\<lparr>en_receivers := tab\<rparr>, calls) }"

section \<open>The engine's invariant\<close>

text \<open>
  Tables are keyed by the identifier their entries carry; handles are distinct.
\<close>

definition eng_inv :: "engine \<Rightarrow> bool" where
  "eng_inv e \<longleftrightarrow>
     omap_inv (en_receivers e) \<and> list_all (\<lambda>(k, r). sr_id r = k) (en_receivers e)
     \<and> omap_inv (en_requests e) \<and> list_all (\<lambda>(k, r). rq_id r = k) (en_requests e)
     \<and> distinct (map sl_handle (en_senders e)) \<and> list_all (\<lambda>sl. sl_handle sl < en_next e) (en_senders e)"

definition keyed :: "('v \<Rightarrow> 'k::linorder) \<Rightarrow> ('k, 'v) omap \<Rightarrow> bool" where
  "keyed f m \<longleftrightarrow> omap_inv m \<and> list_all (\<lambda>(k, v). f v = k) m"

lemma eng_inv_keyed:
  "eng_inv e \<longleftrightarrow> keyed sr_id (en_receivers e) \<and> keyed rq_id (en_requests e)
     \<and> distinct (map sl_handle (en_senders e)) \<and> list_all (\<lambda>sl. sl_handle sl < en_next e) (en_senders e)"
  by (auto simp: eng_inv_def keyed_def)

lemma keyed_Nil [simp]: "keyed f []"
  by (simp add: keyed_def)

lemma keyed_insert: "keyed f m \<Longrightarrow> f v = k \<Longrightarrow> keyed f (omap_insert k v m)"
proof -
  have "list_all (\<lambda>(k, v). f v = k) m \<Longrightarrow> f v = k \<Longrightarrow> list_all (\<lambda>(k, v). f v = k) (omap_insert k v m)"
    by (induction k v m rule: omap_insert.induct) auto
  then show "keyed f m \<Longrightarrow> f v = k \<Longrightarrow> keyed f (omap_insert k v m)"
    by (simp add: keyed_def omap_insert_inv)
qed

lemma keyed_erase: "keyed f m \<Longrightarrow> keyed f (omap_erase k m)"
  using set_omap_erase_subset [of k m] by (auto simp: keyed_def omap_erase_inv list_all_iff)

lemma keyed_fold_erase: "keyed f m \<Longrightarrow> keyed f (fold omap_erase ks m)"
  by (induction ks arbitrary: m) (auto simp: keyed_erase)

lemma keyed_find: "keyed f m \<Longrightarrow> map_of m k = Some v \<Longrightarrow> f v = k"
  by (auto simp: keyed_def list_all_iff dest: map_of_SomeD)

lemma eng_new_inv: "eng_inv eng_new"
  by (simp add: eng_new_def eng_inv_def)

lemma eng_finish_inv: "eng_inv e \<Longrightarrow> eng_inv (eng_finish e)"
  by (simp add: eng_finish_def eng_inv_def)

lemma eng_addStreamSender_inv: "eng_inv e \<Longrightarrow> eng_inv (snd (eng_addStreamSender ow s e))"
  by (auto simp: eng_addStreamSender_def eng_inv_def list_all_iff split: option.splits)

lemma rq_start_id: "rq_start ok now r = Some (s, r1) \<Longrightarrow> rq_id r1 = rq_id r \<and> rq_type r1 = rq_type r"
  by (auto simp: rq_start_def Let_def split: bind_splits option.splits)

lemma us_create_id:
  assumes "us_create ok i ty v = Some (Some s)"
  shows "ss_id s = i"
proof -
  have "ss_init ok n s0 = Some (r, s) \<Longrightarrow> ss_id s = ss_id s0" for n r and s s0 :: ubj_sender
    by (auto simp: ss_init_def Let_def split: bind_splits option.splits if_splits)
  with assms show ?thesis
    by (auto simp: us_create_def us_init_def bs_init_def bs_new_def Let_def
        split: bind_splits option.splits if_splits)
qed

text \<open>Posting a request: all or nothing.\<close>

lemma eng_postRequest_failed:
  "eng_postRequest ok now rq e = Some (False, rq', e') \<Longrightarrow> e' = e"
  by (auto simp: eng_postRequest_def eng_addStreamSender_def
      split: option.splits bind_splits if_splits prod.splits bool.splits)

lemma eng_postRequest_posted:
  assumes "eng_postRequest ok now (Some r) e = Some (True, rq', e')"
  obtains r1 s where
    "rq' = Some r1" "rq_id r1 = rq_id r" "rq_type r1 = rq_type r" "rq_status r1 = RQ_Outgoing"
    "rq_time r1 = now" "rq_id r \<noteq> 0" "\<not> eng_requestPending (rq_type r) (rq_id r) e"
    "us_create ok (rq_id r) ST_Request (val_of_obj (rq_head r1)) = Some (Some s)"
    "e' = e\<lparr>en_senders := en_senders (eng_disown (rq_id r) e) @
              [\<lparr>sl_handle = en_next e, sl_owner = Some (rq_id r), sl_sender = s\<rparr>],
            en_next := en_next e + 1, en_requests := omap_insert (rq_id r) r1 (en_requests e)\<rparr>"
proof -
  have np: "\<not> eng_requestPending (rq_type r) (rq_id r) e"
    using assms by (auto simp: eng_postRequest_def)
  obtain so r1 where st: "rq_start ok now r = Some (so, r1)"
    using assms np by (auto simp: eng_postRequest_def split: bind_splits)
  obtain s where s: "so = Some s"
    using assms np st by (auto simp: eng_postRequest_def split: if_splits option.splits)
  note idr = rq_start_id [OF st]
  have create: "us_create ok (rq_id r) ST_Request (val_of_obj (rq_head r1)) = Some (Some s)"
    and st1: "rq_status r1 = RQ_Outgoing" "rq_time r1 = now"
    using st s by (auto simp: rq_start_def Let_def split: bind_splits option.splits)
  then have id: "ss_id s = rq_id r" by (auto dest: us_create_id)
  have nz: "rq_id r \<noteq> 0"
    using assms np st s id by (auto simp: eng_postRequest_def eng_addStreamSender_def split: if_splits)
  from assms np st s id nz idr have "rq' = Some r1" and
    "e' = e\<lparr>en_senders := en_senders (eng_disown (rq_id r) e) @
              [\<lparr>sl_handle = en_next e, sl_owner = Some (rq_id r), sl_sender = s\<rparr>],
            en_next := en_next e + 1, en_requests := omap_insert (rq_id r) r1 (en_requests e)\<rparr>"
    by (auto simp: eng_postRequest_def eng_addStreamSender_def eng_disown_def)
  then show thesis using that np idr create st1 nz by blast
qed

lemma disown_handle [simp]:
  "sl_handle (if b then sl\<lparr>sl_owner := own\<rparr> else sl) = sl_handle sl"
  "sl_handle \<circ> (\<lambda>sl. if P sl then sl\<lparr>sl_owner := own\<rparr> else sl) = sl_handle"
  by (auto simp: fun_eq_iff)

lemma eng_postRequest_inv:
  assumes "eng_inv e" and "eng_postRequest ok now rq e = Some (res, rq', e')"
  shows "eng_inv e'"
proof (cases res)
  case False
  with assms(2) have "eng_postRequest ok now rq e = Some (False, rq', e')" by simp
  from eng_postRequest_failed [OF this] assms(1) show ?thesis by simp
next
  case True
  then obtain r where "rq = Some r" using assms(2) by (auto simp: eng_postRequest_def split: option.splits)
  with True assms(2) have "eng_postRequest ok now (Some r) e = Some (True, rq', e')" by simp
  then show ?thesis
    by (rule eng_postRequest_posted)
      (use assms(1) in \<open>auto simp: eng_inv_keyed keyed_insert list_all_iff eng_disown_def\<close>)
qed

text \<open>Timeouts: exactly the requests that are due leave the table, each reported once.\<close>

definition rq_due :: "u64 \<Rightarrow> request \<Rightarrow> bool" where
  "rq_due now r \<longleftrightarrow> rq_timeout r > 0 \<and> rq_time r > 0 \<and> now \<ge> rq_time r + ucast (rq_timeout r)"

lemma rq_checkTimeout_due:
  "rq_checkTimeout now r = (rq_due now r, if rq_due now r then rq_setStatus RQ_Timeout r else r)"
  by (simp add: rq_checkTimeout_def rq_due_def)

lemma fold_erase_filter:
  assumes "keyed f m"
  shows "fold omap_erase (map (f \<circ> snd) (filter (\<lambda>kv. P (snd kv)) m)) m = filter (\<lambda>kv. \<not> P (snd kv)) m"
proof -
  let ?ks = "map (f \<circ> snd) (filter (\<lambda>kv. P (snd kv)) m)"
  from assms have inv: "omap_inv m" and key: "\<And>k v. (k, v) \<in> set m \<Longrightarrow> f v = k"
    by (auto simp: keyed_def list_all_iff)
  have d: "distinct (map fst m)" by (rule omap_inv_distinct [OF inv])
  have inv': "omap_inv (filter (\<lambda>kv. \<not> P (snd kv)) m)"
    by (rule omap_inv_filter [OF inv])
  have "map_of (fold omap_erase ?ks m) = map_of (filter (\<lambda>kv. \<not> P (snd kv)) m)"
  proof
    fix k
    have "map_of (fold omap_erase ?ks m) k = (if k \<in> set ?ks then None else map_of m k)"
      using om.find_fold_del [OF inv, of ?ks] by (simp add: restrict_map_def)
    also have "\<dots> = map_of (filter (\<lambda>kv. \<not> P (snd kv)) m) k"
    proof (cases "map_of m k")
      case None
      then have "k \<notin> fst ` set (filter (\<lambda>kv. \<not> P (snd kv)) m)"
        by (auto simp: map_of_eq_None_iff)
      then have "map_of (filter (\<lambda>kv. \<not> P (snd kv)) m) k = None"
        by (simp only: map_of_eq_None_iff not_False_eq_True)
      with None show ?thesis by simp
    next
      case (Some v)
      then have kv: "(k, v) \<in> set m" by (rule map_of_SomeD)
      have u: "(k, w) \<in> set m \<Longrightarrow> w = v" for w
        using kv d by (auto simp: eq_key_imp_eq_value)
      show ?thesis
      proof (cases "P v")
        case True
        with kv key have "k \<in> set ?ks" by force
        moreover have "map_of (filter (\<lambda>kv. \<not> P (snd kv)) m) k = None"
          using u True by (auto simp: map_of_eq_None_iff)
        ultimately show ?thesis by simp
      next
        case False
        with u key have "k \<notin> set ?ks" by fastforce
        moreover have "(k, v) \<in> set (filter (\<lambda>kv. \<not> P (snd kv)) m)" using kv False by simp
        moreover have "distinct (map fst (filter (\<lambda>kv. \<not> P (snd kv)) m))"
          using d by (simp add: distinct_map_filter)
        ultimately show ?thesis using Some by (simp add: map_of_eq_Some_iff)
      qed
    qed
    finally show "map_of (fold omap_erase ?ks m) k = map_of (filter (\<lambda>kv. \<not> P (snd kv)) m) k" .
  qed
  then show ?thesis
    by (intro omap_ext om.inv_fold_del inv inv')
qed

lemma eng_process_due:
  assumes "eng_inv e"
  shows "eng_process now e =
    (e\<lparr>en_requests := filter (\<lambda>kr. \<not> rq_due now (snd kr)) (en_requests e)\<rparr>,
     map (\<lambda>kr. ProcessRequestTimeout (rq_setStatus RQ_Timeout (snd kr)))
       (filter (\<lambda>kr. rq_due now (snd kr)) (en_requests e)))"
proof -
  let ?chk = "\<lambda>kr. (fst kr, snd (rq_checkTimeout now (snd kr)))"
  let ?table = "map ?chk (en_requests e)"
  have k: "keyed rq_id (en_requests e)" using assms by (simp add: eng_inv_keyed)
  have id_same: "rq_id (rq_setStatus st r) = rq_id r" for st r
    by (simp add: rq_setStatus_def)
  have snd_due: "rq_due now (rq_setStatus st r) = rq_due now r" for st r
    by (simp add: rq_due_def rq_setStatus_def)
  have kt: "keyed rq_id ?table"
    using k by (auto simp: keyed_def omap_inv_def comp_def list_all_iff rq_checkTimeout_due rq_setStatus_def)
  have removed: "map (\<lambda>(_, (_, r)). r) (filter (\<lambda>(_, (t, _)). t)
      (map (\<lambda>(k, r). (k, rq_checkTimeout now r)) m))
      = map (\<lambda>kr. rq_setStatus RQ_Timeout (snd kr)) (filter (\<lambda>kr. rq_due now (snd kr)) m)"
    for m :: "(u32, request) omap"
    by (induction m) (auto simp: rq_checkTimeout_due)
  have table: "map (\<lambda>(k, (_, r)). (k, r)) (map (\<lambda>(k, r). (k, rq_checkTimeout now r)) m) = map ?chk m"
    for m :: "(u32, request) omap"
    by (induction m) (auto split: prod.splits)
  have ids: "map rq_id (map (\<lambda>kr. rq_setStatus RQ_Timeout (snd kr)) (filter (\<lambda>kr. rq_due now (snd kr)) m))
      = map (rq_id \<circ> snd) (filter (\<lambda>kv. rq_due now (snd kv)) (map ?chk m))" for m
    by (induction m) (auto simp: rq_checkTimeout_due snd_due id_same)
  have stay: "filter (\<lambda>kv. \<not> rq_due now (snd kv)) (map ?chk m) = filter (\<lambda>kr. \<not> rq_due now (snd kr)) m"
    for m
    by (induction m) (auto simp: rq_checkTimeout_due snd_due)
  show ?thesis
    unfolding eng_process_def Let_def removed table ids
    using fold_erase_filter [OF kt, of "rq_due now"] by (simp add: stay comp_def)
qed

section \<open>Invariance of sending and receiving\<close>

lemma ur_process_packet_id:
  "ur_process_packet r p = Some (a, r1) \<Longrightarrow> sr_id r1 = sr_id r"
  by (auto simp: ur_process_packet_def br_process_packet_def sr_process_packet_def Let_def
      split: bind_splits if_splits)

lemma ur_process_id:
  assumes "ur_process r p = Some (a, r1, cb)"
  shows "sr_id r1 = sr_id r"
proof -
  have "sr_id r0 = sr_id r" if "ur_process_packet r p = Some (b, r0)" for b r0
    using that by (rule ur_process_packet_id)
  with assms show ?thesis
    by (auto simp: ur_process_def sr_process_def Let_def split: if_splits bind_splits)
qed

lemma ur_create_id: "ur_create ok p = Some (Some r) \<Longrightarrow> sr_id r = pkt_streamId p"
  by (auto simp: ur_create_def br_init_def sr_init_def split: bind_splits if_splits)

lemma recv_packet_cases:
  assumes "recv_packet ok p tab = Some (res, tab', cb)" and "keyed sr_id tab"
  obtains (no_receiver) "tab' = tab" "cb = None" "\<not> res"
    | (dropped) r where "tab' = omap_erase (pkt_streamId p) (omap_insert (pkt_streamId p) r tab)"
        "sr_id r = pkt_streamId p"
    | (kept) r where "tab' = omap_insert (pkt_streamId p) r tab" "sr_id r = pkt_streamId p" "res"
    | (closed) "tab' = omap_erase (pkt_streamId p) tab"
    | (twice) r r1 where "tab' = omap_insert (pkt_streamId p) r1 (omap_insert (pkt_streamId p) r tab)"
        "sr_id r = pkt_streamId p" "sr_id r1 = pkt_streamId p" "res"
proof -
  let ?i = "pkt_streamId p"
  show thesis
  proof (cases "map_of tab ?i")
    case (Some r)
    with assms(2) have id: "sr_id r = ?i" by (rule keyed_find)
    from assms(1) Some obtain d r1 inv where "ur_process r p = Some (d, r1, inv)"
      and "tab' = (if d then (if sr_status r1 = SR_Completed then omap_erase (sr_id r1) tab
             else omap_insert ?i r1 tab) else omap_erase (sr_id r1) tab)" "res = d"
      by (auto simp: recv_packet_def Let_def split: bind_splits if_splits)
    with id ur_process_id show thesis
      using closed kept by (metis (full_types))
  next
    case None
    show thesis
    proof (cases "eng_createStreamReceiver ok p")
      case None
      with \<open>map_of tab ?i = None\<close> assms(1) show thesis by (simp add: recv_packet_def)
    next
      case (Some c)
      show thesis
      proof (cases c)
        case None
        with \<open>map_of tab ?i = None\<close> Some assms(1) show thesis
          by (intro no_receiver) (simp_all add: recv_packet_def)
      next
        case r: (Some r)
        with Some have "ur_create ok p = Some (Some r)"
          by (simp add: eng_createStreamReceiver_def split: if_splits)
        then have id: "sr_id r = ?i" by (rule ur_create_id)
        let ?tab1 = "omap_insert ?i r tab"
        from assms(1) \<open>map_of tab ?i = None\<close> Some r obtain d r1 inv where
          "ur_process r p = Some (d, r1, inv)"
          and "tab' = (if d then (if sr_status r1 = SR_Completed then omap_erase (sr_id r1) ?tab1
                 else omap_insert ?i r1 ?tab1) else omap_erase (sr_id r1) ?tab1)" "res = d"
          by (auto simp: recv_packet_def Let_def split: bind_splits if_splits)
        with id ur_process_id show thesis
          using dropped twice by (metis (full_types))
      qed
    qed
  qed
qed

lemma recv_packet_keyed:
  assumes "recv_packet ok p tab = Some (res, tab', cb)" and "keyed sr_id tab"
  shows "keyed sr_id tab'"
  using assms by (cases rule: recv_packet_cases) (auto simp: keyed_insert keyed_erase assms)

text \<open>A packet touches no stream but its own.\<close>

lemma recv_packet_other:
  assumes "recv_packet ok p tab = Some (res, tab', cb)" and "keyed sr_id tab" and "i \<noteq> pkt_streamId p"
  shows "map_of tab' i = map_of tab i"
proof -
  have inv: "omap_inv tab" using assms(2) by (simp add: keyed_def)
  from assms(1,2) show ?thesis
    by (cases rule: recv_packet_cases)
      (use assms(3) inv in \<open>auto simp: map_of_omap_insert map_of_omap_erase omap_insert_inv\<close>)
qed

lemma eng_receiver_callback_inv:
  "eng_receiver_callback r e = Some (e', cs) \<Longrightarrow> eng_inv e \<Longrightarrow>
    eng_inv e' \<and> en_receivers e' = en_receivers e"
  by (auto simp: eng_receiver_callback_def Let_def eng_inv_keyed keyed_erase
      split: if_splits bind_splits option.splits)

lemma eng_processIncomingPacket_inv:
  assumes "eng_inv e" and "eng_processIncomingPacket ok p e = Some (res, e', cs)"
  shows "eng_inv e'"
proof -
  from assms(2) obtain tab cb e1 where
    *: "recv_packet ok p (en_receivers e) = Some (res, tab, cb)" "e' = e1\<lparr>en_receivers := tab\<rparr>"
      "(case cb of None \<Rightarrow> Some (e, []) | Some r \<Rightarrow> eng_receiver_callback r e) = Some (e1, cs)"
    by (auto simp: eng_processIncomingPacket_def split: bind_splits)
  from * assms(1) have "eng_inv e1"
    by (auto split: option.splits dest: eng_receiver_callback_inv)
  moreover have "keyed sr_id tab"
    by (rule recv_packet_keyed [OF *(1)]) (use assms(1) in \<open>simp add: eng_inv_keyed\<close>)
  ultimately show ?thesis by (simp add: *(2) eng_inv_keyed)
qed

lemma eng_update_sender_handles [simp]:
  "map sl_handle (en_senders (eng_update_sender h s e)) = map sl_handle (en_senders e)"
  by (simp add: eng_update_sender_def comp_def if_distrib cong: if_cong)

lemma eng_update_sender_inv: "eng_inv e \<Longrightarrow> eng_inv (eng_update_sender h s e)"
proof -
  assume "eng_inv e"
  moreover have "list_all (\<lambda>sl. sl_handle sl < n) (en_senders e) \<Longrightarrow>
      list_all (\<lambda>sl. sl_handle sl < n) (en_senders (eng_update_sender h s e))" for n
    by (auto simp: eng_update_sender_def list_all_iff)
  ultimately show ?thesis
    using eng_update_sender_handles [of h s e]
    by (simp add: eng_inv_keyed) (simp add: eng_update_sender_def)
qed

lemma eng_removeStreamSender_inv: "eng_inv e \<Longrightarrow> eng_inv (eng_removeStreamSender h e)"
  by (auto simp: eng_inv_keyed eng_removeStreamSender_def list_all_iff distinct_map_filter)

lemma eng_sender_callback_inv: "eng_inv e \<Longrightarrow> eng_inv (eng_sender_callback ow s e)"
  by (auto simp: eng_sender_callback_def eng_inv_keyed rq_setStatus_def intro!: keyed_insert
      dest: keyed_find split: option.splits)

lemma eng_sender_round_inv:
  "eng_sender_round cpy pc hs e w res = Some (n, e', w') \<Longrightarrow> eng_inv e \<Longrightarrow> eng_inv e'"
proof (induction hs arbitrary: e w res)
  case Nil
  then show ?case by simp
next
  case (Cons h hs)
  obtain sl sent pkt s invoked where sl: "eng_find_sender h e = Some sl"
      "bs_process mb_read (sl_sender sl) = Some (sent, pkt, s, invoked)"
    using Cons.prems(1) by (auto split: bind_splits)
  let ?e2 = "if invoked then eng_sender_callback (sl_owner sl) s (eng_update_sender h s e)
             else eng_update_sender h s e"
  have inv2: "eng_inv ?e2"
    using Cons.prems(2) by (simp add: eng_update_sender_inv eng_sender_callback_inv)
  from Cons.prems(1) sl consider "e' = ?e2" | "e' = eng_removeStreamSender h ?e2"
    | w1 res1 where "eng_sender_round cpy pc hs ?e2 w1 res1 = Some (n, e', w')"
    by (auto simp: Let_def split: bind_splits if_splits)
  then show ?case
    using inv2 Cons.IH by cases (auto simp: eng_removeStreamSender_inv)
qed

lemma eng_process_inv: "eng_inv e \<Longrightarrow> eng_inv (fst (eng_process now e))"
  by (simp add: eng_process_due eng_inv_keyed keyed_def omap_inv_filter list_all_iff)

section \<open>Reachable engines\<close>

text \<open>One step of an engine: any of its operations, in any order.\<close>

inductive eng_step :: "engine \<Rightarrow> engine \<Rightarrow> bool" where
  add: "eng_step e (snd (eng_addStreamSender ow s e))"
| post: "eng_postRequest ok now rq e = Some (r, rq', e') \<Longrightarrow> eng_step e e'"
| time: "eng_step e (fst (eng_process now e))"
| send: "eng_processStreamSenders cpy pc e (w :: packet list) = Some (n, e', w') \<Longrightarrow> eng_step e e'"
| recv: "eng_processIncomingPacket ok p e = Some (r, e', cs) \<Longrightarrow> eng_step e e'"
| finish: "eng_step e (eng_finish e)"

inductive eng_reachable :: "engine \<Rightarrow> bool" where
  init: "eng_reachable eng_new"
| step: "eng_reachable e \<Longrightarrow> eng_step e e' \<Longrightarrow> eng_reachable e'"

inductive_cases eng_stepE: "eng_step e e'"

lemma eng_step_inv: "eng_step e e' \<Longrightarrow> eng_inv e \<Longrightarrow> eng_inv e'"
  by (erule eng_stepE)
    (auto simp: eng_addStreamSender_inv eng_process_inv eng_finish_inv eng_processStreamSenders_def
      intro: eng_postRequest_inv eng_sender_round_inv eng_processIncomingPacket_inv)

lemma eng_reachable_inv: "eng_reachable e \<Longrightarrow> eng_inv e"
  by (induction rule: eng_reachable.induct) (auto simp: eng_new_inv intro: eng_step_inv)

end
