(* ===== verification/Client_Queues.thy ===== *)
theory Client_Queues
  imports Engine
begin

text \<open>
  The queues between the threads of \<^verbatim>\<open>Client\<close> (\<^verbatim>\<open>src/client.cpp\<close>): packets the sending
  thread collects from the engine, packets the receiving thread has read, and the polls of the
  socket with their timeouts.
\<close>

section \<open>Polls\<close>

text \<open>The \<^verbatim>\<open>timeval\<close> of a timeout in milliseconds: seconds and microseconds.\<close>

definition poll_timeval :: "u32 \<Rightarrow> u32 \<times> u32" where
  "poll_timeval ms =
     ((if ms \<ge> 1000 then ms div 1000 else 0), (if ms \<ge> 1000 then (ms mod 1000) * 1000 else ms * 1000))"

lemma poll_timeval_exact:
  "poll_timeval ms = (sec, usec) \<Longrightarrow>
     unat sec * 1000000 + unat usec = unat ms * 1000 \<and> unat usec < 1000000"
proof -
  assume h: "poll_timeval ms = (sec, usec)"
  have m: "unat (ms mod 1000) = unat ms mod 1000" "unat (ms div 1000) = unat ms div 1000"
    by (simp_all add: unat_mod unat_div)
  then have "unat ((ms mod 1000) * 1000) = (unat ms mod 1000) * 1000"
    by (simp add: unat_word_ariths)
  moreover have "unat ms < 1000 \<Longrightarrow> unat (ms * 1000) = unat ms * 1000"
    by (simp add: unat_word_ariths)
  moreover have "unat ms = unat ms div 1000 * 1000 + unat ms mod 1000" by simp
  then have "unat ms div 1000 * 1000000 + unat ms mod 1000 * 1000 = unat ms * 1000" by linarith
  ultimately show ?thesis
    using h m by (auto simp: poll_timeval_def word_le_nat_alt split: if_splits)
qed

text \<open>
  What \<^verbatim>\<open>select\<close> answers; when it fails it leaves the set as it was, with the socket in it.
\<close>

datatype select_answer = Select_Failed | Select_Ready | Select_Timeout

definition cl_readable :: "bool \<Rightarrow> select_answer \<Rightarrow> int" where
  "cl_readable pending a =
     (if pending then 1
      else if a = Select_Failed then -1
      else if a = Select_Ready then 1 else 0)"

definition cl_writable :: "select_answer \<Rightarrow> int" where
  "cl_writable a = (if a \<in> {Select_Failed, Select_Ready} then 1 else 0)"

section \<open>The sending thread\<close>

type_synonym packets = "packet list"

definition snd_numPackets :: "packets \<Rightarrow> u32" where
  "snd_numPackets q = of_nat (length q)"

definition snd_getElements :: "engine \<Rightarrow> packets \<Rightarrow> (bool \<times> engine \<times> packets) option" where
  "snd_getElements e q =
     (if eng_numStreamSenders e = 0 then Some (False, e, q)
      else do {
        (_, e1, q1) \<leftarrow> eng_processStreamSenders True (\<lambda>p q. (True, q @ [p])) e q;
        Some (q1 \<noteq> [], e1, q1) })"

lemma sender_round_appends:
  "eng_sender_round cpy (\<lambda>p q. (True, q @ [p])) hs e q res = Some (n, e', q') \<Longrightarrow>
     \<exists>ps. q' = q @ ps \<and> n = res + int (length ps) \<and> length ps \<le> length hs"
proof (induction hs arbitrary: e q res)
  case (Cons h hs)
  then show ?case
    by (fastforce simp: Let_def split: bind_splits if_splits option.splits)
qed simp

text \<open>A round appends at most one packet for each stream, and answers whether there is work.\<close>

lemma getElements_appends:
  assumes "snd_getElements e q = Some (work, e', q')"
  shows "\<exists>ps. q' = q @ ps \<and> length ps \<le> length (en_senders e)"
    and "eng_numStreamSenders e \<noteq> 0 \<Longrightarrow> work \<longleftrightarrow> q' \<noteq> []"
  using assms sender_round_appends [of True "map sl_handle (en_senders e)" e q 0]
  by (fastforce simp: snd_getElements_def eng_processStreamSenders_def split: if_splits bind_splits)+

section \<open>The receiving thread\<close>

definition rcv_numPackets :: "packets \<Rightarrow> u32" where
  "rcv_numPackets q = of_nat (length q)"

text \<open>The receiving thread puts each packet at the end; the main thread fetches from the front.\<close>

definition rcv_put :: "packet \<Rightarrow> packets \<Rightarrow> packets" where
  "rcv_put p q = q @ [p]"

definition rcv_fetchPacket :: "packet \<Rightarrow> packets \<Rightarrow> bool \<times> packet \<times> packets" where
  "rcv_fetchPacket pkt q = (case q of [] \<Rightarrow> (False, pkt, []) | p # ps \<Rightarrow> (True, p, ps))"

definition rcv_waits :: "bool \<Rightarrow> bool \<Rightarrow> packets \<Rightarrow> bool" where
  "rcv_waits running canceled q \<longleftrightarrow> running \<and> \<not> canceled \<and> rcv_numPackets q = 0"

text \<open>
  Under every interleaving the packets fetched and those left are the packets put, in order:
  \<open>None\<close> is a fetch, \<open>Some p\<close> the arrival of \<open>p\<close>.
\<close>

fun rcv_run :: "packet option list \<Rightarrow> packets \<Rightarrow> packets \<times> packets" where
  "rcv_run [] q = ([], q)"
| "rcv_run (Some p # ops) q = rcv_run ops (rcv_put p q)"
| "rcv_run (None # ops) q =
     (case rcv_fetchPacket (pkt_create 0) q of
        (ok, p, q1) \<Rightarrow> (case rcv_run ops q1 of (ps, q2) \<Rightarrow> (if ok then p # ps else ps, q2)))"

lemma rcv_run_fifo: "rcv_run ops q = (ps, q') \<Longrightarrow> ps @ q' = q @ concat (map (case_option [] (\<lambda>p. [p])) ops)"
  by (induction ops q arbitrary: ps q' rule: rcv_run.induct)
    (auto simp: rcv_put_def rcv_fetchPacket_def split: prod.splits list.splits if_splits)

end
