(* ===== verification/Transport.thy ===== *)
theory Transport
  imports Engine "HOL-Library.Multiset"
begin

text \<open>
  What the engines of two peers promise together: every value handed to
  \<^verbatim>\<open>addUbjSender\<close> arrives, once and unchanged, whatever the order in which the packets of
  different streams are interleaved.  \<open>round_spec\<close> is the abstract specification of a round of
  \<^verbatim>\<open>processStreamSenders\<close>: a list of streams, each with its value and the number of parts
  already sent.
\<close>

type_synonym stream = "u32 \<times> val \<times> nat"

abbreviation parts_of :: "val \<Rightarrow> nat" where
  "parts_of v \<equiv> n_chunks (length (enc v))"

abbreviation part_packet :: "u32 \<Rightarrow> val \<Rightarrow> nat \<Rightarrow> packet" where
  "part_packet i v k \<equiv> stream_packet i ST_Request (enc v) k"

definition stream_wf :: "stream \<Rightarrow> bool" where
  "stream_wf = (\<lambda>(i, v, k). i \<noteq> 0 \<and> sendable v \<and> k < parts_of v)"

primrec round_spec :: "stream list \<Rightarrow> packet list \<times> stream list" where
  "round_spec [] = ([], [])"
| "round_spec (s # ss) =
     (case s of (i, v, k) \<Rightarrow>
        if k + 1 = parts_of v then ([part_packet i v k], ss)
        else case round_spec ss of (ps, ss') \<Rightarrow> (part_packet i v k # ps, (i, v, k + 1) # ss'))"

text \<open>A list cell that implements an abstract stream.\<close>

definition slot_at :: "stream \<Rightarrow> sender_slot \<Rightarrow> bool" where
  "slot_at s sl =
     (case s of (i, v, k) \<Rightarrow> stream_wf s \<and>
        (\<exists>b. mb_inv b \<and> mb_bytes b = enc v \<and> bs_at i ST_Request b (length (enc v)) k (sl_sender sl)))"

text \<open>The engine's own loop: rounds until no sender is left; packets are recorded.\<close>

definition record_packet :: "packet \<Rightarrow> packet list \<Rightarrow> bool \<times> packet list" where
  "record_packet p w = (True, w @ [p])"

primrec eng_drain :: "bool \<Rightarrow> nat \<Rightarrow> engine \<Rightarrow> packet list \<Rightarrow> (engine \<times> packet list) option" where
  "eng_drain cpy 0 e w = (if en_senders e = [] then Some (e, w) else None)"
| "eng_drain cpy (Suc f) e w =
     (if en_senders e = [] then Some (e, w)
      else do {
        (_, e1, w1) \<leftarrow> eng_processStreamSenders cpy record_packet e w;
        eng_drain cpy f e1 w1 })"

lemma copy_stream_packet:
  assumes "k < n_chunks (length c)"
  shows "copy_packet_body (stream_packet i ty c k) = Some (stream_packet i ty c k)"
proof -
  let ?b = "\<lparr>mb_data = Some (chunk c k @ replicate (BODY - length (chunk c k)) 0), mb_size = MAX_PACKET_BODY\<rparr>"
  have kl: "k * BODY < length c" using assms by (simp add: n_chunks_less)
  have len: "0 < length (chunk c k)" "length (chunk c k) \<le> BODY" "length (chunk c k) < 2 ^ 32"
    using kl by (auto simp: length_chunk)
  have "mb_inv ?b" using len by (simp add: mb_inv_def)
  moreover have "\<not> mb_is_empty ?b" by (simp add: mb_is_empty_def MAX_PACKET_BODY_def)
  ultimately have "mb_copy True ?b = Some (Some ?b)" by (rule mb_copy_ok)
  then show ?thesis
    using of_nat_u32_nonzero [OF len(1,3)]
    by (simp add: copy_packet_body_def stream_packet_def pkt_setters pkt_getters)
qed

lemma find_sender:
  assumes "en_senders e = pre @ sl # post" and "distinct (map sl_handle (en_senders e))"
  shows "eng_find_sender (sl_handle sl) e = Some sl"
proof -
  have "\<forall>x \<in> set pre. sl_handle x \<noteq> sl_handle sl" using assms(2) unfolding assms(1) by (auto simp: image_iff)
  then show ?thesis unfolding eng_find_sender_def assms(1) by (induction pre) auto
qed

lemma update_sender:
  assumes "en_senders e = pre @ sl # post" and "distinct (map sl_handle (en_senders e))"
  shows "en_senders (eng_update_sender (sl_handle sl) s e) = pre @ sl\<lparr>sl_sender := s\<rparr> # post"
proof -
  have "\<forall>x \<in> set pre \<union> set post. sl_handle x \<noteq> sl_handle sl" using assms(2) unfolding assms(1) by (auto simp: image_iff)
  then have "map (\<lambda>x. if sl_handle x = sl_handle sl then x\<lparr>sl_sender := s\<rparr> else x) pre = pre"
    "map (\<lambda>x. if sl_handle x = sl_handle sl then x\<lparr>sl_sender := s\<rparr> else x) post = post"
    by (auto simp: map_idI)
  then show ?thesis by (simp add: eng_update_sender_def assms(1))
qed

lemma remove_sender:
  assumes "en_senders e = pre @ sl # post" and "distinct (map sl_handle (en_senders e))"
  shows "en_senders (eng_removeStreamSender (sl_handle sl) e) = pre @ post"
proof -
  have "\<forall>x \<in> set pre \<union> set post. sl_handle x \<noteq> sl_handle sl" using assms(2) unfolding assms(1) by (auto simp: image_iff)
  then have "filter (\<lambda>x. sl_handle x \<noteq> sl_handle sl) pre = pre"
    "filter (\<lambda>x. sl_handle x \<noteq> sl_handle sl) post = post"
    by (auto simp: filter_id_conv)
  then show ?thesis by (simp add: eng_removeStreamSender_def assms(1))
qed

lemma callback_senders [simp]:
  "en_senders (eng_sender_callback ow s e) = en_senders e"
  "en_receivers (eng_sender_callback ow s e) = en_receivers e"
  by (auto simp: eng_sender_callback_def split: option.splits)

lemma update_remove_receivers [simp]:
  "en_receivers (eng_update_sender h s e) = en_receivers e"
  "en_receivers (eng_removeStreamSender h e) = en_receivers e"
  by (simp_all add: eng_update_sender_def eng_removeStreamSender_def)

text \<open>The engine's round refines the abstract one.\<close>

lemma round_refines:
  assumes "en_senders e = pre @ suf" and "distinct (map sl_handle (en_senders e))"
    and "list_all2 slot_at ss suf" and "round_spec ss = (ps, ss')"
  shows "\<exists>e' suf'. eng_sender_round cpy record_packet (map sl_handle suf) e w n =
      Some (n + int (length ps), e', w @ ps)
    \<and> en_senders e' = pre @ suf' \<and> distinct (map sl_handle (en_senders e'))
    \<and> list_all2 slot_at ss' suf' \<and> en_receivers e' = en_receivers e"
  using assms
proof (induction ss arbitrary: e pre suf w n ps ss')
  case Nil
  then show ?case by auto
next
  case (Cons s ss)
  obtain i v k where s: "s = (i, v, k)" by (cases s) auto
  obtain sl post where suf: "suf = sl # post" and sl: "slot_at s sl" and post: "list_all2 slot_at ss post"
    using Cons.prems(3) by (cases suf) auto
  let ?h = "sl_handle sl"
  from sl obtain b where wf: "stream_wf (i, v, k)" and b: "mb_inv b" "mb_bytes b = enc v"
      "bs_at i ST_Request b (length (mb_bytes b)) k (sl_sender sl)"
    by (auto simp: slot_at_def s)
  from wf have k: "k < n_chunks (length (mb_bytes b))" by (simp add: stream_wf_def b(2))
  from mb.bs_process_step [OF b(1,3) k] obtain s1 where
    step: "bs_process mb_read (sl_sender sl) = Some (True, Some (part_packet i v k), s1, k + 1 = parts_of v)"
    and at1: "bs_at i ST_Request b (length (enc v)) (k + 1) s1"
    by (auto simp: b(2))
  note sf = Cons.prems(1) [unfolded suf] Cons.prems(2)
  have find: "eng_find_sender ?h e = Some sl" by (rule find_sender [OF sf])
  let ?e1 = "eng_update_sender ?h s1 e"
  let ?e2 = "if k + 1 = parts_of v then eng_sender_callback (sl_owner sl) s1 ?e1 else ?e1"
  let ?sl1 = "sl\<lparr>sl_sender := s1\<rparr>"
  have snd2: "en_senders ?e2 = pre @ ?sl1 # post" by (simp add: update_sender [OF sf])
  have dist2: "distinct (map sl_handle (en_senders ?e2))"
    using Cons.prems(2) eng_update_sender_handles [of ?h s1 e] by simp
  have cp: "(if cpy then copy_packet_body (part_packet i v k) else Some (part_packet i v k))
      = Some (part_packet i v k)"
    using copy_stream_packet k b(2) by simp
  show ?case
  proof (cases "k + 1 = parts_of v")
    case True
    with at1 have done': "ss_status s1 = SS_Completed" by (simp add: bs_at_def)
    have res: "ps = [part_packet i v k]" "ss' = ss" using Cons.prems(4) True by (auto simp: s)
    let ?e3 = "eng_removeStreamSender ?h ?e2"
    have "en_senders ?e3 = pre @ post"
      using remove_sender [of ?e2 pre ?sl1 post] snd2 dist2 by simp
    moreover have "distinct (map sl_handle (pre @ post))"
      using Cons.prems(2) Cons.prems(1) suf by auto
    moreover have "eng_sender_round cpy record_packet (map sl_handle suf) e w n =
        Some (n + int (length ps), ?e3, w @ ps)"
      using True done' cp
      by (simp add: suf find step res record_packet_def)
    ultimately show ?thesis
      using post res by (intro exI [of _ ?e3] exI [of _ post]) simp
  next
    case False
    with at1 have st: "ss_status s1 = SS_Idle" by (simp add: bs_at_def)
    obtain ps1 ss1 where r: "round_spec ss = (ps1, ss1)" by (cases "round_spec ss")
    have res: "ps = part_packet i v k # ps1" "ss' = (i, v, k + 1) # ss1"
      using Cons.prems(4) False r by (auto simp: s)
    have "en_senders ?e2 = (pre @ [?sl1]) @ post" using snd2 by simp
    from Cons.IH [OF this dist2 post r, of "w @ [part_packet i v k]" "n + 1"] obtain e' post' where
      IH: "eng_sender_round cpy record_packet (map sl_handle post) ?e2 (w @ [part_packet i v k]) (n + 1) =
        Some (n + 1 + int (length ps1), e', (w @ [part_packet i v k]) @ ps1)"
      "en_senders e' = (pre @ [?sl1]) @ post'" "distinct (map sl_handle (en_senders e'))"
      "list_all2 slot_at ss1 post'" "en_receivers e' = en_receivers ?e2" by blast
    have "eng_sender_round cpy record_packet (map sl_handle suf) e w n =
        Some (n + int (length ps), e', w @ ps)"
      using False st cp IH(1)
      by (simp add: suf find step res record_packet_def add.commute add.left_commute)
    moreover have "slot_at (i, v, k + 1) ?sl1"
      using wf False at1 b(1,2) by (auto simp: slot_at_def stream_wf_def)
    ultimately show ?thesis
      using IH(2-5) res by (intro exI [of _ e'] exI [of _ "?sl1 # post'"]) simp
  qed
qed

section \<open>Draining\<close>

text \<open>What a list of streams still has to send for the identifier \<open>i\<close>.\<close>

definition remaining :: "u32 \<Rightarrow> stream list \<Rightarrow> packet list" where
  "remaining i ss =
     concat (map (\<lambda>(j, v, k). if j = i then map (part_packet j v) [k..<parts_of v] else []) ss)"

definition total :: "stream list \<Rightarrow> nat" where
  "total ss = sum_list (map (\<lambda>(i, v, k). parts_of v - k) ss)"

lemma remaining_Cons:
  "remaining i ((j, v, k) # ss) =
     (if j = i then map (part_packet j v) [k..<parts_of v] else []) @ remaining i ss"
  by (simp add: remaining_def)

lemma remaining_none: "i \<notin> fst ` set ss \<Longrightarrow> remaining i ss = []"
  by (induction ss) (auto simp: remaining_def)

lemma part_packet_id [simp]: "pkt_streamId (part_packet i v k) = i"
  by (simp add: pkt_getters stream_packet_def)

lemma round_spec_ids: "round_spec ss = (ps, ss') \<Longrightarrow> fst ` set ss' \<subseteq> fst ` set ss"
  by (induction ss arbitrary: ps ss') (auto split: if_splits prod.splits)

lemma round_spec_wf:
  "round_spec ss = (ps, ss') \<Longrightarrow> list_all stream_wf ss \<Longrightarrow> list_all stream_wf ss'"
proof (induction ss arbitrary: ps ss')
  case (Cons s ss)
  obtain i v k where s: "s = (i, v, k)" by (cases s) auto
  obtain ps1 ss1 where r: "round_spec ss = (ps1, ss1)" by (cases "round_spec ss")
  have "k + 1 \<noteq> parts_of v \<Longrightarrow> stream_wf (i, v, k + 1)"
    using Cons.prems(2) by (simp add: s stream_wf_def)
  with Cons r show ?case by (auto simp: s split: if_splits)
qed simp

lemma round_spec_distinct:
  "round_spec ss = (ps, ss') \<Longrightarrow> distinct (map fst ss) \<Longrightarrow> distinct (map fst ss')"
proof (induction ss arbitrary: ps ss')
  case (Cons s ss)
  obtain i v k where s: "s = (i, v, k)" by (cases s) auto
  obtain ps1 ss1 where r: "round_spec ss = (ps1, ss1)" by (cases "round_spec ss")
  from Cons r round_spec_ids [OF r] show ?case
    by (auto simp: s split: if_splits)
qed simp

text \<open>A round sends the next packet of a prefix of the streams and forgets nothing.\<close>

lemma round_spec_packets:
  "round_spec ss = (ps, ss') \<Longrightarrow> list_all stream_wf ss \<Longrightarrow> distinct (map fst ss) \<Longrightarrow>
    filter (\<lambda>p. pkt_streamId p = i) ps @ remaining i ss' = remaining i ss"
proof (induction ss arbitrary: ps ss')
  case Nil
  then show ?case by simp
next
  case (Cons s ss)
  obtain j v k where s: "s = (j, v, k)" by (cases s) auto
  obtain ps1 ss1 where r: "round_spec ss = (ps1, ss1)" by (cases "round_spec ss")
  have k: "k < parts_of v" using Cons.prems(2) by (simp add: s stream_wf_def)
  then have upt: "[k..<parts_of v] = k # [k + 1..<parts_of v]" by (simp add: upt_conv_Cons)
  show ?case
  proof (cases "k + 1 = parts_of v")
    case True
    with Cons.prems(1) have "ps = [part_packet j v k]" "ss' = ss" by (auto simp: s)
    with True upt show ?thesis by (simp add: s remaining_Cons)
  next
    case False
    with Cons.prems(1) r have res: "ps = part_packet j v k # ps1" "ss' = (j, v, k + 1) # ss1"
      by (auto simp: s)
    have IH: "filter (\<lambda>p. pkt_streamId p = i) ps1 @ remaining i ss1 = remaining i ss"
      using Cons.IH [OF r] Cons.prems by (simp add: s)
    show ?thesis
    proof (cases "j = i")
      case False
      with IH show ?thesis by (simp add: res s remaining_Cons)
    next
      case True
      with Cons.prems(3) have "i \<notin> fst ` set ss" by (simp add: s)
      then have "remaining i ss = []" by (rule remaining_none)
      with IH have "filter (\<lambda>p. pkt_streamId p = i) ps1 = []" "remaining i ss1 = []" by simp_all
      with True upt \<open>remaining i ss = []\<close> show ?thesis by (simp add: res s remaining_Cons)
    qed
  qed
qed

lemma round_spec_progress:
  "round_spec ss = (ps, ss') \<Longrightarrow> list_all stream_wf ss \<Longrightarrow>
    total ss' + length ps = total ss \<and> (ss \<noteq> [] \<longrightarrow> ps \<noteq> [])
    \<and> (\<forall>p \<in> set ps. pkt_streamId p \<in> fst ` set ss)"
proof (induction ss arbitrary: ps ss')
  case (Cons s ss)
  obtain i v k where s: "s = (i, v, k)" by (cases s) auto
  obtain ps1 ss1 where r: "round_spec ss = (ps1, ss1)" by (cases "round_spec ss")
  from Cons r show ?case
    by (fastforce simp: s total_def stream_wf_def split: if_splits)
qed (simp add: total_def)

lemma eng_drain_streams:
  assumes "list_all2 slot_at ss (en_senders e)" and "distinct (map sl_handle (en_senders e))"
    and "list_all stream_wf ss" and "distinct (map fst ss)" and "total ss \<le> f"
  shows "\<exists>e' ps. eng_drain cpy f e w = Some (e', w @ ps) \<and> en_senders e' = []
    \<and> en_receivers e' = en_receivers e
    \<and> (\<forall>i. filter (\<lambda>p. pkt_streamId p = i) ps = remaining i ss)
    \<and> (\<forall>p \<in> set ps. pkt_streamId p \<in> fst ` set ss)"
  using assms
proof (induction f arbitrary: ss e w)
  case 0
  then have "ss = []"
    by (cases ss) (auto simp: total_def stream_wf_def)
  with 0 show ?case by (auto simp: remaining_def)
next
  case (Suc f)
  show ?case
  proof (cases "ss = []")
    case True
    with Suc.prems show ?thesis by (auto simp: remaining_def)
  next
    case False
    then have ne: "en_senders e \<noteq> []" using Suc.prems(1) by auto
    obtain ps1 ss1 where r: "round_spec ss = (ps1, ss1)" by (cases "round_spec ss")
    from round_refines [of e "[]" "en_senders e" ss ps1 ss1 cpy w 0] Suc.prems(1,2) r
    obtain e1 where e1: "eng_processStreamSenders cpy record_packet e w =
        Some (int (length ps1), e1, w @ ps1)" "distinct (map sl_handle (en_senders e1))"
        "list_all2 slot_at ss1 (en_senders e1)" "en_receivers e1 = en_receivers e"
      by (auto simp: eng_processStreamSenders_def)
    note prog = round_spec_progress [OF r Suc.prems(3)]
    have "0 < length ps1" using prog False by simp
    with prog Suc.prems(5) have "total ss1 \<le> f" by linarith
    from Suc.IH [OF e1(3,2) round_spec_wf [OF r Suc.prems(3)] round_spec_distinct [OF r Suc.prems(4)]
        this, of "w @ ps1"] obtain e' ps where
      IH: "eng_drain cpy f e1 (w @ ps1) = Some (e', (w @ ps1) @ ps)" "en_senders e' = []"
        "en_receivers e' = en_receivers e1"
        "\<forall>i. filter (\<lambda>p. pkt_streamId p = i) ps = remaining i ss1"
        "\<forall>p \<in> set ps. pkt_streamId p \<in> fst ` set ss1" by blast
    have "filter (\<lambda>p. pkt_streamId p = i) (ps1 @ ps) = remaining i ss" for i
      using round_spec_packets [OF r Suc.prems(3,4), of i] IH(4) by simp
    moreover have "\<forall>p \<in> set (ps1 @ ps). pkt_streamId p \<in> fst ` set ss"
      using prog IH(5) round_spec_ids [OF r] by auto
    moreover have "eng_drain cpy (Suc f) e w = Some (e', w @ ps1 @ ps)"
      using ne e1(1) IH(1) by simp
    ultimately show ?thesis
      using IH(2,3) e1(4) by (intro exI [of _ e'] exI [of _ "ps1 @ ps"]) simp
  qed
qed

section \<open>Receiving an interleaving\<close>

primrec recv_all ::
    "bool \<Rightarrow> packet list \<Rightarrow> (u32, ubj_receiver) omap
     \<Rightarrow> ((u32, ubj_receiver) omap \<times> ubj_receiver list) option" where
  "recv_all ok [] tab = Some (tab, [])"
| "recv_all ok (p # ps) tab = do {
     (_, tab1, cb) \<leftarrow> recv_packet ok p tab;
     (tab2, rs) \<leftarrow> recv_all ok ps tab1;
     Some (tab2, (case cb of None \<Rightarrow> [] | Some r \<Rightarrow> [r]) @ rs) }"

primrec eng_receive_all :: "bool \<Rightarrow> packet list \<Rightarrow> engine \<Rightarrow> (engine \<times> eng_call list) option" where
  "eng_receive_all ok [] e = Some (e, [])"
| "eng_receive_all ok (p # ps) e = do {
     (_, e1, c1) \<leftarrow> eng_processIncomingPacket ok p e;
     (e2, c2) \<leftarrow> eng_receive_all ok ps e1;
     Some (e2, c1 @ c2) }"

primrec dispatch_all :: "ubj_receiver list \<Rightarrow> engine \<Rightarrow> (engine \<times> eng_call list) option" where
  "dispatch_all [] e = Some (e, [])"
| "dispatch_all (r # rs) e = do {
     (e1, c1) \<leftarrow> eng_receiver_callback r e;
     (e2, c2) \<leftarrow> dispatch_all rs e1;
     Some (e2, c1 @ c2) }"

text \<open>The state of the table: every stream as far as its packets have come.\<close>

definition tab_at :: "(u32 \<Rightarrow> val option) \<Rightarrow> (u32 \<Rightarrow> nat) \<Rightarrow> (u32, ubj_receiver) omap \<Rightarrow> bool" where
  "tab_at S K tab \<longleftrightarrow> keyed sr_id tab \<and>
     (\<forall>i v. S i = Some v \<longrightarrow>
        (if 0 < K i \<and> K i < parts_of v
         then \<exists>r. map_of tab i = Some r \<and> ur_at i ST_Request v (K i) r
         else map_of tab i = None))"

lemma recv_packet_step:
  assumes at: "tab_at S K tab" and S: "S i = Some v" and v: "sendable v" and k: "K i < parts_of v"
  shows "\<exists>tab' r'. recv_packet True (part_packet i v (K i)) tab =
      Some (True, tab', if K i + 1 = parts_of v then Some r' else None)
    \<and> ur_at i ST_Request v (K i + 1) r' \<and> tab_at S (K(i := K i + 1)) tab'
    \<and> (\<forall>j. j \<noteq> i \<longrightarrow> map_of tab' j = map_of tab j)"
proof -
  let ?p = "part_packet i v (K i)"
  have ky: "keyed sr_id tab" using at by (simp add: tab_at_def)
  then have inv: "omap_inv tab" by (simp add: keyed_def)
  obtain r tab1 where r: "ur_at i ST_Request v (K i) r" and tab1: "omap_inv tab1" "keyed sr_id tab1"
      "\<forall>j. j \<noteq> i \<longrightarrow> map_of tab1 j = map_of tab j"
    and fetch: "(case map_of tab (pkt_streamId ?p) of
          Some r \<Rightarrow> Some (Some r, tab)
        | None \<Rightarrow> do {
            c \<leftarrow> eng_createStreamReceiver True ?p;
            Some (c, case c of Some r \<Rightarrow> omap_insert (pkt_streamId ?p) r tab | None \<Rightarrow> tab) })
      = Some (Some r, tab1)"
  proof (cases "K i = 0")
    case True
    obtain r where r: "ur_create True ?p = Some (Some r)" "ur_at i ST_Request v 0 r"
      using ur_create_at [OF v, of i ST_Request] True by auto
    have "map_of tab i = None" using at S True by (auto simp: tab_at_def)
    moreover have "pkt_streamType ?p = ST_Request" by (simp add: pkt_getters stream_packet_def)
    moreover have "sr_id r = i" using ur_create_id [OF r(1)] by simp
    ultimately show thesis
      using that [of r "omap_insert i r tab"] r True inv ky
      by (simp add: eng_createStreamReceiver_def omap_insert_inv keyed_insert map_of_omap_insert)
  next
    case False
    have "if 0 < K i \<and> K i < parts_of v
        then \<exists>r. map_of tab i = Some r \<and> ur_at i ST_Request v (K i) r else map_of tab i = None"
      using at S unfolding tab_at_def by blast
    with False k obtain r where "map_of tab i = Some r" "ur_at i ST_Request v (K i) r"
      by auto
    then show thesis using that [of r tab] inv ky by simp
  qed
  from ur_process_step [OF v r k] obtain r' where
    step: "ur_process r ?p = Some (True, r', K i + 1 = parts_of v)"
    and at': "ur_at i ST_Request v (K i + 1) r'" by blast
  from at' have id': "sr_id r' = i" by (simp add: ur_at_def br_at_def)
  have st: "sr_status r' = (if K i + 1 = parts_of v then SR_Completed else SR_Idle)"
    using at' by (simp add: ur_at_def br_at_def)
  let ?tab' = "if K i + 1 = parts_of v then omap_erase i tab1 else omap_insert i r' tab1"
  have "recv_packet True ?p tab =
      Some (True, ?tab', if K i + 1 = parts_of v then Some r' else None)"
    unfolding recv_packet_def fetch using step st id' by simp
  moreover have mo: "map_of ?tab' = (map_of tab1)(i := if K i + 1 = parts_of v then None else Some r')"
    using tab1(1) by (simp add: map_of_omap_insert map_of_omap_erase)
  moreover have "keyed sr_id ?tab'"
    using tab1(2) id' by (simp add: keyed_insert keyed_erase)
  moreover have "tab_at S (K(i := K i + 1)) ?tab'"
    unfolding tab_at_def
  proof (intro conjI allI impI)
    show "keyed sr_id ?tab'" by fact
  next
    fix j u assume j: "S j = Some u"
    show "if 0 < (K(i := K i + 1)) j \<and> (K(i := K i + 1)) j < parts_of u
       then \<exists>r. map_of ?tab' j = Some r \<and> ur_at j ST_Request u ((K(i := K i + 1)) j) r
       else map_of ?tab' j = None"
    proof (cases "j = i")
      case True
      with j S have "u = v" by simp
      with True k at' show ?thesis unfolding mo by auto
    next
      case False
      with at j tab1(3) show ?thesis unfolding mo by (auto simp: tab_at_def)
    qed
  qed
  ultimately show ?thesis
    using at' tab1(3) by (intro exI [of _ ?tab'] exI [of _ r']) auto
qed

text \<open>
  Packets in any order that keeps the order within each stream: every stream is delivered
  exactly once, with its value, and leaves the table as it was.
\<close>

definition pending_values :: "(u32 \<Rightarrow> val option) \<Rightarrow> (u32 \<Rightarrow> nat) \<Rightarrow> (u32 \<times> val) set" where
  "pending_values S K = {(i, v). S i = Some v \<and> K i < parts_of v}"

lemma recv_all_interleaved:
  assumes "tab_at S K tab" and "\<And>i v. S i = Some v \<Longrightarrow> sendable v"
    and "\<forall>p \<in> set ps. S (pkt_streamId p) \<noteq> None"
    and "\<And>i v. S i = Some v \<Longrightarrow>
      filter (\<lambda>p. pkt_streamId p = i) ps = map (part_packet i v) [K i..<parts_of v]"
  shows "\<exists>tab' rs. recv_all True ps tab = Some (tab', rs)
    \<and> (\<forall>i. map_of tab' i = (if S i = None then map_of tab i else None)) \<and> keyed sr_id tab'
    \<and> distinct (map sr_id rs) \<and> (\<lambda>r. (sr_id r, ur_value r)) ` set rs = pending_values S K
    \<and> list_all (\<lambda>r. sr_status r = SR_Completed) rs"
  using assms(1,3,4)
proof (induction ps arbitrary: K tab)
  case Nil
  have "\<not> K i < parts_of v" if "S i = Some v" for i v
    using Nil.prems(3) [OF that] by auto
  then have "pending_values S K = {}" "map_of tab i = (if S i = None then map_of tab i else None)" for i
    using Nil.prems(1) by (auto simp: pending_values_def tab_at_def)
  with Nil.prems(1) show ?case by (auto simp: tab_at_def)
next
  case (Cons p ps)
  let ?i = "pkt_streamId p"
  from Cons.prems(2) obtain v where S: "S ?i = Some v" by auto
  have flt: "p # filter (\<lambda>q. pkt_streamId q = ?i) ps = map (part_packet ?i v) [K ?i..<parts_of v]"
    using Cons.prems(3) [OF S] by simp
  then have k: "K ?i < parts_of v" by (cases "K ?i < parts_of v") simp_all
  then have upt: "[K ?i..<parts_of v] = K ?i # [K ?i + 1..<parts_of v]" by (simp add: upt_conv_Cons)
  with flt have p: "p = part_packet ?i v (K ?i)"
    and rest: "filter (\<lambda>q. pkt_streamId q = ?i) ps = map (part_packet ?i v) [K ?i + 1..<parts_of v]"
    by simp_all
  let ?K = "K(?i := K ?i + 1)"
  from recv_packet_step [OF Cons.prems(1) S assms(2) [OF S] k] obtain tab1 r1 where
    step: "recv_packet True p tab = Some (True, tab1, if K ?i + 1 = parts_of v then Some r1 else None)"
    and r1: "ur_at ?i ST_Request v (K ?i + 1) r1" and at1: "tab_at S ?K tab1"
    and other: "\<forall>j. j \<noteq> ?i \<longrightarrow> map_of tab1 j = map_of tab j"
    by (metis p)
  have "filter (\<lambda>q. pkt_streamId q = j) ps = map (part_packet j u) [?K j..<parts_of u]"
    if "S j = Some u" for j u
    using Cons.prems(3) [OF that] rest S that by (cases "j = ?i") auto
  moreover have "\<forall>p \<in> set ps. S (pkt_streamId p) \<noteq> None" using Cons.prems(2) by simp
  ultimately obtain tab' rs where
    IH: "recv_all True ps tab1 = Some (tab', rs)"
      "\<forall>i. map_of tab' i = (if S i = None then map_of tab1 i else None)" "keyed sr_id tab'"
      "distinct (map sr_id rs)" "(\<lambda>r. (sr_id r, ur_value r)) ` set rs = pending_values S ?K"
      "list_all (\<lambda>r. sr_status r = SR_Completed) rs"
    using Cons.IH [OF at1] by blast
  have tab': "\<forall>j. map_of tab' j = (if S j = None then map_of tab j else None)"
  proof
    fix j
    show "map_of tab' j = (if S j = None then map_of tab j else None)"
      using IH(2) other S by (cases "j = ?i") auto
  qed
  show ?case
  proof (cases "K ?i + 1 = parts_of v")
    case False
    with k have "pending_values S ?K = pending_values S K"
      using S by (auto simp: pending_values_def split: if_splits)
    with IH step tab' False show ?thesis by auto
  next
    case True
    with r1 have id1: "sr_id r1 = ?i" and val1: "ur_value r1 = v" and st1: "sr_status r1 = SR_Completed"
      by (simp_all add: ur_at_def br_at_def)
    have pend: "pending_values S K = insert (?i, v) (pending_values S ?K)"
      and fresh: "\<forall>u. (?i, u) \<notin> pending_values S ?K"
      using S k True by (auto simp: pending_values_def split: if_splits)
    have "?i \<notin> sr_id ` set rs"
    proof
      assume "?i \<in> sr_id ` set rs"
      then obtain r where "r \<in> set rs" "sr_id r = ?i" by auto
      then have "(?i, ur_value r) \<in> pending_values S ?K" unfolding IH(5) [symmetric] by force
      with fresh show False by blast
    qed
    with IH step tab' True id1 val1 st1 pend show ?thesis by auto
  qed
qed

text \<open>The engine is the table and the dispatch of the completed receivers, in that order.\<close>

lemma eng_receiver_callback_receivers:
  "eng_receiver_callback r (e\<lparr>en_receivers := t\<rparr>) =
    map_option (\<lambda>(e', cs). (e'\<lparr>en_receivers := t\<rparr>, cs)) (eng_receiver_callback r e)"
  by (auto simp: eng_receiver_callback_def Let_def option.map_comp comp_def split: bind_splits option.splits)

lemma dispatch_all_receivers:
  "dispatch_all rs (e\<lparr>en_receivers := t\<rparr>) =
    map_option (\<lambda>(e', cs). (e'\<lparr>en_receivers := t\<rparr>, cs)) (dispatch_all rs e)"
proof (induction rs arbitrary: e)
  case (Cons r rs)
  show ?case
  proof (cases "eng_receiver_callback r e")
    case (Some q)
    obtain e1 c1 where q: "q = (e1, c1)" by (cases q)
    from Some q have "eng_receiver_callback r (e\<lparr>en_receivers := t\<rparr>) = Some (e1\<lparr>en_receivers := t\<rparr>, c1)"
      by (simp add: eng_receiver_callback_receivers)
    with Some q Cons.IH [of e1] show ?thesis
      by (cases "dispatch_all rs e1") auto
  qed (simp add: eng_receiver_callback_receivers)
qed simp

lemma eng_receive_all_split:
  assumes "recv_all ok ps (en_receivers e) = Some (tab, rs)"
  shows "eng_receive_all ok ps e =
    map_option (\<lambda>(e', cs). (e'\<lparr>en_receivers := tab\<rparr>, cs)) (dispatch_all rs e)"
  using assms
proof (induction ps arbitrary: e rs)
  case Nil
  then show ?case by auto
next
  case (Cons p ps)
  from Cons.prems obtain res t1 cb rs1 where
    p: "recv_packet ok p (en_receivers e) = Some (res, t1, cb)"
    and ps: "recv_all ok ps t1 = Some (tab, rs1)" and rs: "rs = (case cb of None \<Rightarrow> [] | Some r \<Rightarrow> [r]) @ rs1"
    by (auto split: bind_splits)
  have IH: "eng_receive_all ok ps (e1\<lparr>en_receivers := t1\<rparr>) =
      map_option (\<lambda>(e', cs). (e'\<lparr>en_receivers := tab\<rparr>, cs)) (dispatch_all rs1 e1)" for e1
  proof -
    have "eng_receive_all ok ps (e1\<lparr>en_receivers := t1\<rparr>) =
      map_option (\<lambda>(e', cs). (e'\<lparr>en_receivers := tab\<rparr>, cs)) (dispatch_all rs1 (e1\<lparr>en_receivers := t1\<rparr>))"
      using ps by (intro Cons.IH) simp
    then show ?thesis
      by (simp add: dispatch_all_receivers option.map_comp comp_def case_prod_beta')
  qed
  show ?case
  proof (cases cb)
    case None
    with p IH [of e] rs show ?thesis
      by (cases "dispatch_all rs1 e") (simp_all add: eng_processIncomingPacket_def)
  next
    case (Some r)
    show ?thesis
    proof (cases "eng_receiver_callback r e")
      case None
      with Some p rs show ?thesis by (simp add: eng_processIncomingPacket_def)
    next
      case c: (Some q)
      obtain e1 c1 where q: "q = (e1, c1)" by (cases q)
      with c Some p rs IH [of e1] show ?thesis
        by (cases "dispatch_all rs1 e1") (auto simp: eng_processIncomingPacket_def)
    qed
  qed
qed

section \<open>End to end\<close>

text \<open>Handing a list of messages to the engine.\<close>

primrec eng_add_all :: "(u32 \<times> val) list \<Rightarrow> engine \<Rightarrow> engine option" where
  "eng_add_all [] e = Some e"
| "eng_add_all (m # ms) e = do {
     (added, e1) \<leftarrow> eng_addUbjSender True (fst m) ST_Request (snd m) e;
     if added then eng_add_all ms e1 else None }"

definition fresh_streams :: "(u32 \<times> val) list \<Rightarrow> stream list" where
  "fresh_streams ms = map (\<lambda>(i, v). (i, v, 0)) ms"

lemma eng_addUbjSender_slot:
  assumes "i \<noteq> 0" and "sendable v"
  shows "\<exists>sl. eng_addUbjSender True i ST_Request v e =
      Some (True, e\<lparr>en_senders := en_senders e @ [sl], en_next := en_next e + 1\<rparr>)
    \<and> slot_at (i, v, 0) sl \<and> sl_handle sl = en_next e"
proof -
  have v: "ser v" "v_type v = UBJ_OBJECT \<or> v_type v = UBJ_ARRAY" "v_depth v < CONTAINER_STACK_MAX"
      "n_chunks (length (enc v)) < BODY" and len: "length (enc v) < 2 ^ 32"
    using assms(2) n_chunks_bound by (auto simp: sendable_def)
  from value_roundtrip [OF v(1-3) len] obtain b where
    b: "writer_write v = Some (Some b)" "mb_inv b" "mb_bytes b = enc v" by blast
  have ne: "enc v \<noteq> []" by (rule enc_nonempty [OF v(1)])
  from mb.bs_create_at [OF b(2), of i ST_Request] b(3) ne obtain s where
    s: "bs_create mb_size True i ST_Request (Some b) = Some (Some s)"
      "bs_at i ST_Request b (length (enc v)) 0 s" by auto
  have "0 < parts_of v" using ne by simp
  then have wf: "stream_wf (i, v, 0)" using assms by (simp add: stream_wf_def)
  have "ss_id s = i" using s(2) by (simp add: bs_at_def)
  with s(1) b(1) assms(1) have "eng_addUbjSender True i ST_Request v e = Some (True,
      e\<lparr>en_senders := en_senders e @ [\<lparr>sl_handle = en_next e, sl_owner = None, sl_sender = s\<rparr>],
        en_next := en_next e + 1\<rparr>)"
    by (simp add: eng_addUbjSender_def us_create_buffer eng_addStreamSender_def)
  then show ?thesis
    using wf s(2) b(2,3) by (intro exI [of _ "\<lparr>sl_handle = en_next e, sl_owner = None, sl_sender = s\<rparr>"])
      (auto simp: slot_at_def)
qed

lemma eng_add_all_slots:
  assumes "\<forall>(i, v) \<in> set ms. i \<noteq> 0 \<and> sendable v"
    and "list_all2 slot_at ss (en_senders e)" and "distinct (map sl_handle (en_senders e))"
    and "list_all (\<lambda>sl. sl_handle sl < en_next e) (en_senders e)"
  shows "\<exists>e'. eng_add_all ms e = Some e' \<and> list_all2 slot_at (ss @ fresh_streams ms) (en_senders e')
    \<and> distinct (map sl_handle (en_senders e')) \<and> en_receivers e' = en_receivers e"
  using assms
proof (induction ms arbitrary: ss e)
  case Nil
  then show ?case by (auto simp: fresh_streams_def)
next
  case (Cons m ms)
  obtain i v where m: "m = (i, v)" by (cases m)
  from eng_addUbjSender_slot [of i v e] Cons.prems(1) obtain sl where
    sl: "eng_addUbjSender True i ST_Request v e =
        Some (True, e\<lparr>en_senders := en_senders e @ [sl], en_next := en_next e + 1\<rparr>)"
      "slot_at (i, v, 0) sl" "sl_handle sl = en_next e" by (auto simp: m)
  let ?e = "e\<lparr>en_senders := en_senders e @ [sl], en_next := en_next e + 1\<rparr>"
  have "list_all2 slot_at (ss @ [(i, v, 0)]) (en_senders ?e)"
    using Cons.prems(2) sl(2) by (simp add: list_all2_appendI)
  moreover have "distinct (map sl_handle (en_senders ?e))"
    using Cons.prems(3,4) sl(3) by (auto simp: list_all_iff)
  moreover have "list_all (\<lambda>x. sl_handle x < en_next ?e) (en_senders ?e)"
    using Cons.prems(4) sl(3) by (auto simp: list_all_iff)
  ultimately obtain e' where "eng_add_all ms ?e = Some e'"
      "list_all2 slot_at ((ss @ [(i, v, 0)]) @ fresh_streams ms) (en_senders e')"
      "distinct (map sl_handle (en_senders e'))" "en_receivers e' = en_receivers ?e"
    using Cons.IH [of "ss @ [(i, v, 0)]" ?e] Cons.prems(1) by auto
  then show ?case by (auto simp: m sl(1) fresh_streams_def)
qed

lemma transport:
  assumes "\<forall>(i, v) \<in> set ms. i \<noteq> 0 \<and> sendable v" and "distinct (map fst ms)"
  shows "\<exists>e n e' ps. eng_add_all ms eng_new = Some e \<and> eng_drain cpy n e [] = Some (e', ps)
    \<and> en_senders e' = []
    \<and> (\<forall>p \<in> set ps. \<exists>(i, v) \<in> set ms. \<exists>k < parts_of v. p = part_packet i v k)
    \<and> (\<forall>qs. (\<forall>i. filter (\<lambda>p. pkt_streamId p = i) qs = filter (\<lambda>p. pkt_streamId p = i) ps) \<longrightarrow>
         (\<exists>rs. recv_all True qs [] = Some ([], rs) \<and> list_all (\<lambda>r. sr_status r = SR_Completed) rs
            \<and> mset (map (\<lambda>r. (sr_id r, ur_value r)) rs) = mset ms))"
proof -
  let ?ss = "fresh_streams ms"
  from eng_add_all_slots [OF assms(1), of "[]" eng_new] obtain e where
    e: "eng_add_all ms eng_new = Some e" "list_all2 slot_at ?ss (en_senders e)"
      "distinct (map sl_handle (en_senders e))"
    by (auto simp: eng_new_def)
  have "stream_wf (i, v, 0)" if "(i, v) \<in> set ms" for i v
    using assms(1) that enc_nonempty [of v] by (auto simp: stream_wf_def sendable_def)
  then have wf: "list_all stream_wf ?ss"
    by (auto simp: fresh_streams_def list_all_iff)
  have dist: "distinct (map fst ?ss)"
    using assms(2) by (simp add: fresh_streams_def comp_def case_prod_beta')
  from eng_drain_streams [OF e(2,3) wf dist order_refl, of cpy "[]"] obtain e' ps where
    d: "eng_drain cpy (total ?ss) e [] = Some (e', ps)" "en_senders e' = []"
      "\<forall>i. filter (\<lambda>p. pkt_streamId p = i) ps = remaining i ?ss"
      "\<forall>p \<in> set ps. pkt_streamId p \<in> fst ` set ?ss" by auto
  let ?S = "map_of ms" let ?K = "\<lambda>_. 0 :: nat"
  have rem: "remaining i ?ss = map (part_packet i v) [0..<parts_of v]" if "?S i = Some v" for i v
    using that assms(2)
  proof (induction ms)
    case (Cons m ms)
    obtain j u where m: "m = (j, u)" by (cases m)
    show ?case
    proof (cases "j = i")
      case True
      with Cons.prems m have "i \<notin> fst ` set (fresh_streams ms)"
        by (force simp: fresh_streams_def)
      then have "remaining i (fresh_streams ms) = []" by (rule remaining_none)
      with True Cons.prems(1) m show ?thesis by (simp add: fresh_streams_def remaining_Cons)
    next
      case False
      with Cons m show ?thesis by (simp add: fresh_streams_def remaining_Cons)
    qed
  qed simp
  have "\<exists>rs. recv_all True qs [] = Some ([], rs) \<and> list_all (\<lambda>r. sr_status r = SR_Completed) rs
      \<and> mset (map (\<lambda>r. (sr_id r, ur_value r)) rs) = mset ms"
    if qs: "\<forall>i. filter (\<lambda>p. pkt_streamId p = i) qs = filter (\<lambda>p. pkt_streamId p = i) ps" for qs
  proof -
    have mem: "p \<in> set ps" if "p \<in> set qs" for p
    proof -
      have "p \<in> set (filter (\<lambda>q. pkt_streamId q = pkt_streamId p) qs)" using that by simp
      then show ?thesis using qs by simp
    qed
    have tab0: "tab_at ?S ?K []" by (simp add: tab_at_def)
    have snd: "sendable v" if "?S i = Some v" for i v
      using assms(1) map_of_SomeD [OF that] by auto
    have dom: "\<forall>p \<in> set qs. ?S (pkt_streamId p) \<noteq> None"
    proof
      fix p assume "p \<in> set qs"
      with mem d(4) have "pkt_streamId p \<in> fst ` set (fresh_streams ms)" by blast
      then have "pkt_streamId p \<in> fst ` set ms" by (force simp: fresh_streams_def)
      then show "?S (pkt_streamId p) \<noteq> None" by (simp add: map_of_eq_None_iff)
    qed
    have flt: "filter (\<lambda>p. pkt_streamId p = i) qs = map (part_packet i v) [?K i..<parts_of v]"
      if "?S i = Some v" for i v
      using qs d(3) rem [OF that] by simp
    have "\<exists>tab' rs. recv_all True qs [] = Some (tab', rs)
      \<and> (\<forall>i. map_of tab' i = (if ?S i = None then map_of ([] :: (u32, ubj_receiver) omap) i else None))
      \<and> keyed sr_id tab' \<and> distinct (map sr_id rs)
      \<and> (\<lambda>r. (sr_id r, ur_value r)) ` set rs = pending_values ?S ?K
      \<and> list_all (\<lambda>r. sr_status r = SR_Completed) rs"
    proof (rule recv_all_interleaved [OF tab0 _ dom])
      show "sendable v" if "?S i = Some v" for i v by (rule snd [OF that])
      show "filter (\<lambda>p. pkt_streamId p = i) qs = map (part_packet i v) [?K i..<parts_of v]"
        if "?S i = Some v" for i v by (rule flt [OF that])
    qed
    then obtain tab' rs where
      r: "recv_all True qs [] = Some (tab', rs)" "\<forall>i. map_of tab' i = None"
        "distinct (map sr_id rs)" "(\<lambda>r. (sr_id r, ur_value r)) ` set rs = pending_values ?S ?K"
      and completed: "list_all (\<lambda>r. sr_status r = SR_Completed) rs"
      by auto
    from r(2) have "tab' = []" by (cases tab') (auto split: if_splits dest: spec [of _ "fst (hd tab')"])
    moreover have "pending_values ?S ?K = set ms"
    proof -
      have "0 < parts_of v" if "?S i = Some v" for i v
        using snd [OF that] enc_nonempty by (simp add: sendable_def)
      then have "pending_values ?S ?K = {(i, v). ?S i = Some v}" by (auto simp: pending_values_def)
      also have "\<dots> = set ms" using assms(2) by (auto simp: map_of_eq_Some_iff)
      finally show ?thesis .
    qed
    moreover have "distinct (map (\<lambda>r. (sr_id r, ur_value r)) rs)"
      using r(3) by (auto simp: distinct_map inj_on_def)
    moreover have "distinct ms" using assms(2) by (auto simp: distinct_map)
    ultimately have "mset (map (\<lambda>r. (sr_id r, ur_value r)) rs) = mset ms"
      using r(4) by (intro iffD1 [OF set_eq_iff_mset_eq_distinct]) auto
    with r(1) completed \<open>tab' = []\<close> show ?thesis by auto
  qed
  moreover have "\<exists>(i, v) \<in> set ms. \<exists>k < parts_of v. p = part_packet i v k" if p: "p \<in> set ps" for p
  proof -
    from d(4) p have "pkt_streamId p \<in> fst ` set ms" by (force simp: fresh_streams_def)
    then obtain v where v: "?S (pkt_streamId p) = Some v" by (cases "?S (pkt_streamId p)") (auto simp: map_of_eq_None_iff)
    have "p \<in> set (filter (\<lambda>q. pkt_streamId q = pkt_streamId p) ps)" using p by simp
    then have "p \<in> set (map (part_packet (pkt_streamId p) v) [0..<parts_of v])"
      using d(3) rem [OF v] by simp
    then show ?thesis using map_of_SomeD [OF v] by (intro bexI [of _ "(pkt_streamId p, v)"]) auto
  qed
  ultimately show ?thesis using e(1) d(1,2) by blast
qed

text \<open>
  What an engine without pending requests does with completed streams: one call of
  \<^verbatim>\<open>processIncomingRequest\<close> each, for the objects that name a request type.
\<close>

definition request_head :: "val \<Rightarrow> bool" where
  "request_head v \<longleftrightarrow>
     obj_hasField (val_toObject v) ''requestType''
     \<and> (obj_hasField (val_toObject v) ''requestId'' \<longrightarrow>
          val_toInt (obj_get (val_toObject v) ''requestId'') \<noteq> None)"

lemma dispatch_requests:
  assumes "en_requests e = []"
    and "list_all (\<lambda>r. sr_status r = SR_Completed \<and> request_head (ur_value r)) rs"
  shows "dispatch_all rs e =
    Some (e, map (\<lambda>r. ProcessIncomingRequest (val_toObject (ur_value r))) rs)"
  using assms(2)
proof (induction rs)
  case (Cons r rs)
  then have "eng_receiver_callback r e = Some (e, [ProcessIncomingRequest (val_toObject (ur_value r))])"
    using assms(1) by (auto simp: eng_receiver_callback_def request_head_def Let_def)
  with Cons show ?case by simp
qed simp

lemma request_transport:
  assumes "\<forall>(i, v) \<in> set ms. i \<noteq> 0 \<and> sendable v \<and> request_head v" and "distinct (map fst ms)"
  shows "\<exists>e n e' ps. eng_add_all ms eng_new = Some e \<and> eng_drain cpy n e [] = Some (e', ps)
    \<and> en_senders e' = []
    \<and> (\<forall>p \<in> set ps. \<exists>(i, v) \<in> set ms. \<exists>k < parts_of v. p = part_packet i v k)
    \<and> (\<forall>qs. (\<forall>i. filter (\<lambda>p. pkt_streamId p = i) qs = filter (\<lambda>p. pkt_streamId p = i) ps) \<longrightarrow>
         (\<exists>calls. eng_receive_all True qs eng_new = Some (eng_new, calls)
            \<and> mset calls = mset (map (\<lambda>(i, v). ProcessIncomingRequest (val_toObject v)) ms)))"
proof -
  have "\<forall>(i, v) \<in> set ms. i \<noteq> 0 \<and> sendable v" using assms(1) by auto
  from transport [OF this assms(2), of cpy] obtain e n e' ps where
    e: "eng_add_all ms eng_new = Some e" "eng_drain cpy n e [] = Some (e', ps)" "en_senders e' = []"
      "\<forall>p \<in> set ps. \<exists>(i, v) \<in> set ms. \<exists>k < parts_of v. p = part_packet i v k"
    and deliver: "\<And>qs. \<forall>i. filter (\<lambda>p. pkt_streamId p = i) qs = filter (\<lambda>p. pkt_streamId p = i) ps \<Longrightarrow>
      \<exists>rs. recv_all True qs [] = Some ([], rs) \<and> list_all (\<lambda>r. sr_status r = SR_Completed) rs
        \<and> mset (map (\<lambda>r. (sr_id r, ur_value r)) rs) = mset ms" by blast
  have "\<exists>calls. eng_receive_all True qs eng_new = Some (eng_new, calls)
      \<and> mset calls = mset (map (\<lambda>(i, v). ProcessIncomingRequest (val_toObject v)) ms)"
    if "\<forall>i. filter (\<lambda>p. pkt_streamId p = i) qs = filter (\<lambda>p. pkt_streamId p = i) ps" for qs
  proof -
    from deliver [OF that] obtain rs where
      rs: "recv_all True qs [] = Some ([], rs)" "list_all (\<lambda>r. sr_status r = SR_Completed) rs"
        "mset (map (\<lambda>r. (sr_id r, ur_value r)) rs) = mset ms" by blast
    have "request_head (ur_value r)" if "r \<in> set rs" for r
    proof -
      from that have "(sr_id r, ur_value r) \<in> set (map (\<lambda>r. (sr_id r, ur_value r)) rs)" by force
      then have "(sr_id r, ur_value r) \<in> set ms" using rs(3) by (metis mset_eq_setD)
      with assms(1) show ?thesis by auto
    qed
    with rs(2) have "list_all (\<lambda>r. sr_status r = SR_Completed \<and> request_head (ur_value r)) rs"
      by (simp add: list_all_iff)
    from dispatch_requests [OF _ this, of eng_new]
    have "dispatch_all rs eng_new =
        Some (eng_new, map (\<lambda>r. ProcessIncomingRequest (val_toObject (ur_value r))) rs)"
      by (simp add: eng_new_def)
    moreover have "eng_receive_all True qs eng_new =
        map_option (\<lambda>(e', cs). (e'\<lparr>en_receivers := []\<rparr>, cs)) (dispatch_all rs eng_new)"
      by (rule eng_receive_all_split) (simp add: rs(1) eng_new_def)
    ultimately have "eng_receive_all True qs eng_new =
        Some (eng_new, map (\<lambda>r. ProcessIncomingRequest (val_toObject (ur_value r))) rs)"
      by (simp add: eng_new_def)
    moreover have "mset (map (\<lambda>r. ProcessIncomingRequest (val_toObject (ur_value r))) rs)
        = mset (map (\<lambda>(i, v). ProcessIncomingRequest (val_toObject v)) ms)"
      using arg_cong [OF rs(3), of "image_mset (\<lambda>(i, v). ProcessIncomingRequest (val_toObject v))"]
      by (simp flip: mset_map add: comp_def)
    ultimately show ?thesis by blast
  qed
  with e show ?thesis by blast
qed

end
