(* ===== verification/Wire.thy ===== *)
theory Wire
  imports Packet
begin

text \<open>
  The transport of \<^verbatim>\<open>src/client.cpp\<close>: \<^verbatim>\<open>Client::send\<close> and \<^verbatim>\<open>Client::recv\<close> over the TLS
  session, and the framing of packets in \<^verbatim>\<open>Sender::sendPacket\<close> and \<^verbatim>\<open>Receiver::recvPacket\<close>.
  What select and gnutls do is a script, one entry for each turn of the loop; a script that ends
  while the loop still runs is \<^const>\<open>None\<close>: the call has not returned.
\<close>

section \<open>Sending and receiving bytes\<close>

text \<open>
  One turn of \<^verbatim>\<open>send\<close>: the thread was canceled, the socket was not writable within 200 ms, or
  \<^verbatim>\<open>gnutls_record_send\<close> failed for good or took up to \<open>n\<close> bytes (0 for a failure that may be
  repeated).  \<open>s\<close> never exceeds the size, so it needs no width.
\<close>

datatype send_step = Send_Canceled | Send_Wait | Send_Fatal | Send_Takes nat

fun send_loop :: "send_step list \<Rightarrow> bytes \<Rightarrow> nat \<Rightarrow> bytes \<Rightarrow> (u32 \<times> bytes \<times> send_step list) option" where
  "send_loop steps data s wire =
     (if s < length data then
        (case steps of
           [] \<Rightarrow> None
         | Send_Canceled # rest \<Rightarrow> Some (of_nat s, wire, rest)
         | Send_Wait # rest \<Rightarrow> send_loop rest data s wire
         | Send_Fatal # rest \<Rightarrow> Some (- 1, wire, rest)
         | Send_Takes n # rest \<Rightarrow>
             let k = min n (length data - s)
             in send_loop rest data (s + k) (wire @ take k (drop s data)))
      else Some (of_nat s, wire, steps))"

declare send_loop.simps [simp del]

text \<open>The result, the bytes that went out and the rest of the script.\<close>

definition cl_send :: "send_step list \<Rightarrow> bytes \<Rightarrow> (u32 \<times> bytes \<times> send_step list) option" where
  "cl_send steps data = send_loop steps data 0 []"

text \<open>
  One turn of \<^verbatim>\<open>recv\<close>: select may also fail; \<^verbatim>\<open>gnutls_record_recv\<close> gives up to \<open>n\<close> of the bytes
  on the line, none at the end of the connection.
\<close>

datatype recv_step = Recv_Canceled | Recv_Wait | Recv_Failed | Recv_Fatal | Recv_Gives nat

fun recv_loop ::
    "recv_step list \<Rightarrow> nat \<Rightarrow> bytes \<Rightarrow> bytes \<Rightarrow> (u32 \<times> bytes \<times> bytes \<times> recv_step list) option" where
  "recv_loop steps size' got line =
     (if length got < size' then
        (case steps of
           [] \<Rightarrow> None
         | Recv_Canceled # rest \<Rightarrow> Some (of_nat (length got), got, line, rest)
         | Recv_Wait # rest \<Rightarrow> recv_loop rest size' got line
         | Recv_Failed # rest \<Rightarrow> Some (- 1, got, line, rest)
         | Recv_Fatal # rest \<Rightarrow> Some (- 1, got, line, rest)
         | Recv_Gives n # rest \<Rightarrow>
             let k = min n (size' - length got)
             in recv_loop rest size' (got @ take k line) (drop k line))
      else Some (of_nat (length got), got, line, steps))"

declare recv_loop.simps [simp del]

definition cl_recv :: "recv_step list \<Rightarrow> nat \<Rightarrow> bytes \<Rightarrow> (u32 \<times> bytes \<times> bytes \<times> recv_step list) option" where
  "cl_recv steps size' line = recv_loop steps size' [] line"

section \<open>Packets\<close>

text \<open>
  \<^verbatim>\<open>Sender::sendPacket\<close>.  The results are unsigned: -1 is the largest of them, so a failed
  \<^verbatim>\<open>send\<close> passes the checks against the sizes.
\<close>

definition send_packet :: "send_step list \<Rightarrow> packet \<Rightarrow> (u32 \<times> bytes \<times> send_step list) option" where
  "send_packet steps p = do {
     (r, w, st) \<leftarrow> cl_send steps (head_bytes (p_head p));
     if r < of_nat HEAD_SIZE then Some (- 1, w, st)
     else if pkt_bodySize p > 0 then do {
       d \<leftarrow> Option.bind (pkt_bodyData p) id;
       if length d < unat (pkt_bodySize p) then None
       else do {
         (r1, w1, st1) \<leftarrow> cl_send st (take (unat (pkt_bodySize p)) d);
         Some (if r1 < pkt_bodySize p then (- 1, w @ w1, st1) else (r + r1, w @ w1, st1)) } }
     else Some (r, w, st) }"

text \<open>
  \<^verbatim>\<open>Receiver::recvPacket\<close> into a packet whose head is zero: bytes that did not arrive leave the
  zeros of the head or of the body's buffer.
\<close>

definition filled :: "nat \<Rightarrow> bytes \<Rightarrow> bytes" where
  "filled n got = got @ replicate (n - length got) 0"

definition recv_packet_wire ::
    "bool \<Rightarrow> recv_step list \<Rightarrow> bytes \<Rightarrow> (u32 \<times> packet \<times> bytes \<times> recv_step list) option" where
  "recv_packet_wire ok steps line = do {
     (r, got, line1, st) \<leftarrow> cl_recv steps HEAD_SIZE line;
     h \<leftarrow> head_of_bytes (filled HEAD_SIZE got);
     let p = (pkt_create 0)\<lparr>p_head := h\<rparr>;
     if r = 0 then Some (0, p, line1, st)
     else if r < of_nat HEAD_SIZE then Some (- 1, p, line1, st)
     else if pkt_bodySize p > 0 then
       (if pkt_bodySize p > MAX_PACKET_BODY then Some (- 1, p, line1, st)
        else do {
          body \<leftarrow> mb_create ok None (pkt_bodySize p);
          case body of
            None \<Rightarrow> Some (- 1, p, line1, st)
          | Some b \<Rightarrow> do {
              (r1, got1, line2, st1) \<leftarrow> cl_recv st (unat (pkt_bodySize p)) line1;
              Some (if r1 < pkt_bodySize p then (- 1, p, line2, st1)
                    else (r + r1,
                          pkt_setBody (Some (b\<lparr>mb_data := Some (filled (unat (pkt_bodySize p)) got1)\<rparr>)) 0 p,
                          line2, st1)) } })
     else Some (r, p, line1, st) }"

text \<open>
  \<^verbatim>\<open>Receiver::run\<close> while it is neither canceled nor suspended: packets are queued until a result is
  not positive (as a signed number); then the client disconnects.
\<close>

fun recv_run :: "bool \<Rightarrow> nat \<Rightarrow> recv_step list \<Rightarrow> bytes \<Rightarrow> (packet list \<times> bool \<times> bytes) option" where
  "recv_run ok 0 steps line = Some ([], True, line)"
| "recv_run ok (Suc n) steps line =
     (case recv_packet_wire ok steps line of
        None \<Rightarrow> None
      | Some (r, p, line1, st) \<Rightarrow>
          if r \<le>s 0 then Some ([], False, line1)
          else map_option (\<lambda>(ps, up, l). (p # ps, up, l)) (recv_run ok n st line1))"

fun send_run :: "send_step list \<Rightarrow> packet list \<Rightarrow> (bytes \<times> send_step list) option" where
  "send_run steps [] = Some ([], steps)"
| "send_run steps (p # ps) =
     (case send_packet steps p of
        None \<Rightarrow> None
      | Some (_, w, st) \<Rightarrow> map_option (\<lambda>(w', st'). (w @ w', st')) (send_run st ps))"

section \<open>Turns that do not fail\<close>

fun send_ok :: "send_step \<Rightarrow> bool" where
  "send_ok Send_Wait = True"
| "send_ok (Send_Takes _) = True"
| "send_ok _ = False"

fun recv_ok :: "recv_step \<Rightarrow> bool" where
  "recv_ok Recv_Wait = True"
| "recv_ok (Recv_Gives _) = True"
| "recv_ok _ = False"

text \<open>The turns that move at least one byte.\<close>

fun send_moves :: "send_step list \<Rightarrow> nat" where
  "send_moves [] = 0"
| "send_moves (Send_Takes (Suc _) # rest) = Suc (send_moves rest)"
| "send_moves (_ # rest) = send_moves rest"

fun recv_moves :: "recv_step list \<Rightarrow> nat" where
  "recv_moves [] = 0"
| "recv_moves (Recv_Gives (Suc _) # rest) = Suc (recv_moves rest)"
| "recv_moves (_ # rest) = recv_moves rest"

lemma send_loop_clean:
  "list_all send_ok steps \<Longrightarrow> s \<le> length data \<Longrightarrow> length data - s \<le> send_moves steps \<Longrightarrow>
    \<exists>st. send_loop steps data s wire = Some (of_nat (length data), wire @ drop s data, st)
      \<and> list_all send_ok st \<and> send_moves steps \<le> send_moves st + (length data - s)"
proof (induction steps data s wire rule: send_loop.induct)
  case (1 steps data s wire)
  show ?case
  proof (cases "s < length data")
    case False
    with "1.prems" show ?thesis by (simp add: send_loop.simps)
  next
    case True
    with "1.prems"(3) obtain st rest where steps: "steps = st # rest" by (cases steps) auto
    show ?thesis
    proof (cases st)
      case Send_Wait
      with "1.IH"(1) [OF True steps] "1.prems" True show ?thesis
        by (simp add: steps send_loop.simps [of "_ # _"])
    next
      case (Send_Takes n)
      let ?k = "min n (length data - s)"
      have k: "?k + (length data - (s + ?k)) = length data - s" by simp
      have moves: "send_moves steps \<le> send_moves rest + ?k"
        using True by (cases n) (auto simp: steps Send_Takes)
      have "length data - (s + ?k) \<le> send_moves rest" using "1.prems"(3) k moves by linarith
      moreover have "s + ?k \<le> length data" "list_all send_ok rest" using "1.prems"(1,2) by (simp_all add: steps)
      ultimately obtain st' where
        "send_loop rest data (s + ?k) (wire @ take ?k (drop s data)) =
          Some (of_nat (length data), (wire @ take ?k (drop s data)) @ drop (s + ?k) data, st')"
        "list_all send_ok st'" "send_moves rest \<le> send_moves st' + (length data - (s + ?k))"
        using "1.IH"(2) [OF True steps Send_Takes refl] by blast
      moreover have "take ?k (drop s data) @ drop (s + ?k) data = drop s data"
        by (metis add.commute append_take_drop_id drop_drop)
      ultimately show ?thesis
        using True moves k by (auto simp: steps Send_Takes send_loop.simps [of "_ # _"] Let_def)
    qed (use "1.prems"(1) steps in auto)
  qed
qed

lemma recv_loop_clean:
  "list_all recv_ok steps \<Longrightarrow> length got \<le> size' \<Longrightarrow> size' - length got \<le> recv_moves steps \<Longrightarrow>
    size' - length got \<le> length line \<Longrightarrow>
    \<exists>st. recv_loop steps size' got line =
        Some (of_nat size', got @ take (size' - length got) line, drop (size' - length got) line, st)
      \<and> list_all recv_ok st \<and> recv_moves steps \<le> recv_moves st + (size' - length got)"
proof (induction steps size' got line rule: recv_loop.induct)
  case (1 steps size' got line)
  show ?case
  proof (cases "length got < size'")
    case False
    with "1.prems" show ?thesis by (simp add: recv_loop.simps)
  next
    case True
    with "1.prems"(3) obtain st rest where steps: "steps = st # rest" by (cases steps) auto
    show ?thesis
    proof (cases st)
      case Recv_Wait
      with "1.IH"(1) [OF True steps] "1.prems" True show ?thesis
        by (simp add: steps recv_loop.simps [of "_ # _"])
    next
      case (Recv_Gives n)
      let ?k = "min n (size' - length got)" let ?m = "size' - length got"
      have k: "?k \<le> length line" "length (take ?k line) = ?k" using "1.prems"(4) by simp_all
      then have l: "length (got @ take ?k line) = length got + ?k" by simp
      have km: "?k + (size' - (length got + ?k)) = ?m" by simp
      have moves: "recv_moves steps \<le> recv_moves rest + ?k"
        using True by (cases n) (auto simp: steps Recv_Gives)
      have "size' - (length got + ?k) \<le> recv_moves rest" using "1.prems"(3) moves by linarith
      moreover have "size' - (length got + ?k) \<le> length (drop ?k line)" using "1.prems"(4) by simp
      moreover have "length got + ?k \<le> size'" using "1.prems"(2) by simp
      moreover have "list_all recv_ok rest" using "1.prems"(1) by (simp add: steps)
      ultimately obtain st' where
        "recv_loop rest size' (got @ take ?k line) (drop ?k line) =
          Some (of_nat size', (got @ take ?k line) @ take (size' - (length got + ?k)) (drop ?k line),
            drop (size' - (length got + ?k)) (drop ?k line), st')"
        "list_all recv_ok st'" "recv_moves rest \<le> recv_moves st' + (size' - (length got + ?k))"
        using "1.IH"(2) [OF True steps Recv_Gives refl] unfolding l by blast
      moreover have "take ?k line @ take (size' - (length got + ?k)) (drop ?k line) = take ?m line"
        by (metis km take_add)
      moreover have "drop (size' - (length got + ?k)) (drop ?k line) = drop ?m line"
        by (metis km add.commute drop_drop)
      ultimately show ?thesis
        using True moves by (auto simp: steps Recv_Gives recv_loop.simps [of "_ # _"] Let_def)
    qed (use "1.prems"(1) steps in auto)
  qed
qed

section \<open>Packets over the line\<close>

text \<open>A packet that may be sent, its bytes, and the packet that arrives.\<close>

definition sendable_packet :: "packet \<Rightarrow> bool" where
  "sendable_packet p \<longleftrightarrow> pkt_bodySize p \<le> MAX_PACKET_BODY
     \<and> (pkt_bodySize p > 0 \<longrightarrow>
          (\<exists>d. pkt_bodyData p = Some (Some d) \<and> unat (pkt_bodySize p) \<le> length d))"

definition body_bytes :: "packet \<Rightarrow> bytes" where
  "body_bytes p =
     (case pkt_bodyData p of Some (Some d) \<Rightarrow> take (unat (pkt_bodySize p)) d | _ \<Rightarrow> [])"

definition packet_bytes :: "packet \<Rightarrow> bytes" where
  "packet_bytes p = head_bytes (p_head p) @ (if pkt_bodySize p > 0 then body_bytes p else [])"

definition arrived :: "packet \<Rightarrow> packet" where
  "arrived p = \<lparr>p_head = p_head p,
     p_body = (if pkt_bodySize p > 0
               then Some \<lparr>mb_data = Some (body_bytes p), mb_size = pkt_bodySize p\<rparr> else None)\<rparr>"

lemma length_body_bytes:
  "sendable_packet p \<Longrightarrow> pkt_bodySize p > 0 \<Longrightarrow> length (body_bytes p) = unat (pkt_bodySize p)"
  by (auto simp: sendable_packet_def body_bytes_def)

lemma length_packet_bytes:
  "sendable_packet p \<Longrightarrow> length (packet_bytes p) = HEAD_SIZE + unat (pkt_bodySize p)"
  by (auto simp: packet_bytes_def length_body_bytes word_gt_0)

lemma send_packet_clean:
  assumes "sendable_packet p" and "list_all send_ok steps" and "length (packet_bytes p) \<le> send_moves steps"
  shows "\<exists>st. send_packet steps p = Some (of_nat (length (packet_bytes p)), packet_bytes p, st)
    \<and> list_all send_ok st \<and> send_moves steps \<le> send_moves st + length (packet_bytes p)"
proof -
  let ?n = "pkt_bodySize p"
  have len: "length (packet_bytes p) = HEAD_SIZE + unat ?n" by (rule length_packet_bytes [OF assms(1)])
  obtain st where st: "cl_send steps (head_bytes (p_head p)) = Some (of_nat HEAD_SIZE, head_bytes (p_head p), st)"
    "list_all send_ok st" "send_moves steps \<le> send_moves st + HEAD_SIZE"
    using send_loop_clean [OF assms(2), of 0 "head_bytes (p_head p)" "[]"] assms(3) len by (auto simp: cl_send_def)
  show ?thesis
  proof (cases "?n > 0")
    case False
    then have "?n = 0" by (simp add: word_gt_0)
    with st len show ?thesis by (auto simp: send_packet_def packet_bytes_def)
  next
    case True
    then obtain d where d: "pkt_bodyData p = Some (Some d)" "unat ?n \<le> length d"
      using assms(1) by (auto simp: sendable_packet_def)
    have "unat ?n \<le> send_moves st" using assms(3) st(3) len by linarith
    then obtain st1 where st1: "cl_send st (take (unat ?n) d) = Some (?n, take (unat ?n) d, st1)"
      "list_all send_ok st1" "send_moves st \<le> send_moves st1 + unat ?n"
      using send_loop_clean [OF st(2), of 0 "take (unat ?n) d" "[]"] d(2) by (auto simp: cl_send_def min_absorb2)
    have "(of_nat HEAD_SIZE + ?n :: u32) = of_nat (HEAD_SIZE + unat ?n)" by simp
    then show ?thesis
      using True st st1 d len by (auto simp: send_packet_def packet_bytes_def body_bytes_def)
  qed
qed

lemma recv_packet_clean:
  assumes "sendable_packet p" and "list_all recv_ok steps" and "length (packet_bytes p) \<le> recv_moves steps"
  shows "\<exists>st. recv_packet_wire True steps (packet_bytes p @ rest_of_line) =
      Some (of_nat (length (packet_bytes p)), arrived p, rest_of_line, st)
    \<and> list_all recv_ok st \<and> recv_moves steps \<le> recv_moves st + length (packet_bytes p)"
proof -
  let ?n = "pkt_bodySize p" let ?h = "head_bytes (p_head p)"
  let ?rest = "drop HEAD_SIZE (packet_bytes p @ rest_of_line)"
  have len: "length (packet_bytes p) = HEAD_SIZE + unat ?n" by (rule length_packet_bytes [OF assms(1)])
  have hd: "take HEAD_SIZE (packet_bytes p @ rest_of_line) = ?h" by (simp add: packet_bytes_def)
  obtain st where st: "cl_recv steps HEAD_SIZE (packet_bytes p @ rest_of_line) = Some (of_nat HEAD_SIZE, ?h, ?rest, st)"
    "list_all recv_ok st" "recv_moves steps \<le> recv_moves st + HEAD_SIZE"
    using recv_loop_clean [OF assms(2), of "[]" HEAD_SIZE "packet_bytes p @ rest_of_line"] assms(3) len
    by (auto simp: cl_recv_def hd simp del: take_append drop_append)
  have head: "head_of_bytes (filled HEAD_SIZE ?h) = Some (p_head p)"
    using head_of_head_bytes [of "p_head p" "[]"] by (simp add: filled_def)
  have n: "pkt_bodySize ((pkt_create 0)\<lparr>p_head := p_head p\<rparr>) = ?n" by (simp add: pkt_bodySize_def)
  show ?thesis
  proof (cases "?n > 0")
    case False
    then have "?n = 0" by (simp add: word_gt_0)
    with st len head show ?thesis
      by (auto simp: recv_packet_wire_def n arrived_def packet_bytes_def HEAD_SIZE_def pkt_create_def
          pkt_bodySize_def)
  next
    case True
    have rest: "?rest = body_bytes p @ rest_of_line" using True by (simp add: packet_bytes_def)
    have lb: "length (body_bytes p) = unat ?n" by (rule length_body_bytes [OF assms(1) True])
    have "unat ?n \<le> recv_moves st" using assms(3) st(3) len by linarith
    then obtain st1 where st1: "cl_recv st (unat ?n) ?rest = Some (?n, body_bytes p, rest_of_line, st1)"
      "list_all recv_ok st1" "recv_moves st \<le> recv_moves st1 + unat ?n"
      using recv_loop_clean [OF st(2), of "[]" "unat ?n" ?rest] lb unfolding rest by (auto simp: cl_recv_def)
    have ok: "\<not> ?n > MAX_PACKET_BODY" using assms(1) by (simp add: sendable_packet_def not_less)
    have "(of_nat HEAD_SIZE + ?n :: u32) = of_nat (HEAD_SIZE + unat ?n)" by simp
    then show ?thesis
      using True st st1 len head ok lb
      by (auto simp: recv_packet_wire_def n arrived_def HEAD_SIZE_def mb_create_zero filled_def
          pkt_setters pkt_create_def pkt_bodySize_def)
  qed
qed

lemma u32_positive: "0 < n \<Longrightarrow> n < 2 ^ 31 \<Longrightarrow> \<not> (of_nat n :: u32) \<le>s 0"
  by (simp add: word_sle_eq signed_of_nat signed_take_bit_int_eq_self)

lemma send_run_clean:
  "list_all sendable_packet ps \<Longrightarrow> list_all send_ok steps \<Longrightarrow>
    length (concat (map packet_bytes ps)) \<le> send_moves steps \<Longrightarrow>
    \<exists>st. send_run steps ps = Some (concat (map packet_bytes ps), st)"
proof (induction ps arbitrary: steps)
  case Nil
  then show ?case by simp
next
  case (Cons p ps)
  obtain st where st: "send_packet steps p = Some (of_nat (length (packet_bytes p)), packet_bytes p, st)"
    "list_all send_ok st" "send_moves steps \<le> send_moves st + length (packet_bytes p)"
    using send_packet_clean [of p steps] Cons.prems by auto
  then have "length (concat (map packet_bytes ps)) \<le> send_moves st" using Cons.prems(3) by simp
  with Cons.IH [OF _ st(2)] Cons.prems(1) st(1) show ?case by auto
qed

lemma recv_run_clean:
  "list_all sendable_packet ps \<Longrightarrow> list_all recv_ok steps \<Longrightarrow>
    length (concat (map packet_bytes ps)) \<le> recv_moves steps \<Longrightarrow>
    recv_run True (length ps) steps (concat (map packet_bytes ps) @ rest) = Some (map arrived ps, True, rest)"
proof (induction ps arbitrary: steps)
  case Nil
  then show ?case by simp
next
  case (Cons p ps)
  obtain st where st: "recv_packet_wire True steps (packet_bytes p @ concat (map packet_bytes ps) @ rest) =
      Some (of_nat (length (packet_bytes p)), arrived p, concat (map packet_bytes ps) @ rest, st)"
    "list_all recv_ok st" "recv_moves steps \<le> recv_moves st + length (packet_bytes p)"
    using recv_packet_clean [of p steps] Cons.prems by auto
  have n: "length (packet_bytes p) = HEAD_SIZE + unat (pkt_bodySize p)" "unat (pkt_bodySize p) \<le> 65536"
    using Cons.prems(1) by (auto simp: length_packet_bytes sendable_packet_def word_le_nat_alt MAX_PACKET_BODY_def)
  have "\<not> (of_nat (length (packet_bytes p)) :: u32) \<le>s 0"
    by (rule u32_positive) (use n in \<open>simp_all add: HEAD_SIZE_def\<close>)
  moreover have "length (concat (map packet_bytes ps)) \<le> recv_moves st" using Cons.prems(3) st(3) by simp
  ultimately show ?case using Cons.IH [OF _ st(2)] Cons.prems(1) st(1) by simp
qed

section \<open>Failures\<close>

text \<open>
  A connection the peer has closed is readable and gives no bytes: \<open>recv\<close> turns round until the
  thread is canceled.
\<close>

lemma recv_closed_spins:
  "length got < size' \<Longrightarrow> recv_loop (replicate k (Recv_Gives n)) size' got [] = None"
  by (induction k) (simp_all add: recv_loop.simps [of "[]"] recv_loop.simps [of "_ # _"])

text \<open>
  A failure inside the body passes for a complete packet: the body is zero where no bytes came.
\<close>

lemma recv_truncated:
  assumes "0 < h_bodySize h" and "h_bodySize h \<le> MAX_PACKET_BODY"
  shows "recv_packet_wire True [Recv_Gives HEAD_SIZE, Recv_Fatal] (head_bytes h @ rest) =
    Some (23, \<lparr>p_head = h, p_body = Some \<lparr>mb_data = Some (replicate (unat (h_bodySize h)) 0),
                                          mb_size = h_bodySize h\<rparr>\<rparr>, rest, [])"
proof -
  have "cl_recv [Recv_Gives HEAD_SIZE, Recv_Fatal] HEAD_SIZE (head_bytes h @ rest) =
      Some (of_nat HEAD_SIZE, head_bytes h, rest, [Recv_Fatal])"
    by (simp add: cl_recv_def recv_loop.simps [of "_ # _"] HEAD_SIZE_def)
  moreover have "cl_recv [Recv_Fatal] (unat (h_bodySize h)) rest = Some (- 1, [], rest, [])"
    using assms(1) by (simp add: cl_recv_def recv_loop.simps [of "_ # _"] word_gt_0 unat_gt_0)
  moreover have "head_of_bytes (filled HEAD_SIZE (head_bytes h)) = Some h"
    using head_of_head_bytes [of h "[]"] by (simp add: filled_def)
  moreover have "\<not> (- 1 :: u32) < h_bodySize h" by (simp add: not_less)
  ultimately show ?thesis
    using assms by (simp add: recv_packet_wire_def Let_def HEAD_SIZE_def pkt_bodySize_def mb_create_zero
        pkt_setters pkt_create_def filled_def)
qed

text \<open>A failure inside the head is found out: the packet has no length and the sum is negative.\<close>

lemma filled_zero: "filled HEAD_SIZE [] = head_bytes (p_head (pkt_create 0))"
  by (simp add: filled_def HEAD_SIZE_def head_bytes_def pkt_create_def le_mem32_def
      to_bigendian32_def to_bigendian16_def eval_nat_numeral)

lemma recv_failed_head:
  "recv_packet_wire True [Recv_Fatal] line = Some (- 1, pkt_create 0, line, [])"
proof -
  have "head_of_bytes (filled HEAD_SIZE []) = Some (p_head (pkt_create 0))"
    using head_of_head_bytes [of "p_head (pkt_create 0)" "[]"] by (simp add: filled_zero)
  then show ?thesis
    by (simp add: recv_packet_wire_def cl_recv_def recv_loop.simps [of "_ # _"] HEAD_SIZE_def
        pkt_bodySize_def pkt_create_def Let_def)
qed

section \<open>What arrives is what was sent\<close>

text \<open>A receiver takes no more of a body than its size says, so it cannot tell the two packets apart.\<close>

lemma arrived_heads [simp]:
  "pkt_streamId (arrived p) = pkt_streamId p" "pkt_streamType (arrived p) = pkt_streamType p"
  "pkt_part (arrived p) = pkt_part p" "pkt_parts (arrived p) = pkt_parts p"
  "pkt_bodySize (arrived p) = pkt_bodySize p"
  by (simp_all add: arrived_def pkt_getters)

end
