(* ===== verification/Network.thy ===== *)
theory Network
  imports Transport Wire
begin

text \<open>
  Two clients joined by a TLS session: the packets an engine hands out (\<^verbatim>\<open>Sender::getElements\<close>)
  are written to the line and the packets read from it (\<^verbatim>\<open>Receiver::run\<close>) are given to the other
  engine (\<^verbatim>\<open>Client::run\<close>).  A packet arrives with a body cut to its size; the receivers cannot
  tell it from the packet that was sent, so the delivery of requests between engines is a
  delivery between clients, whatever pieces the session cuts the bytes into.
\<close>

lemma mb_write_take:
  "unat sz \<le> length d \<Longrightarrow> mb_write b (Some (take (unat sz) d)) sz off = mb_write b (Some d) sz off"
  by (auto simp: mb_write_def Let_def unat_mb_span min_def split: option.splits)

lemma br_process_packet_arrived:
  assumes "sendable_packet p" and "pkt_bodySize p > 0"
  shows "br_process_packet r (arrived p) = br_process_packet r p"
proof -
  obtain d where d: "pkt_bodyData p = Some (Some d)" "unat (pkt_bodySize p) \<le> length d"
    using assms by (auto simp: sendable_packet_def)
  then have "pkt_bodyData (arrived p) = Some (Some (take (unat (pkt_bodySize p)) d))"
    using assms(2) by (auto simp: arrived_def pkt_bodyData_def body_bytes_def)
  then show ?thesis
    unfolding br_process_packet_def sr_process_packet_def arrived_heads
    using d by (simp add: mb_write_take)
qed

lemma ur_process_arrived:
  assumes "sendable_packet p" and "pkt_bodySize p > 0"
  shows "ur_process r (arrived p) = ur_process r p"
  unfolding ur_process_def sr_process_def ur_process_packet_def arrived_heads
    br_process_packet_arrived [OF assms] ..

lemma eng_processIncomingPacket_arrived:
  assumes "sendable_packet p" and "pkt_bodySize p > 0"
  shows "eng_processIncomingPacket ok (arrived p) e = eng_processIncomingPacket ok p e"
  unfolding eng_processIncomingPacket_def recv_packet_def eng_createStreamReceiver_def ur_create_def
    br_init_def sr_init_def arrived_heads ur_process_arrived [OF assms] ..

lemma eng_receive_all_arrived:
  "list_all (\<lambda>p. sendable_packet p \<and> pkt_bodySize p > 0) ps \<Longrightarrow>
    eng_receive_all ok (map arrived ps) e = eng_receive_all ok ps e"
  by (induction ps arbitrary: e) (simp_all add: eng_processIncomingPacket_arrived)

lemma part_packet_sendable:
  assumes "k < parts_of v"
  shows "sendable_packet (part_packet i v k) \<and> pkt_bodySize (part_packet i v k) > 0"
proof -
  let ?n = "length (chunk (enc v) k)"
  have n: "0 < ?n" "?n \<le> 65536" using assms by (simp_all add: length_chunk n_chunks_less)
  then have u: "unat (of_nat ?n :: u32) = ?n" by (intro unat_of_nat_u32) simp
  with n have "(of_nat ?n :: u32) > 0" "(of_nat ?n :: u32) \<le> MAX_PACKET_BODY"
    by (simp_all add: word_less_nat_alt word_le_nat_alt MAX_PACKET_BODY_def)
  then show ?thesis
    using u by (simp add: sendable_packet_def stream_packet_def pkt_getters pkt_bodyData_def)
qed

text \<open>
  Requests cross the line: the packets of the sending engine, written with any sequence of partial
  writes and read with any sequence of partial reads that move enough bytes, dispatch every
  request once at the other end.
\<close>

lemma network_transport:
  assumes "\<forall>(i, v) \<in> set ms. i \<noteq> 0 \<and> sendable v \<and> request_head v" and "distinct (map fst ms)"
  shows "\<exists>e n e' ps. eng_add_all ms eng_new = Some e \<and> eng_drain True n e [] = Some (e', ps)
    \<and> en_senders e' = []
    \<and> (\<forall>ws rs. list_all send_ok ws \<and> list_all recv_ok rs
          \<and> length (concat (map packet_bytes ps)) \<le> send_moves ws
          \<and> length (concat (map packet_bytes ps)) \<le> recv_moves rs \<longrightarrow>
         (\<exists>line ws' qs calls. send_run ws ps = Some (line, ws')
            \<and> recv_run True (length ps) rs line = Some (qs, True, [])
            \<and> eng_receive_all True qs eng_new = Some (eng_new, calls)
            \<and> mset calls = mset (map (\<lambda>(i, v). ProcessIncomingRequest (val_toObject v)) ms)))"
proof -
  from request_transport [OF assms, of True] obtain e n e' ps where
    e: "eng_add_all ms eng_new = Some e" "eng_drain True n e [] = Some (e', ps)" "en_senders e' = []"
      "\<forall>p \<in> set ps. \<exists>(i, v) \<in> set ms. \<exists>k < parts_of v. p = part_packet i v k"
    and deliver: "\<And>qs. \<forall>i. filter (\<lambda>p. pkt_streamId p = i) qs = filter (\<lambda>p. pkt_streamId p = i) ps \<Longrightarrow>
      \<exists>calls. eng_receive_all True qs eng_new = Some (eng_new, calls)
        \<and> mset calls = mset (map (\<lambda>(i, v). ProcessIncomingRequest (val_toObject v)) ms)" by blast
  from e(4) part_packet_sendable have ok: "list_all (\<lambda>p. sendable_packet p \<and> pkt_bodySize p > 0) ps"
    by (fastforce simp: list_all_iff)
  from deliver [of ps] obtain calls where
    c: "eng_receive_all True (map arrived ps) eng_new = Some (eng_new, calls)"
      "mset calls = mset (map (\<lambda>(i, v). ProcessIncomingRequest (val_toObject v)) ms)"
    using eng_receive_all_arrived [OF ok] by auto
  have "\<exists>line ws' qs calls. send_run ws ps = Some (line, ws')
      \<and> recv_run True (length ps) rs line = Some (qs, True, [])
      \<and> eng_receive_all True qs eng_new = Some (eng_new, calls)
      \<and> mset calls = mset (map (\<lambda>(i, v). ProcessIncomingRequest (val_toObject v)) ms)"
    if "list_all send_ok ws" "list_all recv_ok rs"
      "length (concat (map packet_bytes ps)) \<le> send_moves ws"
      "length (concat (map packet_bytes ps)) \<le> recv_moves rs" for ws rs
  proof -
    have "list_all sendable_packet ps" using ok by (simp add: list_all_iff)
    with send_run_clean [OF this that(1,3)] recv_run_clean [OF this that(2,4), of "[]"] c
    show ?thesis by auto
  qed
  with e(1-3) show ?thesis by blast
qed

end
