(* ===== verification/App_Store.thy ===== *)
theory App_Store
  imports Store_Api
begin

text \<open>
  \<^verbatim>\<open>src/store.cpp\<close>: what the messenger keeps in its store: the account, the
  configuration, contacts, histories, messages, resources and the virtual file system.  The
  operations run over an \<open>api\<close>; a query whose callback does not look at the error flag
  dereferences a null cursor when the query fails, which is an outer \<^const>\<open>None\<close>.
\<close>

section \<open>The account\<close>

record account =
  ac_id :: u32
  ac_name :: string
  ac_password :: "membuf option"
  ac_privateKey :: fields
  ac_publicKey :: fields

definition account_none :: account where
  "account_none = \<lparr>ac_id = 0, ac_name = [], ac_password = None, ac_privateKey = [], ac_publicKey = []\<rparr>"

definition account_of :: "(ubj_type \<Rightarrow> bytes \<Rightarrow> string) \<Rightarrow> fields \<Rightarrow> account option" where
  "account_of fmt data = do {
     i \<leftarrow> val_toInt (obj_get data ''accountId'');
     n \<leftarrow> val_toStr fmt (obj_get data ''accountName'');
     Some \<lparr>ac_id = i, ac_name = n, ac_password = field_buffer data ''accountPassword'',
           ac_privateKey = val_toObject (obj_get data ''privateKey''),
           ac_publicKey = val_toObject (obj_get data ''publicKey'')\<rparr> }"

definition DataNodeId :: u64 where "DataNodeId = 1"

definition ConfigNodeId :: u64 where "ConfigNodeId = 2"

section \<open>The configuration\<close>

definition contact_config :: "fields \<Rightarrow> val" where
  "contact_config contact =
     val_of_obj (mk_obj [(''contactId'', obj_get contact ''id''), (''notifyStatus'', val_int32 1)])"

definition zs_getConfig :: "'s api \<Rightarrow> fields \<Rightarrow> bool \<Rightarrow> 's \<Rightarrow> (bool \<times> fields \<times> 's) option" where
  "zs_getConfig A config contacts w = do {
     (found, cfg, w1) \<leftarrow> ap_getBlobObj A ''blob1'' ConfigNodeId config w;
     if \<not> found then Some (False, cfg, w1)
     else if \<not> contacts then Some (True, cfg, w1)
     else do {
       (rows, w2) \<leftarrow> ap_query A ''contacts'' [] [] [] 0 0 w1;
       rs \<leftarrow> rows;
       Some (True, obj_setField ''contacts'' (val_of_arr (map contact_config rs)) cfg, w2) } }"

definition zs_setConfig :: "'s api \<Rightarrow> fields \<Rightarrow> 's \<Rightarrow> (bool \<times> 's) option" where
  "zs_setConfig A config w = do {
     (found, ob, w1) \<leftarrow> zs_getConfig A [] False w;
     if \<not> found then Some (False, w1)
     else do {
       (r, w2) \<leftarrow> ap_updateBlobObj A ''blob1'' ConfigNodeId (obj_merge ob config) w1;
       Some (r \<noteq> 0, w2) } }"

section \<open>The virtual file system\<close>

datatype vfs_kind = Directory | File

definition vfs_code :: "vfs_kind \<Rightarrow> u32" where
  "vfs_code t = (case t of Directory \<Rightarrow> 1 | File \<Rightarrow> 2)"

definition zs_createVfsNode ::
    "'s api \<Rightarrow> vfs_kind \<Rightarrow> string \<Rightarrow> u64 \<Rightarrow> fields \<Rightarrow> 's \<Rightarrow> (u64 \<times> 's) option" where
  "zs_createVfsNode A t name parent data w = do {
     let node = obj_merge data (mk_obj [(''type'', val_int32 (vfs_code t)), (''parent'', val_int64 parent),
                  (''status'', val_int32 0), (''time'', val_int64 (ap_time A w)), (''name'', text_val name)]);
     (n, w1) \<leftarrow> ap_count A ''vfs'' node w;
     if n > 0 then Some (0, w1) else ap_insert A ''vfs'' node w1 }"

definition zs_getVfsNodeData :: "'s api \<Rightarrow> u64 \<Rightarrow> 's \<Rightarrow> (membuf option \<times> 's) option" where
  "zs_getVfsNodeData A i w = do {
     (ob, w1) \<leftarrow> ap_query_one A ''vfs'' (mk_obj [(''rowid'', val_int64 i)]) [] [text_val ''data''] 0 w;
     case ob of
       None \<Rightarrow> Some (None, w1)
     | Some node \<Rightarrow> do {
         b \<leftarrow> val_toInt (obj_get node ''data'');
         ap_getBlobData A ''blob3'' (scast b) w1 } }"

text \<open>
  \<^verbatim>\<open>deleteVfsNode\<close> calls itself on the children of a directory; \<open>fuel\<close> bounds the depth
  (a node that is its own ancestor is never done).
\<close>

primrec del_children ::
    "(u64 \<Rightarrow> bool \<Rightarrow> 's \<Rightarrow> (bool \<times> 's) option) \<Rightarrow> fields list \<Rightarrow> 's \<Rightarrow> (bool \<times> 's) option" where
  "del_children del [] w = Some (True, w)"
| "del_children del (node # nodes) w = do {
     i \<leftarrow> val_toInt (obj_get node ''rowid'');
     (ok, w1) \<leftarrow> del (scast i) True w;
     if ok then del_children del nodes w1 else Some (False, w1) }"

text \<open>The data blob goes when neither a file nor a resource refers to it any more.\<close>

definition drop_blob :: "'s api \<Rightarrow> u32 \<Rightarrow> 's \<Rightarrow> (bool \<times> 's) option" where
  "drop_blob A blobId w =
     (if blobId = 0 then Some (True, w)
      else do {
        (n, w1) \<leftarrow> ap_count A ''vfs'' (mk_obj [(''data'', val_int32 blobId)]) w;
        if n \<noteq> 0 then Some (True, w1)
        else do {
          (k, w2) \<leftarrow> ap_count A ''resources'' (mk_obj [(''data'', val_int32 blobId)]) w1;
          if k \<noteq> 0 then Some (True, w2)
          else ap_removeBlob A ''blob3'' (ucast blobId) w2 } })"

primrec zs_deleteVfsNode :: "'s api \<Rightarrow> nat \<Rightarrow> u64 \<Rightarrow> bool \<Rightarrow> 's \<Rightarrow> (bool \<times> 's) option" where
  "zs_deleteVfsNode A 0 i recursive w = None"
| "zs_deleteVfsNode A (Suc fuel) i recursive w = do {
     (ob, w1) \<leftarrow> ap_query_one A ''vfs'' (mk_obj [(''rowid'', val_int64 i)]) [] [] 0 w;
     case ob of
       None \<Rightarrow> Some (False, w1)
     | Some node \<Rightarrow> do {
         t \<leftarrow> val_toInt (obj_get node ''type'');
         if t = vfs_code Directory then do {
           (ok, w2) \<leftarrow>
             (if recursive then do {
                (rows, w') \<leftarrow> ap_query A ''vfs'' (mk_obj [(''parent'', val_int64 i)]) [] [text_val ''rowid''] 0 0 w1;
                case rows of
                  None \<Rightarrow> Some (False, w')
                | Some nodes \<Rightarrow> del_children (zs_deleteVfsNode A fuel) nodes w' }
              else Some (True, w1));
           if \<not> ok then Some (False, w2)
           else map_option (\<lambda>(n, w3). (n \<noteq> 0, w3)) (ap_remove A ''vfs'' (mk_obj [(''rowid'', val_int64 i)]) w2) }
         else if t = vfs_code File then do {
           blobId \<leftarrow> val_toInt (obj_get node ''data'');
           (n, w2) \<leftarrow> ap_remove A ''vfs'' (mk_obj [(''rowid'', val_int64 i)]) w1;
           if n = 0 then Some (False, w2) else drop_blob A blobId w2 }
         else Some (False, w1) } }"

text \<open>\<^verbatim>\<open>ioDir\<close>: the directory of a contact below the directory \<open>name\<close>, made on demand.\<close>

definition find_or_make_dir :: "'s api \<Rightarrow> string \<Rightarrow> u64 \<Rightarrow> val \<Rightarrow> 's \<Rightarrow> (u64 \<times> 's) option" where
  "find_or_make_dir A name parent pv w = do {
     (i, w1) \<leftarrow> ap_queryInt A ''vfs'' ''rowid''
                 (mk_obj [(''type'', val_int32 (vfs_code Directory)), (''parent'', pv), (''name'', text_val name)]) w;
     if i \<noteq> 0 then Some (i, w1) else zs_createVfsNode A Directory name parent [] w1 }"

definition zs_ioDir ::
    "(ubj_type \<Rightarrow> bytes \<Rightarrow> string) \<Rightarrow> 's api \<Rightarrow> u32 \<Rightarrow> string \<Rightarrow> 's \<Rightarrow> (u64 \<times> 's) option" where
  "zs_ioDir fmt A contactId name w = do {
     (ob, w1) \<leftarrow> ap_query_one A ''contacts'' (mk_obj [(''id'', val_int32 contactId)]) [] [] 0 w;
     case ob of
       None \<Rightarrow> Some (0, w1)
     | Some contact \<Rightarrow> do {
         (outDir, w2) \<leftarrow> find_or_make_dir A name 0 (val_int32 0) w1;
         if outDir = 0 then Some (0, w2)
         else do {
           contactName \<leftarrow> val_toStr fmt (obj_get contact ''name'');
           find_or_make_dir A contactName outDir (val_int64 outDir) w2 } } }"

section \<open>Contacts\<close>

definition colors :: "string list" where
  "colors = [''#c0392b'', ''#e74c3c'', ''#9b59b6'', ''#8e44ad'', ''#2980b9'', ''#3498db'', ''#1abc9c'',
             ''#16a085'', ''#27ae60'', ''#2ecc71'', ''#f1c40f'', ''#f39c12'', ''#e67e22'', ''#d35400'']"

text \<open>The byte is uninitialised when the random source fails.\<close>

definition zs_randomColor :: "'s api \<Rightarrow> 's \<Rightarrow> (string \<times> 's) option" where
  "zs_randomColor A w = do {
     (r, w1) \<leftarrow> draw A 1 w;
     bs \<leftarrow> r;
     Some (colors ! (unat (hd bs) mod length colors), w1) }"

definition insert_colored :: "'s api \<Rightarrow> string \<Rightarrow> fields \<Rightarrow> 's \<Rightarrow> (u64 \<times> 's) option" where
  "insert_colored A table ob w =
     (if obj_hasField ob ''color'' then ap_insert A table ob w
      else do {
        (c, w1) \<leftarrow> zs_randomColor A w;
        ap_insert A table (obj_setField ''color'' (text_val c) ob) w1 })"

definition zs_addContactRequest :: "'s api \<Rightarrow> fields \<Rightarrow> 's \<Rightarrow> (u64 \<times> 's) option" where
  "zs_addContactRequest A request w = insert_colored A ''contact_requests'' request w"

definition zs_addContact :: "'s api \<Rightarrow> fields \<Rightarrow> 's \<Rightarrow> (u64 \<times> 's) option" where
  "zs_addContact A contact w = insert_colored A ''contacts'' contact w"

section \<open>Histories, messages, resources\<close>

definition zs_createHistory :: "'s api \<Rightarrow> u32 \<Rightarrow> 's \<Rightarrow> (u64 \<times> 's) option" where
  "zs_createHistory A contactId w =
     ap_insert A ''histories'' (mk_obj [(''dst'', val_int32 contactId), (''time'', val_int64 (ap_time A w))]) w"

definition zs_latestHistory :: "'s api \<Rightarrow> u32 \<Rightarrow> 's \<Rightarrow> (u64 \<times> 's) option" where
  "zs_latestHistory A contactId w = do {
     (ob, w1) \<leftarrow> ap_query_one A ''histories'' (mk_obj [(''dst'', val_int32 contactId)])
                   (mk_obj [(''time'', val_int32 (- 1))]) [text_val ''rowid''] 0 w;
     case ob of
       Some rec \<Rightarrow> map_option (\<lambda>i. (ucast i, w1)) (val_toInt (obj_get rec ''rowid''))
     | None \<Rightarrow> map_option (\<lambda>(i, w2). (ucast (ucast i :: u32), w2)) (zs_createHistory A contactId w1) }"

definition zs_deleteResource :: "'s api \<Rightarrow> u32 \<Rightarrow> 's \<Rightarrow> (bool \<times> 's) option" where
  "zs_deleteResource A i w = do {
     (ob, w1) \<leftarrow> ap_query_one A ''resources'' (mk_obj [(''id'', val_int32 i)]) [] [] 0 w;
     case ob of
       None \<Rightarrow> Some (False, w1)
     | Some rec \<Rightarrow> do {
         blobId \<leftarrow> val_toInt (obj_get rec ''data'');
         (ok, w2) \<leftarrow>
           (if blobId = 0 then Some (True, w1)
            else do {
              (n, w') \<leftarrow> ap_count A ''vfs'' (mk_obj [(''data'', val_int32 blobId)]) w1;
              if n \<noteq> 0 then Some (True, w') else ap_removeBlob A ''blob3'' (ucast blobId) w' });
         if \<not> ok then Some (False, w2)
         else map_option (\<lambda>(n, w3). (n \<noteq> 0, w3)) (ap_remove A ''resources'' (mk_obj [(''id'', val_int32 i)]) w2) } }"

text \<open>The loops that delete a list of ids ignore the results.\<close>

primrec del_all :: "(u32 \<Rightarrow> 's \<Rightarrow> (bool \<times> 's) option) \<Rightarrow> u32 list \<Rightarrow> 's \<Rightarrow> 's option" where
  "del_all del [] w = Some w"
| "del_all del (i # is) w = do { (_, w1) \<leftarrow> del i w; del_all del is w1 }"

definition ids_of :: "fields list \<Rightarrow> u32 list option" where
  "ids_of rows = those (map (\<lambda>ob. val_toInt (obj_get ob ''id'')) rows)"

definition zs_deleteMessage :: "'s api \<Rightarrow> u32 \<Rightarrow> 's \<Rightarrow> (bool \<times> 's) option" where
  "zs_deleteMessage A i w = do {
     (ob, w1) \<leftarrow> ap_query_one A ''messages'' (mk_obj [(''id'', val_int32 i)]) [] [] 0 w;
     if ob = None then Some (False, w1)
     else do {
       (rows, w2) \<leftarrow> ap_query A ''resources'' (mk_obj [(''request'', val_int32 i)]) [] [text_val ''id''] 0 0 w1;
       rs \<leftarrow> rows;
       is \<leftarrow> ids_of rs;
       w3 \<leftarrow> del_all (zs_deleteResource A) is w2;
       map_option (\<lambda>(n, w4). (n \<noteq> 0, w4)) (ap_remove A ''messages'' (mk_obj [(''id'', val_int32 i)]) w3) } }"

definition zs_deleteHistory :: "'s api \<Rightarrow> u64 \<Rightarrow> 's \<Rightarrow> (bool \<times> 's) option" where
  "zs_deleteHistory A history w = do {
     (ob, w1) \<leftarrow> ap_query_one A ''histories'' (mk_obj [(''rowid'', val_int64 history)]) [] [] 0 w;
     if ob = None then Some (False, w1)
     else do {
       (rows, w2) \<leftarrow> ap_query A ''messages'' (mk_obj [(''history'', val_int64 history)]) [] [text_val ''id''] 0 0 w1;
       rs \<leftarrow> rows;
       is \<leftarrow> ids_of rs;
       w3 \<leftarrow> del_all (zs_deleteMessage A) is w2;
       map_option (\<lambda>(n, w4). (n \<noteq> 0, w4))
         (ap_remove A ''histories'' (mk_obj [(''rowid'', val_int64 history)]) w3) } }"

definition zs_getMessages :: "'s api \<Rightarrow> u32 \<Rightarrow> 's \<Rightarrow> (fields list \<times> 's) option" where
  "zs_getMessages A history w = do {
     (rows, w1) \<leftarrow> ap_query A ''messages'' (mk_obj [(''history'', val_int32 history)]) [] [] 0 0 w;
     rs \<leftarrow> rows;
     Some (rs, w1) }"

section \<open>The inbox of a contact\<close>

text \<open>
  \<^verbatim>\<open>updateInbox\<close> appends the ids that are not in the inbox yet; \<open>known\<close> is the local map,
  filled from the inbox before the loop and not in it.
\<close>

primrec inbox_add :: "u32 set \<Rightarrow> val list \<Rightarrow> val list \<Rightarrow> u32 \<Rightarrow> (val list \<times> u32) option" where
  "inbox_add known [] cur n = Some (cur, n)"
| "inbox_add known (v # vs) cur n = do {
     i \<leftarrow> val_toInt v;
     if i \<notin> known then inbox_add known vs (arr_push cur (val_int32 i)) (n + 1)
     else inbox_add known vs cur n }"

definition contact_inbox :: "'s api \<Rightarrow> u32 \<Rightarrow> 's \<Rightarrow> (val \<times> 's) option" where
  "contact_inbox A contactId w = do {
     (ob, w1) \<leftarrow> ap_query_one A ''contacts'' (mk_obj [(''id'', val_int32 contactId)]) [] [text_val ''inbox''] 0 w;
     Some (case ob of Some contact \<Rightarrow> obj_get contact ''inbox'' | None \<Rightarrow> val_null, w1) }"

definition set_inbox :: "'s api \<Rightarrow> u32 \<Rightarrow> val list \<Rightarrow> 's \<Rightarrow> 's option" where
  "set_inbox A contactId vs w =
     map_option snd (ap_update A ''contacts'' (mk_obj [(''inbox'', val_of_arr vs)])
                       (mk_obj [(''id'', val_int32 contactId)]) w)"

definition zs_updateInbox :: "'s api \<Rightarrow> u32 \<Rightarrow> val list \<Rightarrow> 's \<Rightarrow> (u32 \<times> 's) option" where
  "zs_updateInbox A contactId inbox w = do {
     (cv, w1) \<leftarrow> contact_inbox A contactId w;
     known \<leftarrow> those (map val_toInt (val_toArray cv));
     (cur, n) \<leftarrow> inbox_add (set known) inbox (val_toArray cv) 0;
     w2 \<leftarrow> set_inbox A contactId cur w1;
     Some (n, w2) }"

definition zs_resetInbox :: "'s api \<Rightarrow> u32 \<Rightarrow> 's \<Rightarrow> (u32 \<times> 's) option" where
  "zs_resetInbox A contactId w = map_option (\<lambda>w1. (0, w1)) (set_inbox A contactId [] w)"

definition zs_numInboxMessages :: "'s api \<Rightarrow> u32 \<Rightarrow> 's \<Rightarrow> (u32 \<times> 's) option" where
  "zs_numInboxMessages A contactId w = do {
     (cv, w1) \<leftarrow> contact_inbox A contactId w;
     Some (val_numItems cv, w1) }"

text \<open>The ids of \<open>new\<close> that are not in \<open>old\<close>, with their duplicates.\<close>

definition fresh_ids :: "u32 list \<Rightarrow> u32 list \<Rightarrow> u32 list" where
  "fresh_ids old new = filter (\<lambda>i. i \<notin> set old) new"

lemma inbox_add_fresh:
  "inbox_add (set old) (map val_int32 new) cur n
     = Some (cur @ map val_int32 (fresh_ids old new), n + of_nat (length (fresh_ids old new)))"
  by (induction new arbitrary: cur n) (simp_all add: arr_push_def fresh_ids_def)

lemma those_ints: "those (map val_toInt (map val_int32 is)) = Some is"
  by (induction "is") simp_all

lemma fresh_ids_again: "fresh_ids (old @ fresh_ids old new) new = []"
  by (auto simp: fresh_ids_def filter_empty_conv)

lemma updateInbox_result:
  assumes "contact_inbox A k w = Some (val_of_arr (map val_int32 old), w1)"
  shows "zs_updateInbox A k (map val_int32 new) w
    = map_option (\<lambda>w2. (of_nat (length (fresh_ids old new)), w2))
        (set_inbox A k (map val_int32 (old @ fresh_ids old new)) w1)"
proof -
  have "val_toArray (val_of_arr (map val_int32 old)) = map val_int32 old"
    by (simp add: val_toArray_def val_of_arr_def)
  then show ?thesis
    using assms those_ints [of old] inbox_add_fresh [of old new "map val_int32 old" 0]
    by (simp add: zs_updateInbox_def del: map_map) (cases "set_inbox A k (map val_int32 old @ map val_int32 (fresh_ids old new)) w1"; simp)
qed

section \<open>Tables\<close>

definition zs_createBlobTables :: "'db sqlite \<Rightarrow> 'db \<Rightarrow> bool \<times> 'db" where
  "zs_createBlobTables sq db =
     (case createBlobTable sq ''blob1'' db of
        (False, db1) \<Rightarrow> (False, db1)
      | (True, db1) \<Rightarrow>
          (case createBlobTable sq ''blob2'' db1 of
             (False, db2) \<Rightarrow> (False, db2)
           | (True, db2) \<Rightarrow> createBlobTable sq ''blob3'' db2))"

text \<open>The virtual tables in the order of their creation: name, type, columns and SQL types.\<close>

definition file_vtable_specs :: "(string \<times> u32 \<times> string list \<times> string list) list" where
  "file_vtable_specs =
     [(''resources'', 7100, [''id'', ''type'', ''request'', ''status'', ''time'', ''name'', ''size'', ''hash'', ''data''],
        [''INTEGER'', ''INTEGER'', ''INTEGER'', ''INTEGER'', ''INTEGER'', ''TEXT'', ''INTEGER'', ''TEXT'', ''INTEGER'']),
      (''vfs'', 8100, [''id'', ''type'', ''parent'', ''status'', ''time'', ''name'', ''size'', ''hash'', ''data''],
        [''INTEGER'', ''INTEGER'', ''INTEGER'', ''INTEGER'', ''INTEGER'', ''TEXT'', ''INTEGER'', ''TEXT'', ''INTEGER'']),
      (''thumbnails'', 9100, [''id'', ''time'', ''width'', ''height'', ''format'', ''data''],
        [''TEXT'', ''INTEGER'', ''INTEGER'', ''INTEGER'', ''INTEGER'', ''INTEGER''])]"

definition vtable_specs :: "(string \<times> u32 \<times> string list \<times> string list) list" where
  "vtable_specs =
     [(''requests'', 1100, [''id'', ''type'', ''time'', ''status'', ''result'', ''data''],
        [''INTEGER'', ''INTEGER'', ''INTEGER'', ''INTEGER'', ''INTEGER'', ''INTEGER'', ''INTEGER'', ''BLOB'']),
      (''contact_requests'', 2100, [''id'', ''time'', ''src'', ''dst'', ''name'', ''phone'', ''addCode'', ''color'', ''result''],
        [''INTEGER'', ''INTEGER'', ''INTEGER'', ''INTEGER'', ''TEXT'', ''TEXT'', ''TEXT'', ''TEXT'', ''INTEGER'']),
      (''add_codes'', 3100, [''time'', ''addCode''], [''INTEGER'', ''TEXT'']),
      (''contacts'', 4100, [''id'', ''name'', ''phone'', ''inbox'', ''color'', ''publicKey''],
        [''INTEGER'', ''TEXT'', ''TEXT'', ''BLOB'', ''TEXT'', ''BLOB'']),
      (''histories'', 5100, [''dst'', ''time''], [''INTEGER'', ''INTEGER'']),
      (''messages'', 6100, [''id'', ''src'', ''dst'', ''history'', ''status'', ''time'', ''text''],
        [''INTEGER'', ''INTEGER'', ''INTEGER'', ''INTEGER'', ''INTEGER'', ''INTEGER'', ''INTEGER'', ''TEXT'', ''TEXT''])] @ file_vtable_specs"

primrec create_vtables ::
    "(ubj_type \<Rightarrow> bytes \<Rightarrow> string) \<Rightarrow> 'db sqlite \<Rightarrow> bool \<Rightarrow> (string \<times> u32 \<times> string list \<times> string list) list
     \<Rightarrow> (string \<times> vmodule) list \<Rightarrow> 'db \<Rightarrow> (bool \<times> (string \<times> vmodule) list \<times> 'db) option" where
  "create_vtables fmt sq registered [] ms db = Some (True, ms, db)"
| "create_vtables fmt sq registered (spec # specs) ms db =
     (case spec of (name, t, columns, types) \<Rightarrow> do {
        (ok, m, db1) \<leftarrow> vm_create fmt sq registered ''blob2'' t True columns types vm_new db;
        let ms1 = omap_insert name m ms;
        if ok then create_vtables fmt sq registered specs ms1 db1 else Some (False, ms1, db1) })"

definition zs_createVTables ::
    "(ubj_type \<Rightarrow> bytes \<Rightarrow> string) \<Rightarrow> 'db sqlite \<Rightarrow> bool \<Rightarrow> (string \<times> vmodule) list \<Rightarrow> 'db
     \<Rightarrow> (bool \<times> (string \<times> vmodule) list \<times> 'db) option" where
  "zs_createVTables fmt sq registered ms db = create_vtables fmt sq registered vtable_specs ms db"

section \<open>Creating and opening\<close>

text \<open>
  \<^verbatim>\<open>UBJ::Store::init\<close> and \<^verbatim>\<open>open\<close> end with the two hooks; \<open>with_tables\<close> runs them.
\<close>

definition with_tables ::
    "('db, 'k) host \<Rightarrow> bool \<Rightarrow> ustore option \<times> 'db \<Rightarrow> ('db world option \<times> 'db) option" where
  "with_tables h registered r =
     (case r of
        (None, db) \<Rightarrow> Some (None, db)
      | (Some s, db) \<Rightarrow>
          (case zs_createBlobTables (ho_sq h 0 (us_vtabs s)) db of
             (False, db1) \<Rightarrow> Some (None, db1)
           | (True, db1) \<Rightarrow> do {
               (ok, ms, db2) \<leftarrow> zs_createVTables (ho_fmt h) (ho_sq h 0 (us_vtabs s)) registered (us_vtabs s) db1;
               Some (if ok then Some \<lparr>wo_db = db2, wo_store = s\<lparr>us_vtabs := ms\<rparr>, wo_draws = 0\<rparr> else None, db2) }))"

definition zs_init ::
    "('db, 'k) host \<Rightarrow> (bytes \<Rightarrow> bytes \<Rightarrow> nat \<Rightarrow> bytes) \<Rightarrow> bool \<Rightarrow> bool \<Rightarrow> bool \<Rightarrow> bytes option \<Rightarrow> bytes option
     \<Rightarrow> bytes \<Rightarrow> fields \<Rightarrow> 'db \<Rightarrow> ((account \<times> 'db world) option \<times> 'db) option" where
  "zs_init h kdf exists opened registered salt key password data db = do {
     r \<leftarrow> st_init (ho_fmt h) (ho_sq h 0 []) (ho_sc h) kdf exists opened registered salt key password db;
     (wo, db1) \<leftarrow> with_tables h registered r;
     case wo of
       None \<Rightarrow> Some (None, db1)
     | Some w \<Rightarrow> do {
         (i, w1) \<leftarrow> us_createBlobObj h ''blob1'' data w;
         if i = 0 then Some (None, wo_db w1)
         else do {
           (j, w2) \<leftarrow> us_createBlobObj h ''blob1'' [] w1;
           if j = 0 then Some (None, wo_db w2)
           else do {
             ac \<leftarrow> account_of (ho_fmt h) data;
             Some (Some (ac, w2), wo_db w2) } } } }"

definition zs_open ::
    "('db, 'k) host \<Rightarrow> (bytes \<Rightarrow> bytes \<Rightarrow> nat \<Rightarrow> bytes) \<Rightarrow> bool \<Rightarrow> bool \<Rightarrow> bytes \<Rightarrow> 'db
     \<Rightarrow> ((account \<times> 'db world) option \<times> 'db) option" where
  "zs_open h kdf opened registered password db = do {
     r \<leftarrow> st_open (ho_fmt h) (ho_sq h 0 []) (ho_sc h) kdf opened registered password db;
     (wo, db1) \<leftarrow> with_tables h registered r;
     case wo of
       None \<Rightarrow> Some (None, db1)
     | Some w \<Rightarrow> do {
         (found, data, w1) \<leftarrow> us_getBlobObj h ''blob1'' DataNodeId [] w;
         ac \<leftarrow> (if found then account_of (ho_fmt h) data else Some account_none);
         Some (Some (ac, w1), wo_db w1) } }"

end
