(* ===== verification/Resource_Transfer.thy ===== *)
theory Resource_Transfer
  imports Crypto Stream_Receiver Store_Blob
begin

text \<open>
  \<^verbatim>\<open>src/message/resource.cpp\<close>, \<^verbatim>\<open>resourcesender.cpp\<close> and
  \<^verbatim>\<open>resourcereceiver.cpp\<close>: files that travel with messages.  A resource is an object
  with its data; the sender reads it chunk by chunk and encrypts each packet body in place, the
  receiver decrypts the body in place before it stores it.  The key schedule and counter mode
  are arguments, as in \<open>Crypto\<close>.
\<close>

section \<open>Resources\<close>

datatype res_kind = FileSystem | LocalStore | RemoteStore

record resource =
  res_obj :: "(string \<times> val) list"
  res_parts :: u32
  res_data :: "membuf option"

definition res_type_code :: "res_kind \<Rightarrow> u32" where
  "res_type_code t = (case t of FileSystem \<Rightarrow> 0 | LocalStore \<Rightarrow> 1 | RemoteStore \<Rightarrow> 2)"

definition res_create :: resource where
  "res_create = \<lparr>res_obj = [], res_parts = 0, res_data = None\<rparr>"

definition res_setField :: "string \<Rightarrow> val \<Rightarrow> resource \<Rightarrow> resource" where
  "res_setField k v r = r\<lparr>res_obj := obj_setField k v (res_obj r)\<rparr>"

definition res_setId :: "u32 \<Rightarrow> resource \<Rightarrow> resource" where
  "res_setId i = res_setField ''id'' (val_int32 i)"

definition res_setType :: "res_kind \<Rightarrow> resource \<Rightarrow> resource" where
  "res_setType t = res_setField ''type'' (val_int32 (res_type_code t))"

definition res_setName :: "string \<Rightarrow> resource \<Rightarrow> resource option" where
  "res_setName name r = do { v \<leftarrow> val_of_string name; Some (res_setField ''name'' v r) }"

definition res_open :: "resource \<Rightarrow> bool" where
  "res_open r = True"

definition res_close :: "resource \<Rightarrow> resource" where
  "res_close r = r"

definition res_id :: "resource \<Rightarrow> u32 option" where
  "res_id r = val_toInt (obj_get (res_obj r) ''id'')"

definition res_type :: "resource \<Rightarrow> u32 option" where
  "res_type r = val_toInt (obj_get (res_obj r) ''type'')"

definition res_name :: "(ubj_type \<Rightarrow> bytes \<Rightarrow> string) \<Rightarrow> resource \<Rightarrow> string option" where
  "res_name fmt r = val_toStr fmt (obj_get (res_obj r) ''name'')"

definition res_hash :: "(ubj_type \<Rightarrow> bytes \<Rightarrow> string) \<Rightarrow> resource \<Rightarrow> string option" where
  "res_hash fmt r = val_toStr fmt (obj_get (res_obj r) ''hash'')"

definition res_size :: "resource \<Rightarrow> u32" where
  "res_size r = (case res_data r of Some d \<Rightarrow> mb_size d | None \<Rightarrow> 0)"

text \<open>
  \<^verbatim>\<open>read(buf, size, offset)\<close>: the flag and the destination buffer afterwards.
\<close>

definition res_read ::
    "resource \<Rightarrow> membuf option \<Rightarrow> u32 \<Rightarrow> u32 \<Rightarrow> (bool \<times> membuf option) option" where
  "res_read r buf size' offset =
     (case (res_data r, buf) of
        (None, _) \<Rightarrow> Some (False, buf)
      | (Some _, None) \<Rightarrow> Some (False, None)
      | (Some m, Some b) \<Rightarrow>
          (if mb_size b < size' then Some (False, buf)
           else map_option (\<lambda>(ok, _, d). (ok, Some (b\<lparr>mb_data := d\<rparr>)))
                  (mb_read m (mb_data b) (if size' \<noteq> 0 then size' else mb_size b) offset)))"

definition res_readAll :: "resource \<Rightarrow> membuf option \<Rightarrow> (bool \<times> membuf option) option" where
  "res_readAll r buf = res_read r buf (res_size r) 0"

definition res_parts_of :: "u32 \<Rightarrow> u32" where
  "res_parts_of size' = size' div MAX_PACKET_BODY + (if size' mod MAX_PACKET_BODY \<noteq> 0 then 1 else 0)"

text \<open>
  \<^verbatim>\<open>FileSystemResource::init\<close>.  The file is its contents, \<^const>\<open>None\<close> when it cannot be
  opened; \<open>file_load\<close> is the loop that reads it in pieces of 4096 bytes into the chunk buffer,
  writes the piece into the resource's data and feeds it to the digest.  The data keep the size
  of the file modulo \<open>2 ^ 32\<close>, as \<^verbatim>\<open>uint32_t\<close> does.
\<close>

definition file_chunk :: "u32 \<Rightarrow> u32 \<Rightarrow> u32" where
  "file_chunk size' done' = (if size' - done' < 4096 then size' - done' else 4096)"

lemma file_chunk_less:
  assumes "done' < size'"
  shows "unat (file_chunk size' done') = min 4096 (unat size' - unat done')"
    and "unat (done' + file_chunk size' done') = unat done' + unat (file_chunk size' done')"
    and "0 < unat (file_chunk size' done')"
proof -
  from assms have d: "unat (size' - done') = unat size' - unat done'" and lt: "unat done' < unat size'"
    by (simp_all add: unat_sub word_less_nat_alt word_le_nat_alt)
  show c: "unat (file_chunk size' done') = min 4096 (unat size' - unat done')"
    by (simp add: file_chunk_def word_less_nat_alt d)
  with lt show "0 < unat (file_chunk size' done')" by simp
  show "unat (done' + file_chunk size' done') = unat done' + unat (file_chunk size' done')"
    using c lt unat_u32_less [of size'] by (simp add: unat_word_ariths)
qed

function file_load ::
    "'c hash \<Rightarrow> bytes \<Rightarrow> u32 \<Rightarrow> u32 \<Rightarrow> membuf \<Rightarrow> 'c digest \<Rightarrow> (membuf \<times> 'c digest) option" where
  "file_load h file size' done' m dg =
     (if done' < size' then
        let n = file_chunk size' done';
            piece = take (unat n) (drop (unat done') file)
        in case mb_write m (Some piece) n done' of
             None \<Rightarrow> None
           | Some (_, _, m') \<Rightarrow> file_load h file size' (done' + n) m' (dg_update h piece dg)
      else Some (m, dg))"
  by pat_completeness auto
termination
  by (relation "measure (\<lambda>(h, file, size', done', m, dg). unat size' - unat done')")
    (auto simp: file_chunk_less word_less_nat_alt intro!: diff_less_mono2)

declare file_load.simps [simp del]

definition fs_new :: "string \<Rightarrow> string \<Rightarrow> resource option" where
  "fs_new path name = do {
     p \<leftarrow> val_of_string path;
     n \<leftarrow> val_of_string name;
     Some (res_setField ''name'' n (res_setField ''path'' p (res_setType FileSystem res_create))) }"

text \<open>
  \<open>file\<close> is the contents of the file, \<^const>\<open>None\<close> when it cannot be opened; \<open>oks\<close> are the
  successes of the allocations of the data, of the chunk buffer and of the digest's result.
\<close>

definition fs_init ::
    "'c hash \<Rightarrow> bool \<times> bool \<times> bool \<Rightarrow> bytes option \<Rightarrow> string \<Rightarrow> resource \<Rightarrow> secmem option
     \<Rightarrow> (bool \<times> resource \<times> secmem option) option" where
  "fs_init h oks file path r inst =
     (case file of
        None \<Rightarrow> Some (False, r, inst)
      | Some bs \<Rightarrow>
          let size' = of_nat (length bs); (ok1, ok2, ok3) = oks
          in if size' = 0 then Some (False, r, inst)
             else do {
               mo \<leftarrow> mb_create ok1 None size';
               case mo of
                 None \<Rightarrow> Some (False, r, inst)
               | Some m \<Rightarrow> do {
                   let (dg, inst1) = dg_new h DIGEST_SHA256 inst;
                   _ \<leftarrow> Option.bind (mb_create ok2 None 4096) id;
                   (m1, dg1) \<leftarrow> file_load h bs size' 0 m dg;
                   (sum, dg2) \<leftarrow> dg_result h ok3 (digest_size DIGEST_SHA256) dg1;
                   hv \<leftarrow> Option.bind (hexStr_buffer sum) val_of_string;
                   pv \<leftarrow> val_of_string path;
                   inst2 \<leftarrow> dg_destroy dg2 inst1;
                   Some (True, (res_setField ''path'' pv (res_setField ''hash'' hv r))
                                 \<lparr>res_data := Some m1, res_parts := res_parts_of size'\<rparr>, inst2) } })"

definition fs_create ::
    "'c hash \<Rightarrow> bool \<times> bool \<times> bool \<Rightarrow> bytes option \<Rightarrow> string \<Rightarrow> string \<Rightarrow> secmem option
     \<Rightarrow> (resource option \<times> secmem option) option" where
  "fs_create h oks file path name inst = do {
     r0 \<leftarrow> fs_new path name;
     (r, res, inst') \<leftarrow> fs_init h oks file path r0 inst;
     Some (if r then Some res else None, inst') }"

text \<open>
  \<^verbatim>\<open>LocalStoreResource::init\<close>: the data of a row of the virtual tables \<^verbatim>\<open>resources\<close> or
  \<^verbatim>\<open>vfs\<close>, read from the blob the row names.
\<close>

definition ls_init ::
    "(ubj_type \<Rightarrow> bytes \<Rightarrow> string) \<Rightarrow> 'db sqlite \<Rightarrow> 'k store_cipher \<Rightarrow> bool \<Rightarrow> u32 \<Rightarrow> u32 \<Rightarrow> resource \<Rightarrow> 'db
     \<Rightarrow> (bool \<times> resource \<times> 'db) option" where
  "ls_init fmt sq sc ok nodeId resourceId r db = do {
     (found, db1) \<leftarrow>
       (if resourceId \<noteq> 0 then st_query_one fmt sq True ''resources'' [(''rowid'', val_int32 resourceId)] [] [] 0 db
        else st_query_one fmt sq True ''vfs'' [(''rowid'', val_int32 nodeId)] [] [] 0 db);
     case found of
       None \<Rightarrow> Some (False, r, db1)
     | Some data \<Rightarrow> do {
         b \<leftarrow> val_toInt (obj_get data ''data'');
         let blobId = (scast b :: u64);
         (info, db2) \<leftarrow> st_getBlobInfo fmt sq ''blob3'' blobId db1;
         if info = None then Some (False, r, db2)
         else do {
           blobSize \<leftarrow> val_toInt (obj_get data ''size'');
           (blob, db3) \<leftarrow> st_readBlob fmt sq sc ''blob3'' blobId db2;
           (filled, db4) \<leftarrow>
             (case blob of
                None \<Rightarrow> Some (None, db3)
              | Some bl \<Rightarrow> do {
                  mo \<leftarrow> mb_create ok None blobSize;
                  case mo of
                    None \<Rightarrow> Some (None, db3)
                  | Some m \<Rightarrow>
                      if mb_size m = 0 then Some (None, db3)
                      else do {
                        (d, _) \<leftarrow> blob_read sq sc blobSize 0 bl db3;
                        Some (map_option (\<lambda>x. m\<lparr>mb_data := Some x\<rparr>) d, db3) } });
           case filled of
             None \<Rightarrow> Some (False, r, db4)
           | Some m \<Rightarrow>
               Some (True, (res_setField ''hash'' (obj_get data ''hash'')
                             (res_setField ''name'' (obj_get data ''name'') r))
                             \<lparr>res_data := Some m, res_parts := res_parts_of blobSize\<rparr>, db4) } } }"

definition ls_create ::
    "(ubj_type \<Rightarrow> bytes \<Rightarrow> string) \<Rightarrow> 'db sqlite \<Rightarrow> 'k store_cipher \<Rightarrow> bool \<Rightarrow> u32 \<Rightarrow> u32 \<Rightarrow> 'db
     \<Rightarrow> (resource option \<times> 'db) option" where
  "ls_create fmt sq sc ok nodeId resourceId db =
     map_option (\<lambda>(r, res, db'). (if r then Some res else None, db'))
       (ls_init fmt sq sc ok nodeId resourceId (res_setType LocalStore res_create) db)"

section \<open>The sender\<close>

record 'k resource_sender = stream_sender +
  rs_res :: "resource option"
  rs_aes :: "'k aes"

definition rs_new :: "'k aes \<Rightarrow> resource option \<Rightarrow> 'k resource_sender" where
  "rs_new a0 res =
     \<lparr>ss_id = 0, ss_type = ST_Resource, ss_status = SS_Idle, ss_size = 0, ss_part = 0, ss_parts = 0,
      ss_body = None, rs_res = res, rs_aes = a0\<rparr>"

definition rs_init ::
    "(bytes \<Rightarrow> 'k) \<Rightarrow> bool \<Rightarrow> membuf option \<Rightarrow> membuf option \<Rightarrow> 'k resource_sender
     \<Rightarrow> (bool \<times> 'k resource_sender) option" where
  "rs_init sched ok key salt s =
     (case rs_res s of
        None \<Rightarrow> Some (False, s)
      | Some r \<Rightarrow>
          if \<not> res_open r then Some (False, s)
          else if key = None \<or> salt = None then Some (False, s)
          else do {
            (started, s1) \<leftarrow> ss_init ok (res_size r) s;
            if \<not> started then Some (False, s1)
            else do {
              i \<leftarrow> res_id r;
              a1 \<leftarrow> aes_setKey sched key (rs_aes s1);
              a2 \<leftarrow> aes_setCtr salt a1;
              Some (True, s1\<lparr>ss_id := i, rs_aes := a2\<rparr>) } })"

definition rs_create ::
    "(bytes \<Rightarrow> 'k) \<Rightarrow> 'k aes \<Rightarrow> bool \<Rightarrow> resource option \<Rightarrow> membuf option \<Rightarrow> membuf option
     \<Rightarrow> 'k resource_sender option option" where
  "rs_create sched a0 ok res key salt =
     map_option (\<lambda>(r, s). if r then Some s else None) (rs_init sched ok key salt (rs_new a0 res))"

definition rs_prepare ::
    "'k resource_sender \<Rightarrow> packet \<Rightarrow> u32 \<Rightarrow> u32 \<Rightarrow> (bool \<times> packet option \<times> 'k resource_sender) option" where
  "rs_prepare s p bytesToSend bytesSent = do {
     let p1 = ss_prepare_head s p;
     r \<leftarrow> rs_res s;
     (ok, body) \<leftarrow> res_read r (ss_body s) bytesToSend bytesSent;
     let s1 = s\<lparr>ss_body := body\<rparr>;
     Some (if \<not> ok then (False, Some p1, s1)
           else (True, Some (pkt_setBody body bytesToSend p1), s1)) }"

text \<open>
  \<^verbatim>\<open>processPacket\<close>: the body is the buffer \<^verbatim>\<open>m_body\<close> of the sender, encrypted in place; a chunk
  is read before it is overwritten and never again, so the source of the cipher is the body as
  it was.
\<close>

definition rs_process_packet ::
    "'k ctr_crypt \<Rightarrow> 'k resource_sender \<Rightarrow> packet \<Rightarrow> (bool \<times> packet \<times> 'k resource_sender) option" where
  "rs_process_packet crypt s p =
     (if pkt_bodySize p \<noteq> 0 then do {
        b \<leftarrow> p_body p;
        d \<leftarrow> mb_data b;
        (r, a, dst, _) \<leftarrow> aes_encrypt crypt True (None :: unit aes_callback option) d (Some d) (pkt_bodySize p)
                            (rs_aes s) ();
        let body = Some (b\<lparr>mb_data := dst\<rparr>);
        Some (r, p\<lparr>p_body := body\<rparr>, s\<lparr>rs_aes := a, ss_body := body\<rparr>) }
      else Some (True, p, s))"

definition rs_process ::
    "'k ctr_crypt \<Rightarrow> 'k resource_sender
     \<Rightarrow> (bool \<times> packet option \<times> 'k resource_sender \<times> bool) option" where
  "rs_process crypt = ss_process rs_prepare (rs_process_packet crypt)"

text \<open>Calling \<open>process\<close> until the sender is completed or fails.\<close>

fun rs_run ::
    "'k ctr_crypt \<Rightarrow> nat \<Rightarrow> 'k resource_sender \<Rightarrow> (packet list \<times> 'k resource_sender) option" where
  "rs_run crypt 0 s = None"
| "rs_run crypt (Suc fuel) s =
     (case rs_process crypt s of
        None \<Rightarrow> None
      | Some (False, _, s', _) \<Rightarrow> Some ([], s')
      | Some (True, p, s', _) \<Rightarrow>
          (let ps = (case p of None \<Rightarrow> [] | Some q \<Rightarrow> [q])
           in if ss_status s' = SS_Completed then Some (ps, s')
              else map_option (\<lambda>(qs, t). (ps @ qs, t)) (rs_run crypt fuel s')))"

section \<open>The receiver\<close>

record 'k resource_receiver = buffer_receiver +
  rr_aes :: "'k aes"

definition rr_new :: "'k aes \<Rightarrow> 'k resource_receiver" where
  "rr_new a0 =
     \<lparr>sr_id = 0, sr_type = ST_Undefined, sr_status = SR_Idle, sr_part = 0, sr_parts = 0,
      br_buffer = None, br_bytesReceived = 0, rr_aes = a0\<rparr>"

definition rr_init ::
    "(bytes \<Rightarrow> 'k) \<Rightarrow> bool \<Rightarrow> packet \<Rightarrow> membuf option \<Rightarrow> membuf option \<Rightarrow> 'k resource_receiver
     \<Rightarrow> (bool \<times> 'k resource_receiver) option" where
  "rr_init sched ok p key salt r =
     (if key = None \<or> salt = None then Some (False, r)
      else do {
        (started, r1) \<leftarrow> br_init ok p None r;
        if \<not> started then Some (False, r1)
        else do {
          a1 \<leftarrow> aes_setKey sched key (rr_aes r1);
          a2 \<leftarrow> aes_setCtr salt a1;
          Some (True, r1\<lparr>rr_aes := a2\<rparr>) } })"

definition rr_create ::
    "(bytes \<Rightarrow> 'k) \<Rightarrow> 'k aes \<Rightarrow> bool \<Rightarrow> packet \<Rightarrow> membuf option \<Rightarrow> membuf option
     \<Rightarrow> 'k resource_receiver option option" where
  "rr_create sched a0 ok p key salt =
     map_option (\<lambda>(r, s). if r then Some s else None) (rr_init sched ok p key salt (rr_new a0))"

text \<open>The body of the packet is decrypted in place, then the buffer receiver stores it.\<close>

definition rr_process_packet ::
    "'k ctr_crypt \<Rightarrow> 'k resource_receiver \<Rightarrow> packet \<Rightarrow> (bool \<times> 'k resource_receiver) option" where
  "rr_process_packet crypt r p = do {
     (ok, p1, r1) \<leftarrow>
       (if pkt_bodySize p \<noteq> 0 then do {
          b \<leftarrow> p_body p;
          d \<leftarrow> mb_data b;
          (ok, a, dst, _) \<leftarrow> aes_decrypt crypt True (None :: unit aes_callback option) d (Some d) (pkt_bodySize p)
                               (rr_aes r) ();
          Some (ok, p\<lparr>p_body := Some (b\<lparr>mb_data := dst\<rparr>)\<rparr>, r\<lparr>rr_aes := a\<rparr>) }
        else Some (True, p, r));
     if \<not> ok then Some (False, r1) else br_process_packet r1 p1 }"

definition rr_process ::
    "'k ctr_crypt \<Rightarrow> 'k resource_receiver \<Rightarrow> packet \<Rightarrow> (bool \<times> 'k resource_receiver \<times> bool) option" where
  "rr_process crypt = sr_process (rr_process_packet crypt)"

primrec rr_run ::
    "'k ctr_crypt \<Rightarrow> 'k resource_receiver \<Rightarrow> packet list \<Rightarrow> (bool \<times> 'k resource_receiver) option" where
  "rr_run crypt r [] = Some (True, r)"
| "rr_run crypt r (p # ps) =
     (case rr_process crypt r p of
        None \<Rightarrow> None
      | Some (False, r', _) \<Rightarrow> Some (False, r')
      | Some (True, r', _) \<Rightarrow> rr_run crypt r' ps)"

section \<open>Loading a file\<close>

text \<open>What nettle documents of hashing in pieces.\<close>

definition hash_laws :: "'c hash \<Rightarrow> bool" where
  "hash_laws h \<longleftrightarrow>
     (\<forall>t c. h_update h t [] c = c) \<and> (\<forall>t a b c. h_update h t (a @ b) c = h_update h t b (h_update h t a c))"

lemma dg_update_split:
  "hash_laws h \<Longrightarrow> dg_update h b (dg_update h a dg) = dg_update h (a @ b) dg"
  by (cases dg; cases "dg_ctx dg") (auto simp: hash_laws_def dg_update_def)

lemma dg_update_Nil: "hash_laws h \<Longrightarrow> dg_update h [] dg = dg"
  by (cases dg; cases "dg_ctx dg") (auto simp: hash_laws_def dg_update_def)

lemma file_load_whole:
  assumes "hash_laws h" and "length file = unat size'"
  shows "mb_inv m \<Longrightarrow> mb_size m = size' \<Longrightarrow> done' \<le> size' \<Longrightarrow>
    take (unat done') (mb_bytes m) = take (unat done') file \<Longrightarrow>
    file_load h file size' done' m dg =
      Some (m\<lparr>mb_data := Some (if done' < size' then file else mb_bytes m)\<rparr>,
            dg_update h (drop (unat done') file) dg) \<or> mb_data m = None"
proof (induction "unat size' - unat done'" arbitrary: done' m dg rule: less_induct)
  case less
  show ?case
  proof (cases "done' < size'")
    case False
    with less.prems(3) have "done' = size'" by simp
    then show ?thesis using assms dg_update_Nil [OF assms(1)]
      by (cases m; cases "mb_data m") (auto simp: file_load.simps mb_bytes_def)
  next
    case True
    define n where "n = file_chunk size' done'"
    note ch = file_chunk_less [OF True, folded n_def]
    define piece where "piece = take (unat n) (drop (unat done') file)"
    have lt: "unat done' < unat size'" using True by (simp add: word_less_nat_alt)
    have lp: "length piece = unat n" using ch(1) assms(2) lt by (simp add: piece_def)
    have len: "length (mb_bytes m) = unat size'" using mb_inv_length [OF less.prems(1)] less.prems(2) by simp
    then have ne: "mb_bytes m \<noteq> []" using lt by auto
    have fits: "min (unat n) (length (mb_bytes m) - unat done') = unat n" using ch(1) len by simp
    obtain m' where w: "mb_write m (Some piece) n done' = Some (True, Some (of_nat (unat n)), m')"
      and m': "mb_inv m'" "mb_size m' = mb_size m"
        "mb_bytes m' = take (unat done') (mb_bytes m) @ piece @ drop (unat done' + unat n) (mb_bytes m)"
      using mb_write_ok [OF less.prems(1) ne, of n piece done'] lp unfolding fits by (auto simp: Let_def)
    have le: "unat done' + unat n \<le> unat size'" using ch(1) lt by simp
    have pre: "take (unat (done' + n)) (mb_bytes m') = take (unat (done' + n)) file"
      using m'(3) len lt lp ch(2) less.prems(4) le assms(2) by (simp add: piece_def take_add)
    have "mb_bytes m' \<noteq> []" using m'(3) lp ch(3) by auto
    then have "mb_data m' \<noteq> None" by (auto simp: mb_bytes_def split: option.splits)
    moreover have "done' + n \<le> size'" using ch(2) le by (simp add: word_le_nat_alt)
    moreover have "unat size' - unat (done' + n) < unat size' - unat done'" using ch lt by simp
    ultimately have rec: "file_load h file size' (done' + n) m' (dg_update h piece dg) =
        Some (m'\<lparr>mb_data := Some (if done' + n < size' then file else mb_bytes m')\<rparr>,
          dg_update h (drop (unat (done' + n)) file) (dg_update h piece dg))"
      using less.hyps [of "done' + n" m' "dg_update h piece dg"] m' pre less.prems(2) by auto
    have "mb_bytes m' = file" if "\<not> done' + n < size'"
    proof -
      from that \<open>done' + n \<le> size'\<close> have "unat (done' + n) = unat size'" by simp
      moreover have "length (mb_bytes m') = unat size'"
        using mb_inv_length [OF m'(1)] m'(2) less.prems(2) by simp
      ultimately show ?thesis using pre assms(2) by simp
    qed
    moreover have "piece @ drop (unat (done' + n)) file = drop (unat done') file"
      unfolding piece_def ch(2) by (metis add.commute append_take_drop_id drop_drop)
    ultimately have "file_load h file size' done' m dg =
        Some (m'\<lparr>mb_data := Some file\<rparr>, dg_update h (drop (unat done') file) dg)"
      using True w rec
      by (subst file_load.simps)
        (simp add: Let_def dg_update_split [OF assms(1)] flip: n_def piece_def)
    moreover have "m'\<lparr>mb_data := Some file\<rparr> = m\<lparr>mb_data := Some file\<rparr>"
      using m'(2) by (cases m; cases m') simp
    ultimately show ?thesis using True by simp
  qed
qed

text \<open>
  A resource made from a file holds the file, its size in parts and the hexadecimal SHA-256 of
  its contents.
\<close>

lemma res_parts_of_nat:
  assumes "L < 2 ^ 32"
  shows "res_parts_of (of_nat L) = of_nat (n_chunks L)"
proof -
  have u: "unat (of_nat L :: u32) = L" by (rule unat_of_nat_u32 [OF assms])
  have "(of_nat L :: u32) div MAX_PACKET_BODY = of_nat (L div BODY)"
    by (rule of_nat_eq_wordI [symmetric])
      (simp add: MAX_PACKET_BODY_def unat_div u del: unat_of_nat_u32)
  moreover have "(of_nat L :: u32) mod MAX_PACKET_BODY \<noteq> 0 \<longleftrightarrow> L mod BODY \<noteq> 0"
    by (simp add: MAX_PACKET_BODY_def unat_mod u flip: unat_eq_zero del: unat_of_nat_u32)
  ultimately show ?thesis
    unfolding res_parts_of_def n_chunks_def ceiling_div [of BODY L, OF zero_less_numeral] by simp
qed

lemma fs_create_whole:
  assumes "hash_laws h" and "file \<noteq> []" and "length file < 2 ^ 32" and "sm_getLockedSize inst = 0"
    and "length (pure_digest h DIGEST_SHA256 file) = 32"
    and "fs_new path name = Some r0"
  shows "\<exists>r hv. fs_create h (True, True, True) (Some file) path name inst = Some (Some r, inst)
    \<and> res_data r = Some \<lparr>mb_data = Some file, mb_size = of_nat (length file)\<rparr>
    \<and> res_parts r = of_nat (n_chunks (length file))
    \<and> val_of_string (concat (map hex_byte (pure_digest h DIGEST_SHA256 file))) = Some hv
    \<and> obj_get (res_obj r) ''hash'' = hv"
proof -
  let ?n = "of_nat (length file) :: u32"
  have u: "unat ?n = length file" by (rule unat_of_nat_u32 [OF assms(3)])
  then have nz: "?n \<noteq> 0" "?n > 0" using assms(2) by (auto simp: unat_eq_zero word_gt_0)
  let ?m = "\<lparr>mb_data = Some (replicate (unat ?n) 0), mb_size = ?n\<rparr> :: membuf"
  have load: "file_load h file ?n 0 ?m dg = Some (?m\<lparr>mb_data := Some file\<rparr>, dg_update h file dg)" for dg
    using file_load_whole [OF assms(1) u [symmetric], of ?m 0 dg] nz by (auto simp: mb_inv_def)
  let ?out = "pure_digest h DIGEST_SHA256 file"
  obtain hv where hv: "val_of_string (concat (map hex_byte ?out)) = Some hv"
    using val_of_string_total by blast
  obtain pv where pv: "val_of_string path = Some pv" using val_of_string_total by blast
  have zero: "mb_create True None (of_nat (length file)) = Some (Some ?m)" by (rule mb_create_zero)
  have hex: "hexStr_buffer (Some \<lparr>mb_data = Some ?out, mb_size = 32\<rparr>) = Some (concat (map hex_byte ?out))"
    using assms(5) by (auto simp: hexStr_buffer_def hexStr_def)
  have sum: "dg_result h True 32 (dg_update h file \<lparr>dg_type = DIGEST_SHA256, dg_ctx = Some (h_init h DIGEST_SHA256, None)\<rparr>)
      = Some (Some \<lparr>mb_data = Some ?out, mb_size = 32\<rparr>,
          \<lparr>dg_type = DIGEST_SHA256, dg_ctx = Some (snd (h_digest h DIGEST_SHA256 32
             (h_update h DIGEST_SHA256 file (h_init h DIGEST_SHA256))), None)\<rparr>)"
    using assms(5) by (auto simp: dg_result_def dg_update_def mb_create_zero dg_result_into_def
        pure_digest_def digest_size_def split: prod.splits)
  have "fs_create h (True, True, True) (Some file) path name inst =
    Some (Some ((res_setField ''path'' pv (res_setField ''hash'' hv r0))
      \<lparr>res_data := Some \<lparr>mb_data = Some file, mb_size = ?n\<rparr>, res_parts := res_parts_of ?n\<rparr>), inst)"
    using assms(4) nz
    by (simp add: fs_create_def assms(6) fs_init_def Let_def zero dg_new_def mb_create_zero [of 4096] load
        digest_size_def sum hex hv pv dg_destroy_def)
  then show ?thesis
    using hv res_parts_of_nat [OF assms(3)]
    by (simp add: res_setField_def obj_get_setField)
qed

section \<open>The stream of the ciphertext\<close>

text \<open>
  The ciphertext of the whole data, and the counter in front of packet \<open>j\<close>: packets are whole
  cipher blocks, so encrypting packet by packet is encrypting the data.
\<close>

definition cipher :: "'k ctr_crypt \<Rightarrow> 'k \<Rightarrow> bytes \<Rightarrow> bytes \<Rightarrow> bytes" where
  "cipher crypt k salt c = fst (crypt k salt c)"

definition ctr_at :: "'k ctr_crypt \<Rightarrow> 'k \<Rightarrow> bytes \<Rightarrow> bytes \<Rightarrow> nat \<Rightarrow> bytes" where
  "ctr_at crypt k salt c j = snd (crypt k salt (take (j * BODY) c))"

lemma length_cipher [simp]: "ctr_laws crypt \<Longrightarrow> length (cipher crypt k salt c) = length c"
  by (simp add: cipher_def ctr_laws_def)

lemma cipher_inverse: "ctr_laws crypt \<Longrightarrow> cipher crypt k salt (cipher crypt k salt c) = c"
  by (simp add: cipher_def ctr_laws_def)

lemma ctr_at_0: "ctr_laws crypt \<Longrightarrow> ctr_at crypt k salt c 0 = salt"
  by (simp add: ctr_at_def ctr_laws_def)

lemma ctr_at_cong:
  "ctr_laws crypt \<Longrightarrow> length c = length d \<Longrightarrow> ctr_at crypt k salt c j = ctr_at crypt k salt d j"
  by (simp add: ctr_at_def ctr_laws_def)

lemma crypt_chunk:
  assumes "ctr_laws crypt" and "j * BODY \<le> length c"
  shows "crypt k (ctr_at crypt k salt c j) (chunk c j) =
    (chunk (cipher crypt k salt c) j, ctr_at crypt k salt c (Suc j))"
proof -
  let ?a = "take (j * BODY) c" and ?b = "chunk c j" and ?r = "drop (Suc j * BODY) c"
  obtain a c1 where a: "crypt k salt ?a = (a, c1)" by fastforce
  obtain b c2 where b: "crypt k c1 ?b = (b, c2)" by fastforce
  have la: "length a = j * BODY" and lb: "length b = length ?b"
    using ctr_law_length [OF assms(1) a] ctr_law_length [OF assms(1) b] assms(2) by simp_all
  have m: "length ?a mod 16 = 0" using assms(2) by simp
  have ab: "crypt k salt (?a @ ?b) = (a @ b, c2)" by (rule ctr_law_split [OF assms(1) m a b])
  then have next': "ctr_at crypt k salt c (Suc j) = c2"
    by (simp only: ctr_at_def chunk_append snd_conv)
  have "b = chunk (cipher crypt k salt c) j"
  proof (cases "Suc j * BODY \<le> length c")
    case True
    have "length (?a @ ?b) mod 16 = 0" using True by (simp add: length_chunk)
    moreover obtain r c3 where r: "crypt k c2 ?r = (r, c3)" by fastforce
    ultimately have "crypt k salt ((?a @ ?b) @ ?r) = ((a @ b) @ r, c3)"
      by (intro ctr_law_split [OF assms(1) _ ab])
    moreover have "(?a @ ?b) @ ?r = c" by (simp only: chunk_append append_take_drop_id)
    moreover have "length b = BODY" using True lb by (simp add: length_chunk)
    ultimately show ?thesis by (simp add: cipher_def chunk_def la)
  next
    case False
    then have "?a @ ?b = c" by (simp only: chunk_append) simp
    moreover have "length b \<le> BODY" using lb by (simp add: length_chunk)
    ultimately show ?thesis using ab by (simp add: cipher_def chunk_def la)
  qed
  with a b next' show ?thesis by (simp add: ctr_at_def)
qed

text \<open>Encrypting or decrypting the body of a packet of the stream in place.\<close>

lemma aes_body:
  assumes "ctr_laws crypt" and "j < n_chunks (length c)" and "length c < 2 ^ 32"
    and "aes_key a = k" and "aes_ctr a = ctr_at crypt k salt c j"
  shows "aes_crypt crypt True (None :: unit aes_callback option)
      (chunk c j @ z) (Some (chunk c j @ z)) (of_nat (length (chunk c j))) a () =
    Some (True, a\<lparr>aes_ctr := ctr_at crypt k salt c (Suc j)\<rparr>, Some (chunk (cipher crypt k salt c) j @ z), ())"
proof -
  have jL: "j * BODY < length c" using assms(2) by (simp add: n_chunks_less)
  then have u: "unat (of_nat (length (chunk c j)) :: u32) = length (chunk c j)"
    using assms(3) by (intro unat_of_nat_u32) (simp add: length_chunk)
  have "length (chunk (cipher crypt k salt c) j) = length (chunk c j)"
    using assms(1) by (simp add: length_chunk)
  then show ?thesis
    using aes_crypt_whole [OF assms(1) _ cb_keeps_None [of _ "()"], of "of_nat (length (chunk c j))"
        "chunk c j @ z" "Some (chunk c j @ z)" True a] crypt_chunk [OF assms(1), of j c k salt] jL assms(4,5)
    by (simp add: u)
qed

section \<open>Sending and receiving\<close>

text \<open>The sender that has handed out \<open>j\<close> packets of the resource with the contents \<open>c\<close>.\<close>

definition rs_at ::
    "'k ctr_crypt \<Rightarrow> 'k \<Rightarrow> bytes \<Rightarrow> u32 \<Rightarrow> membuf \<Rightarrow> nat \<Rightarrow> 'k resource_sender \<Rightarrow> bool" where
  "rs_at crypt k salt i m j s \<longleftrightarrow>
     ss_id s = i \<and> ss_type s = ST_Resource \<and> ss_size s = of_nat (length (mb_bytes m))
     \<and> ss_part s = of_nat j \<and> ss_parts s = of_nat (n_chunks (length (mb_bytes m)))
     \<and> ss_status s = (if j = n_chunks (length (mb_bytes m)) then SS_Completed else SS_Idle)
     \<and> (\<exists>r. rs_res s = Some r \<and> res_data r = Some m)
     \<and> aes_key (rs_aes s) = k \<and> aes_ctr (rs_aes s) = ctr_at crypt k salt (mb_bytes m) j
     \<and> (\<exists>b. ss_body s = Some b \<and> mb_inv b \<and> mb_size b = MAX_PACKET_BODY)"

lemma rs_create_at:
  assumes "ctr_laws crypt" and "mb_inv m" and "mb_bytes m \<noteq> []" and "res_data r = Some m"
    and "res_id r = Some i" and "length salt = 16" and "32 \<le> length key"
  shows "\<exists>s. rs_create sched a0 True (Some r) (Some \<lparr>mb_data = Some key, mb_size = n1\<rparr>)
        (Some \<lparr>mb_data = Some salt, mb_size = n2\<rparr>) = Some (Some s)
    \<and> rs_at crypt (sched (take 32 key)) salt i m 0 s"
proof -
  let ?L = "length (mb_bytes m)"
  have L: "0 < ?L" "?L < 2 ^ 32" using assms(2,3) mb.length_less by auto
  have sz: "mb_size m = of_nat ?L" using mb_inv_length [OF assms(2)] by (metis of_nat_eq_wordI)
  then have nz: "res_size r \<noteq> 0" "res_size r = of_nat ?L"
    using L assms(4) mb_inv_length [OF assms(2)] by (auto simp: res_size_def)
  then show ?thesis
    using L assms ss_parts_of_nat [OF L]
    by (auto simp: rs_create_def rs_init_def rs_new_def ss_init_def mb_create_zero rs_at_def res_open_def
        mb_inv_def Let_def aes_setKey_def aes_setCtr_def ctr_at_0)
qed

lemma rs_process_step:
  assumes "ctr_laws crypt" and m: "mb_inv m" and at: "rs_at crypt k salt i m j s"
    and j: "j < n_chunks (length (mb_bytes m))"
  shows "\<exists>s'. rs_process crypt s =
      Some (True, Some (stream_packet i ST_Resource (cipher crypt k salt (mb_bytes m)) j), s',
            j + 1 = n_chunks (length (mb_bytes m)))
     \<and> rs_at crypt k salt i m (j + 1) s'"
proof -
  let ?c = "mb_bytes m" let ?L = "length ?c" let ?n = "n_chunks ?L"
  let ?d = "cipher crypt k salt ?c" let ?len = "min BODY (?L - j * BODY)"
  let ?z = "replicate (BODY - length (chunk ?c j)) (0 :: byte)"
  let ?p = "stream_packet i ST_Resource"
  have L: "?L < 2 ^ 32" by (rule mb.length_less [OF m])
  have jL: "j * BODY < ?L" using j by (simp add: n_chunks_less)
  have len: "length (chunk ?c j) = ?len" "length (chunk ?d j) = ?len"
    using assms(1) by (simp_all add: length_chunk)
  have u: "unat (of_nat ?len :: u32) = ?len" "unat (of_nat (j * BODY) :: u32) = j * BODY"
  proof -
    have "?len < 2 ^ 32" "j * BODY < 2 ^ 32" using L jL by linarith+
    then show "unat (of_nat ?len :: u32) = ?len" "unat (of_nat (j * BODY) :: u32) = j * BODY"
      by (simp_all only: unat_of_nat_u32)
  qed
  have "0 < ?len" using jL by simp
  then have len0: "(of_nat ?len :: u32) \<noteq> 0" using u(1) by (metis unat_0 less_irrefl)
  from at obtain b r where b: "ss_body s = Some b" "mb_inv b" "mb_size b = MAX_PACKET_BODY"
    and r: "rs_res s = Some r" "res_data r = Some m" by (auto simp: rs_at_def)
  let ?b1 = "\<lparr>mb_data = Some (chunk ?c j @ ?z), mb_size = MAX_PACKET_BODY\<rparr> :: membuf"
  let ?b2 = "\<lparr>mb_data = Some (chunk ?d j @ ?z), mb_size = MAX_PACKET_BODY\<rparr> :: membuf"
  have read: "res_read r (Some (mb_clear b)) (of_nat ?len) (of_nat (j * BODY)) = Some (True, Some ?b1)"
  proof -
    have "take ?len (drop (j * BODY) ?c) = chunk ?c j" by (simp add: chunk_def min_def)
    moreover have "drop ?len (replicate BODY (0::byte)) = ?z" by (simp only: drop_replicate len)
    moreover have "\<not> MAX_PACKET_BODY < (of_nat ?len :: u32)"
      unfolding word_less_nat_alt u by simp
    moreover have "?len \<le> length (replicate BODY (0::byte))" and "j * BODY + ?len \<le> ?L" using jL by auto
    ultimately show ?thesis
      using mb.read_inside [OF m, of "of_nat ?len" "replicate BODY 0" "of_nat (j * BODY)"] len0 r(2)
      unfolding u by (simp add: res_read_def mb_clear_full [OF b(2,3)])
  qed
  have prep: "rs_prepare (s\<lparr>ss_body := Some (mb_clear b)\<rparr>) (pkt_create 0) (of_nat ?len) (of_nat (j * BODY)) =
      Some (True, Some (?p ?c j), s\<lparr>ss_body := Some ?b1\<rparr>)"
    using read len0 at r(1)
    by (simp add: rs_prepare_def Let_def rs_at_def ss_prepare_head_def pkt_setters pkt_create_def
        stream_packet_def length_chunk del: of_nat_mult of_nat_min of_nat_diff)
  let ?s2 = "s\<lparr>ss_body := Some ?b2, rs_aes := (rs_aes s)\<lparr>aes_ctr := ctr_at crypt k salt ?c (Suc j)\<rparr>\<rparr>"
  have proc: "rs_process_packet crypt (s\<lparr>ss_body := Some ?b1\<rparr>) (?p ?c j) = Some (True, ?p ?d j, ?s2)"
  proof -
    have ld: "length (chunk ?d j) = length (chunk ?c j)" by (simp only: len)
    have nz: "(of_nat (length (chunk ?c j)) :: u32) \<noteq> 0" unfolding len by (rule len0)
    have k: "aes_key (rs_aes s) = k" "aes_ctr (rs_aes s) = ctr_at crypt k salt ?c j"
      using at by (simp_all add: rs_at_def)
    show ?thesis
      using nz by (simp add: rs_process_packet_def stream_packet_def pkt_getters aes_encrypt_def assms(1) ld Let_def
          aes_body [OF assms(1) j L k])
  qed
  have sizes: "ss_size s = of_nat ?L" "ss_part s = of_nat j" "ss_parts s = of_nat ?n"
    using at by (simp_all add: rs_at_def)
  let ?s3 = "if j + 1 = ?n then ?s2\<lparr>ss_part := of_nat (j + 1), ss_status := SS_Completed\<rparr>
    else ?s2\<lparr>ss_part := of_nat (j + 1)\<rparr>"
  have "rs_process crypt s = Some (True, Some (?p ?d j), ?s3, j + 1 = ?n)"
    unfolding rs_process_def
    by (rule ss_process_ok [where prepare = rs_prepare and procpkt = "rs_process_packet crypt",
          OF L j b(1) sizes(1,2) prep proc]) (simp_all add: sizes)
  moreover have "rs_at crypt k salt i m (j + 1) ?s3"
    using at j r len by (auto simp: rs_at_def mb_inv_def simp flip: of_nat_Suc)
  ultimately show ?thesis by blast
qed

text \<open>
  The receiver that has taken \<open>j\<close> packets of the ciphertext stands like the plain receiver that
  has taken \<open>j\<close> packets of the data.
\<close>

definition rr_at ::
    "'k ctr_crypt \<Rightarrow> 'k \<Rightarrow> bytes \<Rightarrow> u32 \<Rightarrow> bytes \<Rightarrow> nat \<Rightarrow> 'k resource_receiver \<Rightarrow> bool" where
  "rr_at crypt k salt i c j r \<longleftrightarrow>
     br_at i ST_Resource c j r \<and> aes_key (rr_aes r) = k \<and> aes_ctr (rr_aes r) = ctr_at crypt k salt c j"

lemma rr_process_packet_plain:
  assumes "ctr_laws crypt" and "rr_at crypt k salt i c j r" and "j < n_chunks (length c)"
    and "n_chunks (length c) < BODY"
  shows "rr_process_packet crypt r (stream_packet i ST_Resource (cipher crypt k salt c) j) =
    br_process_packet (r\<lparr>rr_aes := (rr_aes r)\<lparr>aes_ctr := ctr_at crypt k salt c (Suc j)\<rparr>\<rparr>)
      (stream_packet i ST_Resource c j)"
proof -
  let ?d = "cipher crypt k salt c"
  have len: "length ?d = length c" using assms(1) by simp
  have "n_chunks (length c) * BODY < 2 ^ 32" using assms(4) by simp
  then have L: "length c < 2 ^ 32" using n_chunks_covers [of "length c"] by linarith
  have jL: "j * BODY < length c" using assms(3) by (simp add: n_chunks_less)
  have chunks: "length (chunk ?d j) = length (chunk c j)" using len by (simp add: length_chunk)
  have "unat (of_nat (length (chunk c j)) :: u32) = length (chunk c j)"
    using L by (intro unat_of_nat_u32) (simp add: length_chunk)
  moreover have "0 < length (chunk c j)" using jL by (simp add: length_chunk)
  ultimately have ne: "(of_nat (length (chunk c j)) :: u32) \<noteq> 0" by (metis unat_0 less_irrefl)
  have "aes_crypt crypt True (None :: unit aes_callback option) (chunk ?d j @ z) (Some (chunk ?d j @ z))
      (of_nat (length (chunk ?d j))) (rr_aes r) () =
    Some (True, (rr_aes r)\<lparr>aes_ctr := ctr_at crypt k salt c (Suc j)\<rparr>, Some (chunk c j @ z), ())" for z
    using aes_body [OF assms(1), of j ?d "rr_aes r" k salt z] assms(2,3) L len
      ctr_at_cong [OF assms(1) len] by (simp add: rr_at_def cipher_inverse [OF assms(1)])
  then show ?thesis
    using ne by (simp add: rr_process_packet_def stream_packet_def pkt_getters aes_decrypt_def chunks len)
qed

lemma sr_process_cong:
  assumes "pkt_part p = pkt_part q" and "sr_part r = sr_part r1" and "f r p = g r1 q"
    and "sr_process g r1 q = Some (True, x)"
  shows "sr_process f r p = Some (True, x)"
  using assms(4) unfolding sr_process_def assms(1-3) by (simp split: if_splits)

lemma rr_process_step:
  assumes "ctr_laws crypt" and at: "rr_at crypt k salt i c j r" and j: "j < n_chunks (length c)"
    and n: "n_chunks (length c) < BODY"
  shows "\<exists>r'. rr_process crypt r (stream_packet i ST_Resource (cipher crypt k salt c) j) =
      Some (True, r', j + 1 = n_chunks (length c))
    \<and> rr_at crypt k salt i c (j + 1) r'"
proof -
  let ?r1 = "r\<lparr>rr_aes := (rr_aes r)\<lparr>aes_ctr := ctr_at crypt k salt c (Suc j)\<rparr>\<rparr>"
  have "br_at i ST_Resource c j ?r1" using at by (simp add: rr_at_def br_at_def)
  from br_process_step [OF this j n] obtain r' where
    r': "br_process ?r1 (stream_packet i ST_Resource c j) = Some (True, r', j + 1 = n_chunks (length c))"
    "br_at i ST_Resource c (j + 1) r'" by blast
  have "rr_aes r' = rr_aes ?r1"
    using r'(1) by (auto simp: br_process_def sr_process_def br_process_packet_def sr_process_packet_def
        Let_def split: if_splits bind_splits option.splits)
  with r'(2) at have "rr_at crypt k salt i c (j + 1) r'" by (simp add: rr_at_def)
  moreover have part: "pkt_part (stream_packet i ST_Resource (cipher crypt k salt c) j) =
      pkt_part (stream_packet i ST_Resource c j)"
    by (simp add: stream_packet_def pkt_getters)
  have "rr_process crypt r (stream_packet i ST_Resource (cipher crypt k salt c) j) =
      Some (True, r', j + 1 = n_chunks (length c))"
    unfolding rr_process_def
  proof (rule sr_process_cong [OF part])
    show "rr_process_packet crypt r (stream_packet i ST_Resource (cipher crypt k salt c) j) =
        br_process_packet ?r1 (stream_packet i ST_Resource c j)"
      by (rule rr_process_packet_plain [OF assms(1) at j n])
  qed (use r'(1) in \<open>simp_all add: br_process_def\<close>)
  ultimately show ?thesis by blast
qed

lemma rr_create_at:
  assumes "ctr_laws crypt" and "c \<noteq> []" and "n_chunks (length c) < BODY"
    and "length salt = 16" and "32 \<le> length key"
  shows "\<exists>r. rr_create sched a0 True (stream_packet i ST_Resource (cipher crypt k' salt c) 0)
        (Some \<lparr>mb_data = Some key, mb_size = n1\<rparr>) (Some \<lparr>mb_data = Some salt, mb_size = n2\<rparr>) = Some (Some r)
    \<and> rr_at crypt (sched (take 32 key)) salt i c 0 r"
proof -
  let ?n = "n_chunks (length c)"
  have "?n * BODY < 2 ^ 32" using assms(3) by simp
  then have u: "unat (of_nat (?n * BODY) :: u32) = ?n * BODY" by (rule unat_of_nat_u32)
  have sz: "(of_nat ?n :: u32) * MAX_PACKET_BODY = of_nat (?n * BODY)"
    by (simp add: MAX_PACKET_BODY_def)
  have "?n \<noteq> 0" using assms(2) n_chunks_pos [of "length c"] by (metis length_0_conv neq0_conv)
  then show ?thesis
    using assms by (auto simp: rr_create_def rr_init_def rr_new_def br_init_def sr_init_def pkt_getters
        stream_packet_def sz mb_create_zero br_at_def rr_at_def mb_inv_def mb_bytes_def u aes_setKey_def
        aes_setCtr_def ctr_at_0 simp del: of_nat_mult n_chunks_pos)
qed

lemma rs_run_from:
  assumes "ctr_laws crypt" and "mb_inv m"
  defines "n \<equiv> n_chunks (length (mb_bytes m))"
  shows "rs_at crypt k salt i m j s \<Longrightarrow> j < n \<Longrightarrow> n - j \<le> fuel \<Longrightarrow>
    \<exists>s'. rs_run crypt fuel s =
        Some (map (stream_packet i ST_Resource (cipher crypt k salt (mb_bytes m))) [j..<n], s')
      \<and> rs_at crypt k salt i m n s'"
proof (induction fuel arbitrary: j s)
  case 0
  then show ?case by simp
next
  case (Suc fuel)
  from rs_process_step [OF assms(1,2) Suc.prems(1)] Suc.prems(2) obtain s' where
    step: "rs_process crypt s = Some (True,
        Some (stream_packet i ST_Resource (cipher crypt k salt (mb_bytes m)) j), s', j + 1 = n)"
    and at: "rs_at crypt k salt i m (j + 1) s'" by (auto simp: n_def)
  have upt: "[j..<n] = j # [j + 1..<n]" using Suc.prems(2) upt_conv_Cons by simp
  show ?case
  proof (cases "j + 1 = n")
    case True
    with at have "ss_status s' = SS_Completed" by (simp add: rs_at_def n_def)
    with step upt True at show ?thesis by (auto simp: Let_def)
  next
    case False
    with at have st: "ss_status s' = SS_Idle" by (simp add: rs_at_def n_def)
    from False Suc.prems have "j + 1 < n" and "n - (j + 1) \<le> fuel" by linarith+
    from Suc.IH [OF at this] step st upt show ?thesis by (auto simp: Let_def)
  qed
qed

lemma rr_run_from:
  assumes "ctr_laws crypt" and "n_chunks (length c) < BODY"
  shows "rr_at crypt k salt i c j r \<Longrightarrow> j \<le> n_chunks (length c) \<Longrightarrow>
    \<exists>r'. rr_run crypt r (map (stream_packet i ST_Resource (cipher crypt k salt c)) [j..<n_chunks (length c)])
        = Some (True, r')
      \<and> rr_at crypt k salt i c (n_chunks (length c)) r'"
proof (induction "n_chunks (length c) - j" arbitrary: j r)
  case 0
  then have "j = n_chunks (length c)" by simp
  with 0 show ?case by auto
next
  case (Suc d)
  then have j: "j < n_chunks (length c)" by linarith
  from rr_process_step [OF assms(1) Suc.prems(1) j assms(2)] obtain r' where
    r': "rr_process crypt r (stream_packet i ST_Resource (cipher crypt k salt c) j) =
        Some (True, r', j + 1 = n_chunks (length c))"
    "rr_at crypt k salt i c (j + 1) r'" by blast
  have "d = n_chunks (length c) - (j + 1)" "j + 1 \<le> n_chunks (length c)"
    using Suc.hyps(2) j by linarith+
  from Suc.hyps(1) [OF this(1) r'(2) this(2)] r'(1) j show ?case
    by (simp add: upt_conv_Cons)
qed

text \<open>
  A resource travels: the sender encrypts it into packets, none of which shows the data, and the
  receiver with the same key and salt holds the data at the end.
\<close>

lemma resource_travels:
  assumes laws: "ctr_laws crypt" and data: "res_data r = Some m" "mb_inv m" "mb_bytes m \<noteq> []"
    and "n_chunks (length (mb_bytes m)) < BODY" and "res_id r = Some i"
    and "length salt = 16" and "32 \<le> length key"
  defines "n \<equiv> n_chunks (length (mb_bytes m))"
    and "kb \<equiv> \<lparr>mb_data = Some key, mb_size = 32\<rparr>" and "sb \<equiv> \<lparr>mb_data = Some salt, mb_size = 16\<rparr>"
  shows "\<exists>s s' ps q q'. rs_create sched a0 True (Some r) (Some kb) (Some sb) = Some (Some s)
    \<and> rs_run crypt n s = Some (ps, s') \<and> ss_status s' = SS_Completed
    \<and> ps = map (stream_packet i ST_Resource (cipher crypt (sched (take 32 key)) salt (mb_bytes m))) [0..<n]
    \<and> rr_create sched a1 True (hd ps) (Some kb) (Some sb) = Some (Some q)
    \<and> rr_run crypt q ps = Some (True, q') \<and> sr_status q' = SR_Completed \<and> sr_id q' = i
    \<and> br_bytesReceived q' = mb_size m
    \<and> (\<exists>b. br_buffer q' = Some b \<and> take (unat (br_bytesReceived q')) (mb_bytes b) = mb_bytes m)"
proof -
  let ?k = "sched (take 32 key)" let ?c = "mb_bytes m"
  let ?ps = "map (stream_packet i ST_Resource (cipher crypt ?k salt ?c)) [0..<n]"
  have n0: "0 < n" using data(3) by (simp add: n_def)
  obtain s where s: "rs_create sched a0 True (Some r) (Some kb) (Some sb) = Some (Some s)"
    "rs_at crypt ?k salt i m 0 s"
    using rs_create_at [OF laws data(2,3,1)] assms(6-8) unfolding kb_def sb_def by blast
  obtain s' where s': "rs_run crypt n s = Some (?ps, s')" "rs_at crypt ?k salt i m n s'"
    using rs_run_from [OF laws data(2) s(2), of n] n0 by (auto simp: n_def)
  have hd: "hd ?ps = stream_packet i ST_Resource (cipher crypt ?k salt ?c) 0"
    using n0 by (simp add: hd_map)
  obtain q where q: "rr_create sched a1 True (hd ?ps) (Some kb) (Some sb) = Some (Some q)"
    "rr_at crypt ?k salt i ?c 0 q"
    using rr_create_at [OF laws data(3) assms(5)] assms(7,8) unfolding kb_def sb_def hd by blast
  obtain q' where q': "rr_run crypt q ?ps = Some (True, q')" "rr_at crypt ?k salt i ?c n q'"
    using rr_run_from [OF laws assms(5) q(2)] by (auto simp: n_def)
  have L: "unat (mb_size m) = length ?c" using mb_inv_length [OF data(2)] by simp
  have cov: "length ?c \<le> n * BODY" unfolding n_def by (rule n_chunks_covers)
  then have "br_bytesReceived q' = mb_size m"
    using q'(2) L by (auto simp: rr_at_def br_at_def min_absorb1 intro: of_nat_eq_wordI simp del: of_nat_min)
  moreover have "\<exists>b. br_buffer q' = Some b \<and> take (length ?c) (mb_bytes b) = ?c"
    using q'(2) cov by (auto simp: rr_at_def br_at_def n_def)
  ultimately show ?thesis
    using s(1) s' q(1) q' L by (auto simp: rs_at_def rr_at_def br_at_def n_def)
qed

end
