(* ===== verification/Messages.thy ===== *)
theory Messages
  imports App_Store Resource_Transfer
begin

text \<open>
  \<^verbatim>\<open>src/message/message.cpp\<close> and \<^verbatim>\<open>src/event\<close>: messages, the events a client posts,
  and the handler that delivers them.  A message is an object with its resources; its getters
  use the \<^verbatim>\<open>operator[]\<close> that inserts a null value for a missing field.
\<close>

section \<open>Messages\<close>

datatype msg_status = MS_Undefined | MS_Incoming | MS_Outgoing | MS_Sent | MS_Received | MS_Delivered
  | MS_Receipted | MS_Error

definition msg_status_code :: "msg_status \<Rightarrow> u32" where
  "msg_status_code s = (case s of MS_Undefined \<Rightarrow> 0 | MS_Incoming \<Rightarrow> 1 | MS_Outgoing \<Rightarrow> 2 | MS_Sent \<Rightarrow> 3
     | MS_Received \<Rightarrow> 4 | MS_Delivered \<Rightarrow> 5 | MS_Receipted \<Rightarrow> 6 | MS_Error \<Rightarrow> 7)"

record message =
  ms_obj :: fields
  ms_resources :: "resource list"

definition msg_create :: "fields \<Rightarrow> message" where
  "msg_create ob = \<lparr>ms_obj = ob, ms_resources = []\<rparr>"

definition msg_set :: "string \<Rightarrow> val \<Rightarrow> message \<Rightarrow> message" where
  "msg_set k v m = m\<lparr>ms_obj := obj_setField k v (ms_obj m)\<rparr>"

definition msg_setId :: "u32 \<Rightarrow> message \<Rightarrow> message" where
  "msg_setId i = msg_set ''id'' (val_int32 i)"

definition msg_setSrc :: "u32 \<Rightarrow> message \<Rightarrow> message" where
  "msg_setSrc i = msg_set ''src'' (val_int32 i)"

definition msg_setDst :: "u32 \<Rightarrow> message \<Rightarrow> message" where
  "msg_setDst i = msg_set ''dst'' (val_int32 i)"

definition msg_setHistory :: "u32 \<Rightarrow> message \<Rightarrow> message" where
  "msg_setHistory i = msg_set ''history'' (val_int32 i)"

definition msg_setStatus :: "msg_status \<Rightarrow> message \<Rightarrow> message" where
  "msg_setStatus s = msg_set ''status'' (val_int32 (msg_status_code s))"

definition msg_setTime :: "u32 \<Rightarrow> message \<Rightarrow> message" where
  "msg_setTime t = msg_set ''time'' (val_int32 t)"

definition msg_setText :: "string \<Rightarrow> message \<Rightarrow> message" where
  "msg_setText t = msg_set ''text'' (text_val t)"

text \<open>A getter: the field and the message, now with the field.\<close>

definition touch :: "string \<Rightarrow> fields \<Rightarrow> fields" where
  "touch k ob = (if obj_hasField ob k then ob else obj_setField k val_null ob)"

definition msg_get :: "string \<Rightarrow> message \<Rightarrow> val \<times> message" where
  "msg_get k m = (obj_get (ms_obj m) k, m\<lparr>ms_obj := touch k (ms_obj m)\<rparr>)"

text \<open>\<^verbatim>\<open>id\<close>, \<^verbatim>\<open>src\<close>, \<^verbatim>\<open>dst\<close>, \<^verbatim>\<open>history\<close>, \<^verbatim>\<open>status\<close>, \<^verbatim>\<open>time\<close>, and \<^verbatim>\<open>text\<close>.\<close>

definition msg_int :: "string \<Rightarrow> message \<Rightarrow> (u32 \<times> message) option" where
  "msg_int k m = (case msg_get k m of (v, m1) \<Rightarrow> map_option (\<lambda>i. (i, m1)) (val_toInt v))"

definition msg_text :: "(ubj_type \<Rightarrow> bytes \<Rightarrow> string) \<Rightarrow> message \<Rightarrow> (string \<times> message) option" where
  "msg_text fmt m = (case msg_get ''text'' m of (v, m1) \<Rightarrow> map_option (\<lambda>s. (s, m1)) (val_toStr fmt v))"

primrec find_resource :: "u32 \<Rightarrow> resource list \<Rightarrow> resource option option" where
  "find_resource i [] = Some None"
| "find_resource i (r # rs) = do { j \<leftarrow> res_id r; if j = i then Some (Some r) else find_resource i rs }"

definition msg_resourceById :: "u32 \<Rightarrow> message \<Rightarrow> resource option option" where
  "msg_resourceById i m = find_resource i (ms_resources m)"

definition msg_addResource :: "resource option \<Rightarrow> message \<Rightarrow> message" where
  "msg_addResource r m = (case r of None \<Rightarrow> m | Some x \<Rightarrow> m\<lparr>ms_resources := ms_resources m @ [x]\<rparr>)"

definition msg_addResources :: "resource option list \<Rightarrow> message \<Rightarrow> message" where
  "msg_addResources rs m = fold msg_addResource rs m"

definition msg_numResources :: "message \<Rightarrow> u32" where
  "msg_numResources m = of_nat (length (ms_resources m))"

definition msg_resource :: "u32 \<Rightarrow> message \<Rightarrow> resource option" where
  "msg_resource i m = (if unat i < length (ms_resources m) then Some (ms_resources m ! unat i) else None)"

text \<open>The states of a resource record.\<close>

datatype res_status = RS_Unknown | RS_Incoming | RS_Outgoing | RS_Sent | RS_Received | RS_Delivered
  | RS_Receipted | RS_Error

definition res_status_code :: "res_status \<Rightarrow> u32" where
  "res_status_code s = (case s of RS_Unknown \<Rightarrow> 0 | RS_Incoming \<Rightarrow> 1 | RS_Outgoing \<Rightarrow> 2 | RS_Sent \<Rightarrow> 3
     | RS_Received \<Rightarrow> 4 | RS_Delivered \<Rightarrow> 5 | RS_Receipted \<Rightarrow> 6 | RS_Error \<Rightarrow> 7)"

section \<open>Events\<close>

datatype event_type = EV_Undefined | EV_Status | EV_RequestTimeout
  | EV_ConnectionSuccess | EV_ConnectionFailure | EV_ConnectionInterrupted | EV_Disconnected
  | EV_LoginSuccess | EV_LoginFailure
  | EV_ContactRequest | EV_ContactRequestAccepted | EV_ContactRequestRejected | EV_ContactStatus
  | EV_MessageIncoming | EV_MessageOutgoing | EV_MessageReceived | EV_MessageSent | EV_MessageDelivered
  | EV_MessageReceipted
  | EV_ResourceIncoming | EV_ResourceOutgoing | EV_ResourceReceived | EV_ResourceSent | EV_ResourceDelivered
  | EV_ResourceReceipted

text \<open>
  The target of an event: the callback of an \<^verbatim>\<open>Event\<close>, or the request of a
  \<^verbatim>\<open>RequestEvent\<close> (its id and its callback).  Callbacks are handles of the application.
\<close>

datatype event_target = ET_Event (et_callback: "nat option") | ET_Request (et_request: "(u32 \<times> nat option) option")

record event =
  ev_type :: event_type
  ev_data :: fields
  ev_error :: fields
  ev_target :: event_target

definition ev_create :: "event_type \<Rightarrow> fields \<Rightarrow> fields \<Rightarrow> nat option \<Rightarrow> event" where
  "ev_create t data err cb = \<lparr>ev_type = t, ev_data = data, ev_error = err, ev_target = ET_Event cb\<rparr>"

definition rev_create :: "event_type \<Rightarrow> (u32 \<times> nat option) option \<Rightarrow> val \<Rightarrow> val \<Rightarrow> event" where
  "rev_create t rq data err =
     \<lparr>ev_type = t, ev_data = val_toObject data, ev_error = val_toObject err, ev_target = ET_Request rq\<rparr>"

text \<open>
  \<^verbatim>\<open>ERROR_UBJ(message)\<close>; the file is named as in the source tree.
\<close>

definition error_ubj :: "string \<Rightarrow> u32 \<Rightarrow> val \<Rightarrow> fields" where
  "error_ubj file line msg = mk_obj [(''message'', msg), (''file'', text_val file), (''line'', val_int32 line)]"

text \<open>\<^verbatim>\<open>dispatch\<close>: the callbacks that are called.\<close>

definition ev_dispatch :: "event \<Rightarrow> nat list" where
  "ev_dispatch e =
     (case ev_target e of
        ET_Event (Some cb) \<Rightarrow> [cb]
      | ET_Request (Some (_, Some cb)) \<Rightarrow> [cb]
      | _ \<Rightarrow> [])"

text \<open>
  \<^verbatim>\<open>EventHandler\<close>: a table from clients (numbers standing for pointers) to callbacks.
  \<^verbatim>\<open>process\<close> dispatches the event, then calls the client's handler.
\<close>

type_synonym handlers = "(nat, nat) omap"

definition eh_clearHandlers :: "handlers \<Rightarrow> handlers" where
  "eh_clearHandlers hs = []"

definition eh_addHandler :: "nat \<Rightarrow> nat option \<Rightarrow> handlers \<Rightarrow> handlers" where
  "eh_addHandler client handler hs = (case handler of None \<Rightarrow> hs | Some f \<Rightarrow> omap_insert client f hs)"

definition eh_removeHandler :: "nat \<Rightarrow> handlers \<Rightarrow> handlers" where
  "eh_removeHandler client hs = omap_erase client hs"

definition eh_process :: "nat \<times> event \<Rightarrow> handlers \<Rightarrow> nat list" where
  "eh_process ce hs =
     ev_dispatch (snd ce) @ (case map_of hs (fst ce) of Some f \<Rightarrow> [f] | None \<Rightarrow> [])"

section \<open>Getters leave the fields alone\<close>

lemma touch_fields:
  "obj_get (touch k ob) j = obj_get ob j" "j \<noteq> k \<Longrightarrow> obj_hasField (touch k ob) j = obj_hasField ob j"
proof -
  have "obj_get ob k = val_null" if "\<not> obj_hasField ob k"
    using that by (simp add: obj_hasField_def obj_get_def)
  then show "obj_get (touch k ob) j = obj_get ob j" by (simp add: touch_def obj_get_setField)
  show "j \<noteq> k \<Longrightarrow> obj_hasField (touch k ob) j = obj_hasField ob j"
    by (simp add: touch_def obj_hasField_setField)
qed

lemma msg_int_fields:
  assumes "msg_int k m = Some (i, m')"
  shows "ms_resources m' = ms_resources m" "obj_get (ms_obj m') j = obj_get (ms_obj m) j"
    "j \<noteq> k \<Longrightarrow> obj_hasField (ms_obj m') j = obj_hasField (ms_obj m) j"
  using assms by (auto simp: msg_int_def msg_get_def touch_fields)

lemma msg_text_fields:
  assumes "msg_text fmt m = Some (i, m')"
  shows "ms_resources m' = ms_resources m" "obj_get (ms_obj m') j = obj_get (ms_obj m) j"
    "j \<noteq> ''text'' \<Longrightarrow> obj_hasField (ms_obj m') j = obj_hasField (ms_obj m) j"
  using assms by (auto simp: msg_text_def msg_get_def touch_fields)

lemma res_id_setId [simp]: "res_id (res_setId j r) = Some j"
  by (simp add: res_id_def res_setId_def res_setField_def val_toInt_def val_int32_def obj_get_setField)

end
