(* ===== verification/Client.thy ===== *)
theory Client
  imports Messages Engine
begin

text \<open>
  The state of \<^verbatim>\<open>Client\<close> (\<^verbatim>\<open>src/client.cpp\<close>) and how it posts events, requests and
  responses.  The store of the client is an \<open>api\<close> over the world \<open>'s\<close>; \<open>suite\<close> holds the
  primitives of nettle and GMP and whether allocations succeed.  Events go to the queue of the
  event handler, when there is one.
\<close>

datatype status = CL_Closed | CL_Started | CL_Disconnected | CL_Connecting | CL_Connected | CL_Secure
  | CL_Authenticated

definition status_code :: "status \<Rightarrow> u32" where
  "status_code s = (case s of CL_Closed \<Rightarrow> 0 | CL_Started \<Rightarrow> 1 | CL_Disconnected \<Rightarrow> 2 | CL_Connecting \<Rightarrow> 3
     | CL_Connected \<Rightarrow> 4 | CL_Secure \<Rightarrow> 5 | CL_Authenticated \<Rightarrow> 6)"

record ('z, 'k) suite =
  su_fmt :: "ubj_type \<Rightarrow> bytes \<Rightarrow> string"
  su_ok :: bool
  su_gmp :: "'z gmp"
  su_rsa :: "'z rsa"
  su_crypt :: "'k ctr_crypt"
  su_sched :: "bytes \<Rightarrow> 'k"
  su_fresh :: "'k aes"

record 's client =
  cl_status :: status
  cl_engine :: engine
  cl_contactStatus :: "(u32, u32) omap"
  cl_account :: "account option"
  cl_handler :: bool
  cl_events :: "event list"
  cl_world :: 's

definition cl_create :: "bool \<Rightarrow> 's \<Rightarrow> 's client" where
  "cl_create handler w =
     \<lparr>cl_status = CL_Closed, cl_engine = eng_new, cl_contactStatus = [], cl_account = None,
      cl_handler = handler, cl_events = [], cl_world = w\<rparr>"

definition cl_setStore :: "account option \<Rightarrow> 's client \<Rightarrow> 's client" where
  "cl_setStore store c = c\<lparr>cl_account := store\<rparr>"

definition cl_setEventHandler :: "bool \<Rightarrow> 's client \<Rightarrow> 's client" where
  "cl_setEventHandler handler c = c\<lparr>cl_handler := handler\<rparr>"

definition cl_contact_status :: "u32 \<Rightarrow> 's client \<Rightarrow> u32" where
  "cl_contact_status i c = (case map_of (cl_contactStatus c) i of Some s \<Rightarrow> s | None \<Rightarrow> 0)"

text \<open>An operation of the store, or of the platform, on the client's world.\<close>

definition cl_do :: "('s \<Rightarrow> ('a \<times> 's) option) \<Rightarrow> 's client \<Rightarrow> ('a \<times> 's client) option" where
  "cl_do f c = map_option (\<lambda>(x, w). (x, c\<lparr>cl_world := w\<rparr>)) (f (cl_world c))"

text \<open>\<^verbatim>\<open>return false\<close> in the middle of a function.\<close>

definition and_then :: "('a option \<times> 'c) option \<Rightarrow> ('a \<Rightarrow> 'c \<Rightarrow> ('b option \<times> 'c) option) \<Rightarrow> ('b option \<times> 'c) option" where
  "and_then m f = do { (r, c) \<leftarrow> m; case r of None \<Rightarrow> Some (None, c) | Some x \<Rightarrow> f x c }"

lemma and_then_Some: "and_then m f = Some (Some y, c') \<longleftrightarrow> (\<exists>x c. m = Some (Some x, c) \<and> f x c = Some (Some y, c'))"
  by (auto simp: and_then_def split: bind_splits option.splits)

definition cl_postEvent :: "event \<Rightarrow> 's client \<Rightarrow> 's client" where
  "cl_postEvent e c = (if cl_handler c then c\<lparr>cl_events := cl_events c @ [e]\<rparr> else c)"

definition cl_setStatus :: "status \<Rightarrow> 's client \<Rightarrow> 's client" where
  "cl_setStatus s c =
     cl_postEvent (ev_create EV_Status (mk_obj [(''status'', val_int32 (status_code s))]) [] None)
       (c\<lparr>cl_status := s\<rparr>)"

text \<open>\<^verbatim>\<open>addStreamSender\<close> also wakes the sending thread.\<close>

definition cl_addStreamSender :: "ubj_sender option \<Rightarrow> 's client \<Rightarrow> bool \<times> 's client" where
  "cl_addStreamSender s c =
     (case eng_addStreamSender None s (cl_engine c) of (r, e) \<Rightarrow> (r, c\<lparr>cl_engine := e\<rparr>))"

text \<open>
  \<^verbatim>\<open>postRequest\<close>: a request without id gets one.  The result, the request object
  afterwards, the client.
\<close>

definition cl_postRequest ::
    "('z, 'k) suite \<Rightarrow> 's api \<Rightarrow> request \<Rightarrow> 's client \<Rightarrow> (bool \<times> request \<times> 's client) option" where
  "cl_postRequest su A r c = do {
     (r1, c1) \<leftarrow> (if rq_id r = 0 then map_option (\<lambda>(i, c'). (rq_setId i r, c')) (cl_do (mkId A) c)
                  else Some (r, c));
     (res, r2, e) \<leftarrow> eng_postRequest (su_ok su) (ap_time A (cl_world c1)) (Some r1) (cl_engine c1);
     Some (res, (case r2 of Some x \<Rightarrow> x | None \<Rightarrow> r1), c1\<lparr>cl_engine := e\<rparr>) }"

definition cl_success :: "('z, 'k) suite \<Rightarrow> u32 \<Rightarrow> fields \<Rightarrow> 's client \<Rightarrow> 's client option" where
  "cl_success su i head c =
     map_option (\<lambda>(_, e). c\<lparr>cl_engine := e\<rparr>) (eng_postRequestSuccess (su_ok su) i head (cl_engine c))"

definition cl_failure :: "('z, 'k) suite \<Rightarrow> u32 \<Rightarrow> 's client \<Rightarrow> 's client option" where
  "cl_failure su i c =
     map_option (\<lambda>(_, e). c\<lparr>cl_engine := e\<rparr>) (eng_postRequestFailure (su_ok su) i 0 [] (cl_engine c))"

definition cl_processRequestTimeout :: "request \<Rightarrow> nat option \<Rightarrow> 's client \<Rightarrow> 's client" where
  "cl_processRequestTimeout r cb c =
     cl_postEvent (rev_create EV_RequestTimeout (Some (rq_id r, cb)) val_null
       (val_of_obj (error_ubj ''client.cpp'' 1293 (text_val ''Request timeout'')))) c"

text \<open>The result of an update or query that only fails silently (\<^verbatim>\<open>// ...\<close> in the code).\<close>

definition cl_update :: "'s api \<Rightarrow> string \<Rightarrow> fields \<Rightarrow> fields \<Rightarrow> 's client \<Rightarrow> 's client option" where
  "cl_update A table upd wh c = map_option snd (cl_do (ap_update A table upd wh) c)"

definition cl_find :: "'s api \<Rightarrow> string \<Rightarrow> fields \<Rightarrow> 's client \<Rightarrow> (fields \<times> 's client) option" where
  "cl_find A table wh c =
     map_option (\<lambda>(ob, c1). (case ob of Some x \<Rightarrow> x | None \<Rightarrow> [], c1))
       (cl_do (ap_query_one A table wh [] [] 0) c)"

lemmas cl_simps = cl_do_def cl_postEvent_def cl_success_def cl_failure_def cl_update_def cl_find_def

end
