(* ===== verification/Push.thy ===== *)
theory Push
  imports Client
begin

text \<open>
  \<^verbatim>\<open>src/request/pushrequest.cpp\<close>, and \<^verbatim>\<open>processPush\<close>, \<^verbatim>\<open>processMessage\<close> of
  \<^verbatim>\<open>src/client.cpp\<close>: a message travels with a description (\<^verbatim>\<open>meta\<close>) encrypted under a
  fresh message key, which is encrypted with the public key of the recipient.  A failed
  \<^verbatim>\<open>create\<close> gives no request; the message object it leaves behind is not modelled.
\<close>

section \<open>Salts\<close>

text \<open>
  \<^verbatim>\<open>resourceSalt\<close>: the bytes 8 to 11 of a copy become the resource id, 12 to 15 zero (two
  stores of \<^verbatim>\<open>uint32_t\<close>, little endian).
\<close>

definition resourceSalt :: "membuf option \<Rightarrow> u32 \<Rightarrow> membuf option option" where
  "resourceSalt salt i =
     (case salt of
        None \<Rightarrow> Some None
      | Some s \<Rightarrow> do {
          r \<leftarrow> mb_copy True s;
          (case r of
             None \<Rightarrow> Some None
           | Some b \<Rightarrow> do {
               d \<leftarrow> mb_data b;
               if length d < 16 then None
               else Some (Some (b\<lparr>mb_data := Some (take 8 d @ le_mem32 i @ le_mem32 0 @ drop 16 d)\<rparr>)) }) })"

section \<open>Making the request\<close>

record push_request = request +
  pr_msg :: message
  pr_key :: membuf
  pr_salt :: membuf

definition draw_buffer :: "'s api \<Rightarrow> nat \<Rightarrow> nat \<Rightarrow> 's client \<Rightarrow> (membuf option \<times> 's client) option" where
  "draw_buffer A size' n c = do {
     (r, c1) \<leftarrow> cl_do (draw A n) c;
     Some (map_option (\<lambda>bs. \<lparr>mb_data = Some (bs @ replicate (size' - n) 0), mb_size = of_nat size'\<rparr>) r, c1) }"

text \<open>
  The keys array: the message key for the recipient; nothing at all when the recipient is not
  a contact, failure when the contact has no key.
\<close>

definition push_keys ::
    "('z, 'k) suite \<Rightarrow> 's api \<Rightarrow> u32 \<Rightarrow> membuf \<Rightarrow> 's client \<Rightarrow> (val list option \<times> 's client) option" where
  "push_keys su A dst key c = do {
     (ob, c1) \<leftarrow> cl_do (ap_query_one A ''contacts'' (mk_obj [(''id'', val_int32 dst)]) [] [] 0) c;
     case ob of
       None \<Rightarrow> Some (Some [], c1)
     | Some contact \<Rightarrow>
         if \<not> obj_hasField contact ''publicKey'' then Some (None, c1)
         else do {
           enc \<leftarrow> rsa_encrypt (su_fmt su) (su_gmp su) (su_rsa su) (su_ok su)
                    (val_toObject (obj_get contact ''publicKey'')) (Some key);
           Some (map_option (\<lambda>k. [val_of_obj (mk_obj [(''dst'', val_int32 dst), (''key'', val_of_membuf k)])]) enc,
                 c1) } }"

text \<open>
  The loop over the resources: ids for those without, and the two descriptions of those that
  are not empty.
\<close>

definition push_entry ::
    "(ubj_type \<Rightarrow> bytes \<Rightarrow> string) \<Rightarrow> u32 \<Rightarrow> resource \<Rightarrow> (val list \<times> val list) option" where
  "push_entry fmt i r =
     (if res_size r > 0 then do {
        name \<leftarrow> res_name fmt r;
        hash \<leftarrow> res_hash fmt r;
        Some ([val_of_obj (mk_obj [(''id'', val_int32 i), (''parts'', val_int32 (res_parts r))])],
              [val_of_obj (mk_obj [(''id'', val_int32 i), (''name'', text_val name),
                 (''size'', val_int32 (res_size r)), (''hash'', text_val hash)])]) }
      else Some ([], []))"

primrec push_resources ::
    "(ubj_type \<Rightarrow> bytes \<Rightarrow> string) \<Rightarrow> 's api \<Rightarrow> resource list \<Rightarrow> 's client
     \<Rightarrow> (resource list \<times> val list \<times> val list \<times> 's client) option" where
  "push_resources fmt A [] c = Some ([], [], [], c)"
| "push_resources fmt A (r # rs) c = do {
     i \<leftarrow> res_id r;
     (j, c1) \<leftarrow> (if i = 0 then cl_do (mkId A) c else Some (i, c));
     let r1 = (if i = 0 then res_setId j r else r);
     (pub, priv) \<leftarrow> push_entry fmt j r1;
     (rs1, pubs, privs, c2) \<leftarrow> push_resources fmt A rs c1;
     Some (r1 # rs1, pub @ pubs, priv @ privs, c2) }"

text \<open>Encrypting and decrypting the description in place.\<close>

definition crypt_meta ::
    "('z, 'k) suite \<Rightarrow> membuf \<Rightarrow> membuf \<Rightarrow> membuf \<Rightarrow> (bool \<times> membuf) option" where
  "crypt_meta su key salt buf = do {
     a1 \<leftarrow> aes_setKey (su_sched su) (Some key) (su_fresh su);
     a2 \<leftarrow> aes_setCtr (Some salt) a1;
     d \<leftarrow> mb_data buf;
     (r, _, dst, _) \<leftarrow> aes_crypt (su_crypt su) True (None :: unit aes_callback option) d (Some d) (mb_size buf) a2 ();
     Some (r, buf\<lparr>mb_data := dst\<rparr>) }"

definition seal_meta ::
    "('z, 'k) suite \<Rightarrow> membuf \<Rightarrow> membuf \<Rightarrow> fields \<Rightarrow> membuf option option" where
  "seal_meta su key salt meta = do {
     buf \<leftarrow> writer_write (val_of_obj meta);
     case buf of
       None \<Rightarrow> Some None
     | Some b \<Rightarrow> do { (r, b1) \<leftarrow> crypt_meta su key salt b; Some (if r then Some b1 else None) } }"

definition push_meta :: "message \<Rightarrow> val list \<Rightarrow> fields" where
  "push_meta msg priv =
     obj_setField ''resources'' (val_of_arr priv)
       (if obj_hasField (ms_obj msg) ''meta'' then val_toObject (obj_get (ms_obj msg) ''meta'') else [])"

definition push_head :: "fields \<Rightarrow> val list \<Rightarrow> membuf \<Rightarrow> membuf \<Rightarrow> val list \<Rightarrow> fields" where
  "push_head head pub meta salt keys =
     obj_setField ''keys'' (val_of_arr keys)
       (obj_setField ''salt'' (val_of_membuf salt)
         (obj_setField ''meta'' (val_of_membuf meta)
           (obj_setField ''resources'' (val_of_arr pub) head)))"

text \<open>The record of the message in the store.\<close>

definition push_record ::
    "(ubj_type \<Rightarrow> bytes \<Rightarrow> string) \<Rightarrow> u32 \<Rightarrow> message \<Rightarrow> (fields \<times> message) option" where
  "push_record fmt i m0 = do {
     (src, m1) \<leftarrow> msg_int ''src'' m0;
     (dst, m2) \<leftarrow> msg_int ''dst'' m1;
     (history, m3) \<leftarrow> msg_int ''history'' m2;
     (st, m4) \<leftarrow> msg_int ''status'' m3;
     (txt, m5) \<leftarrow> msg_text fmt m4;
     Some (mk_obj [(''id'', val_int32 i), (''src'', val_int32 src), (''dst'', val_int32 dst),
             (''history'', val_int32 history), (''status'', val_int32 st), (''text'', text_val txt)], m5) }"

definition pr_init ::
    "('z, 'k) suite \<Rightarrow> 's api \<Rightarrow> request \<Rightarrow> message \<Rightarrow> 's client \<Rightarrow> (push_request option \<times> 's client) option" where
  "pr_init su A r msg c = do {
     (i, c1) \<leftarrow> (if rq_id r = 0 then cl_do (mkId A) c else Some (rq_id r, c));
     and_then (draw_buffer A 32 32 c1) (\<lambda>key c2.
     and_then (draw_buffer A 16 12 c2) (\<lambda>salt c3. do {
       (dst, m1) \<leftarrow> msg_int ''dst'' msg;
       and_then (push_keys su A dst key c3) (\<lambda>keys c4. do {
         (rs, pub, priv, c5) \<leftarrow> push_resources (su_fmt su) A (ms_resources m1) c4;
         sealed \<leftarrow> seal_meta su key salt (push_meta m1 priv);
         (case sealed of
            None \<Rightarrow> Some (None, c5)
          | Some b \<Rightarrow> do {
              let m2 = msg_setStatus MS_Outgoing (msg_setId i (m1\<lparr>ms_resources := rs\<rparr>));
              (rec, m3) \<leftarrow> push_record (su_fmt su) i m2;
              (n, c6) \<leftarrow> cl_do (ap_insert A ''messages'' rec) c5;
              Some (if n = 0 then None
                    else Some \<lparr>rq_type = rq_type r, rq_status = rq_status r, rq_id = i, rq_timeout = rq_timeout r,
                               rq_time = rq_time r, rq_args = rq_args r,
                               rq_head = push_head (rq_head r) pub b salt keys,
                               pr_msg = m3, pr_key = key, pr_salt = salt\<rparr>, c6) }) }) })) }"

definition RQ_Push :: u32 where "RQ_Push = 4100"

definition pr_create ::
    "('z, 'k) suite \<Rightarrow> 's api \<Rightarrow> message option \<Rightarrow> u32 \<Rightarrow> 's client \<Rightarrow> (push_request option \<times> 's client) option" where
  "pr_create su A msg i c = do {
     r \<leftarrow> rq_new RQ_Push (mk_obj [(''requestId'', val_int32 i)]) DEFAULT_TIMEOUT;
     case msg of None \<Rightarrow> Some (None, c) | Some m \<Rightarrow> pr_init su A r m c }"

text \<open>\<^verbatim>\<open>Client::postMessage\<close>: the result and the request that was posted.\<close>

definition cl_postMessage ::
    "('z, 'k) suite \<Rightarrow> 's api \<Rightarrow> message option \<Rightarrow> 's client \<Rightarrow> (bool \<times> push_request option \<times> 's client) option" where
  "cl_postMessage su A msg c =
     (case (cl_account c, msg) of
        (Some _, Some m) \<Rightarrow> do {
          (dst, m1) \<leftarrow> msg_int ''dst'' m;
          (history, c1) \<leftarrow> cl_do (zs_latestHistory A dst) c;
          (pr, c2) \<leftarrow> pr_create su A (Some (msg_setHistory (ucast history) m1)) 0 c1;
          case pr of
            None \<Rightarrow> Some (False, None, c2)
          | Some p \<Rightarrow> do {
              (ok, r1, c3) \<leftarrow> cl_postRequest su A (request.truncate p) c2;
              Some (if ok
                    then (True, Some (request.extend r1 (push_request.fields (pr_msg p) (pr_key p) (pr_salt p))), cl_postEvent (ev_create EV_MessageOutgoing
                            (mk_obj [(''message'', val_of_obj (ms_obj (pr_msg p)))]) [] None) c3)
                    else (False, None, c3)) } }
      | _ \<Rightarrow> Some (False, None, c))"

section \<open>Receiving a message\<close>

text \<open>
  The first half of \<^verbatim>\<open>processPush\<close>: the message key and the description, or nothing when the
  request is answered with a failure.  The key and the salt are used without looking at their
  sizes, and a field \<^verbatim>\<open>key\<close> that is no buffer is dereferenced.
\<close>

definition push_open ::
    "('z, 'k) suite \<Rightarrow> fields \<Rightarrow> fields \<Rightarrow> (membuf \<times> fields) option option" where
  "push_open su privateKey request = do {
     k \<leftarrow> rsa_decrypt (su_fmt su) (su_gmp su) (su_rsa su) (su_ok su) privateKey (field_buffer request ''key'');
     case (k, field_buffer request ''salt'', field_buffer request ''meta'') of
       (Some key, Some salt, Some buf) \<Rightarrow> do {
         (r, b) \<leftarrow> crypt_meta su key salt buf;
         if \<not> r then Some None
         else do {
           (ok, meta) \<leftarrow> obj_read_buffer [] (Some b);
           Some (if ok then Some (key, meta) else None) } }
     | _ \<Rightarrow> Some None }"

text \<open>\<^verbatim>\<open>processMessage\<close>; its result is not used.\<close>

definition cl_processMessage ::
    "('z, 'k) suite \<Rightarrow> 's api \<Rightarrow> fields \<Rightarrow> fields \<Rightarrow> u32 \<Rightarrow> 's client \<Rightarrow> 's client option" where
  "cl_processMessage su A request meta n c =
     (if \<not> obj_hasField meta ''text'' then Some c
      else do {
        txt \<leftarrow> val_toStr (su_fmt su) (obj_get meta ''text'');
        if txt = [] then Some c
        else do {
          src \<leftarrow> val_toInt (obj_get request ''src'');
          ac \<leftarrow> cl_account c;
          (history, c1) \<leftarrow> cl_do (zs_latestHistory A src) c;
          let message = mk_obj [(''id'', obj_get request ''requestId''), (''src'', val_int32 src),
                (''dst'', val_int32 (ac_id ac)), (''history'', val_int64 history),
                (''status'', val_int32 (msg_status_code (if n \<noteq> 0 then MS_Incoming else MS_Received))),
                (''time'', val_int64 (ap_time A (cl_world c1))), (''text'', obj_get meta ''text'')];
          (k, c2) \<leftarrow> cl_do (ap_count A ''messages'' (mk_obj [(''id'', obj_get request ''requestId'')])) c1;
          (stored, c3) \<leftarrow> (if k = 0 then cl_do (ap_insert A ''messages'' message) c2 else Some (1, c2));
          let data = mk_obj [(''message'', val_of_obj message)];
          let c4 = cl_postEvent (ev_create EV_MessageIncoming data [] None) c3;
          Some (if stored = 0 then c3
                else if n \<noteq> 0 then c4 else cl_postEvent (ev_create EV_MessageReceived data [] None) c4) } })"

text \<open>
  The records of the request and of its resources; \<^const>\<open>None\<close> as ids when an insertion fails.
\<close>

primrec store_resources :: "'s api \<Rightarrow> u32 \<Rightarrow> val list \<Rightarrow> 's client \<Rightarrow> (val list option \<times> 's client) option" where
  "store_resources A i [] c = Some (Some [], c)"
| "store_resources A i (v # vs) c = do {
     (k, c1) \<leftarrow> cl_do (ap_count A ''resources'' (mk_obj [(''id'', val_field v ''id'')])) c;
     (n, c2) \<leftarrow>
       (if k = 0
        then cl_do (ap_insert A ''resources''
               (mk_obj [(''id'', val_field v ''id''), (''request'', val_int32 i), (''status'', val_int32 0),
                        (''time'', val_int32 0), (''name'', val_field v ''name''), (''size'', val_field v ''size''),
                        (''hash'', val_field v ''hash'')])) c1
        else Some (1, c1));
     if n = 0 then Some (None, c2)
     else and_then (store_resources A i vs c2) (\<lambda>ids c3. Some (Some (val_field v ''id'' # ids), c3)) }"

definition store_push ::
    "'s api \<Rightarrow> u32 \<Rightarrow> fields \<Rightarrow> membuf \<Rightarrow> fields \<Rightarrow> 's client \<Rightarrow> (val list option \<times> 's client) option" where
  "store_push A i request key meta c = do {
     (k, c1) \<leftarrow> cl_do (ap_count A ''requests'' (mk_obj [(''id'', val_int32 i)])) c;
     (n, c2) \<leftarrow>
       (if k = 0
        then cl_do (ap_insert A ''requests''
               (mk_obj [(''id'', val_int32 i), (''type'', obj_get request ''type''),
                        (''data'', val_of_obj (mk_obj [(''key'', val_of_membuf key), (''salt'', obj_get request ''salt''),
                                                      (''resources'', obj_get request ''resources'')]))])) c1
        else Some (1, c1));
     if n = 0 then Some (None, c2)
     else store_resources A i (val_toArray (obj_get meta ''resources'')) c2 }"

definition cl_processPush ::
    "('z, 'k) suite \<Rightarrow> 's api \<Rightarrow> fields \<Rightarrow> 's client \<Rightarrow> (bool \<times> 's client) option" where
  "cl_processPush su A request c = do {
     i \<leftarrow> val_toInt (obj_get request ''requestId'');
     if \<not> (obj_hasField request ''key'' \<and> obj_hasField request ''salt'' \<and> obj_hasField request ''meta'')
     then Some (True, c)
     else do {
       ac \<leftarrow> cl_account c;
       opened \<leftarrow> push_open su (ac_privateKey ac) request;
       case opened of
         None \<Rightarrow> map_option (\<lambda>c1. (False, c1)) (cl_failure su i c)
       | Some (key, meta) \<Rightarrow> do {
           let n = (if obj_hasField meta ''resources'' then val_numItems (obj_get meta ''resources'') else 0);
           (stored, c1) \<leftarrow> (if n \<noteq> 0 then store_push A i request key meta c else Some (Some [], c));
           case stored of
             None \<Rightarrow> map_option (\<lambda>c2. (False, c2)) (cl_failure su i c1)
           | Some ids \<Rightarrow> do {
               c2 \<leftarrow> cl_processMessage su A request meta n c1;
               c3 \<leftarrow> cl_success su i (mk_obj [(''resources'', val_of_arr ids)]) c2;
               Some (True, c3) } } } }"

section \<open>The response\<close>

text \<open>
  \<^verbatim>\<open>updateMessage\<close>: -1, the answer to an error, is not \<open>\<le> 0\<close> as an unsigned number.  The
  flag and the object the caller passed (empty before).
\<close>

definition pr_updateMessage ::
    "'s api \<Rightarrow> u32 \<Rightarrow> msg_status \<Rightarrow> 's client \<Rightarrow> (bool \<times> fields \<times> 's client) option" where
  "pr_updateMessage A i st c = do {
     (n, c1) \<leftarrow> cl_do (ap_update A ''messages''
                  (mk_obj [(''status'', val_int32 (msg_status_code st)), (''time'', val_int64 (ap_time A (cl_world c)))])
                  (mk_obj [(''id'', val_int32 i)])) c;
     if n \<le> 0 then Some (False, [], c1)
     else do {
       (ob, c2) \<leftarrow> cl_do (ap_query_one A ''messages'' (mk_obj [(''id'', val_int32 i)]) [] [] 0) c1;
       Some (case ob of Some m \<Rightarrow> (True, m, c2) | None \<Rightarrow> (False, [], c2)) } }"

definition res_of_message :: "'s api \<Rightarrow> u32 \<Rightarrow> u32 \<Rightarrow> 's client \<Rightarrow> (fields \<times> 's client) option" where
  "res_of_message A rid mid c = do {
     (resource, c1) \<leftarrow> cl_find A ''resources'' (mk_obj [(''id'', val_int32 rid)]) c;
     (message, c2) \<leftarrow> cl_find A ''messages'' (mk_obj [(''id'', val_int32 mid)]) c1;
     Some (mk_obj [(''message'', val_of_obj message), (''resource'', val_of_obj resource)], c2) }"

text \<open>
  \<^verbatim>\<open>pushResources\<close> at position \<open>index\<close>: whether the final callback is called at once, and
  the sender handed to the client.  For an id the message has no resource for, nothing happens
  any more.
\<close>

definition pushResources ::
    "('z, 'k) suite \<Rightarrow> 's api \<Rightarrow> push_request \<Rightarrow> val list \<Rightarrow> nat \<Rightarrow> 's client
     \<Rightarrow> (bool \<times> 'k resource_sender option \<times> 's client) option" where
  "pushResources su A pr ids index c =
     (if ids = [] then Some (True, None, c)
      else if length ids \<le> index then None
      else do {
        i \<leftarrow> val_toInt (ids ! index);
        res \<leftarrow> msg_resourceById i (pr_msg pr);
        if res = None then Some (False, None, c)
        else do {
          salt \<leftarrow> resourceSalt (Some (pr_salt pr)) i;
          sender \<leftarrow> rs_create (su_sched su) (su_fresh su) (su_ok su) res (Some (pr_key pr)) salt;
          if sender = None then Some (False, None, c)
          else do {
            c1 \<leftarrow> cl_update A ''resources'' (mk_obj [(''status'', val_int32 (res_status_code RS_Outgoing))])
                    (mk_obj [(''id'', val_int32 i)]) c;
            (data, c2) \<leftarrow> res_of_message A i (rq_id pr) c1;
            Some (False, sender, cl_postEvent (ev_create EV_ResourceOutgoing data [] None) c2) } } })"

text \<open>
  The callback of a sender of resource \<open>i\<close>: once completed, the record is updated, an event
  is raised, and the next resource follows (\<^const>\<open>True\<close>: it was the last one).
\<close>

definition push_completed ::
    "('z, 'k) suite \<Rightarrow> 's api \<Rightarrow> push_request \<Rightarrow> val list \<Rightarrow> nat \<Rightarrow> u32 \<Rightarrow> ss_status \<Rightarrow> 's client
     \<Rightarrow> (bool \<times> 'k resource_sender option \<times> 's client) option" where
  "push_completed su A pr ids index i st c =
     (if st \<noteq> SS_Completed then Some (False, None, c)
      else do {
        c1 \<leftarrow> cl_update A ''resources''
                (mk_obj [(''status'', val_int32 (res_status_code RS_Sent)), (''time'', val_int64 (ap_time A (cl_world c)))])
                (mk_obj [(''id'', val_int32 i)]) c;
        (data, c2) \<leftarrow> res_of_message A i (rq_id pr) c1;
        let c3 = cl_postEvent (ev_create EV_ResourceSent data [] None) c2;
        if index + 1 < length ids then pushResources su A pr ids (index + 1) c3 else Some (True, None, c3) })"

text \<open>The final callback: the message counts as sent when all its resources are.\<close>

definition request_ref :: "('r request_scheme) \<Rightarrow> nat option \<Rightarrow> (u32 \<times> nat option) option" where
  "request_ref r cb = Some (rq_id r, cb)"

definition push_finish ::
    "'s api \<Rightarrow> push_request \<Rightarrow> nat option \<Rightarrow> fields \<Rightarrow> 's client \<Rightarrow> 's client option" where
  "push_finish A pr cb response c = do {
     (n, c1) \<leftarrow> cl_do (ap_count A ''resources'' (mk_obj [(''request'', val_int32 (rq_id pr))])) c;
     (k, c2) \<leftarrow> cl_do (ap_count A ''resources'' (mk_obj [(''request'', val_int32 (rq_id pr)),
                  (''status'', val_int32 (res_status_code RS_Sent))])) c1;
     (message, c3) \<leftarrow> (if k = n then map_option (\<lambda>(_, m, c'). (m, c')) (pr_updateMessage A (rq_id pr) MS_Sent c2)
                        else Some ([], c2));
     let c4 = cl_postEvent (rev_create EV_Undefined (request_ref pr cb) (val_of_obj response) (val_of_obj [])) c3;
     Some (if k = n
           then cl_postEvent (ev_create EV_MessageSent (mk_obj [(''message'', val_of_obj message)]) [] None) c4
           else c4) }"

text \<open>
  The temporary records of the resources the server asks for: an id the message does not have
  is a null pointer.
\<close>

primrec push_records ::
    "(ubj_type \<Rightarrow> bytes \<Rightarrow> string) \<Rightarrow> 's api \<Rightarrow> push_request \<Rightarrow> val list \<Rightarrow> 's client \<Rightarrow> 's client option" where
  "push_records fmt A pr [] c = Some c"
| "push_records fmt A pr (v # vs) c = do {
     i \<leftarrow> val_toInt v;
     found \<leftarrow> msg_resourceById i (pr_msg pr);
     r \<leftarrow> found;
     name \<leftarrow> res_name fmt r;
     t \<leftarrow> res_type r;
     name1 \<leftarrow> (if t = res_type_code FileSystem then val_toStr fmt (obj_get (res_obj r) ''path'') else Some name);
     j \<leftarrow> res_id r;
     (_, c1) \<leftarrow> cl_do (ap_insert A ''resources''
                  (mk_obj [(''id'', val_int32 j), (''type'', val_int32 t), (''request'', val_int32 (rq_id pr)),
                     (''status'', val_int32 (res_status_code RS_Outgoing)), (''name'', text_val name1)])) c;
     push_records fmt A pr vs c1 }"

definition pr_processResponse ::
    "('z, 'k) suite \<Rightarrow> 's api \<Rightarrow> push_request \<Rightarrow> nat option \<Rightarrow> fields \<Rightarrow> 's client
     \<Rightarrow> ('k resource_sender option \<times> 's client) option" where
  "pr_processResponse su A pr cb response c = do {
     st \<leftarrow> val_toInt (obj_get response ''status'');
     if st = 1 then
       (let ids = val_toArray (obj_get response ''resources'')
        in if ids \<noteq> [] then do {
             c1 \<leftarrow> push_records (su_fmt su) A pr ids c;
             (last, sender, c2) \<leftarrow> pushResources su A pr ids 0 c1;
             c3 \<leftarrow> (if last then push_finish A pr cb response c2 else Some c2);
             Some (sender, c3) }
           else do {
             (_, message, c1) \<leftarrow> pr_updateMessage A (rq_id pr) MS_Delivered c;
             let data = mk_obj [(''message'', val_of_obj message)];
             Some (None,
               cl_postEvent (ev_create EV_MessageDelivered data [] None)
                 (cl_postEvent (ev_create EV_MessageSent data [] None)
                   (cl_postEvent (rev_create EV_Undefined (request_ref pr cb) (val_of_obj response) (val_of_obj [])) c1))) })
     else if st = 0 then
       Some (None, cl_postEvent (rev_create EV_Undefined (request_ref pr cb) (val_of_obj response)
               (val_of_obj (error_ubj ''pushrequest.cpp'' 568 (obj_get response ''message'')))) c)
     else Some (None, c) }"

section \<open>What is sealed is opened\<close>

lemma crypt_meta_whole:
  assumes "ctr_laws (su_crypt su)" and "mb_data key = Some kd" "32 \<le> length kd"
    and "mb_data salt = Some sd" "16 \<le> length sd" and "mb_inv buf" "mb_data buf = Some d"
  shows "crypt_meta su key salt buf = Some (True,
    buf\<lparr>mb_data := Some (cipher (su_crypt su) (su_sched su (take 32 kd)) (take 16 sd) d)\<rparr>)"
proof -
  have len: "length d = unat (mb_size buf)" using assms(6,7) by (simp add: mb_inv_def)
  obtain out c where oc: "su_crypt su (su_sched su (take 32 kd)) (take 16 sd) d = (out, c)" by fastforce
  have lo: "length out = length d" by (rule ctr_law_length [OF assms(1) oc])
  show ?thesis
    using aes_crypt_whole [OF assms(1) _ cb_keeps_None [of "mb_size buf" "()"], of d "Some d" True
        "su_fresh su\<lparr>aes_key := su_sched su (take 32 kd), aes_ctr := take 16 sd\<rparr>" out c "()"] oc lo len assms(2-5,7)
    by (simp add: crypt_meta_def aes_setKey_def aes_setCtr_def cipher_def)
qed

lemma draw_buffer_shape:
  assumes "draw_buffer A sz n c = Some (Some b, c')" and "n \<le> sz"
  obtains bs where "length bs = n" "b = \<lparr>mb_data = Some (bs @ replicate (sz - n) 0), mb_size = of_nat sz\<rparr>"
  using assms by (auto simp: draw_buffer_def cl_do_def split: bind_splits option.splits dest: draw_length)

definition describe :: "(ubj_type \<Rightarrow> bytes \<Rightarrow> string) \<Rightarrow> resource list \<Rightarrow> val list" where
  "describe fmt rs = concat (map (\<lambda>r.
     case res_id r of
       None \<Rightarrow> []
     | Some i \<Rightarrow> (case push_entry fmt i r of Some (_, priv) \<Rightarrow> priv | None \<Rightarrow> [])) rs)"

lemma push_resources_described:
  "push_resources fmt A rs c = Some (rs', pub, priv, c') \<Longrightarrow> priv = describe fmt rs'"
  by (induction rs arbitrary: c rs' pub priv c')
    (auto simp: describe_def Let_def split: bind_splits if_splits)


lemma push_meta_cong:
  "obj_get (ms_obj m) ''meta'' = obj_get (ms_obj m') ''meta'' \<Longrightarrow>
   obj_hasField (ms_obj m) ''meta'' = obj_hasField (ms_obj m') ''meta'' \<Longrightarrow> push_meta m priv = push_meta m' priv"
  by (simp add: push_meta_def)

lemma push_record_fields:
  assumes "push_record fmt i m = Some (rec, m')"
  shows "ms_resources m' = ms_resources m" "push_meta m' priv = push_meta m priv"
proof -
  from assms obtain a m1 b m2 d m3 e m4 t where
    s: "msg_int ''src'' m = Some (a, m1)" "msg_int ''dst'' m1 = Some (b, m2)" "msg_int ''history'' m2 = Some (d, m3)"
      "msg_int ''status'' m3 = Some (e, m4)" "msg_text fmt m4 = Some (t, m')"
    by (auto simp: push_record_def split: bind_splits)
  show "ms_resources m' = ms_resources m"
    using s(1-4) [THEN msg_int_fields(1)] msg_text_fields(1) [OF s(5)] by simp
  show "push_meta m' priv = push_meta m priv"
    using s(1-4) [THEN msg_int_fields(2)] s(1-4) [THEN msg_int_fields(3)] msg_text_fields(2,3) [OF s(5)]
    by (intro push_meta_cong) simp_all
qed


text \<open>What a successful \<^verbatim>\<open>init\<close> leaves behind.\<close>

lemma pr_init_success:
  assumes "pr_init su A r msg c = Some (Some pr, c')"
  obtains kd sd dst m1 c3 c4 keys b pub where
    "pr_key pr = \<lparr>mb_data = Some kd, mb_size = 32\<rparr>" "length kd = 32"
    "pr_salt pr = \<lparr>mb_data = Some sd, mb_size = 16\<rparr>" "length sd = 16"
    "msg_int ''dst'' msg = Some (dst, m1)"
    "push_keys su A dst (pr_key pr) c3 = Some (Some keys, c4)"
    "seal_meta su (pr_key pr) (pr_salt pr)
       (push_meta (pr_msg pr) (describe (su_fmt su) (ms_resources (pr_msg pr)))) = Some (Some b)"
    "rq_head pr = push_head (rq_head r) pub b (pr_salt pr) keys"
proof -
  from assms obtain i c1 key c2 salt c3 dst m1 keys c4 rs pub priv c5 b rec m3 n where
    1: "draw_buffer A 32 32 c1 = Some (Some key, c2)" "draw_buffer A 16 12 c2 = Some (Some salt, c3)"
      "msg_int ''dst'' msg = Some (dst, m1)" "push_keys su A dst key c3 = Some (Some keys, c4)"
      "push_resources (su_fmt su) A (ms_resources m1) c4 = Some (rs, pub, priv, c5)"
      "seal_meta su key salt (push_meta m1 priv) = Some (Some b)"
      "push_record (su_fmt su) i (msg_setStatus MS_Outgoing (msg_setId i (m1\<lparr>ms_resources := rs\<rparr>))) = Some (rec, m3)"
    and 2: "pr_key pr = key" "pr_salt pr = salt" "pr_msg pr = m3"
      "rq_head pr = push_head (rq_head r) pub b salt keys"
    by (auto simp: pr_init_def and_then_Some bind_eq_Some_conv Let_def split: option.splits if_splits)
  obtain kd where k: "length kd = 32" "key = \<lparr>mb_data = Some kd, mb_size = 32\<rparr>"
    using draw_buffer_shape [OF 1(1)] by auto
  obtain sd where s: "length sd = 12" "salt = \<lparr>mb_data = Some (sd @ replicate 4 0), mb_size = 16\<rparr>"
    using draw_buffer_shape [OF 1(2)] by auto
  have "ms_resources m3 = rs" using push_record_fields(1) [OF 1(7)] by (simp add: msg_setStatus_def msg_setId_def msg_set_def)
  moreover have "push_meta m3 p = push_meta m1 p" for p
    unfolding push_record_fields(2) [OF 1(7)]
    by (rule push_meta_cong)
      (simp_all add: msg_setStatus_def msg_setId_def msg_set_def obj_get_setField obj_hasField_setField)
  moreover have "priv = describe (su_fmt su) rs" by (rule push_resources_described [OF 1(5)])
  ultimately have "seal_meta su (pr_key pr) (pr_salt pr)
      (push_meta (pr_msg pr) (describe (su_fmt su) (ms_resources (pr_msg pr)))) = Some (Some b)"
    using 1(6) 2 by simp
  with that [of kd "sd @ replicate 4 0" dst m1 c3 keys c4 b pub] 1 2 k s show thesis by simp
qed


lemma push_keys_contact:
  assumes "push_keys su A dst key c = Some (Some keys, c')"
    and "\<And>w. \<exists>w'. ap_query_one A ''contacts'' (mk_obj [(''id'', val_int32 dst)]) [] [] 0 w = Some (Some contact, w')"
  obtains k where "rsa_encrypt (su_fmt su) (su_gmp su) (su_rsa su) (su_ok su)
      (val_toObject (obj_get contact ''publicKey'')) (Some key) = Some (Some k)"
    "keys = [val_of_obj (mk_obj [(''dst'', val_int32 dst), (''key'', val_of_membuf k)])]"
  using assms(1) assms(2) [of "cl_world c"]
  by (auto simp: push_keys_def cl_do_def bind_eq_Some_conv split: if_splits)

text \<open>
  The recipient opens what the sender sealed: the same message key, and the description with
  every field the sender gave it.
\<close>

lemma push_opens:
  assumes su: "gmp_laws (su_gmp su)" "rsa_laws (su_rsa su)" "ctr_laws (su_crypt su)" "su_ok su"
    and keys: "rsa_generate (su_rsa su) bits = Some (pub, prv)" "publicKeyToUbj (su_gmp su) pub = Some opub"
      "privateKeyToUbj (su_gmp su) prv = Some oprv"
    and contact: "\<And>w. \<exists>w'. ap_query_one A ''contacts'' (mk_obj [(''id'', val_int32 dst)]) [] [] 0 w = Some (Some contact, w')"
      "obj_get contact ''publicKey'' = val_of_obj opub"
    and pushed: "msg_int ''dst'' msg = Some (dst, m1)" "pr_init su A r msg c = Some (Some pr, c')"
    and meta: "meta = push_meta (pr_msg pr) (describe (su_fmt su) (ms_resources (pr_msg pr)))"
      "ser (val_of_obj meta)" "v_depth (val_of_obj meta) < CONTAINER_STACK_MAX" "length (enc (val_of_obj meta)) < 2 ^ 32"
    and request: "obj_get request ''key'' = val_field (val_item (obj_get (rq_head pr) ''keys'') 0) ''key''"
      "obj_get request ''salt'' = obj_get (rq_head pr) ''salt''" "obj_get request ''meta'' = obj_get (rq_head pr) ''meta''"
  shows "push_open su oprv request = Some (Some (pr_key pr, meta))"
proof -
  obtain kd sd c3 c4 ks b pubs where
    k: "pr_key pr = \<lparr>mb_data = Some kd, mb_size = 32\<rparr>" "length kd = 32"
    and s: "pr_salt pr = \<lparr>mb_data = Some sd, mb_size = 16\<rparr>" "length sd = 16"
    and ks: "push_keys su A dst (pr_key pr) c3 = Some (Some ks, c4)"
    and seal: "seal_meta su (pr_key pr) (pr_salt pr) meta = Some (Some b)"
    and head: "rq_head pr = push_head (rq_head r) pubs b (pr_salt pr) ks"
    by (rule pr_init_success [OF pushed(2)]) (auto simp: pushed(1) meta(1))
  have po: "val_toObject (obj_get contact ''publicKey'') = opub"
    by (simp add: contact(2) val_toObject_def val_of_obj_def)
  obtain kb where kb: "rsa_encrypt (su_fmt su) (su_gmp su) (su_rsa su) True opub (Some (pr_key pr)) = Some (Some kb)"
    "ks = [val_of_obj (mk_obj [(''dst'', val_int32 dst), (''key'', val_of_membuf kb)])]"
    using push_keys_contact [OF ks contact(1)] unfolding po using su(4) by auto
  have inv: "mb_inv (pr_key pr)" using k by (simp add: mb_inv_def)
  have up: "ubjToPublicKey (su_fmt su) (su_gmp su) opub = Some pub"
    using publicKey_round_trip [OF su(1)] keys(2) by (metis option.inject)
  then obtain z where z: "rsa_enc (su_rsa su) pub (mb_bytes (pr_key pr)) = Some z"
    "mpz_buffer (su_gmp su) True z = Some (Some kb)"
    using kb(1) by (auto simp: rsa_encrypt_def split: option.splits)
  obtain opub' oprv' cbuf where e: "publicKeyToUbj (su_gmp su) pub = Some opub'" "privateKeyToUbj (su_gmp su) prv = Some oprv'"
    "rsa_encrypt (su_fmt su) (su_gmp su) (su_rsa su) True opub' (Some (pr_key pr)) = Some (Some cbuf)"
    "rsa_decrypt (su_fmt su) (su_gmp su) (su_rsa su) True oprv' (Some cbuf)
       = Some (Some \<lparr>mb_data = Some (mb_bytes (pr_key pr)), mb_size = mb_size (pr_key pr)\<rparr>)"
    using rsa_encrypt_decrypt [OF su(1,2) keys(1) inv z(1), of "su_fmt su"] keys(1)
    by (auto simp: rsa_createKeyPair_def bind_eq_Some_conv)
  have dec: "rsa_decrypt (su_fmt su) (su_gmp su) (su_rsa su) True oprv (Some kb) = Some (Some (pr_key pr))"
    using e keys(2,3) kb(1) k by (simp add: mb_bytes_def)
  have kbi: "mb_inv kb" using mpz_buffer_ok [OF su(1), of z] z(2) by auto
  have kbd: "mb_data kb = Some (mb_bytes kb)"
    using z(2) by (auto simp: mpz_buffer_def mb_bytes_def bind_eq_Some_conv)
  have "obj_get request ''key'' = val_of_membuf kb"
    using request(1) kb(2) head
    by (simp add: push_head_def obj_get_setField obj_get_mk_obj val_item_def val_of_arr_def)
  then have fk: "field_buffer request ''key'' = Some kb"
    using field_buffer_membuf [OF kbi] kbd by (cases kb) simp
  have "mb_inv (pr_salt pr)" using s by (simp add: mb_inv_def)
  from field_buffer_membuf [OF this, of request "''salt''"] request(2) head s(1)
  have fs: "field_buffer request ''salt'' = Some (pr_salt pr)"
    by (simp add: push_head_def obj_get_setField mb_bytes_def)
  have "v_type (val_of_obj meta) = UBJ_OBJECT \<or> v_type (val_of_obj meta) = UBJ_ARRAY" by (simp add: val_of_obj_def)
  from value_roundtrip [OF meta(2) this meta(3,4)] obtain d where
    d: "writer_write (val_of_obj meta) = Some (Some d)" "mb_inv d" "mb_bytes d = enc (val_of_obj meta)" by blast
  have ne: "enc (val_of_obj meta) \<noteq> []" by (rule enc_nonempty [OF meta(2)])
  have dd: "mb_data d = Some (enc (val_of_obj meta))" using d(3) ne by (simp add: mb_bytes_def split: option.splits)
  let ?C = "cipher (su_crypt su) (su_sched su (take 32 kd)) (take 16 sd)"
  have b: "b = d\<lparr>mb_data := Some (?C (enc (val_of_obj meta)))\<rparr>"
    using seal crypt_meta_whole [OF su(3), of "pr_key pr" kd "pr_salt pr" sd d] k s d(1,2) dd
    by (simp add: seal_meta_def)
  have bi: "mb_inv b" "mb_data b = Some (?C (enc (val_of_obj meta)))"
    using d(2) dd su(3) by (simp_all add: b mb_inv_def)
  from field_buffer_membuf [OF bi(1), of request "''meta''"] request(3) head bi(2)
  have fm: "field_buffer request ''meta'' = Some b"
    by (cases b) (simp add: push_head_def obj_get_setField mb_bytes_def)
  have open': "crypt_meta su (pr_key pr) (pr_salt pr) b = Some (True, d)"
    using crypt_meta_whole [OF su(3), of "pr_key pr" kd "pr_salt pr" sd b] k s bi dd su(3)
    by (cases d) (simp add: b cipher_inverse)
  have sz: "mb_size d = of_nat (length (enc (val_of_obj meta)))"
    using d(2) dd by (simp add: mb_inv_def)
  have "reader_read val_null (Some (enc (val_of_obj meta))) (mb_size d) = Some (True, val_of_obj meta)"
    using reader_read_enc [OF meta(2), of "[]" "[]"] meta(4) by (simp add: sz val_of_obj_def)
  then have "obj_read_buffer [] (Some d) = Some (True, meta)"
    by (simp add: obj_read_buffer_def obj_read_def dd) (simp add: val_toObject_def val_of_obj_def)
  with dec fk fs fm open' su(4) show ?thesis by (simp add: push_open_def)
qed

section \<open>The counters of the resources\<close>


text \<open>nettle counts up the 16 bytes of the counter block, the last byte first.\<close>

definition ctr_next :: "bytes \<Rightarrow> bytes" where
  "ctr_next c = rev (ctr_incr_rev (rev c))"

primrec le_number :: "bytes \<Rightarrow> nat" where
  "le_number [] = 0"
| "le_number (b # bs) = unat b + 256 * le_number bs"

lemma le_number_less: "le_number bs < 256 ^ length bs"
proof (induction bs)
  case (Cons b bs)
  have "unat b < 256" using unsigned_less [of b, where 'a = nat] by simp
  with Cons show ?case by simp
qed simp

lemma ctr_incr_low:
  "Suc (le_number xs) < 256 ^ length xs \<Longrightarrow>
   \<exists>xs'. ctr_incr_rev (xs @ ys) = xs' @ ys \<and> length xs' = length xs \<and> le_number xs' = Suc (le_number xs)"
proof (induction xs)
  case (Cons b bs)
  show ?case
  proof (cases "b = 255")
    case True
    with Cons.prems have "Suc (le_number bs) < 256 ^ length bs" by simp
    from Cons.IH [OF this] obtain bs' where
      "ctr_incr_rev (bs @ ys) = bs' @ ys" "length bs' = length bs" "le_number bs' = Suc (le_number bs)" by blast
    with True show ?thesis by (intro exI [of _ "0 # bs'"]) simp
  next
    case False
    have "unat b \<noteq> unat (255 :: byte)" using False by (metis word_unat_eq_iff)
    then have "unat b < 255" using unsigned_less [of b, where 'a = nat] by simp
    then have "unat (b + 1) = Suc (unat b)" by (simp add: unat_word_ariths)
    with False show ?thesis by (intro exI [of _ "(b + 1) # bs"]) simp
  qed
qed simp


lemma ctr_incr_many:
  "n < 256 ^ k \<Longrightarrow> \<exists>xs'. (ctr_incr_rev ^^ n) (replicate k 0 @ ys) = xs' @ ys \<and> length xs' = k \<and> le_number xs' = n"
proof (induction n)
  case 0
  have "le_number (replicate k 0) = 0" by (induction k) simp_all
  then show ?case by (intro exI [of _ "replicate k 0"]) simp
next
  case (Suc n)
  then obtain xs where xs: "(ctr_incr_rev ^^ n) (replicate k 0 @ ys) = xs @ ys" "length xs = k" "le_number xs = n"
    by auto
  with ctr_incr_low [of xs ys] Suc.prems show ?case by auto
qed

lemma ctr_next_many: "(ctr_next ^^ n) c = rev ((ctr_incr_rev ^^ n) (rev c))"
  by (induction n) (simp_all add: ctr_next_def)

lemma le_mem32_0: "le_mem32 0 = replicate 4 0"
  by (simp add: le_mem32_def to_bigendian32_def to_bigendian16_def numeral_eq_Suc)

lemma le_mem32_inj: "le_mem32 i = le_mem32 j \<longleftrightarrow> i = j"
  by (metis le_load32_mem append_Nil2 option.inject)

lemma resourceSalt_bytes:
  assumes "mb_data salt = Some sd" and "length sd = 16" and "mb_size salt = 16"
  shows "resourceSalt (Some salt) i = Some (Some \<lparr>mb_data = Some (take 8 sd @ le_mem32 i @ le_mem32 0), mb_size = 16\<rparr>)"
proof -
  have "mb_inv salt" "\<not> mb_is_empty salt" using assms by (simp_all add: mb_inv_def mb_is_empty_def)
  with assms show ?thesis by (cases salt) (simp add: resourceSalt_def mb_copy_ok)
qed

text \<open>Up to \<open>2 ^ 32\<close> blocks only the last four bytes of a counter change, so counters that differ in
  the first twelve never meet.\<close>

lemma ctr_next_block:
  assumes "length p = 12" and "n < 2 ^ 32"
  shows "\<exists>t. (ctr_next ^^ n) (p @ le_mem32 0) = p @ t \<and> le_number (rev t) = n"
proof -
  from ctr_incr_many [of n 4 "rev p"] assms(2) obtain xs where
    "(ctr_incr_rev ^^ n) (replicate 4 0 @ rev p) = xs @ rev p" "length xs = 4" "le_number xs = n" by auto
  then have "(ctr_next ^^ n) (p @ le_mem32 0) = p @ rev xs"
    by (simp add: ctr_next_many le_mem32_0)
  with \<open>le_number xs = n\<close> show ?thesis by simp
qed

lemma ctr_blocks_eq:
  assumes "length p = 12" "length q = 12" and "a < 2 ^ 32" "b < 2 ^ 32"
  shows "(ctr_next ^^ a) (p @ le_mem32 0) = (ctr_next ^^ b) (q @ le_mem32 0) \<longleftrightarrow> p = q \<and> a = b"
proof -
  obtain s where s: "(ctr_next ^^ a) (p @ le_mem32 0) = p @ s" "le_number (rev s) = a"
    using ctr_next_block [OF assms(1,3)] by blast
  obtain t where t: "(ctr_next ^^ b) (q @ le_mem32 0) = q @ t" "le_number (rev t) = b"
    using ctr_next_block [OF assms(2,4)] by blast
  have "a = b \<Longrightarrow> p = q \<Longrightarrow> s = t" using s(1) t(1) by simp
  then show ?thesis using s t assms(1,2) unfolding s(1) t(1) by auto
qed

lemma pr_create_salt:
  assumes "pr_create su A msg i c = Some (Some pr, c')"
  obtains sd where "length sd = 12" "pr_salt pr = \<lparr>mb_data = Some (sd @ le_mem32 0), mb_size = 16\<rparr>"
proof -
  obtain r m where "pr_init su A r m c = Some (Some pr, c')"
    using assms by (auto simp: pr_create_def bind_eq_Some_conv split: option.splits)
  then obtain c2 salt c3 where "draw_buffer A 16 12 c2 = Some (Some salt, c3)" "pr_salt pr = salt"
    by (auto simp: pr_init_def and_then_Some bind_eq_Some_conv Let_def split: option.splits if_splits)
  then obtain bs where "length bs = 12" "salt = \<lparr>mb_data = Some (bs @ replicate (16 - 12) 0), mb_size = of_nat 16\<rparr>"
    by - (rule draw_buffer_shape [of A 16 12], assumption, simp)
  with that \<open>pr_salt pr = salt\<close> show thesis by (simp add: le_mem32_0)
qed

end
