(* ===== verification/Requests.thy ===== *)
theory Requests
  imports Push
begin

text \<open>
  The other requests of \<^verbatim>\<open>src/request\<close>: what each needs of the client before it is made
  (\<^verbatim>\<open>init\<close>), what it sends, and what its response does; \<^verbatim>\<open>Client::request\<close> chooses among
  them.  \<open>cb\<close> is the application's callback of the request.
\<close>

section \<open>Codes\<close>

definition RQ_Dispatch :: u32 where "RQ_Dispatch = 1100"
definition RQ_CreateAccount :: u32 where "RQ_CreateAccount = 2100"
definition RQ_Login :: u32 where "RQ_Login = 2200"
definition RQ_Logout :: u32 where "RQ_Logout = 2300"
definition RQ_Config :: u32 where "RQ_Config = 2400"
definition RQ_AddContact :: u32 where "RQ_AddContact = 3100"
definition RQ_CreateAddCode :: u32 where "RQ_CreateAddCode = 3200"
definition RQ_FindContact :: u32 where "RQ_FindContact = 3300"
definition RQ_AcceptContact :: u32 where "RQ_AcceptContact = 3400"
definition RQ_RejectContact :: u32 where "RQ_RejectContact = 3500"
definition RQ_ContactStatus :: u32 where "RQ_ContactStatus = 3600"
definition RQ_Pull :: u32 where "RQ_Pull = 4200"

lemmas request_codes = RQ_Dispatch_def RQ_CreateAccount_def RQ_Login_def RQ_Logout_def RQ_Config_def
  RQ_AddContact_def RQ_CreateAddCode_def RQ_FindContact_def RQ_AcceptContact_def RQ_RejectContact_def
  RQ_ContactStatus_def RQ_Pull_def RQ_Push_def

definition before :: "status \<Rightarrow> 's client \<Rightarrow> bool" where
  "before s c \<longleftrightarrow> status_code (cl_status c) < status_code s"

section \<open>Making requests\<close>

text \<open>
  Each \<open>*_create\<close> is \<^verbatim>\<open>create\<close> with the constructor and \<^verbatim>\<open>init\<close>; the request is
  \<^const>\<open>None\<close> when \<^verbatim>\<open>init\<close> refuses.
\<close>

definition head_of :: "(string \<times> val) list \<Rightarrow> request \<Rightarrow> request" where
  "head_of kvs r = r\<lparr>rq_head := obj_merge (rq_head r) kvs\<rparr>"

definition dispatch_create :: "fields \<Rightarrow> 's client \<Rightarrow> (request option \<times> 's client) option" where
  "dispatch_create args c = do {
     r \<leftarrow> rq_new RQ_Dispatch args DEFAULT_TIMEOUT;
     Some (if before CL_Authenticated c then (None, c) else (Some (r\<lparr>rq_head := rq_args r\<rparr>), c)) }"

definition login_create :: "'s api \<Rightarrow> 's client \<Rightarrow> (request option \<times> 's client) option" where
  "login_create A c = do {
     r \<leftarrow> rq_new RQ_Login [] DEFAULT_TIMEOUT;
     case cl_account c of
       None \<Rightarrow> Some (None, c)
     | Some ac \<Rightarrow>
         if before CL_Secure c \<or> \<not> before CL_Authenticated c then Some (None, c)
         else do {
           let r1 = head_of [(''account'', val_int32 (ac_id ac)),
                      (''password'', case ac_password ac of Some b \<Rightarrow> val_of_membuf b | None \<Rightarrow> val_of_buffer None)] r;
           ((found, config), c1) \<leftarrow> cl_do (\<lambda>w. map_option (\<lambda>(f, x, w'). ((f, x), w')) (zs_getConfig A [] True w)) c;
           Some (if found then Some (head_of [(''config'', val_of_obj config)] r1) else None, c1) } }"

definition logout_create :: "'s client \<Rightarrow> (request option \<times> 's client) option" where
  "logout_create c = do { r \<leftarrow> rq_new RQ_Logout [] DEFAULT_TIMEOUT; Some (Some r, c) }"

definition config_create :: "fields \<Rightarrow> request option" where
  "config_create config = do {
     r \<leftarrow> rq_new RQ_Config [] DEFAULT_TIMEOUT;
     Some (head_of [(''config'', val_of_obj config)] r) }"

text \<open>\<^verbatim>\<open>m_head["publicKey"] = data["publicKey"]\<close>, read from the account's blob.\<close>

definition with_public_key :: "'s api \<Rightarrow> request \<Rightarrow> 's client \<Rightarrow> (request option \<times> 's client) option" where
  "with_public_key A r c = do {
     _ \<leftarrow> cl_account c;
     ((found, data), c1) \<leftarrow> cl_do (\<lambda>w. map_option (\<lambda>(f, x, w'). ((f, x), w')) (ap_getBlobObj A ''blob1'' DataNodeId [] w)) c;
     Some (if found then Some (head_of [(''publicKey'', obj_get data ''publicKey'')] r) else None, c1) }"

definition addcontact_create :: "'s api \<Rightarrow> fields \<Rightarrow> 's client \<Rightarrow> (request option \<times> 's client) option" where
  "addcontact_create A args c = do {
     r \<leftarrow> rq_new RQ_AddContact args DEFAULT_TIMEOUT;
     if before CL_Authenticated c then Some (None, c)
     else with_public_key A (head_of [(''addCode'', obj_get args ''addCode''), (''name'', obj_get args ''name''),
            (''phone'', obj_get args ''phone'')] r) c }"

definition createaddcode_create :: "'s api \<Rightarrow> fields \<Rightarrow> 's client \<Rightarrow> (request option \<times> 's client) option" where
  "createaddcode_create A args c = do {
     r \<leftarrow> rq_new RQ_CreateAddCode args DEFAULT_TIMEOUT;
     if before CL_Authenticated c then Some (None, c) else with_public_key A r c }"

definition findcontact_create :: "fields \<Rightarrow> 's client \<Rightarrow> (request option \<times> 's client) option" where
  "findcontact_create args c = do {
     r \<leftarrow> rq_new RQ_FindContact args DEFAULT_TIMEOUT;
     Some (if before CL_Authenticated c then None else Some (head_of [(''query'', obj_get args ''query'')] r), c) }"

definition acceptcontact_create :: "'s api \<Rightarrow> fields \<Rightarrow> 's client \<Rightarrow> (request option \<times> 's client) option" where
  "acceptcontact_create A args c = do {
     r \<leftarrow> rq_new RQ_AcceptContact args DEFAULT_TIMEOUT;
     if before CL_Authenticated c then Some (None, c)
     else with_public_key A (head_of [(''contactRequestId'', obj_get args ''contactRequestId'')] r) c }"

definition rejectcontact_create :: "fields \<Rightarrow> 's client \<Rightarrow> (request option \<times> 's client) option" where
  "rejectcontact_create args c = do {
     r \<leftarrow> rq_new RQ_RejectContact args DEFAULT_TIMEOUT;
     Some (if before CL_Authenticated c then None
           else Some (head_of [(''contactRequestId'', obj_get args ''contactRequestId'')] r), c) }"

definition pull_create :: "u32 \<Rightarrow> u32 \<Rightarrow> request option" where
  "pull_create messageId resourceId = do {
     r \<leftarrow> rq_new RQ_Pull [] DEFAULT_TIMEOUT;
     Some (head_of [(''messageId'', val_int32 messageId), (''resourceId'', val_int32 resourceId)] r) }"

text \<open>A new account: a random password for the server and a key pair.\<close>

record account_request = request +
  ca_storePassword :: string
  ca_storeFilename :: string
  ca_publicKey :: fields
  ca_privateKey :: fields

definition createaccount_create ::
    "('z, 'k) suite \<Rightarrow> 's api \<Rightarrow> fields \<Rightarrow> 's client \<Rightarrow> (account_request option \<times> 's client) option" where
  "createaccount_create su A args c = do {
     r \<leftarrow> rq_new RQ_CreateAccount args DEFAULT_TIMEOUT;
     if status_code (cl_status c) > status_code CL_Secure then Some (None, c)
     else do {
       pw \<leftarrow> val_toStr (su_fmt su) (obj_get args ''password'');
       and_then (draw_buffer A 32 32 c) (\<lambda>password c1. do {
         keys \<leftarrow> rsa_createKeyPair (su_gmp su) (su_rsa su) 2048;
         Some (map_option (\<lambda>(pub, prv).
             request.extend (head_of [(''name'', obj_get args ''name''), (''password'', val_of_membuf password),
                (''phone'', obj_get args ''phone''), (''findByName'', obj_get args ''findByName''),
                (''findByPhone'', obj_get args ''findByPhone'')] r)
               (account_request.fields pw [] pub prv)) keys, c1) }) } }"

section \<open>Responses\<close>

text \<open>The event that tells the application; an error when the status is not 1.\<close>

definition post_result ::
    "event_type \<Rightarrow> ('r request_scheme) \<Rightarrow> nat option \<Rightarrow> val \<Rightarrow> fields \<Rightarrow> 's client \<Rightarrow> 's client" where
  "post_result t r cb data err c = cl_postEvent (rev_create t (request_ref r cb) data (val_of_obj err)) c"

definition dispatch_response :: "request \<Rightarrow> nat option \<Rightarrow> fields \<Rightarrow> 's client \<Rightarrow> 's client option" where
  "dispatch_response r cb response c = do {
     st \<leftarrow> val_toInt (obj_get response ''status'');
     Some (post_result EV_Undefined r cb (val_of_obj response)
             (if st = 1 then [] else error_ubj ''dispatchrequest.cpp'' 111 (obj_get response ''message'')) c) }"

definition findcontact_response :: "request \<Rightarrow> nat option \<Rightarrow> fields \<Rightarrow> 's client \<Rightarrow> 's client option" where
  "findcontact_response r cb response c = do {
     st \<leftarrow> val_toInt (obj_get response ''status'');
     Some (post_result EV_Undefined r cb (val_of_obj response)
             (if st = 1 then [] else error_ubj ''findcontactrequest.cpp'' 111 (obj_get response ''message'')) c) }"

definition config_response :: "request \<Rightarrow> nat option \<Rightarrow> fields \<Rightarrow> 's client \<Rightarrow> 's client option" where
  "config_response r cb response c = do {
     st \<leftarrow> val_toInt (obj_get response ''status'');
     Some (post_result EV_Undefined r cb (val_of_obj (if st = 0 then [] else response))
             (if st = 1 then [] else error_ubj ''configrequest.cpp'' 59 (obj_get response ''message'')) c) }"

text \<open>The contact status map: one entry per item, later items win.\<close>

primrec set_contact_status :: "val list \<Rightarrow> (u32, u32) omap \<Rightarrow> (u32, u32) omap option" where
  "set_contact_status [] m = Some m"
| "set_contact_status (v # vs) m = do {
     i \<leftarrow> val_toInt (val_field v ''contactId'');
     s \<leftarrow> val_toInt (val_field v ''status'');
     set_contact_status vs (omap_insert i s m) }"

primrec update_inboxes :: "'s api \<Rightarrow> val list \<Rightarrow> 's client \<Rightarrow> 's client option" where
  "update_inboxes A [] c = Some c"
| "update_inboxes A (v # vs) c = do {
     _ \<leftarrow> cl_account c;
     i \<leftarrow> val_toInt (val_field v ''contactId'');
     (_, c1) \<leftarrow> cl_do (zs_updateInbox A i (val_toArray (val_field v ''requestIds''))) c;
     update_inboxes A vs c1 }"

definition login_response :: "'s api \<Rightarrow> request \<Rightarrow> nat option \<Rightarrow> fields \<Rightarrow> 's client \<Rightarrow> 's client option" where
  "login_response A r cb response c = do {
     st \<leftarrow> val_toInt (obj_get response ''status'');
     if st = 1 then do {
       let c1 = cl_setStatus CL_Authenticated c;
       m \<leftarrow> set_contact_status (val_toArray (obj_get response ''contactStatus'')) [];
       c2 \<leftarrow> update_inboxes A (val_toArray (obj_get response ''inbox'')) (c1\<lparr>cl_contactStatus := m\<rparr>);
       Some (post_result EV_LoginSuccess r cb (val_of_obj response) [] c2) }
     else if st = 0 then
       Some (post_result EV_LoginFailure r cb (val_of_obj response)
               (error_ubj ''loginrequest.cpp'' 153 (obj_get response ''message'')) c)
     else Some c }"

definition logout_response :: "request \<Rightarrow> nat option \<Rightarrow> fields \<Rightarrow> 's client \<Rightarrow> 's client option" where
  "logout_response r cb response c = do {
     st \<leftarrow> val_toInt (obj_get response ''status'');
     Some (if st = 1 then post_result EV_Undefined r cb (val_of_obj response) [] (cl_setStatus CL_Secure c)
           else if st = 0 then post_result EV_Undefined r cb (val_of_obj response)
                  (error_ubj ''logoutrequest.cpp'' 113 (obj_get response ''message'')) c
           else c) }"

definition addcontact_response :: "'s api \<Rightarrow> request \<Rightarrow> nat option \<Rightarrow> fields \<Rightarrow> 's client \<Rightarrow> 's client option" where
  "addcontact_response A r cb response c = do {
     st \<leftarrow> val_toInt (obj_get response ''status'');
     if st = 1 then do {
       ac \<leftarrow> cl_account c;
       (_, c1) \<leftarrow> cl_do (zs_addContactRequest A (mk_obj [(''id'', obj_get response ''requestId''),
                    (''time'', val_int64 (ap_time A (cl_world c))), (''src'', val_int32 (ac_id ac)),
                    (''name'', obj_get response ''name''), (''phone'', obj_get response ''phone''),
                    (''addCode'', obj_get response ''addCode'')])) c;
       Some (post_result EV_Undefined r cb (val_of_obj response) [] c1) }
     else if st = 0 then
       Some (post_result EV_Undefined r cb (val_of_obj response)
               (error_ubj ''addcontactrequest.cpp'' 150 (obj_get response ''message'')) c)
     else Some c }"

definition createaddcode_response :: "'s api \<Rightarrow> request \<Rightarrow> nat option \<Rightarrow> fields \<Rightarrow> 's client \<Rightarrow> 's client option" where
  "createaddcode_response A r cb response c = do {
     st \<leftarrow> val_toInt (obj_get response ''status'');
     if st = 1 then do {
       _ \<leftarrow> cl_account c;
       (_, c1) \<leftarrow> cl_do (ap_insert A ''add_codes'' (mk_obj [(''time'', val_int64 (ap_time A (cl_world c))),
                    (''addCode'', obj_get response ''addCode'')])) c;
       Some (post_result EV_Undefined r cb (val_of_obj response) [] c1) }
     else if st = 0 then
       Some (post_result EV_Undefined r cb (val_of_obj response)
               (error_ubj ''createaddcoderequest.cpp'' 140 (obj_get response ''message'')) c)
     else Some c }"

text \<open>The contact request this request answered, removed from the store.\<close>

definition drop_contact_request :: "'s api \<Rightarrow> request \<Rightarrow> 's client \<Rightarrow> 's client option" where
  "drop_contact_request A r c = do {
     _ \<leftarrow> cl_account c;
     i \<leftarrow> val_toInt (obj_get (rq_head r) ''contactRequestId'');
     map_option snd (cl_do (ap_remove A ''contact_requests'' (mk_obj [(''id'', val_int32 i)])) c) }"

definition acceptcontact_response ::
    "('z, 'k) suite \<Rightarrow> 's api \<Rightarrow> request \<Rightarrow> nat option \<Rightarrow> fields \<Rightarrow> 's client \<Rightarrow> 's client option" where
  "acceptcontact_response su A r cb response c = do {
     st \<leftarrow> val_toInt (obj_get response ''status'');
     if st = 1 then do {
       i \<leftarrow> val_toInt (obj_get (rq_head r) ''contactRequestId'');
       _ \<leftarrow> cl_account c;
       (request, c1) \<leftarrow> cl_find A ''contact_requests'' (mk_obj [(''id'', val_int32 i)]) c;
       c2 \<leftarrow> drop_contact_request A r c1;
       (_, c3) \<leftarrow> cl_do (zs_addContact A (mk_obj [(''id'', obj_get response ''contactId''),
                    (''name'', obj_get response ''name''), (''phone'', obj_get response ''phone''),
                    (''publicKey'', obj_get response ''publicKey''), (''color'', obj_get request ''color'')])) c2;
       k \<leftarrow> val_toInt (obj_get response ''contactId'');
       s \<leftarrow> val_toInt (obj_get response ''contactStatus'');
       let c4 = c3\<lparr>cl_contactStatus := omap_insert k s (cl_contactStatus c3)\<rparr>;
       (config, c5) \<leftarrow> cl_do (\<lambda>w. map_option (\<lambda>(_, x, w'). (x, w')) (zs_getConfig A [] True w)) c4;
       cr \<leftarrow> config_create config;
       (_, _, c6) \<leftarrow> cl_postRequest su A cr c5;
       Some (post_result EV_Undefined r cb (val_of_obj response) [] c6) }
     else if st = 0 then do {
       c1 \<leftarrow> drop_contact_request A r c;
       Some (post_result EV_Undefined r cb (val_of_obj response)
               (error_ubj ''acceptcontactrequest.cpp'' 175 (obj_get response ''message'')) c1) }
     else Some c }"

definition rejectcontact_response :: "'s api \<Rightarrow> request \<Rightarrow> nat option \<Rightarrow> fields \<Rightarrow> 's client \<Rightarrow> 's client option" where
  "rejectcontact_response A r cb response c = do {
     st \<leftarrow> val_toInt (obj_get response ''status'');
     if st = 1 then do {
       c1 \<leftarrow> drop_contact_request A r c;
       Some (post_result EV_Undefined r cb (val_of_obj response) [] c1) }
     else if st = 0 then do {
       c1 \<leftarrow> drop_contact_request A r c;
       Some (post_result EV_Undefined r cb (val_of_obj response)
               (error_ubj ''rejectcontactrequest.cpp'' 134 (obj_get response ''message'')) c1) }
     else Some c }"

definition pull_response :: "fields \<Rightarrow> 's client \<Rightarrow> 's client option" where
  "pull_response response c = do { _ \<leftarrow> val_toInt (obj_get response ''status''); Some c }"

section \<open>Creating an account\<close>

text \<open>
  The response to \<^verbatim>\<open>CreateAccount\<close>: a store of its own file, named after the MD5 of the
  account's name, with the account and its first configuration.  \<open>mk\<close> is \<^verbatim>\<open>Store::create\<close>
  with a file name, a password and the account data, \<^verbatim>\<open>updateBlobData\<close> with the configuration
  and \<^verbatim>\<open>close\<close>; \<open>make_store\<close> gives it from the operations of the model.
\<close>

definition make_store ::
    "('db, 'k) host \<Rightarrow> (bytes \<Rightarrow> bytes \<Rightarrow> nat \<Rightarrow> bytes) \<Rightarrow> bool \<Rightarrow> bool \<Rightarrow> bool \<Rightarrow> bytes option \<Rightarrow> bytes option
     \<Rightarrow> bytes \<Rightarrow> fields \<Rightarrow> fields \<Rightarrow> 'db \<Rightarrow> (bool \<times> 'db) option" where
  "make_store h kdf exists opened registered salt key password data config db = do {
     (r, db1) \<leftarrow> zs_init h kdf exists opened registered salt key password data db;
     case r of
       None \<Rightarrow> Some (False, db1)
     | Some (_, w) \<Rightarrow> map_option (\<lambda>(_, w1). (True, wo_db w1)) (us_updateBlobObj h ''blob1'' ConfigNodeId config w) }"

definition createaccount_response ::
    "('z, 'k) suite \<Rightarrow> 'c hash \<Rightarrow> secmem option \<Rightarrow> (string \<Rightarrow> string \<Rightarrow> fields \<Rightarrow> fields \<Rightarrow> 's \<Rightarrow> (bool \<times> 's) option)
     \<Rightarrow> account_request \<Rightarrow> nat option \<Rightarrow> fields \<Rightarrow> 's client \<Rightarrow> (account_request \<times> 's client) option" where
  "createaccount_response su hs inst mk r cb response c = do {
     st \<leftarrow> val_toInt (obj_get response ''status'');
     if st = 1 then do {
       let head = rq_head r;
       let data = mk_obj [(''accountId'', obj_get response ''accountId''), (''accountName'', obj_get head ''name''),
             (''accountPassword'', obj_get head ''password''), (''publicKey'', val_of_obj (ca_publicKey r)),
             (''privateKey'', val_of_obj (ca_privateKey r))];
       dir \<leftarrow> val_toStr (su_fmt su) (obj_get (rq_args r) ''storeDir'');
       (d, _) \<leftarrow> digest_buffer hs (su_ok su) (field_buffer head ''name'') DIGEST_MD5 inst;
       nm \<leftarrow> hexStr_buffer d;
       let file = dir @ ''/'' @ nm @ ''.store'';
       let r1 = r\<lparr>ca_storeFilename := file\<rparr>;
       (made, c1) \<leftarrow> cl_do (mk file (ca_storePassword r) data
           (mk_obj [(''findByName'', obj_get head ''findByName''), (''findByPhone'', obj_get head ''findByPhone''),
                    (''notifyStatus'', val_bool True)])) c;
       Some (r1,
         (if made
          then post_result EV_Undefined r1 cb (val_of_obj (mk_obj [(''storeFilename'', text_val file),
                 (''storePassword'', text_val (ca_storePassword r))])) [] c1
          else post_result EV_Undefined r1 cb (val_of_obj [])
                 (error_ubj ''createaccountrequest.cpp'' 194 (text_val ''failed to create store'')) c1)) }
     else if st = 0 then
       Some (r, post_result EV_Undefined r cb (val_of_obj [])
               (error_ubj ''createaccountrequest.cpp'' 204 (obj_get response ''message'')) c)
     else Some (r, c) }"

section \<open>Choosing the request\<close>

datatype any_request = AR_Plain request | AR_Account account_request | AR_Push push_request

definition base_request :: "any_request \<Rightarrow> request" where
  "base_request r = (case r of AR_Plain x \<Rightarrow> x | AR_Account x \<Rightarrow> request.truncate x | AR_Push x \<Rightarrow> request.truncate x)"

text \<open>The same request object with the base part \<open>r\<close>: posting gives it its id and its head.\<close>

definition rebase :: "request \<Rightarrow> any_request \<Rightarrow> any_request" where
  "rebase r x =
     (case x of
        AR_Plain _ \<Rightarrow> AR_Plain r
      | AR_Account y \<Rightarrow> AR_Account (request.extend r (account_request.fields (ca_storePassword y) (ca_storeFilename y)
                           (ca_publicKey y) (ca_privateKey y)))
      | AR_Push y \<Rightarrow> AR_Push (request.extend r (push_request.fields (pr_msg y) (pr_key y) (pr_salt y))))"

lemma base_rebase [simp]: "base_request (rebase r x) = r"
  by (cases x; cases r) (simp_all add: base_request_def rebase_def request.defs)

text \<open>\<^verbatim>\<open>Client::request\<close>: the result and the request made.\<close>

definition make_request ::
    "('z, 'k) suite \<Rightarrow> 's api \<Rightarrow> fields \<Rightarrow> 's client \<Rightarrow> (any_request option \<times> 's client) option" where
  "make_request su A args c = do {
     t \<leftarrow> val_toInt (obj_get args ''requestType'');
     let plain = map_option (\<lambda>(r, c1). (map_option AR_Plain r, c1));
     if t = RQ_Dispatch then plain (dispatch_create args c)
     else if t = RQ_CreateAccount then map_option (\<lambda>(r, c1). (map_option AR_Account r, c1)) (createaccount_create su A args c)
     else if t = RQ_Login then plain (login_create A c)
     else if t = RQ_Logout then plain (logout_create c)
     else if t = RQ_AddContact then plain (addcontact_create A args c)
     else if t = RQ_CreateAddCode then plain (createaddcode_create A args c)
     else if t = RQ_FindContact then plain (findcontact_create args c)
     else if t = RQ_AcceptContact then plain (acceptcontact_create A args c)
     else if t = RQ_RejectContact then plain (rejectcontact_create args c)
     else Some (None, c) }"

definition cl_request ::
    "('z, 'k) suite \<Rightarrow> 's api \<Rightarrow> fields \<Rightarrow> 's client \<Rightarrow> (bool \<times> any_request option \<times> 's client) option" where
  "cl_request su A args c = do {
     (r, c1) \<leftarrow> make_request su A args c;
     case r of
       None \<Rightarrow> Some (False, None, c1)
     | Some x \<Rightarrow> do { (ok, r1, c2) \<leftarrow> cl_postRequest su A (base_request x) c1; Some (ok, Some (rebase r1 x), c2) } }"

text \<open>The virtual call \<^verbatim>\<open>processResponse\<close>; a push may hand over the sender of a resource.\<close>

definition cl_processResponse ::
    "('z, 'k) suite \<Rightarrow> 'c hash \<Rightarrow> secmem option \<Rightarrow> (string \<Rightarrow> string \<Rightarrow> fields \<Rightarrow> fields \<Rightarrow> 's \<Rightarrow> (bool \<times> 's) option)
     \<Rightarrow> 's api \<Rightarrow> any_request \<Rightarrow> nat option \<Rightarrow> fields \<Rightarrow> 's client \<Rightarrow> ('k resource_sender option \<times> 's client) option" where
  "cl_processResponse su hs inst mk A rq cb response c =
     (case rq of
        AR_Push r \<Rightarrow> pr_processResponse su A r cb response c
      | AR_Account r \<Rightarrow> map_option (\<lambda>(_, c1). (None, c1)) (createaccount_response su hs inst mk r cb response c)
      | AR_Plain r \<Rightarrow> map_option (\<lambda>c1. (None, c1))
          (if rq_type r = RQ_Dispatch then dispatch_response r cb response c
           else if rq_type r = RQ_Login then login_response A r cb response c
           else if rq_type r = RQ_Logout then logout_response r cb response c
           else if rq_type r = RQ_Config then config_response r cb response c
           else if rq_type r = RQ_AddContact then addcontact_response A r cb response c
           else if rq_type r = RQ_CreateAddCode then createaddcode_response A r cb response c
           else if rq_type r = RQ_FindContact then findcontact_response r cb response c
           else if rq_type r = RQ_AcceptContact then acceptcontact_response su A r cb response c
           else if rq_type r = RQ_RejectContact then rejectcontact_response A r cb response c
           else if rq_type r = RQ_Pull then pull_response response c
           else Some c))"

section \<open>Who may ask for what\<close>

text \<open>A client that has not logged in can only ask for an account, a login or a logout.\<close>

lemma cl_do_keeps:
  assumes "cl_do f c = Some (x, c')"
  shows "cl_status c' = cl_status c" "cl_engine c' = cl_engine c" "cl_account c' = cl_account c"
  using assms by (auto simp: cl_do_def)

lemma rq_new_type: "rq_new t args n = Some r \<Longrightarrow> rq_type r = t"
  by (auto simp: rq_new_def bind_eq_Some_conv)

lemma head_of_type [simp]: "rq_type (head_of kvs r) = rq_type r"
  by (simp add: head_of_def)

lemma with_public_key_keeps:
  "with_public_key A r c = Some (x, c') \<Longrightarrow> cl_status c' = cl_status c \<and> cl_engine c' = cl_engine c
     \<and> (\<forall>y. x = Some y \<longrightarrow> rq_type y = rq_type r)"
  by (auto simp: with_public_key_def bind_eq_Some_conv dest: cl_do_keeps split: if_splits)

lemma draw_buffer_keeps:
  assumes "draw_buffer A n k c = Some (x, c')"
  shows "cl_status c' = cl_status c" "cl_engine c' = cl_engine c"
  using assms by (auto simp: draw_buffer_def bind_eq_Some_conv dest: cl_do_keeps)

text \<open>What a maker guarantees: the client is as it was, and a request has the type \<open>t\<close> and the status \<open>P\<close>.\<close>

definition makes :: "u32 \<Rightarrow> (status \<Rightarrow> bool) \<Rightarrow> 's client \<Rightarrow> ('r request_scheme option \<times> 's client) option \<Rightarrow> bool" where
  "makes t P c res \<longleftrightarrow> (\<forall>r c'. res = Some (r, c') \<longrightarrow> cl_status c' = cl_status c \<and> cl_engine c' = cl_engine c
     \<and> (\<forall>x. r = Some x \<longrightarrow> rq_type x = t \<and> P (cl_status c)))"

lemma makers:
  "makes RQ_Dispatch ((=) CL_Authenticated) c (dispatch_create args c)"
  "makes RQ_Login ((=) CL_Secure) c (login_create A c)"
  "makes RQ_Logout (\<lambda>_. True) c (logout_create c)"
  "makes RQ_AddContact ((=) CL_Authenticated) c (addcontact_create A args c)"
  "makes RQ_CreateAddCode ((=) CL_Authenticated) c (createaddcode_create A args c)"
  "makes RQ_FindContact ((=) CL_Authenticated) c (findcontact_create args c)"
  "makes RQ_AcceptContact ((=) CL_Authenticated) c (acceptcontact_create A args c)"
  "makes RQ_RejectContact ((=) CL_Authenticated) c (rejectcontact_create args c)"
  "makes RQ_CreateAccount ((\<noteq>) CL_Authenticated) c (createaccount_create su A args c)"
proof -
  have auth: "before CL_Authenticated c \<longleftrightarrow> CL_Authenticated \<noteq> cl_status c" for c :: "'x client"
    by (cases "cl_status c") (simp_all add: before_def status_code_def)
  have sec: "before CL_Secure c \<or> \<not> before CL_Authenticated c \<longleftrightarrow> CL_Secure \<noteq> cl_status c" for c :: "'x client"
    by (cases "cl_status c") (simp_all add: before_def status_code_def)
  have le: "status_code (cl_status c) > status_code CL_Secure \<longleftrightarrow> cl_status c = CL_Authenticated"
    by (cases "cl_status c") (simp_all add: status_code_def)
  note defs = makes_def bind_eq_Some_conv and_then_def
  show "makes RQ_Dispatch ((=) CL_Authenticated) c (dispatch_create args c)"
    "makes RQ_Logout (\<lambda>_. True) c (logout_create c)"
    "makes RQ_FindContact ((=) CL_Authenticated) c (findcontact_create args c)"
    "makes RQ_RejectContact ((=) CL_Authenticated) c (rejectcontact_create args c)"
    by (auto simp: defs dispatch_create_def logout_create_def findcontact_create_def rejectcontact_create_def auth
        dest: rq_new_type)
  show "makes RQ_AddContact ((=) CL_Authenticated) c (addcontact_create A args c)"
    "makes RQ_CreateAddCode ((=) CL_Authenticated) c (createaddcode_create A args c)"
    "makes RQ_AcceptContact ((=) CL_Authenticated) c (acceptcontact_create A args c)"
    by (auto simp: defs addcontact_create_def createaddcode_create_def acceptcontact_create_def auth
        dest: rq_new_type dest!: with_public_key_keeps split: if_splits)
  show "makes RQ_Login ((=) CL_Secure) c (login_create A c)"
    by (cases "cl_account c"; cases "ac_password (the (cl_account c))")
      (auto simp: defs login_create_def sec Let_def dest: rq_new_type cl_do_keeps split: if_splits)
  show "makes RQ_CreateAccount ((\<noteq>) CL_Authenticated) c (createaccount_create su A args c)"
    by (auto simp: defs createaccount_create_def le request.defs dest: draw_buffer_keeps split: if_splits option.splits)
      (erule rq_new_type)
qed

lemmas made = makers [unfolded makes_def, rule_format]

text \<open>
  The request \<^verbatim>\<open>Client::request\<close> makes has the type asked for, and its type fits the
  client's status.
\<close>

definition allowed :: "status \<Rightarrow> u32 \<Rightarrow> bool" where
  "allowed s t \<longleftrightarrow> t = RQ_Logout \<or> (t = RQ_Login \<and> s = CL_Secure) \<or> (t = RQ_CreateAccount \<and> s \<noteq> CL_Authenticated)
     \<or> (s = CL_Authenticated \<and> t \<in> {RQ_Dispatch, RQ_AddContact, RQ_CreateAddCode, RQ_FindContact, RQ_AcceptContact,
          RQ_RejectContact})"

lemma make_request_allowed:
  assumes "make_request su A args c = Some (r, c')"
  shows "cl_status c' = cl_status c" "cl_engine c' = cl_engine c"
    "r = Some x \<Longrightarrow> allowed (cl_status c) (rq_type (base_request x)) \<and> val_toInt (obj_get args ''requestType'') = Some (rq_type (base_request x))"
proof -
  from assms obtain t where t: "val_toInt (obj_get args ''requestType'') = Some t"
    by (auto simp: make_request_def bind_eq_Some_conv)
  note d = make_request_def t Let_def
  have "cl_status c' = cl_status c \<and> cl_engine c' = cl_engine c
    \<and> (\<forall>x. r = Some x \<longrightarrow> rq_type (base_request x) = t \<and> allowed (cl_status c) t)"
    using assms
    by (auto simp: d base_request_def allowed_def request.defs dest!: made split: if_splits)
  then show "cl_status c' = cl_status c" "cl_engine c' = cl_engine c"
    "r = Some x \<Longrightarrow> allowed (cl_status c) (rq_type (base_request x)) \<and> val_toInt (obj_get args ''requestType'') = Some (rq_type (base_request x))"
    using t by auto
qed

lemma cl_postRequest_result:
  assumes "cl_postRequest su A r c = Some (ok, r', c')"
  shows "cl_status c' = cl_status c" "\<not> ok \<Longrightarrow> cl_engine c' = cl_engine c"
    "ok \<Longrightarrow> \<exists>i q. map_of (en_requests (cl_engine c')) i = Some q \<and> rq_type q = rq_type r \<and> rq_id q = i
       \<and> (rq_id r \<noteq> 0 \<longrightarrow> i = rq_id r)"
proof -
  from assms obtain r1 c1 r2 e where
    0: "(if rq_id r = 0 then map_option (\<lambda>(i, c'). (rq_setId i r, c')) (cl_do (mkId A) c) else Some (r, c)) = Some (r1, c1)"
    and 2: "eng_postRequest (su_ok su) (ap_time A (cl_world c1)) (Some r1) (cl_engine c1) = Some (ok, r2, e)"
      "c' = c1\<lparr>cl_engine := e\<rparr>"
    by (simp add: cl_postRequest_def bind_eq_Some_conv) blast
  from 0 have 1: "cl_status c1 = cl_status c" "cl_engine c1 = cl_engine c" "rq_type r1 = rq_type r" "rq_id r \<noteq> 0 \<Longrightarrow> r1 = r"
    by (auto simp: rq_setId_def dest: cl_do_keeps split: if_splits)
  show "cl_status c' = cl_status c" using 1 2 by simp
  show "\<not> ok \<Longrightarrow> cl_engine c' = cl_engine c" using eng_postRequest_failed 1 2 by (cases ok) auto
  assume ok
  with 2(1) have "eng_postRequest (su_ok su) (ap_time A (cl_world c1)) (Some r1) (cl_engine c1) = Some (True, r2, e)" by simp
  then obtain q where "rq_type q = rq_type r1" "rq_id q = rq_id r1" "map_of (en_requests e) (rq_id r1) = Some q"
    by (elim eng_postRequest_posted) (auto simp: map_of_omap_insert)
  with 1 2(2) show "\<exists>i q. map_of (en_requests (cl_engine c')) i = Some q \<and> rq_type q = rq_type r \<and> rq_id q = i
       \<and> (rq_id r \<noteq> 0 \<longrightarrow> i = rq_id r)" by (intro exI [of _ "rq_id r1"] exI [of _ q]) auto
qed

lemma cl_request_allowed:
  assumes "cl_request su A args c = Some (ok, r, c')"
  shows "cl_status c' = cl_status c \<and>
    (if ok then \<exists>i q. map_of (en_requests (cl_engine c')) i = Some q \<and> allowed (cl_status c) (rq_type q)
                  \<and> val_toInt (obj_get args ''requestType'') = Some (rq_type q)
     else cl_engine c' = cl_engine c)"
proof -
  from assms obtain m c1 where m: "make_request su A args c = Some (m, c1)"
    by (auto simp: cl_request_def bind_eq_Some_conv)
  show ?thesis
  proof (cases m)
    case None
    with assms m make_request_allowed(1,2) [OF m] show ?thesis by (auto simp: cl_request_def)
  next
    case (Some x)
    with assms m obtain r' where p: "cl_postRequest su A (base_request x) c1 = Some (ok, r', c')"
      by (auto simp: cl_request_def bind_eq_Some_conv)
    from make_request_allowed(3) [OF m Some] make_request_allowed(1,2) [OF m] cl_postRequest_result [OF p]
    show ?thesis by (cases ok) (auto, metis+)
  qed
qed

end
