(* ===== verification/Handlers.thy ===== *)
theory Handlers
  imports Requests
begin

text \<open>
  What the client does with incoming packets and requests (\<^verbatim>\<open>src/client.cpp\<close>): receivers
  for resources, and the handlers behind \<^verbatim>\<open>processIncomingRequest\<close>.  A store that is not set
  is a null pointer.
\<close>

section \<open>Receiving resources\<close>

datatype 'k any_receiver = RC_Request ubj_receiver | RC_Resource "'k resource_receiver" fields

definition value_buffer :: "val \<Rightarrow> membuf option" where
  "value_buffer v = map_option (\<lambda>b. \<lparr>mb_data = Some b, mb_size = of_nat (length b)\<rparr>) (v_buffer v)"

text \<open>The record of the message a resource belongs to, with the resource's own.\<close>

definition resource_event :: "event_type \<Rightarrow> fields \<Rightarrow> fields \<Rightarrow> event" where
  "resource_event t message resource =
     ev_create t (mk_obj [(''message'', val_of_obj message), (''resource'', val_of_obj resource)]) [] None"

definition message_event :: "event_type \<Rightarrow> fields \<Rightarrow> event" where
  "message_event t message = ev_create t (mk_obj [(''message'', val_of_obj message)]) [] None"

text \<open>The record of the resource is marked, and the arrival announced with the record as it is then.\<close>

definition resource_announced ::
    "'s api \<Rightarrow> u32 \<Rightarrow> fields \<Rightarrow> 'k resource_receiver \<Rightarrow> 's client
     \<Rightarrow> ('k any_receiver option \<times> 's client) option" where
  "resource_announced A i request r c = do {
     c1 \<leftarrow> cl_update A ''resources'' (mk_obj [(''status'', val_int32 (res_status_code RS_Incoming))])
             (mk_obj [(''id'', val_int32 i)]) c;
     and_then (cl_do (ap_query_one A ''resources'' (mk_obj [(''id'', val_int32 i)]) [] [] 0) c1)
       (\<lambda>resource c2. do {
         (message, c3) \<leftarrow> cl_find A ''messages'' (mk_obj [(''id'', obj_get resource ''request'')]) c2;
         Some (Some (RC_Resource r request),
           cl_postEvent (resource_event EV_ResourceIncoming message (touch ''request'' resource)) c3) }) }"

definition cl_createResourceReceiver ::
    "('z, 'k) suite \<Rightarrow> 's api \<Rightarrow> packet \<Rightarrow> 's client \<Rightarrow> ('k any_receiver option \<times> 's client) option" where
  "cl_createResourceReceiver su A p c = do {
     _ \<leftarrow> cl_account c;
     let i = pkt_streamId p;
     and_then (cl_do (ap_query_one A ''resources'' (mk_obj [(''id'', val_int32 i), (''status'', val_int32 0)]) [] [] 0) c)
       (\<lambda>resource c1.
     and_then (cl_do (ap_query_one A ''requests'' (mk_obj [(''id'', obj_get resource ''request'')]) [] [] 0) c1)
       (\<lambda>request c2. do {
         let data = obj_get request ''data'';
         salt \<leftarrow> resourceSalt (value_buffer (val_field data ''salt'')) i;
         receiver \<leftarrow> rr_create (su_sched su) (su_fresh su) (su_ok su) p (value_buffer (val_field data ''key'')) salt;
         (case receiver of
            None \<Rightarrow> Some (None, c2)
          | Some r \<Rightarrow> resource_announced A i request r c2) })) }"

definition cl_createStreamReceiver ::
    "('z, 'k) suite \<Rightarrow> 's api \<Rightarrow> packet \<Rightarrow> 's client \<Rightarrow> ('k any_receiver option \<times> 's client) option" where
  "cl_createStreamReceiver su A p c =
     (if pkt_streamType p = ST_Resource then cl_createResourceReceiver su A p c
      else map_option (\<lambda>r. (map_option RC_Request r, c)) (eng_createStreamReceiver (su_ok su) p))"

text \<open>
  The callback of a resource's receiver, once it is completed: the whole buffer becomes the
  blob, whatever the number of bytes received.
\<close>

definition cl_resource_received ::
    "'s api \<Rightarrow> fields \<Rightarrow> 'k resource_receiver \<Rightarrow> 's client \<Rightarrow> 's client option" where
  "cl_resource_received A request r c =
     (if sr_status r \<noteq> SR_Completed then Some c
      else do {
        _ \<leftarrow> cl_account c;
        let byId = mk_obj [(''id'', val_int32 (sr_id r))];
        let reqId = obj_get request ''id'';
        (old, c1) \<leftarrow> cl_do (ap_queryInt A ''resources'' ''data'' byId) c;
        c2 \<leftarrow> (if old \<noteq> 0 then map_option snd (cl_do (ap_removeBlob A ''blob3'' old) c1) else Some c1);
        (blobId, c3) \<leftarrow> cl_do (ap_createBlob A ''blob3'' (br_buffer r)) c2;
        c4 \<leftarrow> cl_update A ''resources''
                (mk_obj [(''status'', val_int32 (res_status_code RS_Received)), (''data'', val_int64 blobId)]) byId c3;
        (resource, c5) \<leftarrow> cl_find A ''resources'' byId c4;
        (n, c6) \<leftarrow> cl_do (ap_count A ''resources'' (mk_obj [(''request'', reqId)])) c5;
        (k, c7) \<leftarrow> cl_do (ap_count A ''resources'' (mk_obj [(''request'', reqId),
                      (''status'', val_int32 (res_status_code RS_Received))])) c6;
        if k = n then do {
          (_, c8) \<leftarrow> cl_do (ap_remove A ''requests'' (mk_obj [(''id'', reqId)])) c7;
          c9 \<leftarrow> cl_update A ''messages'' (mk_obj [(''status'', val_int32 (msg_status_code MS_Received)),
                  (''time'', val_int64 (ap_time A (cl_world c8)))]) (mk_obj [(''id'', reqId)]) c8;
          (message, c10) \<leftarrow> cl_find A ''messages'' (mk_obj [(''id'', reqId)]) c9;
          Some (cl_postEvent (message_event EV_MessageReceived message)
                 (cl_postEvent (resource_event EV_ResourceReceived message resource) c10)) }
        else do {
          (message, c8) \<leftarrow> cl_find A ''messages'' (mk_obj [(''id'', reqId)]) c7;
          Some (cl_postEvent (resource_event EV_ResourceReceived message resource) c8) } })"

section \<open>Incoming requests\<close>

text \<open>
  \<^verbatim>\<open>processDispatchRequest\<close>: the delivery of a resource.  The number of all resources of the
  message is compared with the number of those delivered, and both counts are -1 when the store
  cannot answer.
\<close>

definition resource_delivered :: "'s api \<Rightarrow> u32 \<Rightarrow> 's client \<Rightarrow> 's client option" where
  "resource_delivered A i c = do {
     c1 \<leftarrow> cl_update A ''resources'' (mk_obj [(''status'', val_int32 (res_status_code RS_Delivered)),
             (''time'', val_int64 (ap_time A (cl_world c)))]) (mk_obj [(''id'', val_int32 i)]) c;
     (resource, c2) \<leftarrow> cl_find A ''resources'' (mk_obj [(''id'', val_int32 i)]) c1;
     messageId \<leftarrow> val_toInt (obj_get resource ''request'');
     (n, c3) \<leftarrow> cl_do (ap_count A ''resources'' (mk_obj [(''request'', val_int32 messageId)])) c2;
     (k, c4) \<leftarrow> cl_do (ap_count A ''resources'' (mk_obj [(''request'', val_int32 messageId),
                   (''status'', val_int32 (res_status_code RS_Delivered))])) c3;
     c5 \<leftarrow> (if k = n
            then cl_update A ''messages'' (mk_obj [(''status'', val_int32 (msg_status_code MS_Delivered)),
                   (''time'', val_int64 (ap_time A (cl_world c4)))]) (mk_obj [(''id'', val_int32 messageId)]) c4
            else Some c4);
     (message, c6) \<leftarrow> cl_find A ''messages'' (mk_obj [(''id'', obj_get resource ''request'')]) c5;
     let c7 = cl_postEvent (resource_event EV_ResourceDelivered message (touch ''request'' resource)) c6;
     Some (if k = n then cl_postEvent (message_event EV_MessageDelivered message) c7 else c7) }"

definition cl_processDispatch ::
    "('z, 'k) suite \<Rightarrow> 's api \<Rightarrow> fields \<Rightarrow> 's client \<Rightarrow> (bool \<times> 's client) option" where
  "cl_processDispatch su A request c = do {
     i \<leftarrow> val_toInt (obj_get request ''requestId'');
     dispatchId \<leftarrow> val_toInt (obj_get request ''dispatchId'');
     t \<leftarrow> val_toInt (obj_get request ''dispatchType'');
     c1 \<leftarrow> (if t = res_status_code RS_Receipted
            then do { _ \<leftarrow> cl_account c; resource_delivered A dispatchId c } else Some c);
     c2 \<leftarrow> cl_success su i [] c1;
     Some (True, c2) }"

definition cl_processContactRequest ::
    "('z, 'k) suite \<Rightarrow> 's api \<Rightarrow> fields \<Rightarrow> 's client \<Rightarrow> (bool \<times> 's client) option" where
  "cl_processContactRequest su A request c = do {
     i \<leftarrow> val_toInt (obj_get request ''requestId'');
     ac \<leftarrow> cl_account c;
     (rec, c1) \<leftarrow> cl_do (ap_query_one A ''contact_requests'' (mk_obj [(''id'', val_int32 i)]) [] [] 0) c;
     (ok, c2) \<leftarrow>
       (case rec of
          Some ob \<Rightarrow> Some (True, cl_postEvent (ev_create EV_ContactRequest ob [] None) c1)
        | None \<Rightarrow> do {
            c' \<leftarrow> (if obj_hasField request ''addCode''
                   then map_option snd (cl_do (ap_remove A ''add_codes''
                          (mk_obj [(''addCode'', obj_get request ''addCode'')])) c1)
                   else Some c1);
            (n, c'') \<leftarrow> cl_do (zs_addContactRequest A (mk_obj [(''id'', obj_get request ''requestId''),
                         (''time'', val_int64 (ap_time A (cl_world c'))), (''dst'', val_int32 (ac_id ac)),
                         (''name'', obj_get request ''name''), (''phone'', obj_get request ''phone''),
                         (''addCode'', obj_get request ''addCode'')])) c';
            Some (if n = 0 then (False, c'')
                  else (True, cl_postEvent (ev_create EV_ContactRequest request [] None) c'')) });
     if \<not> ok then Some (False, c2)
     else do { c3 \<leftarrow> cl_success su i [] c2; Some (True, c3) } }"

definition cl_processContactAccepted ::
    "('z, 'k) suite \<Rightarrow> 's api \<Rightarrow> fields \<Rightarrow> 's client \<Rightarrow> (bool \<times> 's client) option" where
  "cl_processContactAccepted su A request c = do {
     i \<leftarrow> val_toInt (obj_get request ''requestId'');
     j \<leftarrow> val_toInt (obj_get request ''contactRequestId'');
     _ \<leftarrow> cl_account c;
     (found, c1) \<leftarrow> cl_do (ap_query_one A ''contact_requests'' (mk_obj [(''id'', val_int32 j)]) [] [] 0) c;
     case found of
       None \<Rightarrow> map_option (\<lambda>c2. (False, c2)) (cl_failure su i c1)
     | Some rec \<Rightarrow> do {
         c2 \<leftarrow> cl_update A ''contact_requests'' (mk_obj [(''result'', val_int32 RQ_AcceptContact)])
                 (mk_obj [(''id'', val_int32 j)]) c1;
         (_, c3) \<leftarrow> cl_do (zs_addContact A (mk_obj [(''id'', obj_get request ''contactId''),
                      (''name'', obj_get request ''name''), (''phone'', obj_get request ''phone''),
                      (''publicKey'', obj_get request ''publicKey''), (''color'', obj_get rec ''color'')])) c2;
         k \<leftarrow> val_toInt (obj_get request ''contactId'');
         s \<leftarrow> val_toInt (obj_get request ''contactStatus'');
         let c4 = c3\<lparr>cl_contactStatus := omap_insert k s (cl_contactStatus c3)\<rparr>;
         c5 \<leftarrow> cl_success su i [] (cl_postEvent (rev_create EV_ContactRequestAccepted None (val_of_obj request) val_null) c4);
         Some (True, c5) } }"

definition cl_processContactRejected ::
    "('z, 'k) suite \<Rightarrow> 's api \<Rightarrow> fields \<Rightarrow> 's client \<Rightarrow> (bool \<times> 's client) option" where
  "cl_processContactRejected su A request c = do {
     i \<leftarrow> val_toInt (obj_get request ''requestId'');
     j \<leftarrow> val_toInt (obj_get request ''contactRequestId'');
     _ \<leftarrow> cl_account c;
     (found, c1) \<leftarrow> cl_do (ap_query_one A ''contact_requests'' (mk_obj [(''id'', val_int32 j)]) [] [] 0) c;
     if found = None then map_option (\<lambda>c2. (False, c2)) (cl_failure su i c1)
     else do {
       c2 \<leftarrow> cl_update A ''contact_requests'' (mk_obj [(''result'', val_int32 RQ_RejectContact)])
               (mk_obj [(''id'', val_int32 j)]) c1;
       c3 \<leftarrow> cl_success su i [] (cl_postEvent (rev_create EV_ContactRequestRejected None (val_of_obj request) val_null) c2);
       Some (True, c3) } }"

definition cl_processContactStatus :: "fields \<Rightarrow> 's client \<Rightarrow> (bool \<times> 's client) option" where
  "cl_processContactStatus request c = do {
     m \<leftarrow> set_contact_status (val_toArray (obj_get request ''contactStatus'')) (cl_contactStatus c);
     Some (True, cl_postEvent (ev_create EV_ContactStatus request [] None) (c\<lparr>cl_contactStatus := m\<rparr>)) }"

definition cl_processIncomingRequest ::
    "('z, 'k) suite \<Rightarrow> 's api \<Rightarrow> fields \<Rightarrow> 's client \<Rightarrow> (bool \<times> 's client) option" where
  "cl_processIncomingRequest su A request c = do {
     t \<leftarrow> val_toInt (obj_get request ''requestType'');
     if t = RQ_Dispatch then cl_processDispatch su A request c
     else if t = RQ_AddContact then cl_processContactRequest su A request c
     else if t = RQ_AcceptContact then cl_processContactAccepted su A request c
     else if t = RQ_RejectContact then cl_processContactRejected su A request c
     else if t = RQ_ContactStatus then cl_processContactStatus request c
     else if t = RQ_Push then cl_processPush su A request c
     else Some (False, c) }"

end
