(* ===== verification/Client_Keeps.thy ===== *)
theory Client_Keeps
  imports Handlers
begin

text \<open>
  What the operations of the client leave alone: no handler of an incoming request, no receiver
  and no response except those of \<^verbatim>\<open>Login\<close> and \<^verbatim>\<open>Logout\<close> changes the client's status.  The
  rules of \<open>settles\<close> follow the shape of the code, so each proof is one pass over it.
\<close>

section \<open>Rules\<close>

text \<open>Whatever an operation returns has the property \<open>P\<close>; the rules follow the shape of the code.\<close>

definition settles :: "('a \<Rightarrow> bool) \<Rightarrow> 'a option \<Rightarrow> bool" where
  "settles P m \<longleftrightarrow> (\<forall>x. m = Some x \<longrightarrow> P x)"

lemma settlesD: "settles P m \<Longrightarrow> m = Some x \<Longrightarrow> P x"
  by (simp add: settles_def)

lemma settles_bind4: "settles (\<lambda>(a, b, c, d). Q d) m \<Longrightarrow> (\<And>a b c d. Q d \<Longrightarrow> settles P (f a b c d)) \<Longrightarrow> settles P (Option.bind m (\<lambda>(a, b, c, d). f a b c d))"
  by (auto simp: settles_def bind_eq_Some_conv)

lemma settles_bind3: "settles (\<lambda>(a, b, c). Q c) m \<Longrightarrow> (\<And>a b c. Q c \<Longrightarrow> settles P (f a b c)) \<Longrightarrow> settles P (Option.bind m (\<lambda>(a, b, c). f a b c))"
  by (auto simp: settles_def bind_eq_Some_conv)

lemma settles_bind2: "settles (\<lambda>(a, b). Q b) m \<Longrightarrow> (\<And>a b. Q b \<Longrightarrow> settles P (f a b)) \<Longrightarrow> settles P (Option.bind m (\<lambda>(a, b). f a b))"
  by (auto simp: settles_def bind_eq_Some_conv)

lemma settles_bind: "settles Q m \<Longrightarrow> (\<And>x. Q x \<Longrightarrow> settles P (f x)) \<Longrightarrow> settles P (Option.bind m f)"
  by (auto simp: settles_def bind_eq_Some_conv)

lemma settles_then:
  "settles (\<lambda>(a, b). Q b) m \<Longrightarrow> (\<And>x c. Q c \<Longrightarrow> settles (\<lambda>(a, b). Q b) (f x c)) \<Longrightarrow> settles (\<lambda>(a, b). Q b) (and_then m f)"
  by (auto simp: settles_def and_then_def bind_eq_Some_conv split: option.splits)

lemma settles_shapes:
  "settles (\<lambda>(a, b). Q b) m2 \<Longrightarrow> settles (\<lambda>(a, b). Q b) (map_option (\<lambda>(a, b). (h2 a b, b)) m2)"
  "settles (\<lambda>(a, b, c). Q c) m3 \<Longrightarrow> settles (\<lambda>(a, b). Q b) (map_option (\<lambda>(a, b, c). (h3 a b c, c)) m3)"
  "settles Q m1 \<Longrightarrow> settles (\<lambda>(a, b). Q b) (map_option (Pair u) m1)"
  "settles (\<lambda>(a, b). Q b) n2 \<Longrightarrow> settles Q (map_option snd n2)"
  "settles P (Some x) \<Longrightarrow> (\<And>y. settles P (Some (k y))) \<Longrightarrow> settles P (Some (case w of None \<Rightarrow> x | Some y \<Rightarrow> k y))"
  "(b \<Longrightarrow> settles P (Some x)) \<Longrightarrow> (\<not> b \<Longrightarrow> settles P (Some y)) \<Longrightarrow> settles P (Some (if b then x else y))"
  "Q e \<Longrightarrow> settles (\<lambda>(a, b, c, d). Q d) (Some (y1, y2, y3, e))"
  "Q d \<Longrightarrow> settles (\<lambda>(a, b, c). Q c) (Some (w1, w2, d))"
  "Q d \<Longrightarrow> settles (\<lambda>(a, b). Q b) (Some (v, d))"
  "Q d \<Longrightarrow> settles Q (Some d)"
  by (auto simp: settles_def split: option.splits)

lemma settles_control:
  "settles P None"
  "(b \<Longrightarrow> settles P m) \<Longrightarrow> (\<not> b \<Longrightarrow> settles P n) \<Longrightarrow> settles P (if b then m else n)"
  "settles P m \<Longrightarrow> (\<And>x. settles P (h x)) \<Longrightarrow> settles P (case w of None \<Rightarrow> m | Some x \<Rightarrow> h x)"
  "(\<And>x y. settles P (k x y)) \<Longrightarrow> settles P (case q of (x, y) \<Rightarrow> k x y)"
  "(\<And>x y. settles P (j x y z)) \<Longrightarrow> settles P ((case q of (x, y) \<Rightarrow> j x y) z)"
  by (auto simp: settles_def split: option.splits prod.splits)

lemma settles_any: "settles (\<lambda>(a, b, c, d). True) m4" "settles (\<lambda>(a, b, c). True) m3" "settles (\<lambda>(a, b). True) m2" "settles (\<lambda>_. True) m1"
  by (simp_all add: settles_def)

lemmas settles_rules = settles_then settles_bind4 settles_bind3 settles_bind2 settles_bind settles_shapes settles_control settles_any

section \<open>Status and account\<close>

text \<open>Status and account stay as they are.\<close>

definition keeps :: "'s client \<Rightarrow> 's client \<Rightarrow> bool" where
  "keeps c c' \<longleftrightarrow> cl_status c' = cl_status c \<and> cl_account c' = cl_account c"

lemma keeps_refl [simp]: "keeps c c"
  by (simp add: keeps_def)

named_theorems keeps_rules

lemma keeps_steps [keeps_rules]:
  "keeps c c' \<Longrightarrow> keeps c (cl_postEvent e c')"
  "keeps c c' \<Longrightarrow> keeps c (post_result t r cb data err c')"
  "keeps c c' \<Longrightarrow> keeps c (c'\<lparr>cl_contactStatus := m\<rparr>)"
  "keeps c c' \<Longrightarrow> keeps c (c'\<lparr>cl_engine := en\<rparr>)"
  "(b \<Longrightarrow> keeps c c1) \<Longrightarrow> (\<not> b \<Longrightarrow> keeps c c2) \<Longrightarrow> keeps c (if b then c1 else c2)"
  by (simp_all add: keeps_def cl_postEvent_def post_result_def)

lemma keeps_ops [keeps_rules]:
  "keeps c0 c \<Longrightarrow> settles (\<lambda>(x, c'). keeps c0 c') (cl_do f c)"
  "keeps c0 c \<Longrightarrow> settles (keeps c0) (cl_update A t u w c)"
  "keeps c0 c \<Longrightarrow> settles (\<lambda>(ob, c'). keeps c0 c') (cl_find A t w c)"
  "keeps c0 c \<Longrightarrow> settles (keeps c0) (cl_success su i h c)"
  "keeps c0 c \<Longrightarrow> settles (keeps c0) (cl_failure su i c)"
  by (auto simp: cl_simps keeps_def settles_def)

lemma keeps_parts [keeps_rules]:
  "keeps c0 c \<Longrightarrow> settles (\<lambda>(ok, r', c'). keeps c0 c') (cl_postRequest su A rq c)"
  "keeps c0 c \<Longrightarrow> settles (keeps c0) (drop_contact_request A rq c)"
  "keeps c0 c \<Longrightarrow> settles (\<lambda>(d, c'). keeps c0 c') (res_of_message A i j c)"
  "keeps c0 c \<Longrightarrow> settles (\<lambda>(r, m, c'). keeps c0 c') (pr_updateMessage A i st c)"
  "keeps c0 c \<Longrightarrow> settles (keeps c0) (cl_processMessage su A rq0 meta n c)"
  "keeps c0 c \<Longrightarrow> settles (keeps c0) (resource_delivered A i c)"
  unfolding cl_postRequest_def drop_contact_request_def res_of_message_def pr_updateMessage_def cl_processMessage_def
    resource_delivered_def Let_def
  by (erule asm_rl | rule keeps_rules settles_rules)+

lemma keeps_loops [keeps_rules]:
  "keeps c0 c \<Longrightarrow> settles (keeps c0) (update_inboxes A vs c)"
  "keeps c0 c \<Longrightarrow> settles (\<lambda>(x, c'). keeps c0 c') (store_resources A i vs c)"
  "keeps c0 c \<Longrightarrow> settles (keeps c0) (push_records fmt A pr vs c)"
proof (atomize (full), induction vs arbitrary: c)
  case (Cons v vs)
  then have "keeps c0 d \<Longrightarrow> settles (keeps c0) (update_inboxes A vs d)"
    "keeps c0 d \<Longrightarrow> settles (\<lambda>(x, c'). keeps c0 c') (store_resources A i vs d)"
    "keeps c0 d \<Longrightarrow> settles (keeps c0) (push_records fmt A pr vs d)" for d by simp_all
  note rules = this
  show ?case
    unfolding update_inboxes.simps store_resources.simps push_records.simps
    by (erule asm_rl | rule conjI impI rules keeps_rules settles_rules)+
qed (simp add: settles_def)

lemma keeps_push [keeps_rules]:
  "keeps c0 c \<Longrightarrow> settles (\<lambda>(l, s, c'). keeps c0 c') (pushResources su A pr ids k c)"
  "keeps c0 c \<Longrightarrow> settles (keeps c0) (push_finish A pr cb response c)"
  "keeps c0 c \<Longrightarrow> settles (\<lambda>(x, c'). keeps c0 c') (store_push A i rq key meta c)"
  unfolding pushResources_def push_finish_def store_push_def Let_def
  by (erule asm_rl | rule keeps_rules settles_rules)+

lemma keeps_completed [keeps_rules]:
  "keeps c0 c \<Longrightarrow> settles (\<lambda>(l, s, c'). keeps c0 c') (push_completed su A pr ids k i st c)"
  "keeps c0 c \<Longrightarrow> settles (\<lambda>(s, c'). keeps c0 c') (pr_processResponse su A pr cb response c)"
  unfolding push_completed_def pr_processResponse_def Let_def
  by (erule asm_rl | rule keeps_rules settles_rules)+

section \<open>Handlers and responses\<close>

lemma keeps_handlers [keeps_rules]:
  "keeps c0 c \<Longrightarrow> settles (\<lambda>(r, c'). keeps c0 c') (cl_processPush su A rq c)"
  "keeps c0 c \<Longrightarrow> settles (\<lambda>(r, c'). keeps c0 c') (cl_processDispatch su A rq c)"
  "keeps c0 c \<Longrightarrow> settles (\<lambda>(r, c'). keeps c0 c') (cl_processContactRequest su A rq c)"
  "keeps c0 c \<Longrightarrow> settles (\<lambda>(r, c'). keeps c0 c') (cl_processContactAccepted su A rq c)"
  "keeps c0 c \<Longrightarrow> settles (\<lambda>(r, c'). keeps c0 c') (cl_processContactRejected su A rq c)"
  "keeps c0 c \<Longrightarrow> settles (\<lambda>(r, c'). keeps c0 c') (cl_processContactStatus rq c)"
  unfolding cl_processPush_def cl_processDispatch_def cl_processContactRequest_def cl_processContactAccepted_def
    cl_processContactRejected_def cl_processContactStatus_def Let_def
  by (erule asm_rl | rule keeps_rules settles_rules)+

lemma keeps_streams [keeps_rules]:
  "keeps c0 c \<Longrightarrow> settles (\<lambda>(r, c'). keeps c0 c') (cl_processIncomingRequest su A rq c)"
  "keeps c0 c \<Longrightarrow> settles (\<lambda>(r, c'). keeps c0 c') (cl_createResourceReceiver su A pkt c)"
  "keeps c0 c \<Longrightarrow> settles (keeps c0) (cl_resource_received A rq rr c)"
  unfolding cl_processIncomingRequest_def cl_createResourceReceiver_def resource_announced_def cl_resource_received_def Let_def
  by (erule asm_rl | rule keeps_rules settles_rules)+

lemma keeps_responses [keeps_rules]:
  "keeps c0 c \<Longrightarrow> settles (keeps c0) (dispatch_response r cb response c)"
  "keeps c0 c \<Longrightarrow> settles (keeps c0) (config_response r cb response c)"
  "keeps c0 c \<Longrightarrow> settles (keeps c0) (findcontact_response r cb response c)"
  "keeps c0 c \<Longrightarrow> settles (keeps c0) (addcontact_response A r cb response c)"
  "keeps c0 c \<Longrightarrow> settles (keeps c0) (createaddcode_response A r cb response c)"
  "keeps c0 c \<Longrightarrow> settles (keeps c0) (acceptcontact_response su A r cb response c)"
  "keeps c0 c \<Longrightarrow> settles (keeps c0) (rejectcontact_response A r cb response c)"
  "keeps c0 c \<Longrightarrow> settles (keeps c0) (pull_response response c)"
  "keeps c0 c \<Longrightarrow> settles (\<lambda>(q, c'). keeps c0 c') (createaccount_response su hs inst mk ra cb response c)"
  unfolding dispatch_response_def config_response_def findcontact_response_def addcontact_response_def
    createaddcode_response_def acceptcontact_response_def rejectcontact_response_def pull_response_def
    createaccount_response_def Let_def
  by (erule asm_rl | rule keeps_rules settles_rules)+


text \<open>\<^verbatim>\<open>Client::request\<close> and \<^verbatim>\<open>postMessage\<close>.\<close>

lemma keeps_making [keeps_rules]:
  "keeps c0 c \<Longrightarrow> settles (\<lambda>(b, c'). keeps c0 c') (draw_buffer A n k c)"
  "keeps c0 c \<Longrightarrow> settles (\<lambda>(ks, c'). keeps c0 c') (push_keys su A dst key c)"
  "keeps c0 c \<Longrightarrow> settles (\<lambda>(r, c'). keeps c0 c') (with_public_key A rq c)"
  unfolding draw_buffer_def push_keys_def with_public_key_def Let_def
  by (erule asm_rl | rule keeps_rules settles_rules)+

lemma keeps_create [keeps_rules]:
  "keeps c0 c \<Longrightarrow> settles (\<lambda>(r, c'). keeps c0 c') (login_create A c)"
  "keeps c0 c \<Longrightarrow> settles (\<lambda>(r, c'). keeps c0 c') (createaccount_create su A args c)"
  unfolding login_create_def createaccount_create_def Let_def
  by (erule asm_rl | rule keeps_rules settles_rules)+


lemma keeps_push_resources [keeps_rules]:
  "keeps c0 c \<Longrightarrow> settles (\<lambda>(rs, pub, priv, c'). keeps c0 c') (push_resources fmt A rs0 c)"
proof (induction rs0 arbitrary: c)
  case (Cons r rs0)
  show ?case
    unfolding push_resources.simps Let_def
    by (insert Cons.prems, (erule asm_rl | rule Cons.IH keeps_rules settles_rules)+)
qed (simp add: settles_def)

lemma keeps_init [keeps_rules]:
  "keeps c0 c \<Longrightarrow> settles (\<lambda>(r, c'). keeps c0 c') (pr_init su A rq m c)"
  unfolding pr_init_def Let_def
  by (erule asm_rl | rule keeps_rules settles_rules)+

lemma keeps_pr_create [keeps_rules]:
  "keeps c0 c \<Longrightarrow> settles (\<lambda>(r, c'). keeps c0 c') (pr_create su A msg i c)"
  unfolding pr_create_def
  by (erule asm_rl | rule keeps_rules settles_rules)+

lemma keeps_postMessage:
  "keeps c0 c \<Longrightarrow> settles (\<lambda>(ok, r, c'). keeps c0 c') (cl_postMessage su A msg c)"
  unfolding cl_postMessage_def
  by (erule asm_rl | rule keeps_rules settles_rules)+

lemma cl_request_status: "cl_request su A args c = Some (ok, x, c') \<Longrightarrow> cl_status c' = cl_status c"
  using cl_request_allowed [of su A args c ok x c'] by simp

end
