(* ===== verification/Client_Answers.thy ===== *)
theory Client_Answers
  imports Client_Keeps
begin

text \<open>
  How the handlers of incoming requests answer: what each of them queues in the engine.  The
  store, the events and the messages do not touch the engine, and a handler posts at most one
  answer, as its last step.
\<close>

section \<open>The engine is left alone\<close>

definition same_engine :: "'s client \<Rightarrow> 's client \<Rightarrow> bool" where
  "same_engine c c' \<longleftrightarrow> cl_engine c' = cl_engine c"

lemma same_engine_refl [simp]: "same_engine c c"
  by (simp add: same_engine_def)

named_theorems engine_rules

lemma same_engine_steps [engine_rules]:
  "same_engine c c' \<Longrightarrow> same_engine c (cl_postEvent e c')"
  "same_engine c c' \<Longrightarrow> same_engine c (c'\<lparr>cl_contactStatus := m\<rparr>)"
  "(b \<Longrightarrow> same_engine c c1) \<Longrightarrow> (\<not> b \<Longrightarrow> same_engine c c2) \<Longrightarrow> same_engine c (if b then c1 else c2)"
  by (simp_all add: same_engine_def cl_postEvent_def)

lemma same_engine_ops [engine_rules]:
  "same_engine c0 c \<Longrightarrow> settles (\<lambda>(x, c'). same_engine c0 c') (cl_do f c)"
  "same_engine c0 c \<Longrightarrow> settles (same_engine c0) (cl_update A t u w c)"
  "same_engine c0 c \<Longrightarrow> settles (\<lambda>(ob, c'). same_engine c0 c') (cl_find A t w c)"
  by (auto simp: cl_simps same_engine_def settles_def)

lemma same_engine_parts [engine_rules]:
  "same_engine c0 c \<Longrightarrow> settles (same_engine c0) (cl_processMessage su A rq0 meta n c)"
  "same_engine c0 c \<Longrightarrow> settles (same_engine c0) (resource_delivered A i c)"
  unfolding cl_processMessage_def resource_delivered_def Let_def
  by (erule asm_rl | rule engine_rules settles_rules)+

lemma same_engine_resources [engine_rules]:
  "same_engine c0 c \<Longrightarrow> settles (\<lambda>(x, c'). same_engine c0 c') (store_resources A i vs c)"
proof (induction vs arbitrary: c)
  case (Cons v vs)
  show ?case
    unfolding store_resources.simps
    by (insert Cons.prems, (erule asm_rl | rule Cons.IH engine_rules settles_rules)+)
qed (simp add: settles_def)

lemma same_engine_push [engine_rules]:
  "same_engine c0 c \<Longrightarrow> settles (\<lambda>(x, c'). same_engine c0 c') (store_push A i rq key meta c)"
  unfolding store_push_def
  by (erule asm_rl | rule engine_rules settles_rules)+

section \<open>Answers\<close>

text \<open>
  One answer to the request \<open>i\<close>: a head with its id and the result, queued if the id is not
  zero and the allocation succeeds.
\<close>

definition answered :: "bool \<Rightarrow> bool \<Rightarrow> u32 \<Rightarrow> 's client \<Rightarrow> 's client \<Rightarrow> bool" where
  "answered alloc ok i c c' \<longleftrightarrow>
     (\<exists>v r. obj_get v ''requestId'' = val_int32 i \<and> obj_get v ''status'' = val_int32 (of_bool ok)
        \<and> eng_addUbjSender alloc i ST_Request (val_of_obj v) (cl_engine c) = Some (r, cl_engine c'))"

lemma answers:
  "same_engine c0 c \<Longrightarrow> settles (answered (su_ok su) True i c0) (cl_success su i h c)"
  "same_engine c0 c \<Longrightarrow> settles (answered (su_ok su) False i c0) (cl_failure su i c)"
  by (force simp: settles_def answered_def same_engine_def cl_success_def cl_failure_def
        eng_postRequestSuccess_def eng_postRequestFailure_def obj_get_setField bind_eq_Some_conv)+

text \<open>What a handler answers: its result when it answers at all.\<close>

definition answers_its_result :: "bool \<Rightarrow> u32 \<Rightarrow> 's client \<Rightarrow> bool \<times> 's client \<Rightarrow> bool" where
  "answers_its_result alloc i c = (\<lambda>(ok, c'). answered alloc ok i c c')"

lemma answers_last:
  "same_engine c0 c \<Longrightarrow>
     settles (answers_its_result (su_ok su) i c0) (Option.bind (cl_success su i h c) (\<lambda>c'. Some (True, c')))"
  "same_engine c0 c \<Longrightarrow>
     settles (answers_its_result (su_ok su) i c0) (map_option (\<lambda>c'. (False, c')) (cl_failure su i c))"
  using answers [of c0 c su i] by (auto simp: settles_def answers_its_result_def bind_eq_Some_conv)


lemma answers_handlers:
  assumes "val_toInt (obj_get rq ''requestId'') = Some i"
  shows "settles (answers_its_result (su_ok su) i c) (cl_processDispatch su A rq c)"
    and "settles (answers_its_result (su_ok su) i c) (cl_processContactAccepted su A rq c)"
    and "settles (answers_its_result (su_ok su) i c) (cl_processContactRejected su A rq c)"
    and "obj_hasField rq ''key'' \<and> obj_hasField rq ''salt'' \<and> obj_hasField rq ''meta'' \<Longrightarrow>
      settles (answers_its_result (su_ok su) i c) (cl_processPush su A rq c)"
  unfolding cl_processPush_def cl_processDispatch_def cl_processContactAccepted_def
    cl_processContactRejected_def Let_def assms Option.bind.simps
  by ((erule asm_rl | erule (1) notE | rule same_engine_refl answers_last engine_rules settles_rules)+)

text \<open>A request for contact is answered unless it could not be stored.\<close>

definition answers_success :: "bool \<Rightarrow> u32 \<Rightarrow> 's client \<Rightarrow> bool \<times> 's client \<Rightarrow> bool" where
  "answers_success alloc i c = (\<lambda>(ok, c'). if ok then answered alloc True i c c' else same_engine c c')"

lemma answers_success_last:
  "same_engine c0 c \<Longrightarrow> settles (answers_success alloc i c0) (Some (False, c))"
  "same_engine c0 c \<Longrightarrow>
     settles (answers_success (su_ok su) i c0) (Option.bind (cl_success su i h c) (\<lambda>c'. Some (True, c')))"
  using answers(1) [of c0 c su i h] by (auto simp: settles_def answers_success_def bind_eq_Some_conv)

lemma answers_contact_request:
  assumes "val_toInt (obj_get rq ''requestId'') = Some i"
  shows "settles (answers_success (su_ok su) i c) (cl_processContactRequest su A rq c)"
  unfolding cl_processContactRequest_def assms Option.bind.simps
  by (erule asm_rl | rule same_engine_refl answers_success_last engine_rules settles_rules)+

lemma unanswered_handlers:
  "settles (\<lambda>(ok, c'). same_engine c c') (cl_processContactStatus rq c)"
  "\<not> (obj_hasField rq ''key'' \<and> obj_hasField rq ''salt'' \<and> obj_hasField rq ''meta'') \<Longrightarrow>
     settles (\<lambda>(ok, c'). same_engine c c') (cl_processPush su A rq c)"
  unfolding cl_processContactStatus_def cl_processPush_def Let_def
  by (rule same_engine_refl engine_rules settles_rules | (erule (1) notE) | (erule asm_rl))+

text \<open>The request types are different numbers, so one handler is behind each.\<close>

lemmas request_codes = RQ_Dispatch_def RQ_AddContact_def RQ_AcceptContact_def RQ_RejectContact_def
  RQ_ContactStatus_def RQ_Push_def

lemma incoming_cases:
  assumes "cl_processIncomingRequest su A rq c = Some (ok, c')"
    and "val_toInt (obj_get rq ''requestType'') = Some t"
  obtains
    "t = RQ_Dispatch" "cl_processDispatch su A rq c = Some (ok, c')"
  | "t = RQ_AddContact" "cl_processContactRequest su A rq c = Some (ok, c')"
  | "t = RQ_AcceptContact" "cl_processContactAccepted su A rq c = Some (ok, c')"
  | "t = RQ_RejectContact" "cl_processContactRejected su A rq c = Some (ok, c')"
  | "t = RQ_ContactStatus" "cl_processContactStatus rq c = Some (ok, c')"
  | "t = RQ_Push" "cl_processPush su A rq c = Some (ok, c')"
  | "t \<notin> {RQ_Dispatch, RQ_AddContact, RQ_AcceptContact, RQ_RejectContact, RQ_ContactStatus, RQ_Push}"
    "ok = False" "c' = c"
  using assms by (auto simp: cl_processIncomingRequest_def split: if_splits)

lemma handled_id:
  "cl_processDispatch su A rq c = Some (ok, c') \<Longrightarrow> \<exists>i. val_toInt (obj_get rq ''requestId'') = Some i"
  "cl_processContactRequest su A rq c = Some (ok, c') \<Longrightarrow> \<exists>i. val_toInt (obj_get rq ''requestId'') = Some i"
  "cl_processContactAccepted su A rq c = Some (ok, c') \<Longrightarrow> \<exists>i. val_toInt (obj_get rq ''requestId'') = Some i"
  "cl_processContactRejected su A rq c = Some (ok, c') \<Longrightarrow> \<exists>i. val_toInt (obj_get rq ''requestId'') = Some i"
  "cl_processPush su A rq c = Some (ok, c') \<Longrightarrow> \<exists>i. val_toInt (obj_get rq ''requestId'') = Some i"
  by (auto simp: cl_processDispatch_def cl_processContactRequest_def cl_processContactAccepted_def
      cl_processContactRejected_def cl_processPush_def bind_eq_Some_conv)

lemmas handler_answers = settlesD [OF answers_handlers(1)] settlesD [OF answers_handlers(2)]
  settlesD [OF answers_handlers(3)] settlesD [OF answers_handlers(4)] settlesD [OF answers_contact_request]
  settlesD [OF unanswered_handlers(1)] settlesD [OF unanswered_handlers(2)]

lemmas answer_defs = answers_its_result_def answers_success_def answered_def same_engine_def prod.case

end
