(* ===== verification/Peer.thy ===== *)
theory Peer
  imports Client_Keeps
begin

text \<open>
  A client with the objects that live beside its engine: the requests it has posted, with their
  callbacks, the receivers of both kinds, and the resources on their way.  Here
  \<^verbatim>\<open>Engine::processIncomingPacket\<close> and \<^verbatim>\<open>Engine::process\<close> (\<^verbatim>\<open>src/engine.cpp\<close>) run with
  the methods \<^verbatim>\<open>Client\<close> overrides.  Resource senders have a list of their own; which one
  gives the next packet is open.
\<close>

section \<open>The state\<close>

record 'k pushing =
  pu_sender :: "'k resource_sender"
  pu_request :: push_request
  pu_callback :: "nat option"
  pu_response :: fields
  pu_index :: nat

record ('k, 's) peer =
  pe_client :: "'s client"
  pe_objects :: "(u32, any_request \<times> nat option) omap"
  pe_receivers :: "(u32, 'k any_receiver) omap"
  pe_pushing :: "'k pushing list"

definition peer_new :: "'s client \<Rightarrow> ('k, 's) peer" where
  "peer_new c = \<lparr>pe_client = c, pe_objects = [], pe_receivers = [], pe_pushing = []\<rparr>"

abbreviation peer_engine :: "('k, 's) peer \<Rightarrow> engine" where
  "peer_engine p \<equiv> cl_engine (pe_client p)"

abbreviation peer_status :: "('k, 's) peer \<Rightarrow> status" where
  "peer_status p \<equiv> cl_status (pe_client p)"

text \<open>
  The object behind an entry of the engine's table.  The configuration request a response
  posts has no callback and is not kept here.
\<close>

definition peer_object :: "('k, 's) peer \<Rightarrow> request \<Rightarrow> any_request \<times> nat option" where
  "peer_object p rq =
     (case map_of (pe_objects p) (rq_id rq) of
        Some (x, cb) \<Rightarrow> if rq_type (base_request x) = rq_type rq then (rebase rq x, cb) else (AR_Plain rq, None)
      | None \<Rightarrow> (AR_Plain rq, None))"

definition peer_keep :: "bool \<Rightarrow> any_request option \<Rightarrow> nat option \<Rightarrow> 's client \<Rightarrow> ('k, 's) peer \<Rightarrow> ('k, 's) peer" where
  "peer_keep ok x cb c p =
     (case x of
        Some y \<Rightarrow>
          if ok then p\<lparr>pe_client := c, pe_objects := omap_insert (rq_id (base_request y)) (y, cb) (pe_objects p)\<rparr>
          else p\<lparr>pe_client := c\<rparr>
      | None \<Rightarrow> p\<lparr>pe_client := c\<rparr>)"

definition peer_request ::
    "('z, 'k) suite \<Rightarrow> 's api \<Rightarrow> fields \<Rightarrow> nat option \<Rightarrow> ('k, 's) peer \<Rightarrow> (bool \<times> ('k, 's) peer) option" where
  "peer_request su A args cb p = do {
     (ok, x, c) \<leftarrow> cl_request su A args (pe_client p);
     Some (ok, peer_keep ok x cb c p) }"

text \<open>The callback \<^verbatim>\<open>postMessage\<close> gives its request does nothing; it is numbered \<open>cb\<close>.\<close>

definition peer_postMessage ::
    "('z, 'k) suite \<Rightarrow> 's api \<Rightarrow> message option \<Rightarrow> nat \<Rightarrow> ('k, 's) peer \<Rightarrow> (bool \<times> ('k, 's) peer) option" where
  "peer_postMessage su A msg cb p = do {
     (ok, pr, c) \<leftarrow> cl_postMessage su A msg (pe_client p);
     Some (ok, peer_keep ok (map_option AR_Push pr) (Some cb) c p) }"

section \<open>Responses and incoming requests\<close>

definition peer_erase :: "u32 \<Rightarrow> ('k, 's) peer \<Rightarrow> ('k, 's) peer" where
  "peer_erase i p =
     (let c = pe_client p; e = cl_engine c
      in p\<lparr>pe_client := c\<lparr>cl_engine := e\<lparr>en_requests := omap_erase i (en_requests e)\<rparr>\<rparr>,
           pe_objects := omap_erase i (pe_objects p)\<rparr>)"

text \<open>\<^verbatim>\<open>addStreamSender\<close> for the sender of a resource.\<close>

definition peer_push ::
    "push_request \<Rightarrow> nat option \<Rightarrow> fields \<Rightarrow> nat \<Rightarrow> 'k resource_sender option \<Rightarrow> ('k, 's) peer \<Rightarrow> ('k, 's) peer" where
  "peer_push pr cb response index sender p =
     (case sender of
        None \<Rightarrow> p
      | Some s \<Rightarrow>
          if ss_id s = 0 then p
          else p\<lparr>pe_pushing := pe_pushing p @ [\<lparr>pu_sender = s, pu_request = pr, pu_callback = cb,
                                               pu_response = response, pu_index = index\<rparr>]\<rparr>)"

text \<open>The platform: the primitives, locked memory and the creation of a store.\<close>

record ('z, 'k, 'c, 's) platform =
  pf_suite :: "('z, 'k) suite"
  pf_hash :: "'c hash"
  pf_secmem :: "secmem option"
  pf_mkstore :: "string \<Rightarrow> string \<Rightarrow> fields \<Rightarrow> fields \<Rightarrow> 's \<Rightarrow> (bool \<times> 's) option"
  pf_api :: "'s api"

definition peer_response ::
    "('z, 'k, 'c, 's) platform \<Rightarrow> request \<Rightarrow> fields \<Rightarrow> ('k, 's) peer \<Rightarrow> ('k, 's) peer option" where
  "peer_response pf rq head p =
     (case peer_object p rq of
        (x, cb) \<Rightarrow> do {
          (sender, c1) \<leftarrow> cl_processResponse (pf_suite pf) (pf_hash pf) (pf_secmem pf) (pf_mkstore pf) (pf_api pf)
                            x cb head (pe_client p);
          let p1 = p\<lparr>pe_client := c1\<rparr>;
          let p2 = (case x of AR_Push pr \<Rightarrow> peer_push pr cb head 0 sender p1 | _ \<Rightarrow> p1);
          Some (peer_erase (rq_id rq) p2) })"

definition peer_ubj_callback ::
    "('z, 'k, 'c, 's) platform \<Rightarrow> ubj_receiver \<Rightarrow> ('k, 's) peer \<Rightarrow> ('k, 's) peer option" where
  "peer_ubj_callback pf r p =
     (let head = val_toObject (ur_value r)
      in if sr_status r \<noteq> SR_Completed then Some p
         else do {
           request \<leftarrow>
             (if obj_hasField head ''requestId''
              then map_option (\<lambda>i. map_of (en_requests (peer_engine p)) i) (val_toInt (obj_get head ''requestId''))
              else Some None);
           case request of
             Some rq \<Rightarrow> peer_response pf rq head p
           | None \<Rightarrow>
               if obj_hasField head ''requestType''
               then map_option (\<lambda>(_, c). p\<lparr>pe_client := c\<rparr>)
                      (cl_processIncomingRequest (pf_suite pf) (pf_api pf) head (pe_client p))
               else Some p })"

section \<open>Packets\<close>

definition rc_id :: "'k any_receiver \<Rightarrow> u32" where
  "rc_id r = (case r of RC_Request x \<Rightarrow> sr_id x | RC_Resource x _ \<Rightarrow> sr_id x)"

definition rc_status :: "'k any_receiver \<Rightarrow> sr_status" where
  "rc_status r = (case r of RC_Request x \<Rightarrow> sr_status x | RC_Resource x _ \<Rightarrow> sr_status x)"

definition rc_process :: "('z, 'k) suite \<Rightarrow> 'k any_receiver \<Rightarrow> packet \<Rightarrow> (bool \<times> 'k any_receiver \<times> bool) option" where
  "rc_process su r pkt =
     (case r of
        RC_Request x \<Rightarrow> map_option (\<lambda>(d, y, i). (d, RC_Request y, i)) (ur_process x pkt)
      | RC_Resource x q \<Rightarrow> map_option (\<lambda>(d, y, i). (d, RC_Resource y q, i)) (rr_process (su_crypt su) x pkt))"

definition rc_callback ::
    "('z, 'k, 'c, 's) platform \<Rightarrow> 'k any_receiver \<Rightarrow> ('k, 's) peer \<Rightarrow> ('k, 's) peer option" where
  "rc_callback pf r p =
     (case r of
        RC_Request x \<Rightarrow> peer_ubj_callback pf x p
      | RC_Resource x q \<Rightarrow> map_option (\<lambda>c. p\<lparr>pe_client := c\<rparr>) (cl_resource_received (pf_api pf) q x (pe_client p)))"

definition peer_receiver ::
    "('z, 'k, 'c, 's) platform \<Rightarrow> packet \<Rightarrow> ('k, 's) peer \<Rightarrow> ('k any_receiver option \<times> ('k, 's) peer) option" where
  "peer_receiver pf pkt p =
     (case map_of (pe_receivers p) (pkt_streamId pkt) of
        Some r \<Rightarrow> Some (Some r, p)
      | None \<Rightarrow> do {
          (r, c) \<leftarrow> cl_createStreamReceiver (pf_suite pf) (pf_api pf) pkt (pe_client p);
          Some (r, p\<lparr>pe_client := c,
                     pe_receivers := (case r of Some x \<Rightarrow> omap_insert (pkt_streamId pkt) x (pe_receivers p)
                                      | None \<Rightarrow> pe_receivers p)\<rparr>) })"

definition peer_packet ::
    "('z, 'k, 'c, 's) platform \<Rightarrow> packet \<Rightarrow> ('k, 's) peer \<Rightarrow> (bool \<times> ('k, 's) peer) option" where
  "peer_packet pf pkt p = do {
     (receiver, p1) \<leftarrow> peer_receiver pf pkt p;
     case receiver of
       None \<Rightarrow> Some (False, p1)
     | Some r \<Rightarrow> do {
         (done', r1, invoked) \<leftarrow> rc_process (pf_suite pf) r pkt;
         let p2 = p1\<lparr>pe_receivers := omap_insert (pkt_streamId pkt) r1 (pe_receivers p1)\<rparr>;
         p3 \<leftarrow> (if invoked then rc_callback pf r1 p2 else Some p2);
         Some (done', if done' \<and> rc_status r1 \<noteq> SR_Completed then p3
                      else p3\<lparr>pe_receivers := omap_erase (rc_id r1) (pe_receivers p3)\<rparr>) } }"

section \<open>Timeouts and resources\<close>

definition peer_timeouts :: "('z, 'k, 'c, 's) platform \<Rightarrow> ('k, 's) peer \<Rightarrow> ('k, 's) peer" where
  "peer_timeouts pf p =
     (let c = pe_client p;
          (e, calls) = eng_process (ap_time (pf_api pf) (cl_world c)) (cl_engine c);
          due = concat (map (\<lambda>call. case call of ProcessRequestTimeout r \<Rightarrow> [r] | _ \<Rightarrow> []) calls);
          c1 = fold (\<lambda>r. cl_processRequestTimeout r (snd (peer_object p r))) due c
      in p\<lparr>pe_client := c1\<lparr>cl_engine := e\<rparr>, pe_objects := fold (\<lambda>r. omap_erase (rq_id r)) due (pe_objects p)\<rparr>)"

text \<open>
  The next packet of the \<open>k\<close>-th resource; a completed one is followed by the next resource of
  its message, and after the last the message is finished.
\<close>

definition peer_pushed ::
    "('z, 'k, 'c, 's) platform \<Rightarrow> nat \<Rightarrow> ('k, 's) peer \<Rightarrow> (packet option \<times> ('k, 's) peer) option" where
  "peer_pushed pf k p =
     (if length (pe_pushing p) \<le> k then None
      else do {
        let pu = pe_pushing p ! k;
        let pr = pu_request pu;
        let ids = val_toArray (obj_get (pu_response pu) ''resources'');
        (sent, pkt, s, invoked) \<leftarrow> rs_process (su_crypt (pf_suite pf)) (pu_sender pu);
        let p1 = p\<lparr>pe_pushing := (pe_pushing p)[k := pu\<lparr>pu_sender := s\<rparr>]\<rparr>;
        p2 \<leftarrow>
          (if invoked then do {
             (last, next', c1) \<leftarrow> push_completed (pf_suite pf) (pf_api pf) pr ids (pu_index pu) (ss_id s) (ss_status s)
                                  (pe_client p1);
             c2 \<leftarrow> (if last then push_finish (pf_api pf) pr (pu_callback pu) (pu_response pu) c1 else Some c1);
             Some (peer_push pr (pu_callback pu) (pu_response pu) (pu_index pu + 1) next' (p1\<lparr>pe_client := c2\<rparr>)) }
           else Some p1);
        Some (pkt, if sent \<and> ss_status s \<noteq> SS_Completed then p2
                   else p2\<lparr>pe_pushing := take k (pe_pushing p2) @ drop (Suc k) (pe_pushing p2)\<rparr>) })"

section \<open>What changes the status\<close>

definition raised :: "status \<Rightarrow> status \<Rightarrow> bool" where
  "raised s s' \<longleftrightarrow> s' = s \<or> s' = CL_Secure \<or> s' = CL_Authenticated"

lemma raised_refl [simp]: "raised s s"
  by (simp add: raised_def)

lemma raised_trans: "raised a b \<Longrightarrow> raised b c \<Longrightarrow> raised a c"
  by (auto simp: raised_def)

lemma keeps_raised: "keeps c c' \<Longrightarrow> raised (cl_status c) (cl_status c')"
  by (simp add: keeps_def)

lemma post_status [simp]:
  "cl_status (cl_postEvent e c) = cl_status c" "cl_status (post_result t r cb data err c) = cl_status c"
  "cl_status (cl_setStatus s c) = s"
  by (simp_all add: cl_postEvent_def post_result_def cl_setStatus_def)

lemma login_response_raises: "login_response A r cb response c = Some c' \<Longrightarrow> raised (cl_status c) (cl_status c')"
proof -
  let ?c1 = "\<lambda>m. (cl_setStatus CL_Authenticated c)\<lparr>cl_contactStatus := m\<rparr>"
  have "cl_status c2 = CL_Authenticated" if "update_inboxes A vs (?c1 m) = Some c2" for vs m c2
    using settlesD [OF keeps_loops(1) [OF keeps_refl] that] by (simp add: keeps_def)
  then show "login_response A r cb response c = Some c' \<Longrightarrow> raised (cl_status c) (cl_status c')"
    by (auto simp: login_response_def raised_def Let_def bind_eq_Some_conv split: if_splits)
qed

lemma logout_response_raises: "logout_response r cb response c = Some c' \<Longrightarrow> raised (cl_status c) (cl_status c')"
  by (auto simp: logout_response_def raised_def bind_eq_Some_conv)

lemma response_raises:
  assumes "cl_processResponse su hs inst mk A rq cb response c = Some (s, c')"
  shows "raised (cl_status c) (cl_status c')"
proof -
  note keep = keeps_responses(1-8) [OF keeps_refl, THEN settlesD, THEN keeps_raised]
  show ?thesis
  proof (cases rq)
    case (AR_Plain r)
    with assms show ?thesis
      by (auto simp: cl_processResponse_def intro: keep login_response_raises logout_response_raises split: if_splits)
  next
    case (AR_Account r)
    with assms keeps_responses(9) [OF keeps_refl, THEN settlesD] show ?thesis
      by (force simp: cl_processResponse_def dest: keeps_raised)
  next
    case (AR_Push r)
    with assms keeps_completed(2) [OF keeps_refl, THEN settlesD] show ?thesis
      by (force simp: cl_processResponse_def dest: keeps_raised)
  qed
qed

lemma peer_erase_status [simp]: "peer_status (peer_erase i p) = peer_status p"
  by (simp add: peer_erase_def Let_def)

lemma peer_push_status [simp]: "pe_client (peer_push pr cb response k s p) = pe_client p"
  by (simp add: peer_push_def split: option.splits)

lemma peer_ubj_callback_raises:
  assumes "peer_ubj_callback pf r p = Some p'"
  shows "raised (peer_status p) (peer_status p')"
proof -
  have r: "raised (peer_status p) (peer_status p')" if "peer_response pf rq head p = Some p'" for rq head
  proof -
    obtain x cb where "peer_object p rq = (x, cb)" by fastforce
    with that show ?thesis
      by (cases x) (auto simp: peer_response_def Let_def bind_eq_Some_conv dest!: response_raises)
  qed
  have i: "raised (cl_status c) (cl_status c')" if "cl_processIncomingRequest su A rq c = Some (x, c')" for su A rq c x c'
    using settlesD [OF keeps_streams(1) [OF keeps_refl] that] by (auto dest: keeps_raised)
  show ?thesis
    using assms by (auto simp: peer_ubj_callback_def Let_def bind_eq_Some_conv dest: r i split: if_splits option.splits)
qed

lemma peer_packet_raises:
  fixes p :: "('k, 's) peer"
  assumes "peer_packet pf pkt p = Some (ok, p')"
  shows "raised (peer_status p) (peer_status p')"
proof -
  have s: "cl_status c' = cl_status c" if "cl_createStreamReceiver su A pkt c = Some (r, c')" for su A c r c'
  proof (cases "pkt_streamType pkt = ST_Resource")
    case True
    with that have "cl_createResourceReceiver su A pkt c = Some (r, c')" by (simp add: cl_createStreamReceiver_def)
    from settlesD [OF keeps_streams(2) [OF keeps_refl] this] show ?thesis by (simp add: keeps_def)
  qed (use that in \<open>auto simp: cl_createStreamReceiver_def\<close>)
  have r: "peer_status p1 = peer_status p" if "peer_receiver pf pkt p = Some (r, p1)" for r p1
    using that by (auto simp: peer_receiver_def bind_eq_Some_conv split: option.splits dest!: s)
  have c: "raised (peer_status q) (peer_status q')" if "rc_callback pf x q = Some q'" for x q q'
  proof (cases x)
    case (RC_Request y)
    with that show ?thesis by (auto simp: rc_callback_def dest: peer_ubj_callback_raises)
  next
    case (RC_Resource y rq)
    with that obtain d where "cl_resource_received (pf_api pf) rq y (pe_client q) = Some d" "q' = q\<lparr>pe_client := d\<rparr>"
      by (auto simp: rc_callback_def)
    with settlesD [OF keeps_streams(3) [OF keeps_refl] this(1)] show ?thesis by (simp add: keeps_raised)
  qed
  define Q :: "('k, 's) peer \<Rightarrow> bool" where "Q = (\<lambda>q. raised (peer_status p) (peer_status q))"
  have receivers: "Q q \<Longrightarrow> Q (q\<lparr>pe_receivers := t\<rparr>)" "Q q \<Longrightarrow> Q (if b then q else q\<lparr>pe_receivers := t\<rparr>)" for q b t by (auto simp: Q_def)
  have 1: "settles (\<lambda>(r, q). Q q) (peer_receiver pf pkt p)"
    by (auto simp: settles_def Q_def dest!: r)
  have 2: "Q q \<Longrightarrow> settles Q (rc_callback pf x q)" for x q
    using c by (auto simp: settles_def Q_def intro: raised_trans)
  have "settles (\<lambda>(ok, q). Q q) (peer_packet pf pkt p)"
    unfolding peer_packet_def Let_def
    by (erule asm_rl | rule 1 2 receivers settles_bind [of Q] settles_rules)+
  with assms show ?thesis by (auto simp: settles_def Q_def)
qed

lemma peer_request_status: "peer_request su A args cb p = Some (ok, p') \<Longrightarrow> peer_status p' = peer_status p"
  by (auto simp: peer_request_def peer_keep_def bind_eq_Some_conv dest!: cl_request_status split: option.splits)

lemma peer_postMessage_status: "peer_postMessage su A msg cb p = Some (ok, p') \<Longrightarrow> peer_status p' = peer_status p"
  using settlesD [OF keeps_postMessage [OF keeps_refl]]
  by (force simp: peer_postMessage_def peer_keep_def keeps_def bind_eq_Some_conv split: option.splits)

lemma peer_timeouts_status [simp]: "peer_status (peer_timeouts pf p) = peer_status p"
proof -
  have "cl_status (fold (\<lambda>r. cl_processRequestTimeout r (f r)) rs c) = cl_status c" for f rs and c :: "'x client"
    by (induction rs arbitrary: c) (simp_all add: cl_processRequestTimeout_def)
  then show ?thesis by (simp add: peer_timeouts_def Let_def case_prod_beta)
qed

lemma peer_pushed_status:
  fixes p :: "('k, 's) peer"
  assumes "peer_pushed pf k p = Some (pkt, p')"
  shows "peer_status p' = peer_status p"
proof -
  define Q :: "('k, 's) peer \<Rightarrow> bool" where "Q = (\<lambda>q. keeps (pe_client p) (pe_client q))"
  have start: "keeps (pe_client p) (pe_client p)" by simp
  have Q: "keeps (pe_client p) c \<Longrightarrow> Q (peer_push pr cb response i s (p1\<lparr>pe_client := c\<rparr>))"
    "Q (p\<lparr>pe_pushing := ps\<rparr>)" "Q q \<Longrightarrow> Q (q\<lparr>pe_pushing := ps\<rparr>)"
    "Q q \<Longrightarrow> Q (if b then q else q\<lparr>pe_pushing := ps\<rparr>)" for c pr cb response i s p1 ps q b
    by (auto simp: Q_def)
  have c: "keeps c0 (pe_client p) \<Longrightarrow> keeps c0 (pe_client (p\<lparr>pe_pushing := ps\<rparr>))" for c0 ps by simp
  have "settles (\<lambda>(pkt, q). Q q) (peer_pushed pf k p)"
    unfolding peer_pushed_def Let_def
    by (insert start, (erule asm_rl | rule Q c keeps_rules settles_bind [of Q] settles_rules)+)
  with assms show ?thesis by (auto simp: settles_def keeps_def Q_def)
qed

section \<open>A stream of one packet\<close>

lemma peer_one_packet:
  assumes "sendable v" "n_chunks (length (enc v)) = 1" "map_of (pe_receivers p) i = None" "su_ok (pf_suite pf)"
  obtains r r0 where "sr_status r = SR_Completed" "ur_value r = v"
    "peer_packet pf (stream_packet i ST_Request (enc v) 0) p =
       map_option (\<lambda>q. (True, q\<lparr>pe_receivers := omap_erase i (pe_receivers q)\<rparr>))
         (peer_ubj_callback pf r (p\<lparr>pe_receivers := omap_insert i (RC_Request r) (omap_insert i (RC_Request r0) (pe_receivers p))\<rparr>))"
proof -
  let ?pkt = "stream_packet i ST_Request (enc v) 0"
  obtain r0 where r0: "ur_create True ?pkt = Some (Some r0)" "ur_at i ST_Request v 0 r0"
    using ur_create_at [OF assms(1)] by blast
  obtain r where r: "ur_process r0 ?pkt = Some (True, r, True)" "ur_at i ST_Request v 1 r"
    using ur_process_step [OF assms(1) r0(2)] assms(2) by auto
  have streams: "pkt_streamId ?pkt = i" "pkt_streamType ?pkt = ST_Request"
    by (simp_all add: pkt_getters stream_packet_def)
  have ne: "ST_Request \<noteq> ST_Resource" by (simp add: ST_Request_def ST_Resource_def)
  have at: "sr_id r = i" "sr_status r = SR_Completed" "ur_value r = v"
    using r(2) assms(2) by (simp_all add: ur_at_def br_at_def)
  have "cl_createStreamReceiver (pf_suite pf) (pf_api pf) ?pkt (pe_client p) = Some (Some (RC_Request r0), pe_client p)"
    using r0(1) ne assms(4) by (simp add: cl_createStreamReceiver_def streams eng_createStreamReceiver_def)
  then have "peer_receiver pf ?pkt p = Some (Some (RC_Request r0), p\<lparr>pe_receivers := omap_insert i (RC_Request r0) (pe_receivers p)\<rparr>)"
    using assms(3) by (simp add: peer_receiver_def streams)
  then have "peer_packet pf ?pkt p =
       map_option (\<lambda>q. (True, q\<lparr>pe_receivers := omap_erase i (pe_receivers q)\<rparr>))
         (peer_ubj_callback pf r (p\<lparr>pe_receivers := omap_insert i (RC_Request r) (omap_insert i (RC_Request r0) (pe_receivers p))\<rparr>))"
    using r(1) at
    by (simp add: peer_packet_def streams rc_process_def rc_callback_def rc_status_def rc_id_def map_option_case bind_map_option
        split: option.splits)
  then show thesis using that [of r r0] at by blast
qed

end
