(* ===== verification/Connection.thy ===== *)
theory Connection
  imports Peer
begin

text \<open>
  The connection of the client (\<^verbatim>\<open>start\<close>, \<^verbatim>\<open>close\<close>, \<^verbatim>\<open>connect\<close>, \<^verbatim>\<open>reconnect\<close>,
  \<^verbatim>\<open>disconnect\<close>, \<^verbatim>\<open>wait\<close>, \<^verbatim>\<open>run\<close> of \<^verbatim>\<open>src/client.cpp\<close>) and the threads that use it.
  What the operating system and gnutls answer is a script; the descriptors and sessions they
  have given out and not got back are part of the state.
\<close>

section \<open>The state\<close>

text \<open>A worker thread: not running, waiting for \<^verbatim>\<open>resume\<close>, or at work.\<close>

datatype worker = WK_None | WK_Suspended | WK_Running

text \<open>The main thread: not running, at the top of its loop, in \<^verbatim>\<open>reconnect\<close>, past the test of
  the status, before \<^verbatim>\<open>process\<close>.\<close>

datatype main_pc = MP_Off | MP_Top | MP_Reconnect | MP_Work | MP_Process

record ('k, 's) conn =
  cn_peer :: "('k, 's) peer"
  cn_socket :: int
  cn_session :: "nat option"
  cn_certCred :: bool
  cn_anonCred :: bool
  cn_host :: string
  cn_port :: u32
  cn_sender :: worker
  cn_receiver :: worker
  cn_queue :: "packet list"
  cn_pc :: main_pc
  cn_open :: "int list"
  cn_sessions :: "nat list"

definition cn_new :: "'s client \<Rightarrow> ('k, 's) conn" where
  "cn_new c =
     \<lparr>cn_peer = peer_new c, cn_socket = -1, cn_session = None, cn_certCred = False, cn_anonCred = False,
      cn_host = [], cn_port = 0, cn_sender = WK_None, cn_receiver = WK_None, cn_queue = [], cn_pc = MP_Off,
      cn_open = [], cn_sessions = []\<rparr>"

abbreviation cn_status :: "('k, 's) conn \<Rightarrow> status" where
  "cn_status c \<equiv> peer_status (cn_peer c)"

definition cn_client :: "('s client \<Rightarrow> 's client) \<Rightarrow> ('k, 's) conn \<Rightarrow> ('k, 's) conn" where
  "cn_client f c = c\<lparr>cn_peer := (cn_peer c)\<lparr>pe_client := f (pe_client (cn_peer c))\<rparr>\<rparr>"

definition cn_post :: "event_type \<Rightarrow> fields \<Rightarrow> ('k, 's) conn \<Rightarrow> ('k, 's) conn" where
  "cn_post t err = cn_client (cl_postEvent (ev_create t [] err None))"

definition wk_suspend :: "worker \<Rightarrow> worker" where
  "wk_suspend w = (if w = WK_None then WK_None else WK_Suspended)"

definition wk_resume :: "worker \<Rightarrow> worker" where
  "wk_resume w = (if w = WK_None then WK_None else WK_Running)"

definition wk_start :: "worker \<Rightarrow> worker" where
  "wk_start w = (if w = WK_None then WK_Suspended else w)"

section \<open>Connecting\<close>

text \<open>
  The answers during one \<^verbatim>\<open>connect\<close>: whether the host has an address, \<^verbatim>\<open>socket\<close>,
  \<^verbatim>\<open>connect\<close>, whether \<^verbatim>\<open>errno\<close> is \<^verbatim>\<open>EINPROGRESS\<close> then, one entry per turn of the loop that
  waits (canceled, ready, the socket's error), and gnutls: \<^verbatim>\<open>init\<close> with the session, the
  priority, the two credentials, and each \<^verbatim>\<open>handshake\<close> with whether its error is fatal.
\<close>

record net =
  nt_address :: bool
  nt_socket :: int
  nt_connect :: int
  nt_inprogress :: bool
  nt_polls :: "(bool \<times> bool \<times> int) list"
  nt_init :: int
  nt_session :: nat
  nt_priority :: int
  nt_anon :: int
  nt_cert :: int
  nt_handshakes :: "(int \<times> bool) list"

text \<open>The loop of 200 ms; \<^const>\<open>None\<close> inside: canceled; outside: the script has ended.\<close>

fun poll_connect :: "(bool \<times> bool \<times> int) list \<Rightarrow> u32 \<Rightarrow> int \<Rightarrow> int option option" where
  "poll_connect polls ms res =
     (if ms < 10000 then
        (case polls of
           [] \<Rightarrow> None
         | (canceled, ready, err) # rest \<Rightarrow>
             if canceled then Some None
             else if ready then Some (Some err)
             else poll_connect rest (ms + 200) res)
      else Some (Some res))"

fun tls_handshake :: "(int \<times> bool) list \<Rightarrow> int option" where
  "tls_handshake [] = None"
| "tls_handshake ((res, fatal) # rest) = (if res < 0 \<and> \<not> fatal then tls_handshake rest else Some res)"

text \<open>The second half, once the socket is connected.\<close>

definition cn_secure :: "('z, 'k, 'c, 's) platform \<Rightarrow> net \<Rightarrow> ('k, 's) conn \<Rightarrow> (bool \<times> ('k, 's) conn) option" where
  "cn_secure pf nt c =
     (if nt_init nt < 0 then Some (False, c)
      else
        let c1 = c\<lparr>cn_session := Some (nt_session nt), cn_sessions := nt_session nt # cn_sessions c\<rparr>
        in if nt_priority nt < 0 \<or> nt_anon nt < 0 \<or> nt_cert nt < 0 then Some (False, c1)
           else do {
             res \<leftarrow> tls_handshake (nt_handshakes nt);
             if res < 0 then Some (False, c1)
             else do {
               let c2 = cn_client (cl_setStatus CL_Secure) c1;
               let c3 = c2\<lparr>cn_sender := wk_resume (cn_sender c2), cn_receiver := wk_resume (cn_receiver c2)\<rparr>;
               let c4 = cn_post EV_ConnectionSuccess [] c3;
               (_, p) \<leftarrow> peer_request (pf_suite pf) (pf_api pf)
                           (mk_obj [(''requestType'', val_int32 RQ_Login)]) None (cn_peer c4);
               Some (True, c4\<lparr>cn_peer := p\<rparr>) } })"

text \<open>What follows the wait; the canceled \<^verbatim>\<open>connect\<close> returns with the descriptor open.\<close>

definition cn_polled ::
    "('z, 'k, 'c, 's) platform \<Rightarrow> net \<Rightarrow> int option \<Rightarrow> ('k, 's) conn \<Rightarrow> (bool \<times> ('k, 's) conn) option" where
  "cn_polled pf nt polled c =
     (case polled of
        None \<Rightarrow> Some (False, c)
      | Some res \<Rightarrow>
          if res \<noteq> 0
          then Some (False, cn_post EV_ConnectionFailure (error_ubj ''client.cpp'' 687 (text_val ''Connection failed''))
                      (cn_client (cl_setStatus CL_Disconnected) (c\<lparr>cn_open := remove1 (nt_socket nt) (cn_open c)\<rparr>)))
          else cn_secure pf nt (cn_client (cl_setStatus CL_Connected) (c\<lparr>cn_socket := nt_socket nt\<rparr>)))"

definition cn_connect :: "('z, 'k, 'c, 's) platform \<Rightarrow> net \<Rightarrow> ('k, 's) conn \<Rightarrow> (bool \<times> ('k, 's) conn) option" where
  "cn_connect pf nt c =
     (if \<not> nt_address nt \<or> nt_socket nt = -1 then Some (False, c)
      else do {
        polled \<leftarrow> (if nt_inprogress nt then poll_connect (nt_polls nt) 0 (nt_connect nt)
                   else Some (Some (nt_connect nt)));
        cn_polled pf nt polled
          (cn_client (cl_setStatus CL_Connecting) (c\<lparr>cn_open := nt_socket nt # cn_open c\<rparr>)) })"

text \<open>\<^verbatim>\<open>wait\<close>: one answer of \<^verbatim>\<open>canceled\<close> per turn.\<close>

fun cn_wait :: "bool list \<Rightarrow> u32 \<Rightarrow> u32 \<Rightarrow> u32 \<Rightarrow> bool option" where
  "cn_wait canceled ms interval t =
     (if t < ms then
        (case canceled of
           [] \<Rightarrow> None
         | c # rest \<Rightarrow> if c then Some False else cn_wait rest ms interval (t + interval))
      else Some True)"

definition RECONNECT_INTERVAL :: u32 where
  "RECONNECT_INTERVAL = 30000"

primrec cn_reconnect ::
    "('z, 'k, 'c, 's) platform \<Rightarrow> (net \<times> bool list) list \<Rightarrow> ('k, 's) conn \<Rightarrow> (bool \<times> ('k, 's) conn) option" where
  "cn_reconnect pf [] c = None"
| "cn_reconnect pf (x # xs) c = do {
     (ok, c1) \<leftarrow> cn_connect pf (fst x) c;
     if ok then Some (True, c1)
     else do {
       go \<leftarrow> cn_wait (snd x) RECONNECT_INTERVAL 1000 0;
       if go then cn_reconnect pf xs c1 else Some (False, c1) } }"

section \<open>Disconnecting\<close>

text \<open>
  \<^verbatim>\<open>disconnect\<close>; \<^verbatim>\<open>gnutls_bye\<close> talks to the server only.  The test \<^verbatim>\<open>if (m_socket)\<close> is
  true for -1, the value of a socket that is not set.
\<close>

definition cn_disconnect :: "bool \<Rightarrow> ('k, 's) conn \<Rightarrow> bool \<times> ('k, 's) conn" where
  "cn_disconnect ev c =
     (let c1 = c\<lparr>cn_sender := wk_suspend (cn_sender c), cn_receiver := wk_suspend (cn_receiver c)\<rparr>;
          c2 = (case cn_session c1 of
                  None \<Rightarrow> c1
                | Some h \<Rightarrow> c1\<lparr>cn_session := None, cn_sessions := remove1 h (cn_sessions c1)\<rparr>)
      in if cn_socket c2 \<noteq> 0
         then let c3 = cn_client (cl_setStatus CL_Disconnected)
                         (c2\<lparr>cn_open := remove1 (cn_socket c2) (cn_open c2), cn_socket := -1\<rparr>)
              in (True, if ev then cn_post EV_Disconnected [] c3 else c3)
         else (False, c2))"

section \<open>Starting and closing\<close>

definition cn_start :: "int \<Rightarrow> int \<Rightarrow> string \<Rightarrow> u32 \<Rightarrow> ('k, 's) conn \<Rightarrow> bool \<times> ('k, 's) conn" where
  "cn_start cert anon host port c =
     (if status_code (cn_status c) \<ge> status_code CL_Started then (False, c)
      else if cert < 0 then (False, c)
      else if anon < 0 then (False, c\<lparr>cn_certCred := True\<rparr>)
      else (True, cn_client (cl_setStatus CL_Started)
              (c\<lparr>cn_certCred := True, cn_anonCred := True, cn_host := host, cn_port := port,
                 cn_pc := MP_Top, cn_sender := wk_start (cn_sender c), cn_receiver := wk_start (cn_receiver c)\<rparr>)))"

text \<open>\<^verbatim>\<open>finish\<close> forgets requests, senders and receivers; the queue of packets is kept.\<close>

definition peer_finish :: "('k, 's) peer \<Rightarrow> ('k, 's) peer" where
  "peer_finish p =
     p\<lparr>pe_client := (pe_client p)\<lparr>cl_engine := eng_finish (peer_engine p)\<rparr>, pe_objects := [], pe_receivers := [],
       pe_pushing := []\<rparr>"

definition cn_close :: "('k, 's) conn \<Rightarrow> bool \<times> ('k, 's) conn" where
  "cn_close c =
     (if cn_status c = CL_Closed then (False, c)
      else
        let c1 = c\<lparr>cn_receiver := WK_None, cn_sender := WK_None, cn_peer := peer_finish (cn_peer c), cn_pc := MP_Off\<rparr>;
            c2 = snd (cn_disconnect True c1)
        in (True, cn_client (cl_setStatus CL_Closed)
                    (c2\<lparr>cn_certCred := False, cn_anonCred := False, cn_host := [], cn_port := 0\<rparr>)))"

end
