(* ===== verification/Connection_Steps.thy ===== *)
theory Connection_Steps
  imports Connection
begin

text \<open>
  The running client as a transition system: the loop of the main thread (\<^verbatim>\<open>Client::run\<close>),
  the receiving thread (\<^verbatim>\<open>Receiver::run\<close>), the sending thread and the calls from outside, in
  any order.  An operation is one step; \<^verbatim>\<open>connect\<close> is one, since the other threads are
  suspended during it.
\<close>

section \<open>The threads\<close>

text \<open>
  What happens while the client runs: the main thread, the receiving thread (a packet, or a
  failure that makes it disconnect), the sending thread, and calls from outside.  Descriptors
  and sessions are fresh when they are given out.
\<close>

definition net_fresh :: "net \<Rightarrow> ('k, 's) conn \<Rightarrow> bool" where
  "net_fresh nt c \<longleftrightarrow> nt_socket nt \<notin> set (cn_open c) \<and> nt_session nt \<notin> set (cn_sessions c)"

inductive cn_run :: "('z, 'k, 'c, 's) platform \<Rightarrow> ('k, 's) conn \<Rightarrow> ('k, 's) conn \<Rightarrow> bool" for pf where
  reconnect: "cn_pc c = MP_Top \<Longrightarrow> cn_status c = CL_Started \<or> cn_status c = CL_Disconnected \<Longrightarrow>
    cn_run pf c (c\<lparr>cn_pc := MP_Reconnect\<rparr>)"
| go_on: "cn_pc c = MP_Top \<Longrightarrow> cn_status c \<noteq> CL_Started \<Longrightarrow> cn_status c \<noteq> CL_Disconnected \<Longrightarrow>
    cn_run pf c (c\<lparr>cn_pc := MP_Work\<rparr>)"
| connected: "cn_pc c = MP_Reconnect \<Longrightarrow> net_fresh nt c \<Longrightarrow> cn_connect pf nt c = Some (True, c') \<Longrightarrow>
    cn_run pf c (c'\<lparr>cn_pc := MP_Top\<rparr>)"
| refused: "cn_pc c = MP_Reconnect \<Longrightarrow> net_fresh nt c \<Longrightarrow> cn_connect pf nt c = Some (False, c') \<Longrightarrow> cn_run pf c c'"
| packet: "cn_pc c = MP_Work \<Longrightarrow> cn_queue c = pkt # rest \<Longrightarrow> peer_packet pf pkt (cn_peer c) = Some (ok, p) \<Longrightarrow>
    cn_run pf c (c\<lparr>cn_peer := p, cn_queue := rest, cn_pc := MP_Process\<rparr>)"
| no_packet: "cn_pc c = MP_Work \<Longrightarrow> cn_queue c = [] \<Longrightarrow> cn_run pf c (c\<lparr>cn_pc := MP_Process\<rparr>)"
| process: "cn_pc c = MP_Process \<Longrightarrow>
    cn_run pf c (c\<lparr>cn_peer := peer_timeouts pf (cn_peer c), cn_pc := MP_Top\<rparr>)"
| receive: "cn_receiver c = WK_Running \<Longrightarrow> status_code (cn_status c) \<ge> status_code CL_Secure \<Longrightarrow>
    cn_run pf c (c\<lparr>cn_queue := cn_queue c @ [pkt]\<rparr>)"
| broken: "cn_receiver c = WK_Running \<Longrightarrow> status_code (cn_status c) \<ge> status_code CL_Secure \<Longrightarrow>
    cn_run pf c (snd (cn_disconnect True c))"
| send: "cn_sender c = WK_Running \<Longrightarrow>
    eng_processStreamSenders True (\<lambda>pkt ps. (True, ps @ [pkt])) (peer_engine (cn_peer c)) [] = Some (n, e, pkts) \<Longrightarrow>
    cn_run pf c (cn_client (\<lambda>cl. cl\<lparr>cl_engine := e\<rparr>) c)"
| send_resource: "cn_sender c = WK_Running \<Longrightarrow> peer_pushed pf k (cn_peer c) = Some (pkt, p) \<Longrightarrow>
    cn_run pf c (c\<lparr>cn_peer := p\<rparr>)"
| request: "peer_request (pf_suite pf) (pf_api pf) args cb (cn_peer c) = Some (ok, p) \<Longrightarrow> cn_run pf c (c\<lparr>cn_peer := p\<rparr>)"
| message: "peer_postMessage (pf_suite pf) (pf_api pf) msg n (cn_peer c) = Some (ok, p) \<Longrightarrow> cn_run pf c (c\<lparr>cn_peer := p\<rparr>)"

inductive cn_step :: "('z, 'k, 'c, 's) platform \<Rightarrow> ('k, 's) conn \<Rightarrow> ('k, 's) conn \<Rightarrow> bool" for pf where
  run: "cn_run pf c c' \<Longrightarrow> cn_step pf c c'"
| start: "cn_start cert anon host port c = (r, c') \<Longrightarrow> cn_step pf c c'"
| close: "cn_close c = (r, c') \<Longrightarrow> cn_step pf c c'"

abbreviation cn_reachable :: "('z, 'k, 'c, 's) platform \<Rightarrow> 's client \<Rightarrow> ('k, 's) conn \<Rightarrow> bool" where
  "cn_reachable pf cl c \<equiv> (cn_step pf)\<^sup>*\<^sup>* (cn_new cl) c"

section \<open>A thread at work has a session\<close>

definition cn_ok :: "('k, 's) conn \<Rightarrow> bool" where
  "cn_ok c \<longleftrightarrow>
     (cn_receiver c = WK_Running \<longrightarrow> cn_session c \<noteq> None \<and> cn_socket c \<in> set (cn_open c)
        \<and> cn_status c \<in> {CL_Secure, CL_Authenticated} \<and> cn_pc c \<noteq> MP_Reconnect)
     \<and> cn_sender c = cn_receiver c
     \<and> (\<forall>h. cn_session c = Some h \<longrightarrow> h \<in> set (cn_sessions c))
     \<and> (cn_socket c \<noteq> -1 \<longrightarrow> cn_socket c \<in> set (cn_open c))
     \<and> distinct (cn_open c) \<and> distinct (cn_sessions c) \<and> -1 \<notin> set (cn_open c)
     \<and> (cn_receiver c = WK_None \<longleftrightarrow> cn_pc c = MP_Off) \<and> (cn_pc c = MP_Off \<longleftrightarrow> cn_status c = CL_Closed)"

lemma cn_client_fields [simp]:
  "cn_peer (cn_client f c) = (cn_peer c)\<lparr>pe_client := f (pe_client (cn_peer c))\<rparr>"
  "cn_socket (cn_client f c) = cn_socket c" "cn_session (cn_client f c) = cn_session c"
  "cn_open (cn_client f c) = cn_open c" "cn_sessions (cn_client f c) = cn_sessions c"
  "cn_sender (cn_client f c) = cn_sender c" "cn_receiver (cn_client f c) = cn_receiver c"
  "cn_pc (cn_client f c) = cn_pc c" "cn_queue (cn_client f c) = cn_queue c"
  by (simp_all add: cn_client_def)

lemma cn_post_fields [simp]:
  "cn_status (cn_post t err c) = cn_status c"
  "cn_socket (cn_post t err c) = cn_socket c" "cn_session (cn_post t err c) = cn_session c"
  "cn_open (cn_post t err c) = cn_open c" "cn_sessions (cn_post t err c) = cn_sessions c"
  "cn_sender (cn_post t err c) = cn_sender c" "cn_receiver (cn_post t err c) = cn_receiver c"
  "cn_pc (cn_post t err c) = cn_pc c" "cn_queue (cn_post t err c) = cn_queue c"
  by (simp_all add: cn_post_def)

text \<open>The outcomes of \<^verbatim>\<open>connect\<close>: nothing done, canceled, refused, connected but not secure, secure.\<close>

definition same_threads :: "('k, 's) conn \<Rightarrow> ('k, 's) conn \<Rightarrow> bool" where
  "same_threads c c' \<longleftrightarrow> cn_pc c' = cn_pc c \<and> cn_sender c' = cn_sender c \<and> cn_receiver c' = cn_receiver c"

definition same_session :: "('k, 's) conn \<Rightarrow> ('k, 's) conn \<Rightarrow> bool" where
  "same_session c c' \<longleftrightarrow> cn_session c' = cn_session c \<and> cn_sessions c' = cn_sessions c"

definition new_session :: "net \<Rightarrow> ('k, 's) conn \<Rightarrow> ('k, 's) conn \<Rightarrow> bool" where
  "new_session nt c c' \<longleftrightarrow> cn_session c' = Some (nt_session nt) \<and> cn_sessions c' = nt_session nt # cn_sessions c"

lemmas same_defs = same_threads_def same_session_def new_session_def

lemma cn_secure_cases:
  assumes "cn_secure pf nt c = Some (ok, c')"
  shows "cn_open c' = cn_open c \<and> cn_socket c' = cn_socket c \<and>
    (if ok then cn_status c' = CL_Secure \<and> new_session nt c c' \<and> cn_pc c' = cn_pc c
              \<and> cn_sender c' = wk_resume (cn_sender c) \<and> cn_receiver c' = wk_resume (cn_receiver c)
     else cn_status c' = cn_status c \<and> same_threads c c' \<and> (same_session c c' \<or> new_session nt c c'))"
  using assms
  by (auto simp: cn_secure_def Let_def bind_eq_Some_conv same_defs dest!: peer_request_status split: if_splits)

lemma cn_connect_cases:
  assumes "cn_connect pf nt c = Some (ok, c')"
  obtains (nothing) "\<not> ok" "c' = c"
    | (canceled) "\<not> ok" "nt_socket nt \<noteq> -1" "cn_status c' = CL_Connecting" "cn_socket c' = cn_socket c"
        "cn_open c' = nt_socket nt # cn_open c" "same_session c c'" "same_threads c c'"
    | (refused) "\<not> ok" "cn_status c' = CL_Disconnected" "cn_socket c' = cn_socket c"
        "cn_open c' = cn_open c" "same_session c c'" "same_threads c c'"
    | (insecure) "\<not> ok" "nt_socket nt \<noteq> -1" "cn_status c' = CL_Connected" "cn_socket c' = nt_socket nt"
        "cn_open c' = nt_socket nt # cn_open c" "same_session c c' \<or> new_session nt c c'" "same_threads c c'"
    | (secure) "ok" "nt_socket nt \<noteq> -1" "cn_status c' = CL_Secure" "cn_socket c' = nt_socket nt"
        "cn_open c' = nt_socket nt # cn_open c" "new_session nt c c'" "cn_pc c' = cn_pc c"
        "cn_sender c' = wk_resume (cn_sender c)" "cn_receiver c' = wk_resume (cn_receiver c)"
proof (cases "\<not> nt_address nt \<or> nt_socket nt = -1")
  case True
  with assms that(1) show thesis by (simp add: cn_connect_def split: if_splits)
next
  case False
  let ?c1 = "cn_client (cl_setStatus CL_Connecting) (c\<lparr>cn_open := nt_socket nt # cn_open c\<rparr>)"
  let ?c2 = "cn_client (cl_setStatus CL_Connected) (?c1\<lparr>cn_socket := nt_socket nt\<rparr>)"
  from assms False obtain polled where *: "cn_polled pf nt polled ?c1 = Some (ok, c')"
    by (auto simp: cn_connect_def bind_eq_Some_conv simp del: poll_connect.simps)
  show thesis
  proof (cases "polled = Some 0")
    case True
    with * have "cn_secure pf nt ?c2 = Some (ok, c')" by (simp add: cn_polled_def)
    from cn_secure_cases [OF this] False that(4,5) show thesis by (cases ok) (simp_all add: same_defs)
  next
    case no: False
    with * False that(2,3) show thesis
      by (cases polled) (auto simp: cn_polled_def same_defs)
  qed
qed


lemma cn_new_ok: "cl_status cl = CL_Closed \<Longrightarrow> cn_ok (cn_new cl)"
  by (simp add: cn_ok_def cn_new_def peer_new_def)

lemma cn_ok_peer:
  "cn_ok c \<Longrightarrow> raised (cn_status c) (peer_status p) \<Longrightarrow> cn_status c \<noteq> CL_Closed \<Longrightarrow> cn_ok (c\<lparr>cn_peer := p\<rparr>)"
  by (auto simp: cn_ok_def raised_def)

lemma cn_connect_ok:
  assumes "cn_ok c" "cn_pc c = MP_Reconnect" "net_fresh nt c" "cn_connect pf nt c = Some (ok, c')"
  shows "cn_ok (if ok then c'\<lparr>cn_pc := MP_Top\<rparr> else c')"
  using assms(4)
proof (cases rule: cn_connect_cases)
  case secure
  with assms(1-3) show ?thesis
    by (auto simp: cn_ok_def same_defs net_fresh_def wk_resume_def)
next
  case insecure
  with assms(1-3) show ?thesis by (auto simp: cn_ok_def same_defs net_fresh_def split: option.splits)
qed (use assms(1-3) in \<open>auto simp: cn_ok_def same_defs net_fresh_def\<close>)

lemma cn_disconnect_ok:
  assumes "cn_ok c" "cn_status c \<noteq> CL_Closed"
  shows "cn_ok (snd (cn_disconnect ev c))"
  using assms
  by (auto simp: cn_ok_def cn_disconnect_def wk_suspend_def Let_def distinct_remove1 split: option.splits)

lemma cn_run_ok: "cn_run pf c c' \<Longrightarrow> cn_ok c \<Longrightarrow> cn_ok c'"
proof (induction rule: cn_run.induct)
  case (reconnect c)
  then show ?case by (auto simp: cn_ok_def)
next
  case (go_on c)
  then show ?case by (auto simp: cn_ok_def)
next
  case (connected c nt c')
  then show ?case using cn_connect_ok [of c nt pf True c'] by simp
next
  case (refused c nt c')
  then show ?case using cn_connect_ok [of c nt pf False c'] by simp
next
  case (packet c pkt rest ok p)
  have "cn_status c \<noteq> CL_Closed" using packet by (auto simp: cn_ok_def)
  with cn_ok_peer [OF packet(4) peer_packet_raises [OF packet(3)]] packet(1) show ?case
    by (simp add: cn_ok_def)
next
  case (process c)
  then show ?case by (auto simp: cn_ok_def)
next
  case (broken c)
  then have "cn_status c \<noteq> CL_Closed" by (auto simp: status_code_def)
  with broken(3) show ?case by (rule cn_disconnect_ok)
next
  case (send_resource c k pkt p)
  then show ?case using peer_pushed_status by (fastforce simp: cn_ok_def)
next
  case (request args cb c ok p)
  then show ?case using peer_request_status by (fastforce simp: cn_ok_def)
next
  case (message msg n c ok p)
  then show ?case using peer_postMessage_status by (fastforce simp: cn_ok_def)
qed (auto simp: cn_ok_def)

lemma status_started: "status_code CL_Started \<le> status_code s \<longleftrightarrow> s \<noteq> CL_Closed"
  by (cases s) (simp_all add: status_code_def)

lemma cn_start_ok: "cn_start cert anon host port c = (r, c') \<Longrightarrow> cn_ok c \<Longrightarrow> cn_ok c'"
  by (auto simp: cn_start_def cn_ok_def status_started wk_start_def split: if_splits)

lemma cn_close_ok:
  assumes "cn_close c = (r, c')" "cn_ok c"
  shows "cn_ok c'"
proof (cases "cn_status c = CL_Closed")
  case True
  with assms show ?thesis by (simp add: cn_close_def)
next
  case False
  let ?c1 = "c\<lparr>cn_receiver := WK_None, cn_sender := WK_None, cn_peer := peer_finish (cn_peer c), cn_pc := MP_Off\<rparr>"
  from False assms have c': "c' = cn_client (cl_setStatus CL_Closed) ((snd (cn_disconnect True ?c1))
      \<lparr>cn_certCred := False, cn_anonCred := False, cn_host := [], cn_port := 0\<rparr>)"
    by (simp add: cn_close_def Let_def)
  have 1: "(\<forall>h. cn_session ?c1 = Some h \<longrightarrow> h \<in> set (cn_sessions ?c1)) \<and> distinct (cn_open ?c1) \<and> distinct (cn_sessions ?c1)
    \<and> -1 \<notin> set (cn_open ?c1) \<and> (cn_socket ?c1 \<noteq> -1 \<longrightarrow> cn_socket ?c1 \<in> set (cn_open ?c1))"
    using assms(2) by (simp add: cn_ok_def)
  then show ?thesis
    unfolding c' by (cases "cn_session c") (auto simp: cn_ok_def cn_disconnect_def Let_def wk_suspend_def)
qed

lemma cn_reachable_ok:
  assumes "cl_status cl = CL_Closed" "cn_reachable pf cl c"
  shows "cn_ok c"
  using assms(2)
proof (induction rule: rtranclp_induct)
  case base
  show ?case by (rule cn_new_ok [OF assms(1)])
next
  case (step c c')
  then show ?case by (auto elim!: cn_step.cases dest: cn_run_ok cn_start_ok cn_close_ok)
qed

section \<open>What is lost stays lost\<close>

text \<open>A descriptor that is open but is not the client's socket is never closed.\<close>

definition lost_socket :: "int \<Rightarrow> ('k, 's) conn \<Rightarrow> bool" where
  "lost_socket s c \<longleftrightarrow> s \<in> set (cn_open c) \<and> s \<noteq> cn_socket c \<and> s \<noteq> -1"

lemma lost_socket_connect:
  assumes "lost_socket s c" "net_fresh nt c" "cn_connect pf nt c = Some (ok, c')"
  shows "lost_socket s c'"
  using assms(3)
  by (cases rule: cn_connect_cases) (use assms(1,2) in \<open>auto simp: lost_socket_def net_fresh_def\<close>)

lemma lost_socket_disconnect: "lost_socket s c \<Longrightarrow> lost_socket s (snd (cn_disconnect ev c))"
  by (auto simp: lost_socket_def cn_disconnect_def Let_def in_set_remove1 split: option.splits)

lemma lost_socket_cong:
  "cn_open c' = cn_open c \<Longrightarrow> cn_socket c' = cn_socket c \<Longrightarrow> lost_socket s c' = lost_socket s c"
  by (simp add: lost_socket_def)

lemma lost_socket_run: "cn_run pf c c' \<Longrightarrow> lost_socket s c \<Longrightarrow> lost_socket s c'"
proof (induction rule: cn_run.induct)
  case (connected c nt c')
  have "lost_socket s c'" by (rule lost_socket_connect [OF connected(4,2,3)])
  then show ?case by (simp add: lost_socket_def)
next
  case (refused c nt c')
  then show ?case by (auto intro: lost_socket_connect)
next
  case (broken c)
  then show ?case by (auto intro: lost_socket_disconnect)
qed (auto simp: lost_socket_def)

lemma lost_socket_close:
  assumes "lost_socket s c" "cn_close c = (r, c')"
  shows "lost_socket s c'"
proof (cases "cn_status c = CL_Closed")
  case False
  let ?c1 = "c\<lparr>cn_receiver := WK_None, cn_sender := WK_None, cn_peer := peer_finish (cn_peer c), cn_pc := MP_Off\<rparr>"
  have "lost_socket s ?c1" using assms(1) by (simp add: lost_socket_def)
  from lost_socket_disconnect [OF this, of True] False assms(2) show ?thesis
    by (auto simp: cn_close_def Let_def lost_socket_def)
qed (use assms in \<open>simp add: cn_close_def\<close>)

lemma lost_socket_steps: "(cn_step pf)\<^sup>*\<^sup>* c c' \<Longrightarrow> lost_socket s c \<Longrightarrow> lost_socket s c'"
proof (induction rule: rtranclp_induct)
  case (step c1 c2)
  then have l: "lost_socket s c1" by simp
  from step(2) show ?case
  proof cases
    case run
    with l show ?thesis by (auto intro: lost_socket_run)
  next
    case (start cert anon host port r)
    with l show ?thesis by (auto simp: cn_start_def lost_socket_def split: if_splits)
  next
    case (close r)
    with l show ?thesis by (rule lost_socket_close)
  qed
qed simp

text \<open>After a failed handshake the next connection loses the socket.\<close>

lemma failed_handshake_loses:
  assumes "cn_ok c" "net_fresh nt c" "cn_connect pf nt c = Some (False, c1)" "cn_socket c1 = nt_socket nt" "nt_socket nt \<noteq> -1"
    and "net_fresh nt' c1" "cn_connect pf nt' c1 = Some (ok, c2)" "cn_socket c2 = nt_socket nt'"
  shows "lost_socket (nt_socket nt) c2"
proof -
  have "nt_socket nt \<in> set (cn_open c1)"
    using assms(3) by (cases rule: cn_connect_cases) (use assms(1,2,4,5) in \<open>auto simp: cn_ok_def net_fresh_def\<close>)
  moreover from this have "nt_socket nt \<noteq> nt_socket nt'" using assms(6) by (auto simp: net_fresh_def)
  moreover have "nt_socket nt \<in> set (cn_open c2)"
    using assms(7) by (cases rule: cn_connect_cases) (use calculation in auto)
  ultimately show ?thesis using assms(5,8) by (simp add: lost_socket_def)
qed

section \<open>A client adrift\<close>

text \<open>Its threads are suspended, but its status says it is connected: it never tries again.\<close>

definition adrift :: "('k, 's) conn \<Rightarrow> bool" where
  "adrift c \<longleftrightarrow> cn_receiver c \<noteq> WK_Running \<and> cn_sender c \<noteq> WK_Running
     \<and> cn_status c \<in> {CL_Secure, CL_Authenticated} \<and> cn_pc c \<in> {MP_Top, MP_Work, MP_Process}"

lemma adrift_run:
  assumes "cn_run pf c c'" "adrift c"
  shows "adrift c' \<and> cn_socket c' = cn_socket c \<and> length (cn_queue c') \<le> length (cn_queue c)"
  using assms
proof (induction rule: cn_run.induct)
  case (packet c pkt rest ok p)
  with peer_packet_raises [OF packet(3)] show ?case by (auto simp: adrift_def raised_def)
next
  case (request args cb c ok p)
  with peer_request_status [OF request(1)] show ?case by (simp add: adrift_def)
next
  case (message msg n c ok p)
  with peer_postMessage_status [OF message(1)] show ?case by (simp add: adrift_def)
qed (auto simp: adrift_def)

lemma adrift_runs:
  "(cn_run pf)\<^sup>*\<^sup>* c c' \<Longrightarrow> adrift c \<Longrightarrow>
   adrift c' \<and> cn_socket c' = cn_socket c \<and> length (cn_queue c') \<le> length (cn_queue c)"
  by (induction rule: rtranclp_induct) (auto dest!: adrift_run)

text \<open>A response processed after the connection was lost sets it adrift.\<close>

lemma late_response_adrift:
  assumes "cn_ok c" "cn_pc c = MP_Work" "cn_status c = CL_Disconnected" "cn_run pf c c'" "cn_status c' \<noteq> CL_Disconnected"
  shows "adrift c'"
  using assms(4)
proof cases
  case (packet pkt rest ok p)
  then have "raised (cn_status c) (cn_status c')" using peer_packet_raises [OF packet(4)] by simp
  with packet(1) assms(1,3,5) show ?thesis by (auto simp: adrift_def raised_def cn_ok_def)
qed (use assms in \<open>auto simp: status_code_def dest!: peer_request_status peer_postMessage_status peer_pushed_status\<close>)

end
