(* ===== verification/Client_Claims.thy ===== *)
theory Client_Claims
  imports Connection_Steps
begin

text \<open>
  The properties of the client: messages and their keys, requests and the login, inboxes, the
  connection and its threads.  A small platform (gnutls, GMP and the store as constant
  functions) serves the examples.
\<close>

section \<open>A small platform\<close>

definition demo_gmp :: "bool gmp" where
  "demo_gmp = \<lparr>z_set = \<lambda>s. s = [49], z_get = \<lambda>z. [if z then 49 else 48], z_sizeinbase = \<lambda>_. 1\<rparr>"
lemma demo_gmp_laws: "gmp_laws demo_gmp"
  by (simp add: gmp_laws_def demo_gmp_def no_nul_def)
definition demo_pub :: "bool public_key" where
  "demo_pub = \<lparr>pub_e = True, pub_n = False, pub_size = 256\<rparr>"
definition demo_prv :: "bool private_key" where
  "demo_prv = \<lparr>prv_a = True, prv_b = False, prv_c = True, prv_d = False, prv_p = True, prv_q = True, prv_size = 256\<rparr>"

definition demo_hash :: "bytes hash" where
  "demo_hash = \<lparr>h_ctxSize = \<lambda>_. 8, h_init = \<lambda>_. [], h_update = \<lambda>_ bs c. c @ bs,
     h_digest = \<lambda>_ n c. (take (unat n) (c @ replicate (unat n) 255), [])\<rparr>"

definition demo_suite :: "(bool, unit) suite" where
  "demo_suite = \<lparr>su_fmt = \<lambda>_ _. [], su_ok = True, su_gmp = demo_gmp,
     su_rsa = \<lparr>rsa_generate = \<lambda>_. Some (demo_pub, demo_prv),
       rsa_enc = \<lambda>_ m. if m = replicate 32 7 then Some True else None, rsa_dec = \<lambda>_ _ _. Some (replicate 32 7),
       rsa_sign_sha256 = \<lambda>_ d. Some (d = []), rsa_verify_sha256 = \<lambda>_ d z. z = (d = [])\<rparr>,
     su_crypt = ctr_mode (\<lambda>_ c. take 16 (c @ replicate 16 0)), su_sched = \<lambda>_. (),
     su_fresh = \<lparr>aes_key = (), aes_ctr = replicate 16 0\<rparr>\<rparr>"

definition demo_contact :: fields where
  "demo_contact = mk_obj [(''publicKey'', val_of_obj (the (publicKeyToUbj demo_gmp demo_pub)))]"

definition demo_api :: "'s api" where
  "demo_api = \<lparr>ap_query = \<lambda>_ _ _ _ _ _ w. Some (Some [], w), ap_query_one = \<lambda>_ _ _ _ _ w. Some (Some demo_contact, w),
     ap_queryInt = \<lambda>_ _ _ w. Some (0, w), ap_count = \<lambda>_ _ w. Some (0, w), ap_insert = \<lambda>_ _ w. Some (1, w),
     ap_update = \<lambda>_ _ _ w. Some (1, w), ap_remove = \<lambda>_ _ w. Some (1, w), ap_createBlob = \<lambda>_ _ w. Some (1, w),
     ap_createBlobObj = \<lambda>_ _ w. Some (1, w), ap_updateBlobObj = \<lambda>_ _ _ w. Some (1, w),
     ap_removeBlob = \<lambda>_ _ w. Some (True, w), ap_getBlobData = \<lambda>_ _ w. Some (None, w),
     ap_getBlobObj = \<lambda>_ _ _ w. Some (False, [], w), ap_random = \<lambda>n w. (Some (replicate n 7), w), ap_time = \<lambda>_. 1\<rparr>"

lemma demo_suite_laws: "gmp_laws (su_gmp demo_suite)" "rsa_laws (su_rsa demo_suite)" "ctr_laws (su_crypt demo_suite)"
proof -
  have "16 \<le> length (take 16 (c @ replicate 16 (0 :: byte)))" for c :: bytes
    by (simp only: length_take length_append length_replicate)
  then show "ctr_laws (su_crypt demo_suite)" by (simp add: demo_suite_def ctr_mode_laws)
  show "gmp_laws (su_gmp demo_suite)" "rsa_laws (su_rsa demo_suite)"
    by (simp_all add: demo_suite_def demo_gmp_laws rsa_laws_def)
qed

lemmas eval_bytes = val_of_obj_def val_int32_def ser_node_def ser_key_def enc_node_def
  enc_count_def enc_integer_def enc_text_def min_integer_type_def llabs_def depth_node_def
  bytes_of_string_def byte_of_char_def no_nul_def le_mem32_def to_bigendian32_def
  to_bigendian16_def CONTAINER_STACK_MAX_def n_chunks_def sendable_def word_sless_alt

section \<open>Messages\<close>

definition demo_message :: message where
  "demo_message = msg_setDst 5 (msg_create (mk_obj [(''meta'', val_of_obj (mk_obj [(''text'', text_val ''hi'')]))]))"

definition demo_pushed :: push_request where
  "demo_pushed = the (fst (the (pr_create demo_suite demo_api (Some demo_message) 0 (cl_create False ()))))"

lemma demo_pushed: "\<exists>c'. pr_create demo_suite demo_api (Some demo_message) 0 (cl_create False ()) = Some (Some demo_pushed, c')"
proof -
  have "(case pr_create demo_suite demo_api (Some demo_message) 0 (cl_create False ()) of
    Some (Some _, _) \<Rightarrow> True | _ \<Rightarrow> False)" by code_simp
  then show ?thesis by (auto simp: demo_pushed_def split: option.splits)
qed

text \<open>C3. A message sealed for a contact is opened by the contact's private key: the recipient
  gets the message key and the description of the message and its resources, field by
  field.\<close>

theorem pushed_messages_are_opened:
  assumes "gmp_laws (su_gmp su)" "rsa_laws (su_rsa su)" "ctr_laws (su_crypt su)" "su_ok su"
    and "rsa_generate (su_rsa su) bits = Some (pub, prv)" "publicKeyToUbj (su_gmp su) pub = Some opub"
      "privateKeyToUbj (su_gmp su) prv = Some oprv"
    and "\<And>w. \<exists>w'. ap_query_one A ''contacts'' (mk_obj [(''id'', val_int32 dst)]) [] [] 0 w = Some (Some contact, w')"
      "obj_get contact ''publicKey'' = val_of_obj opub"
    and "msg_int ''dst'' msg = Some (dst, m1)" "pr_create su A (Some msg) i c = Some (Some pr, c')"
    and "meta = push_meta (pr_msg pr) (describe (su_fmt su) (ms_resources (pr_msg pr)))"
      "ser (val_of_obj meta)" "v_depth (val_of_obj meta) < CONTAINER_STACK_MAX" "length (enc (val_of_obj meta)) < 2 ^ 32"
    and "obj_get request ''key'' = val_field (val_item (obj_get (rq_head pr) ''keys'') 0) ''key''"
      "obj_get request ''salt'' = obj_get (rq_head pr) ''salt''" "obj_get request ''meta'' = obj_get (rq_head pr) ''meta''"
  shows "push_open su oprv request = Some (Some (pr_key pr, meta))"
proof -
  from assms(11) obtain r where "pr_init su A r msg c = Some (Some pr, c')"
    by (auto simp: pr_create_def bind_eq_Some_conv)
  from push_opens [OF assms(1-10) this assms(12-)] show ?thesis .
qed

definition demo_push_request :: fields where
  "demo_push_request = mk_obj [(''key'', val_field (val_item (obj_get (rq_head demo_pushed) ''keys'') 0) ''key''),
     (''salt'', obj_get (rq_head demo_pushed) ''salt''), (''meta'', obj_get (rq_head demo_pushed) ''meta'')]"

definition demo_meta :: fields where
  "demo_meta = mk_obj [(''text'', text_val ''hi''), (''resources'', val_of_arr [])]"

lemma demo_meta: "push_meta (pr_msg demo_pushed) (describe (su_fmt demo_suite) (ms_resources (pr_msg demo_pushed))) = demo_meta"
  by code_simp

lemma demo_meta_ok: "ser (val_of_obj demo_meta)" "v_depth (val_of_obj demo_meta) < CONTAINER_STACK_MAX" "length (enc (val_of_obj demo_meta)) < 2 ^ 32"
proof -
  show "ser (val_of_obj demo_meta)" by code_simp
  have "v_depth (val_of_obj demo_meta) = 2" by code_simp
  then show "v_depth (val_of_obj demo_meta) < CONTAINER_STACK_MAX" by (simp add: CONTAINER_STACK_MAX_def)
  have "length (enc (val_of_obj demo_meta)) = 28" by code_simp
  then show "length (enc (val_of_obj demo_meta)) < 2 ^ 32" by simp
qed

theorem pushed_messages_are_opened_witness:
  "push_open demo_suite (the (privateKeyToUbj demo_gmp demo_prv)) demo_push_request
     = Some (Some (\<lparr>mb_data = Some (replicate 32 7), mb_size = 32\<rparr>, demo_meta))"
proof -
  obtain c' where c: "pr_create demo_suite demo_api (Some demo_message) 0 (cl_create False ()) = Some (Some demo_pushed, c')"
    using demo_pushed by blast
  have key: "pr_key demo_pushed = \<lparr>mb_data = Some (replicate 32 7), mb_size = 32\<rparr>" by code_simp
  have dst: "msg_int ''dst'' demo_message = Some (5, demo_message)" by code_simp
  have "privateKeyToUbj demo_gmp demo_prv \<noteq> None" "publicKeyToUbj demo_gmp demo_pub \<noteq> None" by code_simp+
  then have k: "publicKeyToUbj (su_gmp demo_suite) demo_pub = Some (the (publicKeyToUbj demo_gmp demo_pub))"
    "privateKeyToUbj (su_gmp demo_suite) demo_prv = Some (the (privateKeyToUbj demo_gmp demo_prv))"
    by (auto simp: demo_suite_def)
  have a: "\<exists>w'. ap_query_one demo_api ''contacts'' (mk_obj [(''id'', val_int32 5)]) [] [] 0 w = Some (Some demo_contact, w')" for w
    by (simp add: demo_api_def)
  show ?thesis
    unfolding key [symmetric]
    by (rule pushed_messages_are_opened [OF demo_suite_laws _ _ k a _ dst c demo_meta [symmetric] demo_meta_ok, of 2048])
      (simp_all add: demo_suite_def demo_contact_def demo_push_request_def obj_get_mk_obj)
qed



section \<open>Requests and inboxes\<close>

text \<open>C18. Client::request posts a request only if the client's status allows its type: only
  Login when secure, Logout always, CreateAccount before the login, everything else after it; a
  refused request leaves the engine as it was.\<close>

theorem requests_need_login:
  assumes "cl_request su A args c = Some (ok, r, c')"
  shows "cl_status c' = cl_status c \<and>
    (if ok then \<exists>i q. map_of (en_requests (cl_engine c')) i = Some q \<and> allowed (cl_status c) (rq_type q)
                  \<and> val_toInt (obj_get args ''requestType'') = Some (rq_type q)
     else cl_engine c' = cl_engine c)"
  by (rule cl_request_allowed [OF assms])

theorem requests_need_login_witness:
  "\<exists>c'. cl_request demo_suite demo_api (mk_obj [(''requestType'', val_int32 RQ_FindContact)]) (cl_create False ())
      = Some (False, None, c') \<and> cl_engine c' = eng_new \<and> cl_status c' = CL_Closed"
proof -
  have "(case cl_request demo_suite demo_api (mk_obj [(''requestType'', val_int32 RQ_FindContact)]) (cl_create False ()) of
    Some (False, None, _) \<Rightarrow> True | _ \<Rightarrow> False)" by code_simp
  then obtain c' where c: "cl_request demo_suite demo_api (mk_obj [(''requestType'', val_int32 RQ_FindContact)]) (cl_create False ())
      = Some (False, None, c')" by (auto split: option.splits prod.splits bool.splits)
  from requests_need_login [OF c] c show ?thesis by (simp add: cl_create_def)
qed




section \<open>The connection\<close>

definition demo_platform :: "(bool, unit, bytes, unit) platform" where
  "demo_platform = \<lparr>pf_suite = demo_suite, pf_hash = demo_hash, pf_secmem = None, pf_mkstore = \<lambda>_ _ _ _ w. Some (False, w),
     pf_api = demo_api\<lparr>ap_getBlobObj := \<lambda>_ _ _ w. Some (True, [], w)\<rparr>\<rparr>"

definition demo_client :: "unit client" where
  "demo_client = cl_setStore (Some account_none) (cl_create False ())"

definition demo_net :: "int \<Rightarrow> int \<Rightarrow> net" where
  "demo_net s h = \<lparr>nt_address = True, nt_socket = s, nt_connect = 0, nt_inprogress = False, nt_polls = [], nt_init = 0,
     nt_session = nat s, nt_priority = 0, nt_anon = 0, nt_cert = 0, nt_handshakes = [(h, True)]\<rparr>"

definition demo_started :: "(unit, unit) conn" where
  "demo_started = snd (cn_start 0 0 ''host'' 5557 (cn_new (cl_create False ())))"

definition demo_dialing :: "(unit, unit) conn" where
  "demo_dialing = demo_started\<lparr>cn_pc := MP_Reconnect\<rparr>"

definition demo_connect :: "net \<Rightarrow> (unit, unit) conn \<Rightarrow> (unit, unit) conn" where
  "demo_connect nt c = snd (the (cn_connect demo_platform nt c))"


lemma demo_dialing_reached: "cn_reachable demo_platform (cl_create False ()) demo_dialing"
proof -
  have "cn_start 0 0 ''host'' 5557 (cn_new (cl_create False ())) = (True, demo_started)"
    by (simp add: demo_started_def cn_start_def cn_new_def peer_new_def cl_create_def status_code_def)
  then have "cn_step demo_platform (cn_new (cl_create False ())) demo_started" by (rule cn_step.start)
  moreover have "cn_pc demo_started = MP_Top" "cn_status demo_started = CL_Started"
    by (simp_all add: demo_started_def cn_start_def cn_new_def peer_new_def cl_create_def status_code_def)
  then have "cn_run demo_platform demo_started demo_dialing"
    unfolding demo_dialing_def by (intro cn_run.reconnect) auto
  ultimately show ?thesis by (meson cn_step.run r_into_rtranclp rtranclp_trans)
qed

lemma demo_connects:
  "cn_connect demo_platform (demo_net 3 0) demo_dialing = Some (True, demo_connect (demo_net 3 0) demo_dialing)"
  "cn_connect demo_platform (demo_net 3 (-1)) demo_dialing = Some (False, demo_connect (demo_net 3 (-1)) demo_dialing)"
  "cn_connect demo_platform (demo_net 4 0) (demo_connect (demo_net 3 (-1)) demo_dialing)
     = Some (True, demo_connect (demo_net 4 0) (demo_connect (demo_net 3 (-1)) demo_dialing))"
proof -
  have "\<lbrakk>map_option fst r = Some b\<rbrakk> \<Longrightarrow> r = Some (b, snd (the r))" for r :: "(bool \<times> 'x) option" and b by (cases r) auto
  note r = this
  show "cn_connect demo_platform (demo_net 3 0) demo_dialing = Some (True, demo_connect (demo_net 3 0) demo_dialing)"
    unfolding demo_connect_def by (rule r) code_simp
  show "cn_connect demo_platform (demo_net 3 (-1)) demo_dialing = Some (False, demo_connect (demo_net 3 (-1)) demo_dialing)"
    unfolding demo_connect_def by (rule r) code_simp
  show "cn_connect demo_platform (demo_net 4 0) (demo_connect (demo_net 3 (-1)) demo_dialing)
     = Some (True, demo_connect (demo_net 4 0) (demo_connect (demo_net 3 (-1)) demo_dialing))"
    unfolding demo_connect_def by (rule r) code_simp
qed


text \<open>C6. When a response that raises the status is processed after the connection was lost,
  the client takes itself for connected with its threads suspended: whatever happens then,
  short of closing it, it never connects again and receives nothing.\<close>

theorem late_responses_end_reconnecting:
  assumes "cn_ok c" "cn_pc c = MP_Work" "cn_status c = CL_Disconnected"
    and "cn_run pf c c1" "cn_status c1 \<noteq> CL_Disconnected" and "(cn_run pf)\<^sup>*\<^sup>* c1 c2"
  shows "cn_status c2 \<in> {CL_Secure, CL_Authenticated} \<and> cn_pc c2 \<noteq> MP_Reconnect \<and> cn_socket c2 = cn_socket c1
    \<and> cn_receiver c2 \<noteq> WK_Running \<and> cn_sender c2 \<noteq> WK_Running \<and> length (cn_queue c2) \<le> length (cn_queue c1)"
  using adrift_runs [OF assms(6) late_response_adrift [OF assms(1-5)]] by (auto simp: adrift_def)

definition demo_accepted :: fields where
  "demo_accepted = [(''requestId'', val_int32 7), (''status'', val_int32 1)]"

lemma demo_accepted: "sendable (val_of_obj demo_accepted)" "n_chunks (length (enc (val_of_obj demo_accepted))) = 1"
  by (simp_all add: eval_bytes demo_accepted_def)

definition demo_login :: request where
  "demo_login = \<lparr>rq_type = RQ_Login, rq_status = RQ_WaitingForResponse, rq_id = 7, rq_timeout = 20, rq_time = 1,
     rq_args = [], rq_head = []\<rparr>"

definition demo_late :: "(unit, unit) conn" where
  "demo_late = (cn_new (demo_client\<lparr>cl_status := CL_Disconnected, cl_engine := eng_new\<lparr>en_requests := [(7, demo_login)]\<rparr>\<rparr>))
     \<lparr>cn_pc := MP_Work, cn_sender := WK_Suspended, cn_receiver := WK_Suspended,
      cn_queue := [stream_packet 9 ST_Request (enc (val_of_obj demo_accepted)) 0]\<rparr>"

lemma demo_late_packet:
  "\<exists>p. peer_packet demo_platform (stream_packet 9 ST_Request (enc (val_of_obj demo_accepted)) 0) (cn_peer demo_late) = Some (True, p)
    \<and> peer_status p = CL_Authenticated"
proof -
  have g: "obj_get demo_accepted ''status'' = val_int32 1" "obj_get demo_accepted ''contactStatus'' = val_null"
      "obj_get demo_accepted ''inbox'' = val_null" "obj_get demo_accepted ''requestId'' = val_int32 7"
      "obj_hasField demo_accepted ''requestId''" "val_toObject (val_of_obj demo_accepted) = demo_accepted"
    by (simp_all add: demo_accepted_def obj_get_def obj_hasField_def val_toObject_def val_of_obj_def)
  let ?p0 = "cn_peer demo_late"
  have p0: "pe_receivers ?p0 = []" "pe_objects ?p0 = []" "en_requests (peer_engine ?p0) = [(7, demo_login)]"
    by (simp_all add: demo_late_def cn_new_def peer_new_def)
  have codes: "rq_type demo_login = RQ_Login" "rq_id demo_login = 7" "RQ_Login \<noteq> RQ_Dispatch"
    by (simp_all add: demo_login_def request_codes)
  have arr: "val_toArray val_null = []" by (simp add: val_toArray_def val_null_def)
  obtain r r1 where r: "sr_status r = SR_Completed" "ur_value r = val_of_obj demo_accepted"
    and pk: "peer_packet demo_platform (stream_packet 9 ST_Request (enc (val_of_obj demo_accepted)) 0) ?p0 =
       map_option (\<lambda>q. (True, q\<lparr>pe_receivers := omap_erase 9 (pe_receivers q)\<rparr>))
         (peer_ubj_callback demo_platform r (?p0\<lparr>pe_receivers := omap_insert 9 (RC_Request r) (omap_insert 9 (RC_Request r1) (pe_receivers ?p0))\<rparr>))"
    by (rule peer_one_packet [OF demo_accepted, of ?p0 9 demo_platform]) (simp_all add: p0 demo_platform_def demo_suite_def)
  show ?thesis
    unfolding pk
    using p0 r g codes arr
    by (simp add: peer_ubj_callback_def peer_response_def peer_object_def cl_processResponse_def login_response_def
        Let_def)
qed

theorem late_responses_end_reconnecting_witness:
  "cn_status demo_late = CL_Disconnected \<and> (\<exists>c1. cn_run demo_platform demo_late c1 \<and> cn_status c1 = CL_Authenticated
     \<and> cn_socket c1 = -1 \<and> cn_receiver c1 \<noteq> WK_Running)"
proof -
  obtain p where p: "peer_packet demo_platform (stream_packet 9 ST_Request (enc (val_of_obj demo_accepted)) 0) (cn_peer demo_late)
      = Some (True, p)" "peer_status p = CL_Authenticated"
    using demo_late_packet by blast
  have s: "cn_status demo_late = CL_Disconnected" "cn_pc demo_late = MP_Work" "cn_ok demo_late" "cn_socket demo_late = -1"
    by (simp_all add: demo_late_def cn_new_def peer_new_def cn_ok_def)
  let ?c1 = "demo_late\<lparr>cn_peer := p, cn_queue := [], cn_pc := MP_Process\<rparr>"
  have r: "cn_run demo_platform demo_late ?c1"
    by (rule cn_run.packet [OF _ _ p(1)]) (simp_all add: demo_late_def)
  from late_responses_end_reconnecting [OF s(3,2,1) r _ rtranclp.rtrancl_refl] p(2) s r show ?thesis
    by (intro conjI exI [of _ ?c1]) simp_all
qed

text \<open>C9. The socket of a connection whose TLS handshake failed is never closed once another
  connection follows, not even by close.\<close>

theorem failed_handshakes_lose_sockets:
  assumes "cl_status cl = CL_Closed" "cn_reachable pf cl c" "nt_socket nt \<noteq> -1" "net_fresh nt c"
    and "cn_connect pf nt c = Some (False, c1)" "cn_socket c1 = nt_socket nt"
    and "net_fresh nt' c1" "cn_connect pf nt' c1 = Some (ok, c2)" "cn_socket c2 = nt_socket nt'"
    and "(cn_step pf)\<^sup>*\<^sup>* (c2\<lparr>cn_pc := pc\<rparr>) c3"
  shows "nt_socket nt \<in> set (cn_open c3) \<and> nt_socket nt \<noteq> cn_socket c3"
proof -
  have "lost_socket (nt_socket nt) c2"
    by (rule failed_handshake_loses [OF cn_reachable_ok [OF assms(1,2)] assms(4-6,3,7-9)])
  then have "lost_socket (nt_socket nt) (c2\<lparr>cn_pc := pc\<rparr>)" by (simp add: lost_socket_def)
  from lost_socket_steps [OF assms(10) this] show ?thesis by (simp add: lost_socket_def)
qed

theorem failed_handshakes_lose_sockets_witness:
  "3 \<in> set (cn_open (snd (cn_close ((demo_connect (demo_net 4 0) (demo_connect (demo_net 3 (-1)) demo_dialing))\<lparr>cn_pc := MP_Top\<rparr>))))"
proof -
  let ?c2 = "demo_connect (demo_net 4 0) (demo_connect (demo_net 3 (-1)) demo_dialing)"
  have "cn_step demo_platform (?c2\<lparr>cn_pc := MP_Top\<rparr>) (snd (cn_close (?c2\<lparr>cn_pc := MP_Top\<rparr>)))"
    by (rule cn_step.close [of _ "fst (cn_close (?c2\<lparr>cn_pc := MP_Top\<rparr>))"]) simp
  moreover have "cn_open demo_dialing = []" "cn_sessions demo_dialing = []" by code_simp+
  moreover have "cn_socket (demo_connect (demo_net 3 (-1)) demo_dialing) = 3" "cn_open (demo_connect (demo_net 3 (-1)) demo_dialing) = [3]"
    "cn_sessions (demo_connect (demo_net 3 (-1)) demo_dialing) = [3]" "cn_socket ?c2 = 4" by code_simp+
  moreover have "nt_socket (demo_net s h) = s" "nt_session (demo_net s h) = nat s" for s h by (simp_all add: demo_net_def)
  ultimately show ?thesis
    using failed_handshakes_lose_sockets [OF _ demo_dialing_reached _ _ demo_connects(2) _ _ demo_connects(3) _ r_into_rtranclp]
    by (simp add: net_fresh_def cl_create_def)
qed

end
