(* ===== verification/Spec2Isabelle.thy ===== *)
theory Spec2Isabelle
  imports UBJ_Cleanup UBJ_Copy UBJ_Memory Thread_Join Store_Cursor Store_Handler Utilities Client_Queues
    Network Client_Answers Client_Claims
begin

text \<open>
  A verification library for zway-lib, a C++ library for an encrypted messenger: the binary JSON
  (UBJ) codec, the packet streams and the engine that multiplexes requests over them, the TLS
  transport, encrypted resources and messages, the crypto helpers, the threads, the encrypted object
  store over sqlite, and the client that joins them: its requests, the handlers of what the server
  sends, its connection.

  \<^bold>\<open>How the program hangs together.\<close>  A request is an object (\<^verbatim>\<open>UBJ::Object\<close>).  \<^verbatim>\<open>Engine\<close> serialises
  it (\<^verbatim>\<open>UbjSender\<close>, \<^verbatim>\<open>ubjw.c\<close>), cuts the bytes into packets (\<^verbatim>\<open>StreamSender\<close>) and hands them,
  round robin over its senders, to the thread that writes to the TLS session (\<^verbatim>\<open>Sender\<close>); at the
  other end \<^verbatim>\<open>Receiver\<close> reads packets, the engine finds the stream's receiver by the stream's id,
  reassembles the bytes, decodes the object (\<^verbatim>\<open>ubjr.c\<close>) and either completes a pending request or
  dispatches an incoming one.  Files travel as resource streams whose packet bodies are encrypted.
  What must be kept is stored as encrypted blobs in sqlite tables (\<^verbatim>\<open>UBJ::Store\<close>), which virtual
  tables present as rows; the tables of the messenger (\<^verbatim>\<open>Zway::Store\<close>) are such tables.  \<^verbatim>\<open>Client\<close>
  owns an engine, a store, an event handler and three threads: the main thread processes packets
  and keeps the connection, the other two send and receive.

  \<^bold>\<open>Theories, in the order of the layers.\<close>
  \<^item> \<open>Prelude\<close>, \<open>Std_Map\<close>: bytes and words, big- and little-endian cells, option monad; \<^verbatim>\<open>std::map\<close> as
    an ordered association list, with the locale \<open>std_map\<close> of its laws.
  \<^item> \<open>Memory_Buffer\<close>, \<open>Packet\<close>, \<open>Stream_Sender\<close>, \<open>Stream_Receiver\<close>: \<^verbatim>\<open>memorybuffer.cpp\<close>,
    \<^verbatim>\<open>packet.cpp\<close>, \<^verbatim>\<open>streamsender.cpp\<close>, \<^verbatim>\<open>buffersender.cpp\<close>, \<^verbatim>\<open>streamreceiver.cpp\<close>,
    \<^verbatim>\<open>bufferreceiver.cpp\<close>.  The locale \<open>buffer\<close> is the contract of the class \<^verbatim>\<open>Buffer\<close>; the sender's
    lemmas are proved in it.
  \<^item> \<open>UBJ_Types\<close>, \<open>UBJ_Write\<close>, \<open>UBJ_Read\<close>, \<open>UBJ_Value\<close>, \<open>UBJ_Codec\<close>, \<open>UBJ_Stream\<close>: \<^verbatim>\<open>ubj/\<close> and
    \<^verbatim>\<open>ubjsender.cpp\<close>, \<^verbatim>\<open>ubjreceiver.cpp\<close>.  \<open>UBJ_Codec\<close> holds a reference encoding and proves that the
    stateful writer emits it and that the recursive reader inverts it.  \<open>UBJ_Typed\<close>: which values are
    well formed, and that the reader makes no others; \<open>UBJ_Memory\<close>: the memory back ends as a
    refinement of lists of bytes; \<open>UBJ_Numbers\<close>: the conversions between integers, floats and
    doubles with the rounding of IEEE 754; \<open>UBJ_Copy\<close>: copies; \<open>UBJ_Cleanup\<close>: the blocks of memory a
    value read holds, against those the cleanup functions free.
  \<^item> \<open>Engine\<close>, \<open>Transport\<close>: \<^verbatim>\<open>request.cpp\<close>, \<^verbatim>\<open>engine.cpp\<close>; a round of the engine against an abstract
    round over streams, and the delivery of every request under every interleaving.
  \<^item> \<open>Wire\<close>, \<open>Network\<close>: the byte loops and the framing of \<^verbatim>\<open>client.cpp\<close>, and two engines joined by
    them.
  \<^item> \<open>Sec_Mem\<close>, \<open>Crypto\<close>, \<open>Resource_Transfer\<close>: \<^verbatim>\<open>crypto/\<close> and \<^verbatim>\<open>message/resource*.cpp\<close>;
    \<open>Utilities\<close>: \<^verbatim>\<open>crypto/random.cpp\<close>, \<^verbatim>\<open>util/exif.cpp\<close>, \<^verbatim>\<open>ubj/dumper.cpp\<close>.
  \<^item> \<open>Threads\<close>: \<^verbatim>\<open>thread/thread.cpp\<close>, \<^verbatim>\<open>thread/handler.h\<close> and \<^verbatim>\<open>Action::wait\<close> as interleavings of
    their critical sections; \<open>Thread_Join\<close>: how a canceled worker ends.
  \<^item> \<open>Store_SQL\<close>, \<open>Store_DB\<close>, \<open>Store_Blob\<close>, \<open>Store_Module\<close>, \<open>Store_Seal\<close>: \<^verbatim>\<open>ubj/store/\<close>: statement
    text and bound values, table and blob operations, their round trip, the virtual tables, and the
    keys of a store.  \<open>Store_Cursor\<close>: statements stepped row by row, blobs through buffers.
    \<open>Store_Handler\<close>: who runs an action, transactions and their balance, the busy
    handler, closing.
  \<^item> \<open>Store_Api\<close>, \<open>App_Store\<close>: the operations of the open store as a record of functions over one
    state, and \<^verbatim>\<open>src/store.cpp\<close> written over it.
  \<^item> \<open>Messages\<close>, \<open>Client\<close>, \<open>Push\<close>, \<open>Requests\<close>, \<open>Handlers\<close>: \<^verbatim>\<open>message/message.cpp\<close>, \<^verbatim>\<open>event/\<close>,
    \<^verbatim>\<open>request/\<close> and the request side of \<^verbatim>\<open>src/client.cpp\<close>: what each request needs and sends,
    what its response does, how incoming requests and resources are handled.  \<open>Client_Keeps\<close> shows
    what they all leave alone, by rules that follow the shape of the code, and \<open>Client_Answers\<close> what
    each handler answers, by the same rules.  \<open>Client_Queues\<close>: the queues between the threads.
  \<^item> \<open>Peer\<close>: the engine with the methods \<^verbatim>\<open>Client\<close> overrides; \<open>Connection\<close> and \<open>Connection_Steps\<close>:
    \<^verbatim>\<open>start\<close>, \<^verbatim>\<open>connect\<close>, \<^verbatim>\<open>disconnect\<close>, \<^verbatim>\<open>close\<close> and the loops of the threads as a
    transition system with its invariant; \<open>Client_Claims\<close>: the properties of the client and a small
    platform on which they are evaluated.

  \<^bold>\<open>Conventions.\<close>  Each class is a record with the class's members; a subclass extends the record of
  its base class and virtual methods are arguments.  An operation takes the state and returns the
  result and the new state.  \<^const>\<open>None\<close> of an operation's result type is undefined behaviour of the
  C++ code (a null pointer dereferenced, a copy past the end of a block) or, where a theory says so,
  a loop that has not ended; the results the code itself reports are values inside.  Machine
  integers are words of their width.  Whether an allocation succeeds, the clock, random bytes,
  files, the network and the thread schedule are arguments.  nettle, GMP, gnutls and sqlite are
  arguments too, with what their documentation promises as named hypotheses (\<open>ctr_laws\<close>,
  \<open>hash_laws\<close>, \<open>gmp_laws\<close>, \<open>blob_laws\<close>, \<open>tx_laws\<close>), each of which has an instance.

  \<^bold>\<open>Fuel.\<close>  The reader recurses on a fuel of twice the length of its input plus two, which
  \<open>reader_fuel_suffices\<close> shows is never exhausted by the fuel rather than by the input.  The drivers
  that call \<open>process\<close> repeatedly take a bound on the number of calls; the theorems state the number
  that is enough (the parts of the stream, the parts of all streams together).  The chunked loops
  (\<open>aes_loop\<close>, \<open>file_load\<close>) and the loops over scripts are total.

  \<^bold>\<open>Limits that the theorems state.\<close>  Container depth below 64; encodings below \<open>2 ^ 32\<close> bytes;
  streams of fewer than 65536 packets, because the receiver computes the size of its buffer in 32
  bits; keys of objects without NUL bytes and not empty.

  \<^bold>\<open>Not modelled.\<close>  The Windows branches; what gnutls, the sockets and sqlite do inside (their
  answers are scripts or arguments), and the Yarrow generator; the file back ends of
  \<^verbatim>\<open>ubjr.c\<close> and \<^verbatim>\<open>ubjw.c\<close>, and the disassembly mode, which is compiled out; the text of
  floating-point numbers, which is an argument; the registration of the virtual tables with sqlite;
  the global set-up of gnutls; \<^verbatim>\<open>parseCert\<close>, which prints and is not called; functions whose bodies
  are commented out (\<^verbatim>\<open>createHitmap\<close>, \<^verbatim>\<open>Store::cleanup\<close>) or that answer a constant.  A call of the client is one step of the transition system, so the threads
  do not interleave inside \<^verbatim>\<open>connect\<close> or \<^verbatim>\<open>disconnect\<close>; resource senders have a list of their own
  beside the engine's, so the order in which packets of resources and requests alternate is open.
  The bundled third-party code is left out.
\<close>


definition demo_head :: val where
  "demo_head = val_of_obj [(''requestId'', val_int32 7), (''requestType'', val_int32 1100)]"

lemmas eval_value = demo_head_def eval_bytes

lemma demo_sendable: "sendable demo_head"
  by (simp add: eval_value)

lemma demo_request: "request_head demo_head"
  by (simp add: request_head_def demo_head_def val_of_obj_def val_toObject_def obj_hasField_def
      obj_get_def val_toInt_def val_int32_def)


text \<open>C2. Writing an object or array value and reading the bytes back gives the value
  itself.\<close>

theorem values_survive_the_wire:
  assumes "ser v" and "v_type v = UBJ_OBJECT \<or> v_type v = UBJ_ARRAY"
    and "v_depth v < CONTAINER_STACK_MAX" and "length (enc v) < 2 ^ 32"
  shows "\<exists>buf. writer_write v = Some (Some buf) \<and> mb_inv buf \<and> mb_bytes buf = enc v
    \<and> val_read_buffer val_null (Some buf) = Some (True, v)"
  using assms by (rule value_roundtrip)

theorem values_survive_the_wire_witness:
  "\<exists>buf. writer_write demo_head = Some (Some buf) \<and> mb_inv buf \<and> mb_bytes buf = enc demo_head
    \<and> val_read_buffer val_null (Some buf) = Some (True, demo_head)"
  using values_survive_the_wire [of demo_head] by (simp add: eval_value)

text \<open>C4. The stateful writer with its container stack emits exactly the bytes of the
  reference encoding and marks one element of the enclosing container as done.\<close>

theorem writer_implements_format:
  assumes "ser v" and "length (enc v) < 2 ^ 32" and "takes_value ctx h hs"
    and "Suc (length hs) + v_depth v \<le> CONTAINER_STACK_MAX"
  shows "write_value v ctx = Some (emitted ctx (value_done h # hs) (enc v))"
  using emitsD [OF write_value_enc [OF assms(1,2)] assms(3,4)] .

theorem writer_implements_format_witness:
  "write_value (val_int32 7) ubjw_open_callback =
    Some (emitted ubjw_open_callback [\<lparr>c_flags = 0, c_type = UBJ_MIXED, c_remaining = 0\<rparr>]
      [0x6C, 0, 0, 0, 7])"
  using writer_implements_format [of "val_int32 7" ubjw_open_callback
      "\<lparr>c_flags = 0, c_type = UBJ_MIXED, c_remaining = 0\<rparr>" "[]"]
  by (simp add: eval_value takes_value_def ubjw_open_callback_def has_flag_def value_done_def)

text \<open>C5. A buffer sent as a stream of packets is reassembled by a receiver to the same bytes,
  with exactly the number of packets announced.\<close>

theorem stream_reassembles:
  assumes "mb_inv b" and "mb_bytes b \<noteq> []" and "n_chunks (length (mb_bytes b)) < 65536"
  shows "\<exists>s ps s' r r' buf. bs_create mb_size True i ty (Some b) = Some (Some s)
    \<and> bs_run mb_read (n_chunks (length (mb_bytes b))) s = Some (ps, s') \<and> ss_status s' = SS_Completed
    \<and> length ps = n_chunks (length (mb_bytes b))
    \<and> br_create True (hd ps) None = Some (Some r) \<and> br_run r ps = Some (True, r')
    \<and> sr_status r' = SR_Completed \<and> br_buffer r' = Some buf
    \<and> take (unat (br_bytesReceived r')) (mb_bytes buf) = mb_bytes b"
proof -
  let ?c = "mb_bytes b" let ?n = "n_chunks (length (mb_bytes b))"
  let ?ps = "map (stream_packet i ty ?c) [0..<?n]"
  from mb.bs_run_stream [OF assms(1,2)] obtain s s' where
    s: "bs_create mb_size True i ty (Some b) = Some (Some s)"
      "bs_run mb_read ?n s = Some (?ps, s')" "ss_status s' = SS_Completed" by blast
  have n: "0 < ?n" using assms(2) by simp
  then have "?ps \<noteq> []" and hd: "hd ?ps = stream_packet i ty ?c 0"
    by (simp_all add: hd_map del: n_chunks_pos)
  from br_create_at [OF assms(2,3)] obtain r where
    r: "br_create True (stream_packet i ty ?c 0) None = Some (Some r)" "br_at i ty ?c 0 r" by blast
  from br_run_from [OF r(2) _ assms(3)] obtain r' where
    r': "br_run r ?ps = Some (True, r')" "br_at i ty ?c ?n r'" by auto
  have len: "length ?c \<le> ?n * BODY" "length ?c < 2 ^ 32"
    using n_chunks_covers mb_inv_length [OF assms(1)] unat_u32_less by simp_all
  from r'(2) len obtain buf where buf: "br_buffer r' = Some buf" "sr_status r' = SR_Completed"
      "br_bytesReceived r' = of_nat (length ?c)"
      "mb_bytes buf = ?c @ replicate (?n * BODY - length ?c) 0"
    by (auto simp: br_at_def min_def)
  have "take (unat (br_bytesReceived r')) (mb_bytes buf) = ?c"
    using buf(3,4) len(2) by simp
  with s r(1) r'(1) buf(1,2) hd show ?thesis by auto
qed

theorem stream_reassembles_witness:
  "\<exists>s ps s' r r' buf. bs_create mb_size True 5 1 (Some \<lparr>mb_data = Some [1, 2, 3], mb_size = 3\<rparr>)
        = Some (Some s)
    \<and> bs_run mb_read 1 s = Some (ps, s') \<and> ss_status s' = SS_Completed \<and> length ps = 1
    \<and> br_create True (hd ps) None = Some (Some r) \<and> br_run r ps = Some (True, r')
    \<and> sr_status r' = SR_Completed \<and> br_buffer r' = Some buf
    \<and> take (unat (br_bytesReceived r')) (mb_bytes buf) = [1, 2, 3]"
  using stream_reassembles [of "\<lparr>mb_data = Some [1, 2, 3], mb_size = 3\<rparr>" 5 1]
  by (simp add: mb_inv_def mb_bytes_def n_chunks_def)





text \<open>C14. Key lookup by sorting and binary search finds a value stored under the key whenever
  there is one, and only then.\<close>

theorem object_lookup_finds_exactly:
  "(case object_lookup kvs key of
      Some v \<Rightarrow> \<exists>k. (k, v) \<in> set kvs \<and> c_str k = c_str key
    | None \<Rightarrow> \<forall>(k, v) \<in> set kvs. c_str k \<noteq> c_str key)"
  using object_lookup_sound [of kvs key] object_lookup_complete [of kvs key]
  by (auto split: option.splits)

theorem object_lookup_finds_exactly_witness:
  "(case object_lookup [([98], 2), ([97], 1 :: nat)] [97] of
      Some v \<Rightarrow> \<exists>k. (k, v) \<in> set [([98], 2), ([97], 1)] \<and> c_str k = c_str [97]
    | None \<Rightarrow> \<forall>(k, v) \<in> set [([98], 2), ([97], 1 :: nat)]. c_str k \<noteq> c_str [97])"
  by (rule object_lookup_finds_exactly)

text \<open>C15. In every reachable engine the tables are keyed by the identifiers of their entries
  and sender handles are unique.\<close>

theorem reachable_engines_are_consistent:
  assumes "eng_reachable e"
  shows "eng_inv e"
  using assms by (rule eng_reachable_inv)

theorem reachable_engines_are_consistent_witness:
  "eng_inv (fst (eng_process 100 eng_new))"
  using reachable_engines_are_consistent [OF eng_reachable.step [OF eng_reachable.init eng_step.time]] .

text \<open>C16. Engine::process removes and reports exactly the requests that are due.\<close>

theorem timeouts_are_exact:
  assumes "eng_inv e"
  shows "eng_process now e =
    (e\<lparr>en_requests := filter (\<lambda>kr. \<not> rq_due now (snd kr)) (en_requests e)\<rparr>,
     map (\<lambda>kr. ProcessRequestTimeout (rq_setStatus RQ_Timeout (snd kr)))
       (filter (\<lambda>kr. rq_due now (snd kr)) (en_requests e)))"
  using assms by (rule eng_process_due)

definition demo_request_at :: "u64 \<Rightarrow> u32 \<Rightarrow> request" where
  "demo_request_at t i = \<lparr>rq_type = 1100, rq_status = RQ_WaitingForResponse, rq_id = i,
     rq_timeout = 20, rq_time = t, rq_args = [], rq_head = []\<rparr>"

theorem timeouts_are_exact_witness:
  "eng_process 121 (eng_new\<lparr>en_requests := [(1, demo_request_at 100 1), (2, demo_request_at 110 2)]\<rparr>) =
    (eng_new\<lparr>en_requests := [(2, demo_request_at 110 2)]\<rparr>,
     [ProcessRequestTimeout (rq_setStatus RQ_Timeout (demo_request_at 100 1))])"
  using timeouts_are_exact [of "eng_new\<lparr>en_requests := [(1, demo_request_at 100 1),
      (2, demo_request_at 110 2)]\<rparr>" 121]
  by (simp add: eng_inv_def eng_new_def demo_request_at_def rq_due_def)

text \<open>A packet of one stream never touches the receiver of another.\<close>

lemma streams_are_isolated:
  assumes "eng_reachable e" and "eng_processIncomingPacket ok p e = Some (res, e', calls)"
    and "i \<noteq> pkt_streamId p"
  shows "map_of (en_receivers e') i = map_of (en_receivers e) i"
proof -
  from assms(1) have "eng_inv e" by (rule eng_reachable_inv)
  then have "keyed sr_id (en_receivers e)" by (simp add: eng_inv_keyed)
  moreover from assms(2) obtain tab cb where
    "recv_packet ok p (en_receivers e) = Some (res, tab, cb)" "en_receivers e' = tab"
    by (auto simp: eng_processIncomingPacket_def split: bind_splits)
  ultimately show ?thesis using recv_packet_other assms(3) by blast
qed




text \<open>Posting a request either leaves the engine unchanged or stores the request and queues its sender.\<close>

lemma posting_is_all_or_nothing:
  "case eng_postRequest ok now (Some r) e of
     None \<Rightarrow> True
   | Some (False, _, e') \<Rightarrow> e' = e
   | Some (True, rq', e') \<Rightarrow>
       rq_id r \<noteq> 0 \<and> \<not> eng_requestPending (rq_type r) (rq_id r) e
       \<and> eng_requestPending (rq_type r) (rq_id r) e'
       \<and> length (en_senders e') = Suc (length (en_senders e))
       \<and> sl_owner (last (en_senders e')) = Some (rq_id r)
       \<and> ss_id (sl_sender (last (en_senders e'))) = rq_id r
       \<and> (\<exists>r1. rq' = Some r1 \<and> rq_status r1 = RQ_Outgoing
            \<and> map_of (en_requests e') = (map_of (en_requests e))(rq_id r \<mapsto> r1))"
proof (cases "eng_postRequest ok now (Some r) e")
  case (Some q)
  obtain res rq' e' where q: "q = (res, rq', e')" by (cases q)
  show ?thesis
  proof (cases res)
    case False
    with Some q eng_postRequest_failed show ?thesis by (simp split: option.splits)
  next
    case True
    with Some q have "eng_postRequest ok now (Some r) e = Some (True, rq', e')" by simp
    then obtain r1 s where r1: "rq' = Some r1" "rq_id r1 = rq_id r" "rq_type r1 = rq_type r"
        "rq_status r1 = RQ_Outgoing" "rq_id r \<noteq> 0" "\<not> eng_requestPending (rq_type r) (rq_id r) e"
        "us_create ok (rq_id r) ST_Request (val_of_obj (rq_head r1)) = Some (Some s)"
        "e' = e\<lparr>en_senders := en_senders (eng_disown (rq_id r) e) @
              [\<lparr>sl_handle = en_next e, sl_owner = Some (rq_id r), sl_sender = s\<rparr>],
            en_next := en_next e + 1, en_requests := omap_insert (rq_id r) r1 (en_requests e)\<rparr>"
      by (rule eng_postRequest_posted)
    have "(rq_id r, r1) \<in> set (en_requests e')"
      unfolding r1(8) by (simp add: map_of_SomeD map_of_omap_insert)
    then have "eng_requestPending (rq_type r) (rq_id r) e'"
      using r1(2,3,5) by (auto simp: eng_requestPending_def list_ex_iff)
    with True Some q r1 us_create_id [OF r1(7)] show ?thesis
      by (simp add: map_of_omap_insert eng_disown_def)
  qed
qed simp

text \<open>C20. A 32-bit integer, a 64-bit integer below 2^53 and a finite float come back from the
  conversion to double; 2^53 + 1 does not, and a NaN comes back quiet.\<close>

theorem number_conversions_are_exact:
  "(\<exists>d. val_toDouble (val_int32 i) = Some d \<and> val_toInt (val_double d) = Some i)
    \<and> (\<bar>sint l\<bar> < 2 ^ 53
        \<longrightarrow> (\<exists>d. val_toDouble (val_int64 l) = Some d \<and> val_toLong (val_double d) = Some l))
    \<and> val_toDouble (val_int64 (2 ^ 53 + 1)) = val_toDouble (val_int64 (2 ^ 53))
    \<and> (\<exists>d. val_toDouble (val_float w) = Some d \<and> val_toFloat (val_double d) = Some (f32_via_double w))
    \<and> (f32_decode w \<noteq> None \<longrightarrow> f32_via_double w = w)"
  using int32_through_double int64_through_double float_through_double f32_via_double_finite
    beyond_the_fraction by simp

theorem number_conversions_are_exact_witness:
  "(\<exists>d. val_toDouble (val_int32 (- 7)) = Some d \<and> val_toInt (val_double d) = Some (- 7))
    \<and> (\<exists>d. val_toDouble (val_int64 0x1FFFFFFFFFFFFF) = Some d
          \<and> val_toLong (val_double d) = Some 0x1FFFFFFFFFFFFF)
    \<and> (\<exists>d. val_toDouble (val_float 0x3F800000) = Some d \<and> val_toFloat (val_double d) = Some 0x3F800000)"
proof -
  have "\<bar>sint (0x1FFFFFFFFFFFFF :: u64)\<bar> < 2 ^ 53" by code_simp
  moreover have "f32_decode 0x3F800000 \<noteq> None" by (simp add: f32_decode_def)
  ultimately show ?thesis
    using number_conversions_are_exact [of "- 7" "0x1FFFFFFFFFFFFF" "0x3F800000"] by metis
qed


definition demo_cipher :: "unit store_cipher" where
  "demo_cipher = \<lparr>sc_crypt = ctr_mode (\<lambda>_ c. take 16 (c @ replicate 16 0)), sc_sched = \<lambda>_. (),
     sc_fresh = \<lparr>aes_key = (), aes_ctr = replicate 16 0\<rparr>,
     sc_key = Some \<lparr>mb_data = Some (replicate 32 7), mb_size = 32\<rparr>\<rparr>"

lemma demo_cipher_ok: "key_ok demo_cipher" "ctr_laws (sc_crypt demo_cipher)"
proof -
  have "16 \<le> length (take 16 (c @ replicate 16 (0 :: byte)))" for c :: bytes
    by (simp only: length_take length_append length_replicate)
  then have "ctr_laws (ctr_mode (\<lambda>(_ :: unit) c. take 16 (c @ replicate 16 0)))"
    by (intro ctr_mode_laws allI)
  then show "key_ok demo_cipher" "ctr_laws (sc_crypt demo_cipher)"
    by (simp_all add: key_ok_def demo_cipher_def)
qed





definition demo_memory :: secmem where
  "demo_memory = \<lparr>sm_data = Some (replicate 32 1), sm_lockedSize = 32, sm_mallocs = [(0, 8)]\<rparr>"

lemma demo_memory_reachable: "sm_reachable (Some demo_memory)"
proof -
  have "sm_setup 16 0 (\<lambda>_. True) (\<lambda>_. 1) 32 None
      = Some (True, Some (demo_memory\<lparr>sm_mallocs := []\<rparr>))"
    by (simp add: sm_setup_def sm_new_def demo_memory_def map_replicate_const takeWhile_eq_all_conv [THEN iffD2])
  then have r: "sm_reachable (Some (demo_memory\<lparr>sm_mallocs := []\<rparr>))"
    by (rule sm_reachable.step [OF sm_reachable.init sm_step.start])
  have a: "sm_malloc 8 (Some (demo_memory\<lparr>sm_mallocs := []\<rparr>)) = (Some 0, Some demo_memory)"
    by (simp add: sm_malloc_def sm_find_def sm_getOffset_def sm_store_def demo_memory_def)
  show ?thesis by (rule sm_reachable.step [OF r sm_step.alloc [OF _ a]]) simp
qed


text \<open>C23. Allocating locked memory takes the lowest offset at which the request fits between
  the blocks, and fails, changing nothing, only when it fits nowhere or nothing is
  locked.\<close>

theorem secure_allocation_is_first_fit:
  assumes "sm_inv m" and "n \<noteq> 0"
  shows "case sm_malloc n (Some m) of
      (Some x, Some m') \<Rightarrow> sm_fits (sm_mallocs m) (unat n) (unat x)
        \<and> unat x + unat n \<le> unat (sm_lockedSize m)
        \<and> (\<forall>y. sm_fits (sm_mallocs m) (unat n) y \<longrightarrow> unat x \<le> y)
        \<and> m' = m\<lparr>sm_mallocs := omap_insert x n (sm_mallocs m)\<rparr>
    | (None, Some m') \<Rightarrow> m' = m
        \<and> (sm_lockedSize m = 0 \<or> (\<forall>y. sm_fits (sm_mallocs m) (unat n) y \<longrightarrow> unat (sm_lockedSize m) < y + unat n))
    | (_, None) \<Rightarrow> False"
  using sm_getOffset_first_fit [OF assms]
  by (auto simp: sm_malloc_def sm_find_def sm_store_def split: option.splits)

theorem secure_allocation_is_first_fit_witness:
  "sm_inv demo_memory \<and> sm_malloc 8 (Some demo_memory) = (Some 8, Some (demo_memory\<lparr>sm_mallocs := [(0, 8), (8, 8)]\<rparr>))
    \<and> sm_fits (sm_mallocs demo_memory) 8 8"
proof -
  have i: "sm_inv demo_memory" using sm_reachable_inv [OF demo_memory_reachable] by simp
  have "sm_malloc 8 (Some demo_memory) = (Some 8, Some (demo_memory\<lparr>sm_mallocs := [(0, 8), (8, 8)]\<rparr>))"
    by (simp add: sm_malloc_def sm_find_def sm_getOffset_def sm_store_def demo_memory_def)
  with secure_allocation_is_first_fit [OF i, of 8] i show ?thesis by simp
qed

text \<open>C24. Freeing a block zeroes exactly its bytes, forgets exactly that block and keeps the
  allocator consistent.\<close>

theorem freed_memory_is_wiped:
  assumes "sm_inv m" and "map_of (sm_mallocs m) p = Some n" and "sm_data m = Some d"
  shows "\<exists>m' d'. sm_free p (Some m) = Some (True, Some m') \<and> sm_inv m' \<and> sm_data m' = Some d'
    \<and> map_of (sm_mallocs m') = (map_of (sm_mallocs m))(p := None)
    \<and> length d' = length d
    \<and> (\<forall>i < length d. d' ! i = (if unat p \<le> i \<and> i < unat p + unat n then 0 else d ! i))"
  by (rule sm_free_block [OF assms(1,2)]) (use assms(3) in auto)

theorem freed_memory_is_wiped_witness:
  "\<exists>m'. sm_free 0 (Some demo_memory) = Some (True, Some m') \<and> sm_inv m'
    \<and> sm_data m' = Some (replicate 8 0 @ replicate 24 1)
    \<and> map_of (sm_mallocs m') = (map_of (sm_mallocs demo_memory))(0 := None)"
proof -
  have "sm_inv demo_memory" using sm_reachable_inv [OF demo_memory_reachable] by simp
  from freed_memory_is_wiped [OF this, of 0 8 "replicate 32 1"] obtain m' d' where
    m: "sm_free 0 (Some demo_memory) = Some (True, Some m')" "sm_inv m'" "sm_data m' = Some d'"
      "map_of (sm_mallocs m') = (map_of (sm_mallocs demo_memory))(0 := None)" "length d' = 32"
    and d: "\<And>i. i < 32 \<Longrightarrow> d' ! i = (if i < 8 then 0 else 1)"
    by (auto simp: demo_memory_def)
  have "d' = replicate 8 0 @ replicate 24 1"
    using m(5) d by (intro nth_equalityI) (simp_all add: nth_append)
  with m show ?thesis by blast
qed

text \<open>C25. Counter-mode encryption in chunks into a buffer, decrypted in chunks through a
  callback, gives back the source, whatever its size.\<close>

theorem encryption_round_trip:
  assumes "ctr_laws crypt" and "length src = unat size'"
  shows "\<exists>a1 a2 c. aes_encrypt crypt True None src (Some (replicate (unat size') 0)) size' a ([] :: bytes) =
      Some (True, a1, Some c, [])
    \<and> length c = unat size'
    \<and> aes_decrypt crypt True (Some aes_record) c None size' a [] = Some (True, a2, None, src)"
  using assms by (rule aes_round_trip)

theorem encryption_round_trip_witness:
  "\<exists>a1 a2 c. aes_encrypt (sc_crypt demo_cipher) True None (replicate 3000 5) (Some (replicate 3000 0)) 3000
        (sc_fresh demo_cipher) ([] :: bytes) = Some (True, a1, Some c, [])
    \<and> length c = 3000
    \<and> aes_decrypt (sc_crypt demo_cipher) True (Some aes_record) c None 3000 (sc_fresh demo_cipher) []
        = Some (True, a2, None, replicate 3000 5)"
  using encryption_round_trip [OF demo_cipher_ok(2), of "replicate 3000 5" 3000 "sc_fresh demo_cipher"]
  by simp

text \<open>C26. A digest is the hash of the data wherever its context lives, with one exception:
  when the locked memory has no room for the context the answer is a digest of zeros. The
  allocator's blocks are left as they were.\<close>

theorem digest_does_not_depend_on_memory:
  assumes "length bs = unat n" and "n \<noteq> 0" and "length (pure_digest h t bs) = unat (digest_size t)"
    and "sm_inv m" and "h_ctxSize h t \<noteq> 0"
  shows "\<exists>r m'. digest_of h True (Some bs) n t (Some m) = Some (r, Some m')
    \<and> sm_mallocs m' = sm_mallocs m \<and> sm_inv m'
    \<and> r = Some \<lparr>mb_data = Some (if sm_lockedSize m \<noteq> 0 \<and> sm_find (h_ctxSize h t) m = None
             then replicate (unat (digest_size t)) 0 else pure_digest h t bs), mb_size = digest_size t\<rparr>"
proof (cases "sm_lockedSize m = 0")
  case True
  with digest_of_heap [of "Some m", OF _ assms(1-3)] show ?thesis
    using assms(4) by (simp add: sm_getLockedSize_def)
next
  case False
  show ?thesis
  proof (cases "sm_find (h_ctxSize h t) m")
    case None
    with digest_of_exhausted [OF False None assms(1,2)] False assms(4) show ?thesis by simp
  next
    case (Some p)
    with digest_of_locked [OF assms(4) Some assms(5,1-3)] False show ?thesis by auto
  qed
qed

lemma demo_hash_length: "length (pure_digest demo_hash t bs) = unat (digest_size t)"
  by (simp add: pure_digest_def demo_hash_def)

theorem digest_does_not_depend_on_memory_witness:
  "(\<exists>m'. digest_of demo_hash True (Some [1, 2, 3]) 3 DIGEST_SHA256 (Some demo_memory) =
      Some (Some \<lparr>mb_data = Some ([1, 2, 3] @ replicate 29 255), mb_size = 32\<rparr>, Some m'))
   \<and> (\<exists>m'. digest_of demo_hash True (Some [1, 2, 3]) 3 DIGEST_SHA256 (Some (demo_memory\<lparr>sm_mallocs := [(0, 32)]\<rparr>)) =
      Some (Some \<lparr>mb_data = Some (replicate 32 0), mb_size = 32\<rparr>, Some m'))"
proof
  have i: "sm_inv demo_memory" using sm_reachable_inv [OF demo_memory_reachable] by simp
  have "sm_find 8 demo_memory = Some 8"
    by (simp add: sm_find_def sm_getOffset_def demo_memory_def)
  moreover have "pure_digest demo_hash DIGEST_SHA256 [1, 2, 3] = [1, 2, 3] @ replicate 29 255"
    by (simp add: pure_digest_def demo_hash_def digest_size_def)
  ultimately show "\<exists>m'. digest_of demo_hash True (Some [1, 2, 3]) 3 DIGEST_SHA256 (Some demo_memory) =
      Some (Some \<lparr>mb_data = Some ([1, 2, 3] @ replicate 29 255), mb_size = 32\<rparr>, Some m')"
    using digest_does_not_depend_on_memory [of "[1, 2, 3]" 3 demo_hash DIGEST_SHA256 demo_memory] i demo_hash_length
    by (auto simp: demo_hash_def digest_size_def simp del: append.simps)
next
  let ?full = "demo_memory\<lparr>sm_mallocs := [(0, 32)]\<rparr>"
  have i: "sm_inv ?full" by (simp add: sm_inv_def demo_memory_def)
  have "sm_find 8 ?full = None" by (simp add: sm_find_def sm_getOffset_def demo_memory_def)
  then show "\<exists>m'. digest_of demo_hash True (Some [1, 2, 3]) 3 DIGEST_SHA256 (Some ?full) =
      Some (Some \<lparr>mb_data = Some (replicate 32 0), mb_size = 32\<rparr>, Some m')"
    using digest_does_not_depend_on_memory [of "[1, 2, 3]" 3 demo_hash DIGEST_SHA256 ?full] i demo_hash_length
    by (auto simp: demo_hash_def digest_size_def demo_memory_def)
qed

text \<open>Keys survive the conversion to objects of hexadecimal strings.\<close>

lemma keys_round_trip:
  assumes "gmp_laws g"
  shows "(\<exists>o'. publicKeyToUbj g pub = Some o' \<and> ubjToPublicKey fmt g o' = Some pub)
    \<and> (\<exists>o'. privateKeyToUbj g prv = Some o' \<and> ubjToPrivateKey fmt g o' = Some prv)"
  using publicKey_round_trip [OF assms] privateKey_round_trip [OF assms] by blast






text \<open>C10. Whatever bytes are read, every value in the tree has the payload its type says; so
  the conversions read nothing outside a buffer, and only the conversion of a floating-point
  number to an integer can be undefined.\<close>

theorem read_values_are_typed:
  assumes "val_read_buffer val_null b = Some (ok, v)" and "u \<in> set (nodes v)"
  shows "node_ok u \<and> val_toBool u \<noteq> None \<and> val_toStr fmt u \<noteq> None
    \<and> (val_toInt u = None \<or> val_toLong u = None \<longrightarrow> v_type u = UBJ_FLOAT32 \<or> v_type u = UBJ_FLOAT64)"
proof -
  from val_read_buffer_ok [OF assms(1) val_ok_null] assms(2) have "node_ok u"
    by (simp add: val_ok_def list_all_iff)
  then show ?thesis
    by (auto simp: conversions_defined(1,2) dest: conversions_defined(3,4))
qed

definition small_object :: bytes where
  "small_object = [0x7B, 0x69, 0x01, 0x61, 0x6C, 0, 0, 0, 7, 0x7D]"

theorem read_values_are_typed_witness:
  "val_read_buffer val_null (Some \<lparr>mb_data = Some small_object, mb_size = 10\<rparr>)
     = Some (True, val_of_obj [(''a'', val_int32 7)])
   \<and> node_ok (val_int32 7) \<and> val_toLong (val_int32 7) = Some 7"
proof -
  have r: "val_read_buffer val_null (Some \<lparr>mb_data = Some small_object, mb_size = 10\<rparr>)
     = Some (True, val_of_obj [(''a'', val_int32 7)])"
    by code_simp
  have "val_int32 7 \<in> set (nodes (val_of_obj [(''a'', val_int32 7)]))"
    by (simp add: val_of_obj_def val_int32_def)
  from read_values_are_typed [OF r this] r show ?thesis
    by (simp add: val_toLong_def val_int32_def)
qed





text \<open>C31. A caller that started to wait before the action was completed never gets stuck and
  returns after finitely many steps, spurious wake-ups or not.\<close>

theorem waiting_for_an_action_ends:
  assumes "a_in_time s" and "a_waiter s \<noteq> W_Returned"
  shows "(\<exists>s'. a_step True spurious s s')
    \<and> (\<forall>s'. a_step True spurious s s' \<longrightarrow> a_in_time s' \<and> a_measure s' < a_measure s)"
  using a_in_time_not_stuck [OF assms(1), of spurious] a_in_time_step [OF _ assms(1), of spurious] assms(2)
  by (auto simp: a_stuck_def a_step_iff)

theorem waiting_for_an_action_ends_witness:
  "\<exists>s'. a_step True False \<lparr>a_done = False, a_waiter = W_Waiting, a_exec = A_Execute\<rparr> s'"
  using waiting_for_an_action_ends [of "\<lparr>a_done = False, a_waiter = W_Waiting, a_exec = A_Execute\<rparr>" False]
  by (simp add: a_in_time_def)

text \<open>C32. A worker that is canceled anywhere but between its look at the flag and its wait
  ends under every interleaving of its steps with the notifications under way: the number of
  steps is bounded, and it never gets stuck before join returns.\<close>

theorem canceled_workers_end:
  assumes "h_reachable False s" and "\<not> h_between s" and "(h_settle ^^ n) (h_cancel s) s'"
  shows "n \<le> h_left (h_cancel s) \<and> (h_join False s' \<noteq> None \<or> (\<exists>s''. h_settle s' s''))"
  using assms by (rule canceled_worker_ends)

theorem canceled_workers_end_witness:
  "\<exists>s s' :: nat handler. h_reachable False s \<and> h_pc s = H_Check \<and> (h_settle ^^ 2) (h_cancel s) s'
    \<and> 2 \<le> h_left (h_cancel s) \<and> h_join False s' \<noteq> None"
proof -
  let ?s = "h_start False (h_new :: nat handler)"
  have r: "h_reachable False ?s"
    by (rule h_reachable.step [OF h_reachable.init h_step.start]) (simp add: h_new_def)
  have b: "\<not> h_between ?s" by (simp add: h_between_def h_start_def h_new_def)
  have "h_settle (h_cancel ?s) ((h_cancel ?s)\<lparr>h_pc := H_Exit\<rparr>)"
      "h_settle ((h_cancel ?s)\<lparr>h_pc := H_Exit\<rparr>) ((h_cancel ?s)\<lparr>h_running := False, h_pc := H_Dead\<rparr>)"
    by (rule h_settle.run; simp add: h_run_def h_cancel_def h_resume_def h_start_def h_new_def)+
  then have n: "(h_settle ^^ 2) (h_cancel ?s) ((h_cancel ?s)\<lparr>h_running := False, h_pc := H_Dead\<rparr>)"
    by (auto simp: eval_nat_numeral)
  have "h_pc ?s = H_Check" by (simp add: h_start_def h_new_def)
  moreover have "h_join False ((h_cancel ?s)\<lparr>h_running := False, h_pc := H_Dead\<rparr>) \<noteq> None"
    by (simp add: h_join_def)
  ultimately show ?thesis using canceled_workers_end [OF r b n] r n by blast
qed

text \<open>C33. Wake-ups can be lost: a handler can sleep on a non-empty queue with no notification
  under way, a caller can wait for an action that is already done, clear during processing
  makes the worker pop an empty queue, and a worker canceled while it is about to wait sleeps
  on, so that join never returns.\<close>

theorem wakeups_can_be_lost:
  "(\<exists>s :: nat handler. h_reachable False s \<and> h_run s = None \<and> h_queue s \<noteq> [] \<and> h_pushed s = 0 \<and> h_notify s = 0
      \<and> \<not> h_canceled s \<and> \<not> h_suspended s)
   \<and> (\<exists>s. a_reachable True False s \<and> a_done s \<and> a_stuck True False s)
   \<and> (\<exists>s :: nat handler. h_reachable True s \<and> h_pc s = H_UB)
   \<and> (\<exists>s s' :: nat handler. h_reachable False s \<and> (h_settle ^^ 4) (h_cancel s) s' \<and> h_join False s' = None
      \<and> (\<forall>s''. \<not> h_settle s' s''))"
proof -
  have "\<exists>s s' :: nat handler. h_reachable False s \<and> (h_settle ^^ 4) (h_cancel s) s' \<and> h_join False s' = None
      \<and> (\<forall>s''. \<not> h_settle s' s'')"
    using h_idle_reachable h_idle_hangs h_hanging_stuck by blast
  then show ?thesis
    using h_lost_reachable h_lost_stuck a_lost_reachable a_lost_stuck h_clear_reaches_ub
    by (auto simp: a_lost_def h_broken_def intro: exI [of _ h_lost])
qed

text \<open>C34. A full scan of a virtual table, after its id list was rebuilt, lists exactly the
  blobs of the table whose type field is the type of the virtual table, in the order of their
  rows and with their contents.\<close>

theorem virtual_table_lists_its_type:
  assumes "reads (vm_getBlob fmt sq sc (vm_blobTable m)) dbok content"
    and "texts_defined fmt content ''_$type''" and "lists_ids fmt sq (vm_blobTable m) dbok js"
    and "distinct (map cut js)" and "dbok db"
  shows "\<exists>m' db1 c db2. updateIds fmt sq sc m db = Some (m', db1)
    \<and> xFilter fmt sq sc 0 op argv m' db1 = Some (c, m', db2)
    \<and> vc_scan c = map (\<lambda>j. (Some (cut j), the (content (ucast (cut j)))))
        (filter (\<lambda>j. blob_key fmt content ''_$type'' j = Some (vm_type_key m)) js)"
  using full_scan [OF assms, of op argv] by (auto simp: typed_ids_def)

definition demo_object :: "(string \<times> val) list" where
  "demo_object = [(''_$type'', val_int32 5), (''name'', val_int32 1)]"

definition demo_row :: sql_row where
  "demo_row = map_of [(''mode'', SQ_Int 0), (''size'', SQ_Int (of_nat (length (enc (val_of_obj demo_object))))),
     (''data'', SQ_Blob (enc (val_of_obj demo_object)))]"

definition demo_content :: "u64 \<Rightarrow> (string \<times> val) list option" where
  "demo_content i = (if i = 1 then Some demo_object else None)"

definition demo_module :: vmodule where
  "demo_module = vm_new\<lparr>vm_type := 5, vm_blobTable := ''blobs'', vm_columns := [''name'']\<rparr>"

lemma demo_object_ser: "ser (val_of_obj demo_object)" "length (enc (val_of_obj demo_object)) = 28"
  by (simp_all add: eval_value demo_object_def)

lemma demo_reads:
  "reads (vm_getBlob fmt (mem_sqlite ''blobs'') demo_cipher ''blobs'') (\<lambda>db. mem_ok db \<and> mem_row db = mem_row [demo_row]) demo_content"
proof (rule reads_rows [OF mem_blob_laws demo_cipher_ok], intro allI)
  fix i :: u64
  have "row_reads demo_cipher demo_row (Some demo_object)"
    unfolding row_reads_def
  proof (intro exI conjI)
    show "blob_row demo_row False 28 (enc (val_of_obj demo_object))"
      by (simp add: blob_row_def demo_row_def column_of_def demo_object_ser)
    show "length (enc (val_of_obj demo_object)) = unat (28 :: u32)" by (simp add: demo_object_ser)
    show "obj_read [] (Some (plain_of demo_cipher demo_row False (enc (val_of_obj demo_object)))) 28
        = Some (True, demo_object)"
      using reader_read_enc [OF demo_object_ser(1), of "[]" "[]"] demo_object_ser(2)
      by (simp add: obj_read_def plain_of_def val_of_obj_def val_toObject_def)
  qed simp
  then show "case mem_row [demo_row] i of None \<Rightarrow> demo_content i = None | Some row \<Rightarrow> row_reads demo_cipher row (demo_content i)"
    by (auto simp: mem_row_def demo_content_def word_unat_eq_iff split: option.splits)
qed

lemma mem_row_length:
  assumes "mem_ok db" and "mem_row db = mem_row [row]"
  shows "length db = 1"
proof -
  have iff: "1 \<le> unat i \<and> unat i \<le> length db \<longleftrightarrow> unat i = 1" for i :: u64
    using fun_cong [OF assms(2), of i] by (auto simp: mem_row_def split: if_splits)
  have "unat (1 :: u64) = 1" and "unat (2 :: u64) = 2" by simp_all
  with iff [of 1] iff [of 2] show ?thesis by linarith
qed

lemma demo_lists_ids:
  "lists_ids (\<lambda>_ _. []) (mem_sqlite ''blobs'') ''blobs'' (\<lambda>db. mem_ok db \<and> mem_row db = mem_row [demo_row]) [1]"
proof -
  have f: "val_of_string ''id'' = Some (Val UBJ_STRING (Some (bytes_of_string ''id'')) None None)"
    by (simp add: val_of_string_def set_string_def bytes_of_string_def val_null_def word_gt_0)
  have w: "wherePart [] = ([], [])" by (subst wherePart_rec) (simp add: where_fields_def)
  have q: "query_sql fmt ''blobs'' [] [] [Val UBJ_STRING (Some (bytes_of_string ''id'')) None None] 0 0
      = Some (''SELECT id FROM blobs'', [])" for fmt
    by (simp add: query_sql_def fieldsToReturnPart_def where_clause_def orderPart_def val_toStr_def w)
  have "st_getBlobIds (\<lambda>_ _. []) (mem_sqlite ''blobs'') ''blobs'' db = Some ([val_int64 1], db)" if "length db = 1" for db
    using that
    by (simp add: st_getBlobIds_def f st_query_list_def q query_execute_def act_run_def mem_sqlite_def
        bindUbjToStmt_def mem_exec_def mem_texts mem_outcome_def cursor_rows_def rowToUbj_def row_step_def obj_get_def)
  then show ?thesis using mem_row_length by (fastforce simp: lists_ids_def)
qed

theorem virtual_table_lists_its_type_witness:
  "\<exists>m' db1 c db2. updateIds (\<lambda>_ _. []) (mem_sqlite ''blobs'') demo_cipher demo_module [demo_row] = Some (m', db1)
    \<and> xFilter (\<lambda>_ _. []) (mem_sqlite ''blobs'') demo_cipher 0 0 [] m' db1 = Some (c, m', db2)
    \<and> vc_scan c = [(Some 1, demo_object)]"
proof -
  have m: "vm_blobTable demo_module = ''blobs''" by (simp add: demo_module_def)
  have t: "texts_defined (\<lambda>_ _. []) demo_content ''_$type''"
    by (auto simp: texts_defined_def demo_content_def demo_object_def obj_get_def val_toStr_def val_int32_def
        val_toInt_def split: if_splits)
  have k: "blob_key (\<lambda>_ _. []) demo_content ''_$type'' 1 = Some (vm_type_key demo_module)"
    by (simp add: blob_key_def cut_def demo_content_def demo_object_def obj_hasField_def obj_get_def val_toStr_def
        val_int32_def val_toInt_def vm_type_key_def demo_module_def)
  from virtual_table_lists_its_type [of "\<lambda>_ _. []" "mem_sqlite ''blobs''" demo_cipher demo_module _ demo_content "[1]", unfolded m,
      OF demo_reads t demo_lists_ids] k show ?thesis
    by (simp add: mem_ok_def cut_def demo_content_def)
qed



text \<open>C36. A store created with a password is opened again by that password, with the same
  key.\<close>

theorem created_store_opens:
  assumes "blob_laws sq ''__main'' dbok rows" and "tables_ok fmt sq dbok rows"
    and "next_rowid sq ''__main'' dbok rows" and "dbok db" and "rows db = (\<lambda>_. None)"
    and "ctr_laws (sc_crypt sc)" and "\<forall>p s. length (kdf p s 32) = 32"
    and "length salt = 16" and "length key = 32"
    and "st_init fmt sq sc kdf False True True (Some salt) (Some key) password db = Some (Some s, db1)"
  shows "\<exists>s' db2. st_open fmt sq sc kdf True True password db1 = Some (Some s', db2)
    \<and> us_key s' = Some \<lparr>mb_data = Some key, mb_size = 32\<rparr> \<and> us_key s = us_key s'"
  using assms by (rule store_reopens)

definition demo_kdf :: "bytes \<Rightarrow> bytes \<Rightarrow> nat \<Rightarrow> bytes" where
  "demo_kdf p s n = take n (p @ s @ replicate n 0)"

lemma demo_init:
  "\<exists>s db1. st_init (\<lambda>_ _. []) (mem_sqlite ''__main'') demo_cipher demo_kdf False True True (Some (replicate 16 1))
    (Some (replicate 32 2)) [7] [] = Some (Some s, db1)"
proof -
  let ?kb = "\<lparr>mb_data = Some (replicate 32 2), mb_size = 32 :: u32\<rparr>"
  let ?pwd = "\<lparr>mb_data = Some (demo_kdf [7] (replicate 16 1) 32), mb_size = 32 :: u32\<rparr>"
  from internal_tables [OF mem_tables_ok, of "[]"] obtain d1 ix d2 where
    t: "createInternalBlobTables (mem_sqlite ''__main'') [] = (True, d1)"
      "createInternalVTables (\<lambda>_ _. []) (mem_sqlite ''__main'') True d1 = Some (True, ix, d2)" "mem_ok d2"
      "mem_row d2 = mem_row []" by (auto simp: mem_ok_def)
  have "length d2 = 0" using mem_rows_card [of d2] mem_rows_card [of "[]"] t(3,4) by (simp add: mem_ok_def)
  then have d2: "d2 = []" by simp
  from seal_unseal [OF demo_cipher_ok(2), of ?pwd "demo_kdf [7] (replicate 16 1) 32" ?kb "replicate 32 2"] obtain ck cp where
    c: "seal_key demo_cipher ?pwd ?kb = Some (ck, cp)" "length ck = 32" "length cp = 32"
    by (auto simp: demo_kdf_def)
  from mem_createBlob_object [OF _ version_object, of "[]" "\<lambda>_ _. []" "''__main''" "demo_cipher\<lparr>sc_key := None\<rparr>" None]
  obtain r1 where m: "st_createBlob_obj (\<lambda>_ _. []) (mem_sqlite ''__main'') (demo_cipher\<lparr>sc_key := None\<rparr>) None ''__main''
      [(''version'', val_int32 1)] False [] = Some (1, [r1])" by auto
  from mem_createBlob_object [OF _ root_object_ser [OF _ c(2,3)], of "[r1]" "replicate 16 1" "\<lambda>_ _. []" "''__main''"
      "demo_cipher\<lparr>sc_key := Some ?kb\<rparr>" None]
  obtain r2 where r: "st_createBlob_obj (\<lambda>_ _. []) (mem_sqlite ''__main'') (demo_cipher\<lparr>sc_key := Some ?kb\<rparr>) None ''__main''
      (root_object (replicate 16 1) ck cp) False [r1] = Some (2, [r1, r2])" by auto
  show ?thesis using t(1,2) d2 m c(1) r by (simp add: st_init_def Let_def)
qed

theorem created_store_opens_witness:
  "\<exists>s db1 s' db2. st_init (\<lambda>_ _. []) (mem_sqlite ''__main'') demo_cipher demo_kdf False True True (Some (replicate 16 1))
      (Some (replicate 32 2)) [7] [] = Some (Some s, db1)
    \<and> st_open (\<lambda>_ _. []) (mem_sqlite ''__main'') demo_cipher demo_kdf True True [7] db1 = Some (Some s', db2)
    \<and> us_key s' = Some \<lparr>mb_data = Some (replicate 32 2), mb_size = 32\<rparr>"
proof -
  obtain s db1 where i: "st_init (\<lambda>_ _. []) (mem_sqlite ''__main'') demo_cipher demo_kdf False True True
      (Some (replicate 16 1)) (Some (replicate 32 2)) [7] [] = Some (Some s, db1)"
    using demo_init by blast
  have "\<forall>p s. length (demo_kdf p s 32) = 32"
    unfolding demo_kdf_def by (simp only: length_take length_append length_replicate) simp
  moreover have "mem_ok []" "mem_row [] = (\<lambda>_. None)" by (simp_all add: mem_ok_def mem_row_def fun_eq_iff)
  ultimately show ?thesis
    using created_store_opens [OF mem_blob_laws mem_tables_ok mem_next_rowid, of "[]" demo_cipher demo_kdf "replicate 16 1"
        "replicate 32 2" "[7]" s db1] demo_cipher_ok(2) i by auto
qed

text \<open>C37. A resource is sent as the packets of its ciphertext and a receiver with the same
  key and salt holds the resource's data when the last packet has come.\<close>

theorem resources_arrive:
  assumes "ctr_laws crypt" and "res_data r = Some m" and "mb_inv m" and "mb_bytes m \<noteq> []"
    and "n_chunks (length (mb_bytes m)) < 65536" and "res_id r = Some i"
    and "length salt = 16" and "32 \<le> length key"
    and "kb = \<lparr>mb_data = Some key, mb_size = 32\<rparr>" and "sb = \<lparr>mb_data = Some salt, mb_size = 16\<rparr>"
  shows "\<exists>s s' ps q q'. rs_create sched a0 True (Some r) (Some kb) (Some sb) = Some (Some s)
    \<and> rs_run crypt (n_chunks (length (mb_bytes m))) s = Some (ps, s') \<and> ss_status s' = SS_Completed
    \<and> ps = map (stream_packet i ST_Resource (cipher crypt (sched (take 32 key)) salt (mb_bytes m)))
             [0..<n_chunks (length (mb_bytes m))]
    \<and> rr_create sched a1 True (hd ps) (Some kb) (Some sb) = Some (Some q)
    \<and> rr_run crypt q ps = Some (True, q') \<and> sr_status q' = SR_Completed \<and> sr_id q' = i
    \<and> br_bytesReceived q' = mb_size m
    \<and> (\<exists>b. br_buffer q' = Some b \<and> take (unat (br_bytesReceived q')) (mb_bytes b) = mb_bytes m)"
  using resource_travels [OF assms(1-8)] unfolding assms(9,10) .

definition demo_resource :: resource where
  "demo_resource = \<lparr>res_obj = [(''id'', val_int32 9)], res_parts = 1,
     res_data = Some \<lparr>mb_data = Some [1, 2, 3], mb_size = 3\<rparr>\<rparr>"

theorem resources_arrive_witness:
  "\<exists>s s' ps q q'. rs_create (sc_sched demo_cipher) (sc_fresh demo_cipher) True (Some demo_resource)
        (Some \<lparr>mb_data = Some (replicate 32 7), mb_size = 32\<rparr>)
        (Some \<lparr>mb_data = Some (replicate 16 1), mb_size = 16\<rparr>) = Some (Some s)
    \<and> rs_run (sc_crypt demo_cipher) 1 s = Some (ps, s')
    \<and> rr_create (sc_sched demo_cipher) (sc_fresh demo_cipher) True (hd ps)
        (Some \<lparr>mb_data = Some (replicate 32 7), mb_size = 32\<rparr>)
        (Some \<lparr>mb_data = Some (replicate 16 1), mb_size = 16\<rparr>) = Some (Some q)
    \<and> rr_run (sc_crypt demo_cipher) q ps = Some (True, q') \<and> sr_id q' = 9
    \<and> (\<exists>b. br_buffer q' = Some b \<and> take 3 (mb_bytes b) = [1, 2, 3])"
proof -
  let ?m = "\<lparr>mb_data = Some [1, 2, 3], mb_size = 3\<rparr> :: membuf"
  have m: "mb_inv ?m" "mb_bytes ?m = [1, 2, 3]" by (simp_all add: mb_inv_def mb_bytes_def)
  have p: "mb_bytes ?m \<noteq> []" "n_chunks (length (mb_bytes ?m)) < 65536"
    "length (replicate 16 (1 :: byte)) = 16" "32 \<le> length (replicate 32 (7 :: byte))"
    by (simp_all add: m(2) n_chunks_def)
  have n: "n_chunks (length [1 :: byte, 2, 3]) = 1" "mb_size ?m = 3" by (simp_all add: n_chunks_def)
  have r: "res_data demo_resource = Some ?m" "res_id demo_resource = Some 9"
    by (simp_all add: demo_resource_def res_id_def obj_get_def val_toInt_def val_int32_def)
  let ?kb = "\<lparr>mb_data = Some (replicate 32 7), mb_size = 32\<rparr> :: membuf"
  let ?sb = "\<lparr>mb_data = Some (replicate 16 1), mb_size = 16\<rparr> :: membuf"
  obtain s s' ps q q' b where "rs_create (sc_sched demo_cipher) (sc_fresh demo_cipher) True
        (Some demo_resource) (Some ?kb) (Some ?sb) = Some (Some s)"
    "rs_run (sc_crypt demo_cipher) 1 s = Some (ps, s')"
    "rr_create (sc_sched demo_cipher) (sc_fresh demo_cipher) True (hd ps) (Some ?kb) (Some ?sb) = Some (Some q)"
    "rr_run (sc_crypt demo_cipher) q ps = Some (True, q')" "sr_id q' = 9" "br_bytesReceived q' = 3"
    "br_buffer q' = Some b" "take (unat (br_bytesReceived q')) (mb_bytes b) = [1, 2, 3]"
    using resources_arrive [OF demo_cipher_ok(2) r(1) m(1) p(1,2) r(2) p(3,4) refl refl,
        of "sc_sched demo_cipher" "sc_fresh demo_cipher" "sc_fresh demo_cipher"]
    unfolding n m(2) by blast
  moreover from calculation(6,8) have "take 3 (mb_bytes b) = [1, 2, 3]" by simp
  ultimately show ?thesis by blast
qed



text \<open>C39. Requests queued in one engine, written to the TLS session with any partial writes
  and read from it with any partial reads that move enough bytes, are each dispatched once by
  the other engine.\<close>

theorem requests_cross_the_line:
  assumes "\<forall>(i, v) \<in> set ms. i \<noteq> 0 \<and> sendable v \<and> request_head v" and "distinct (map fst ms)"
  shows "\<exists>e n e' ps. eng_add_all ms eng_new = Some e \<and> eng_drain True n e [] = Some (e', ps)
    \<and> en_senders e' = []
    \<and> (\<forall>ws rs. list_all send_ok ws \<and> list_all recv_ok rs
          \<and> length (concat (map packet_bytes ps)) \<le> send_moves ws
          \<and> length (concat (map packet_bytes ps)) \<le> recv_moves rs \<longrightarrow>
         (\<exists>line ws' qs calls. send_run ws ps = Some (line, ws')
            \<and> recv_run True (length ps) rs line = Some (qs, True, [])
            \<and> eng_receive_all True qs eng_new = Some (eng_new, calls)
            \<and> mset calls = mset (map (\<lambda>(i, v). ProcessIncomingRequest (val_toObject v)) ms)))"
  using assms by (rule network_transport)

lemma single_bytes:
  "list_all send_ok (replicate n (Send_Takes 1))" "send_moves (replicate n (Send_Takes 1)) = n"
  "list_all recv_ok (replicate n (Recv_Gives 1))" "recv_moves (replicate n (Recv_Gives 1)) = n"
  by (induction n) simp_all

theorem requests_cross_the_line_witness:
  "\<exists>e n e' ps line ws' qs. eng_add_all [(7, demo_head)] eng_new = Some e
    \<and> eng_drain True n e [] = Some (e', ps)
    \<and> send_run (replicate (length (concat (map packet_bytes ps))) (Send_Takes 1)) ps = Some (line, ws')
    \<and> recv_run True (length ps) (replicate (length (concat (map packet_bytes ps))) (Recv_Gives 1)) line
        = Some (qs, True, [])
    \<and> eng_receive_all True qs eng_new =
        Some (eng_new, [ProcessIncomingRequest (val_toObject demo_head)])"
proof -
  have ms: "\<forall>(i, v) \<in> set [(7 :: u32, demo_head)]. i \<noteq> 0 \<and> sendable v \<and> request_head v"
    using demo_sendable demo_request by simp
  have one: "distinct (map fst [(7 :: u32, demo_head)])" by simp
  obtain e n e' ps where
    e: "eng_add_all [(7, demo_head)] eng_new = Some e" "eng_drain True n e [] = Some (e', ps)"
    and run: "\<forall>ws rs. list_all send_ok ws \<and> list_all recv_ok rs
          \<and> length (concat (map packet_bytes ps)) \<le> send_moves ws
          \<and> length (concat (map packet_bytes ps)) \<le> recv_moves rs \<longrightarrow>
         (\<exists>line ws' qs calls. send_run ws ps = Some (line, ws')
            \<and> recv_run True (length ps) rs line = Some (qs, True, [])
            \<and> eng_receive_all True qs eng_new = Some (eng_new, calls)
            \<and> mset calls = mset (map (\<lambda>(i, v). ProcessIncomingRequest (val_toObject v)) [(7 :: u32, demo_head)]))"
    using requests_cross_the_line [OF ms one] by blast
  let ?L = "length (concat (map packet_bytes ps))"
  obtain line ws' qs calls where
    r: "send_run (replicate ?L (Send_Takes 1)) ps = Some (line, ws')"
      "recv_run True (length ps) (replicate ?L (Recv_Gives 1)) line = Some (qs, True, [])"
      "eng_receive_all True qs eng_new = Some (eng_new, calls)"
      "mset calls = mset (map (\<lambda>(i, v). ProcessIncomingRequest (val_toObject v)) [(7 :: u32, demo_head)])"
    using run [rule_format, of "replicate ?L (Send_Takes 1)" "replicate ?L (Recv_Gives 1)"] single_bytes by auto
  from r(4) have "calls = [ProcessIncomingRequest (val_toObject demo_head)]" by simp
  with e r(1-3) show ?thesis by blast
qed

text \<open>C40. A fatal failure inside the body of a packet is taken for a packet with a body of
  zeros, and receiving from a connection the peer has closed never returns.\<close>

theorem transport_failures_go_unnoticed:
  assumes "0 < h_bodySize h" and "h_bodySize h \<le> MAX_PACKET_BODY"
  shows "recv_run True 1 [Recv_Gives HEAD_SIZE, Recv_Fatal] (head_bytes h @ rest) =
      Some ([\<lparr>p_head = h, p_body = Some \<lparr>mb_data = Some (replicate (unat (h_bodySize h)) 0),
                                        mb_size = h_bodySize h\<rparr>\<rparr>], True, rest)
    \<and> recv_packet_wire True (replicate k (Recv_Gives n)) [] = None"
proof
  show "recv_run True 1 [Recv_Gives HEAD_SIZE, Recv_Fatal] (head_bytes h @ rest) =
      Some ([\<lparr>p_head = h, p_body = Some \<lparr>mb_data = Some (replicate (unat (h_bodySize h)) 0),
                                        mb_size = h_bodySize h\<rparr>\<rparr>], True, rest)"
    unfolding One_nat_def recv_run.simps recv_truncated [OF assms] using u32_positive [of 23] by simp
  show "recv_packet_wire True (replicate k (Recv_Gives n)) [] = None"
    using recv_closed_spins [of "[]" HEAD_SIZE k n] by (simp add: recv_packet_wire_def cl_recv_def HEAD_SIZE_def)
qed

theorem transport_failures_go_unnoticed_witness:
  "recv_run True 1 [Recv_Gives HEAD_SIZE, Recv_Fatal]
      (head_bytes (p_head (stream_packet 5 ST_Request [1, 2, 3] 0)) @ []) =
    Some ([\<lparr>p_head = p_head (stream_packet 5 ST_Request [1, 2, 3] 0),
            p_body = Some \<lparr>mb_data = Some [0, 0, 0], mb_size = 3\<rparr>\<rparr>], True, [])"
proof -
  have n: "h_bodySize (p_head (stream_packet 5 ST_Request [1, 2, 3] 0)) = 3"
    by (simp add: stream_packet_def length_chunk)
  have "unat (3 :: u32) = 3" by simp
  then have "replicate (unat (3 :: u32)) (0 :: byte) = [0, 0, 0]" by (simp only: numeral_3_eq_3 replicate.simps)
  then show ?thesis
    using transport_failures_go_unnoticed [of "p_head (stream_packet 5 ST_Request [1, 2, 3] 0)" "[]" 0 0]
    unfolding n by (simp add: MAX_PACKET_BODY_def)
qed

end
